(* ===== verification/Prelude.thy ===== *)
theory Prelude
  imports Main "HOL-Library.Sublist" "HOL-Library.Multiset"
begin

text \<open>
  What every component shares: the JavaScript string and array operations the sources
  call (\<open>indexOf\<close>, \<open>slice\<close>, \<open>split\<close>, \<open>join\<close>, \<open>splice\<close>, \<open>toLowerCase\<close>, the global
  one-character \<open>replace\<close>), the lemmas about them, and the collections of simplification
  rules that the component theories fill and use.  Strings are lists of characters, so
  a source string is read as its code units; the identifiers, URLs, class names and
  cookies these programs handle are ASCII.
\<close>

named_theorems js_string \<open>facts about the JavaScript string operations\<close>
named_theorems wf_intros \<open>preservation of the component invariants\<close>

section \<open>Strings\<close>

fun index_of_from :: "string \<Rightarrow> string \<Rightarrow> nat \<Rightarrow> int" where
  "index_of_from sub [] i = (if sub = [] then int i else -1)"
| "index_of_from sub (c # s) i =
     (if prefix sub (c # s) then int i else index_of_from sub s (Suc i))"

definition js_index_of :: "string \<Rightarrow> string \<Rightarrow> int" where
  "js_index_of s sub = index_of_from sub s 0"

definition js_last_index_of_char :: "string \<Rightarrow> char \<Rightarrow> int" where
  "js_last_index_of_char s c = int (length s) - 1 - int (length (takeWhile (\<lambda>x. x \<noteq> c) (rev s)))"

definition js_clamp :: "int \<Rightarrow> nat \<Rightarrow> nat" where
  "js_clamp i n = (if i < 0 then nat (int n + i) else min (nat i) n)"

definition js_slice :: "string \<Rightarrow> int \<Rightarrow> int \<Rightarrow> string" where
  "js_slice s b e =
     (let n = length s; from = js_clamp b n; upto = js_clamp e n
      in take (upto - from) (drop from s))"

definition js_slice_from :: "string \<Rightarrow> int \<Rightarrow> string" where
  "js_slice_from s b = drop (js_clamp b (length s)) s"

fun js_split :: "char \<Rightarrow> string \<Rightarrow> string list" where
  "js_split c [] = [[]]"
| "js_split c (x # xs) =
     (if x = c then [] # js_split c xs
      else (case js_split c xs of [] \<Rightarrow> [[x]] | y # ys \<Rightarrow> (x # y) # ys))"

fun js_join :: "string \<Rightarrow> string list \<Rightarrow> string" where
  "js_join sep [] = []"
| "js_join sep [x] = x"
| "js_join sep (x # y # zs) = x @ sep @ js_join sep (y # zs)"

definition js_replace_char :: "char \<Rightarrow> string \<Rightarrow> string \<Rightarrow> string" where
  "js_replace_char c t s = concat (map (\<lambda>x. if x = c then t else [x]) s)"

definition to_lower :: "char \<Rightarrow> char" where
  "to_lower c = (let n = (of_char c :: nat) in if 65 \<le> n \<and> n \<le> 90 then char_of (n + 32) else c)"

definition is_lower :: "char \<Rightarrow> bool" where
  "is_lower c = (let n = (of_char c :: nat) in 97 \<le> n \<and> n \<le> 122)"

definition is_upper :: "char \<Rightarrow> bool" where
  "is_upper c = (let n = (of_char c :: nat) in 65 \<le> n \<and> n \<le> 90)"

definition js_lower :: "string \<Rightarrow> string" where
  "js_lower s = map to_lower s"

definition is_space :: "char \<Rightarrow> bool" where
  "is_space c = (let n = (of_char c :: nat) in n = 32 \<or> (9 \<le> n \<and> n \<le> 13) \<or> n = 160)"

definition js_trim :: "string \<Rightarrow> string" where
  "js_trim s = rev (dropWhile is_space (rev (dropWhile is_space s)))"

section \<open>Arrays\<close>

definition splice_in :: "nat \<Rightarrow> 'a \<Rightarrow> 'a list \<Rightarrow> 'a list" where
  "splice_in i x xs = take i xs @ [x] @ drop i xs"

definition splice_out :: "nat \<Rightarrow> 'a list \<Rightarrow> 'a list" where
  "splice_out i xs = take i xs @ drop (Suc i) xs"

section \<open>Facts about the string operations\<close>

lemma js_split_nonempty [simp]: "js_split c s \<noteq> []"
  by (induction s) (auto split: list.splits)

lemma js_join_Cons [simp]: "ys \<noteq> [] \<Longrightarrow> js_join sep (x # ys) = x @ sep @ js_join sep ys"
  by (cases ys) auto

lemma js_join_split [js_string]: "js_join [c] (js_split c s) = s"
proof (induction s)
  case (Cons x s)
  obtain y ys where sp: "js_split c s = y # ys"
    using js_split_nonempty by (metis neq_Nil_conv)
  show ?case
    using Cons sp by (cases ys) auto
qed simp

lemma js_split_single [js_string]: "c \<notin> set s \<Longrightarrow> js_split c s = [s]"
  by (induction s) auto

lemma js_split_append [js_string]:
  "c \<notin> set a \<Longrightarrow> js_split c (a @ c # b) = a # js_split c b"
  by (induction a) auto

lemma index_of_from_char:
  "index_of_from [c] s i = (if c \<in> set s then int (i + length (takeWhile (\<lambda>x. x \<noteq> c) s)) else -1)"
  by (induction s arbitrary: i) (auto simp: prefix_Cons)

lemma js_index_of_char [js_string]:
  "js_index_of s [c] = (if c \<in> set s then int (length (takeWhile (\<lambda>x. x \<noteq> c) s)) else -1)"
  by (simp add: js_index_of_def index_of_from_char)

lemma index_of_from_ge: "index_of_from sub s i = -1 \<or> int i \<le> index_of_from sub s i"
proof (induction s arbitrary: i)
  case (Cons c s)
  from Cons [of "Suc i"] show ?case by auto
qed simp

lemma index_of_from_neg_iff: "index_of_from sub s i < 0 \<longleftrightarrow> \<not> sublist sub s"
proof (induction s arbitrary: i)
  case Nil
  then show ?case by simp
next
  case (Cons c s)
  show ?case
    using Cons [of "Suc i"] by (auto simp: sublist_Cons_right)
qed

lemma js_index_of_neg_iff [js_string]: "js_index_of s sub < 0 \<longleftrightarrow> \<not> sublist sub s"
  by (simp add: js_index_of_def index_of_from_neg_iff)

lemma js_index_of_0_iff [js_string]: "js_index_of s sub = 0 \<longleftrightarrow> prefix sub s"
proof (cases s)
  case Nil
  then show ?thesis by (simp add: js_index_of_def)
next
  case (Cons c t)
  have "index_of_from sub t (Suc 0) \<noteq> 0"
    using index_of_from_ge [of sub t "Suc 0"] by auto
  with Cons show ?thesis by (auto simp: js_index_of_def)
qed

lemma js_replace_char_set [js_string]: "c \<notin> set t \<Longrightarrow> c \<notin> set (js_replace_char c t s)"
  by (auto simp: js_replace_char_def)

lemma js_replace_char_id [js_string]: "c \<notin> set s \<Longrightarrow> js_replace_char c t s = s"
  by (induction s) (auto simp: js_replace_char_def)

lemma js_replace_char_append [simp]:
  "js_replace_char c t (a @ b) = js_replace_char c t a @ js_replace_char c t b"
  by (simp add: js_replace_char_def)

lemma js_replace_char_inverse [js_string]:
  "d \<notin> set s \<Longrightarrow> js_replace_char d [c] (js_replace_char c [d] s) = s"
  by (induction s) (auto simp: js_replace_char_def)

lemma js_slice_from_nonneg [js_string]: "js_slice_from s (int n) = drop n s"
  by (simp add: js_slice_from_def js_clamp_def min_def)

lemma js_slice_prefix [js_string]: "js_slice s 0 (int n) = take n s"
  by (simp add: js_slice_def js_clamp_def min_def Let_def)

section \<open>Facts about array splicing\<close>

lemma length_splice_in [simp]: "length (splice_in i x xs) = Suc (length xs)"
  by (simp add: splice_in_def)

lemma concat_splice_in_Nil [simp]: "concat (splice_in i [] xs) = concat xs"
  by (simp add: splice_in_def) (metis append_take_drop_id concat_append)

end
