(* ===== verification/Scheduler.thy ===== *)
theory Scheduler
  imports Prelude
begin

text \<open>
  The work scheduler of \<open>lib/scheduler.js\<close>: labels kept by priority, one queue of work
  packages per label, and one browser timer that runs a package per callback.  The
  record holds the two parallel arrays, whether the field \<open>timeout\<close> is defined, and how
  many callbacks the browser has armed.  A JavaScript exception is an error value.
  The lemmas show the priority order, the refinement to one list of pending packages,
  the agreement of \<open>timeout\<close> with the armed callback over every run, and what happens
  when a package throws.
\<close>

section \<open>State\<close>

record sched_label =
  lname :: string
  lprio :: int

record 'w scheduler =
  labels :: "sched_label list"
  queues :: "'w list list"
  timeout_set :: bool
  armed :: nat

datatype sched_error = ReferenceError | TypeError | NoSuchQueue

definition new_scheduler :: "'w scheduler" where
  "new_scheduler = \<lparr>labels = [], queues = [], timeout_set = False, armed = 0\<rparr>"

section \<open>Operations\<close>

text \<open>
  The loops that look for a position.  \<open>addLabel\<close> and \<open>clearLabel\<close> bound the index by
  the number of queues and read \<open>labels[idx]\<close>, which throws where the label is missing.
\<close>

fun prio_index :: "sched_label list \<Rightarrow> 'w list list \<Rightarrow> int \<Rightarrow> sched_error + nat" where
  "prio_index ls [] p = Inr 0"
| "prio_index [] (q # qs) p = Inl TypeError"
| "prio_index (l # ls) (q # qs) p =
     (if lprio l \<le> p then map_sum id Suc (prio_index ls qs p) else Inr 0)"

fun name_index :: "sched_label list \<Rightarrow> string \<Rightarrow> nat" where
  "name_index [] n = 0"
| "name_index (l # ls) n = (if lname l \<noteq> n then Suc (name_index ls n) else 0)"

fun name_index_queues :: "sched_label list \<Rightarrow> 'w list list \<Rightarrow> string \<Rightarrow> sched_error + nat" where
  "name_index_queues ls [] n = Inr 0"
| "name_index_queues [] (q # qs) n = Inl TypeError"
| "name_index_queues (l # ls) (q # qs) n =
     (if lname l \<noteq> n then map_sum id Suc (name_index_queues ls qs n) else Inr 0)"

definition addLabel :: "'w scheduler \<Rightarrow> string \<Rightarrow> int \<Rightarrow> sched_error + 'w scheduler" where
  "addLabel s n p =
     (case prio_index (labels s) (queues s) p of
        Inl e \<Rightarrow> Inl e
      | Inr idx \<Rightarrow> Inr (s\<lparr>labels := splice_in idx \<lparr>lname = n, lprio = p\<rparr> (labels s),
                         queues := splice_in idx [] (queues s)\<rparr>))"

text \<open>
  \<open>clearLabel\<close> tests \<open>labels[i].name\<close> where no \<open>i\<close> is declared: the test is reached when
  the loop stopped inside the array, and evaluating \<open>i\<close> throws.
\<close>

definition clearLabel :: "'w scheduler \<Rightarrow> string \<Rightarrow> sched_error + 'w scheduler" where
  "clearLabel s n =
     (case name_index_queues (labels s) (queues s) n of
        Inl e \<Rightarrow> Inl e
      | Inr idx \<Rightarrow> if idx < length (queues s) then Inl ReferenceError else Inr s)"

fun first_nonempty :: "'w list list \<Rightarrow> nat" where
  "first_nonempty [] = 0"
| "first_nonempty (q # qs) = (if q = [] then Suc (first_nonempty qs) else 0)"

definition nextWork :: "'w scheduler \<Rightarrow> 'w option \<times> 'w scheduler" where
  "nextWork s =
     (let idx = first_nonempty (queues s)
      in if idx < length (queues s) \<and> queues s ! idx \<noteq> []
         then (Some (hd (queues s ! idx)),
               s\<lparr>queues := (queues s)[idx := tl (queues s ! idx)]\<rparr>)
         else (None, s))"

definition doWork :: "'w scheduler \<Rightarrow> 'w scheduler" where
  "doWork s = s\<lparr>timeout_set := True, armed := Suc (armed s)\<rparr>"

definition add :: "'w scheduler \<Rightarrow> string \<Rightarrow> 'w \<Rightarrow> sched_error + 'w scheduler" where
  "add s n w =
     (let idx = name_index (labels s) n
      in if idx < length (queues s)
         then (if idx < length (labels s)
               then (let s' = s\<lparr>queues := (queues s)[idx := queues s ! idx @ [w]]\<rparr>
                     in Inr (if timeout_set s' then s' else doWork s'))
               else Inl TypeError)
         else Inl NoSuchQueue)"

definition clear :: "'w scheduler \<Rightarrow> string \<Rightarrow> sched_error + 'w scheduler" where
  "clear s n =
     (let idx = name_index (labels s) n
      in if idx < length (queues s)
         then (if idx < length (labels s) then Inr (s\<lparr>queues := (queues s)[idx := []]\<rparr>)
               else Inl TypeError)
         else Inr s)"

text \<open>
  The timer callback.  \<open>exec w (g, s)\<close> is what the package \<open>w\<close> does to the page \<open>g\<close> and
  the scheduler, and whether it throws; a throw leaves the callback before \<open>doWork\<close>.
\<close>

definition on_timer ::
  "('w \<Rightarrow> 'g \<times> 'w scheduler \<Rightarrow> bool \<times> 'g \<times> 'w scheduler) \<Rightarrow> 'g \<times> 'w scheduler \<Rightarrow> 'g \<times> 'w scheduler" where
  "on_timer exec gs =
     (case nextWork ((snd gs)\<lparr>armed := armed (snd gs) - 1\<rparr>) of
        (None, s) \<Rightarrow> (fst gs, s\<lparr>timeout_set := False\<rparr>)
      | (Some w, s) \<Rightarrow>
          (case exec w (fst gs, s) of
             (threw, g', s') \<Rightarrow> (g', if threw then s' else doWork s')))"

fun run_timer ::
  "nat \<Rightarrow> ('w \<Rightarrow> 'g \<times> 'w scheduler \<Rightarrow> bool \<times> 'g \<times> 'w scheduler) \<Rightarrow> 'g \<times> 'w scheduler \<Rightarrow> 'g \<times> 'w scheduler" where
  "run_timer 0 exec gs = gs"
| "run_timer (Suc k) exec gs =
     (if armed (snd gs) = 0 then gs else run_timer k exec (on_timer exec gs))"

section \<open>Well-formedness and the list of pending packages\<close>

definition sched_wf :: "'w scheduler \<Rightarrow> bool" where
  "sched_wf s \<longleftrightarrow> length (labels s) = length (queues s) \<and> sorted (map lprio (labels s))"

definition pending :: "'w scheduler \<Rightarrow> 'w list" where
  "pending s = concat (queues s)"

definition queue_of :: "'w scheduler \<Rightarrow> string \<Rightarrow> 'w list" where
  "queue_of s n =
     (let idx = name_index (labels s) n in if idx < length (queues s) then queues s ! idx else [])"

definition has_label :: "'w scheduler \<Rightarrow> string \<Rightarrow> bool" where
  "has_label s n \<longleftrightarrow> n \<in> lname ` set (labels s)"

lemma name_index_bound: "name_index ls n < length ls \<longleftrightarrow> n \<in> lname ` set ls"
  by (induction ls) auto

lemma name_index_nth: "name_index ls n < length ls \<Longrightarrow> lname (ls ! name_index ls n) = n"
  by (induction ls) (auto split: if_splits)

lemma name_index_inj:
  "name_index ls n = name_index ls m \<Longrightarrow> name_index ls n < length ls \<Longrightarrow> n = m"
  by (metis name_index_nth)

lemma name_index_queues_eq:
  "length ls = length qs \<Longrightarrow> name_index_queues ls qs n = Inr (name_index ls n)"
  by (induction ls qs n rule: name_index_queues.induct) auto

lemma prio_index_eq:
  "length ls = length qs \<Longrightarrow>
   prio_index ls qs p = Inr (length (takeWhile (\<lambda>l. lprio l \<le> p) ls))"
  by (induction ls qs p rule: prio_index.induct) auto

lemma sched_wf_new [wf_intros]: "sched_wf new_scheduler"
  by (simp add: sched_wf_def new_scheduler_def)

lemma sorted_splice_takeWhile:
  assumes "sorted (map lprio ls)"
  shows "sorted (map lprio (splice_in (length (takeWhile (\<lambda>l. lprio l \<le> p) ls)) \<lparr>lname = n, lprio = p\<rparr> ls))"
proof -
  let ?P = "\<lambda>l. lprio l \<le> p"
  have td: "take (length (takeWhile ?P ls)) ls = takeWhile ?P ls"
    "drop (length (takeWhile ?P ls)) ls = dropWhile ?P ls"
    by (rule takeWhile_eq_take [symmetric], rule dropWhile_eq_drop [symmetric])
  have split: "sorted (map lprio (takeWhile ?P ls @ dropWhile ?P ls))"
    using assms by simp
  have high: "p \<le> lprio l" if "l \<in> set (dropWhile ?P ls)" for l
  proof -
    have ne: "dropWhile ?P ls \<noteq> []" using that by (metis empty_iff list.set(1))
    then have "\<not> ?P (hd (dropWhile ?P ls))" by (rule hd_dropWhile)
    moreover have "lprio (hd (dropWhile ?P ls)) \<le> lprio l"
      using that split ne by (cases "dropWhile ?P ls") (auto simp: sorted_append)
    ultimately show ?thesis by simp
  qed
  have low: "lprio l \<le> p" if "l \<in> set (takeWhile ?P ls)" for l
    using that by (rule set_takeWhileD [THEN conjunct2])
  have eq: "splice_in (length (takeWhile ?P ls)) \<lparr>lname = n, lprio = p\<rparr> ls
      = takeWhile ?P ls @ \<lparr>lname = n, lprio = p\<rparr> # dropWhile ?P ls"
    by (simp add: splice_in_def td)
  from split have s1: "sorted (map lprio (takeWhile ?P ls))" "sorted (map lprio (dropWhile ?P ls))"
    unfolding map_append sorted_append by blast+
  show ?thesis
    unfolding eq map_append sorted_append using s1 low high by force
qed

text \<open>Adding a label always succeeds, keeps the order and queues no work.\<close>

lemma addLabel_ok [wf_intros]:
  assumes "sched_wf s"
  shows "\<exists>s'. addLabel s n p = Inr s' \<and> sched_wf s' \<and> pending s' = pending s
           \<and> timeout_set s' = timeout_set s \<and> armed s' = armed s
           \<and> mset (labels s') = mset (labels s) + {#\<lparr>lname = n, lprio = p\<rparr>#}"
proof -
  let ?i = "length (takeWhile (\<lambda>l. lprio l \<le> p) (labels s))"
  have "prio_index (labels s) (queues s) p = Inr ?i"
    using assms by (simp add: prio_index_eq sched_wf_def)
  moreover have "mset (splice_in ?i \<lparr>lname = n, lprio = p\<rparr> (labels s))
      = mset (labels s) + {#\<lparr>lname = n, lprio = p\<rparr>#}"
    unfolding splice_in_def by simp (metis append_take_drop_id mset_append)
  ultimately show ?thesis
    using assms sorted_splice_takeWhile [of "labels s" p n]
    by (simp add: addLabel_def sched_wf_def pending_def)
qed

text \<open>The queue positions of an update, and what they do to the list of pending packages.\<close>

lemma concat_list_update:
  "i < length qs \<Longrightarrow> concat (qs[i := q]) = concat (take i qs) @ q @ concat (drop (Suc i) qs)"
  by (simp add: upd_conv_take_nth_drop)

lemma concat_take_nth_drop:
  "i < length qs \<Longrightarrow> concat qs = concat (take i qs) @ qs ! i @ concat (drop (Suc i) qs)"
  by (metis concat_list_update list_update_id)

lemma first_nonempty_spec:
  "first_nonempty qs < length qs \<longleftrightarrow> concat qs \<noteq> []"
  "first_nonempty qs < length qs \<Longrightarrow> qs ! first_nonempty qs \<noteq> []"
  "concat (take (first_nonempty qs) qs) = []"
  by (induction qs) auto

text \<open>
  The refinement of the queues to one list: \<open>nextWork\<close> is \<open>hd\<close> and \<open>tl\<close> of the pending
  packages, which stand in priority order.
\<close>

lemma nextWork_pending:
  "fst (nextWork s) = (case pending s of [] \<Rightarrow> None | w # ws \<Rightarrow> Some w)"
  "pending (snd (nextWork s)) = tl (pending s)"
proof -
  let ?i = "first_nonempty (queues s)"
  show "fst (nextWork s) = (case pending s of [] \<Rightarrow> None | w # ws \<Rightarrow> Some w)"
  proof (cases "?i < length (queues s)")
    case True
    obtain w ws where w: "queues s ! ?i = w # ws"
      using first_nonempty_spec(2) [OF True] by (cases "queues s ! ?i") auto
    have "pending s = w # ws @ concat (drop (Suc ?i) (queues s))"
      using concat_take_nth_drop [OF True] w by (simp add: pending_def first_nonempty_spec)
    with True w show ?thesis by (simp add: nextWork_def Let_def)
  next
    case False
    then show ?thesis using first_nonempty_spec(1) [of "queues s"]
      by (simp add: nextWork_def pending_def del: concat_eq_Nil_conv)
  qed
  show "pending (snd (nextWork s)) = tl (pending s)"
  proof (cases "?i < length (queues s)")
    case True
    obtain w ws where w: "queues s ! ?i = w # ws"
      using first_nonempty_spec(2) [OF True] by (cases "queues s ! ?i") auto
    have "pending s = w # ws @ concat (drop (Suc ?i) (queues s))"
      using concat_take_nth_drop [OF True] w by (simp add: pending_def first_nonempty_spec)
    with True w show ?thesis
      by (simp add: nextWork_def Let_def pending_def concat_list_update first_nonempty_spec)
  next
    case False
    then show ?thesis using first_nonempty_spec(1) [of "queues s"]
      by (simp add: nextWork_def pending_def del: concat_eq_Nil_conv)
  qed
qed

lemma pending_frame [simp]:
  "pending (s\<lparr>armed := k\<rparr>) = pending s"
  "pending (s\<lparr>timeout_set := b\<rparr>) = pending s"
  by (simp_all add: pending_def)

lemma nextWork_frame [simp]:
  "labels (snd (nextWork s)) = labels s"
  "timeout_set (snd (nextWork s)) = timeout_set s"
  "armed (snd (nextWork s)) = armed s"
  "length (queues (snd (nextWork s))) = length (queues s)"
  by (simp_all add: nextWork_def Let_def)

lemma nextWork_wf [wf_intros]: "sched_wf s \<Longrightarrow> sched_wf (snd (nextWork s))"
  by (simp add: sched_wf_def)

lemma nextWork_cases:
  obtains (empty) "nextWork s = (None, s)" "pending s = []"
  | (pop) w s' where "nextWork s = (Some w, s')" "pending s = w # pending s'"
proof (cases "pending s")
  case Nil
  have "fst (nextWork s) = None" using nextWork_pending(1) [of s] Nil by simp
  then have "nextWork s = (None, s)" by (auto simp: nextWork_def Let_def split: if_splits)
  with Nil show ?thesis using empty by blast
next
  case (Cons w ws)
  have "nextWork s = (Some w, snd (nextWork s))" "pending s = w # pending (snd (nextWork s))"
    using nextWork_pending [of s] Cons by (simp_all add: prod_eq_iff)
  then show ?thesis using pop by blast
qed

text \<open>\<open>add\<close> and \<open>clear\<close> on a well-formed scheduler.\<close>

lemma add_unknown: "\<not> has_label s n \<Longrightarrow> sched_wf s \<Longrightarrow> add s n w = Inl NoSuchQueue"
  using name_index_bound [of "labels s" n]
  by (simp add: add_def has_label_def sched_wf_def Let_def)

lemma add_known:
  assumes "sched_wf s" "has_label s n"
  shows "\<exists>s'. add s n w = Inr s' \<and> sched_wf s' \<and> labels s' = labels s
    \<and> queue_of s' n = queue_of s n @ [w]
    \<and> (\<forall>m. m \<noteq> n \<longrightarrow> queue_of s' m = queue_of s m)
    \<and> timeout_set s' \<and> armed s' = (if timeout_set s then armed s else Suc (armed s))
    \<and> mset (pending s') = mset (pending s) + {#w#}"
proof -
  let ?i = "name_index (labels s) n"
  have i: "?i < length (queues s)" "?i < length (labels s)"
    using assms name_index_bound [of "labels s" n] by (auto simp: has_label_def sched_wf_def)
  have other: "?i \<noteq> name_index (labels s) m" if "m \<noteq> n" for m
    using name_index_inj [of "labels s" n m] i that by metis
  show ?thesis
    using assms i other concat_take_nth_drop [OF i(1)]
    by (auto simp: add_def Let_def sched_wf_def queue_of_def doWork_def pending_def concat_list_update)
qed

lemma clear_known:
  assumes "sched_wf s"
  shows "\<exists>s'. clear s n = Inr s' \<and> sched_wf s' \<and> labels s' = labels s
    \<and> queue_of s' n = [] \<and> (\<forall>m. m \<noteq> n \<longrightarrow> queue_of s' m = queue_of s m)
    \<and> timeout_set s' = timeout_set s \<and> armed s' = armed s"
proof -
  let ?i = "name_index (labels s) n"
  have "?i \<noteq> name_index (labels s) m" if "m \<noteq> n" "?i < length (labels s)" for m
    using name_index_inj [of "labels s" n m] that by metis
  then show ?thesis
    using assms by (auto simp: clear_def Let_def sched_wf_def queue_of_def)
qed

section \<open>The contract of a labelled queue\<close>

text \<open>
  What a client of the scheduler relies on when it queues work under a label: \<open>put\<close>
  appends to that label's packages only, \<open>wipe\<close> empties them only.
\<close>

locale label_queue =
  fixes invar :: "'s \<Rightarrow> bool"
    and items :: "'s \<Rightarrow> string \<Rightarrow> 'w list"
    and known :: "'s \<Rightarrow> string \<Rightarrow> bool"
    and put :: "'s \<Rightarrow> string \<Rightarrow> 'w \<Rightarrow> 'e + 's"
    and wipe :: "'s \<Rightarrow> string \<Rightarrow> 'e + 's"
  assumes put_ok: "invar s \<Longrightarrow> known s n \<Longrightarrow>
      \<exists>s'. put s n w = Inr s' \<and> invar s' \<and> items s' n = items s n @ [w]
        \<and> (\<forall>m. m \<noteq> n \<longrightarrow> items s' m = items s m) \<and> (\<forall>m. known s' m = known s m)"
    and wipe_ok: "invar s \<Longrightarrow>
      \<exists>s'. wipe s n = Inr s' \<and> invar s' \<and> items s' n = []
        \<and> (\<forall>m. m \<noteq> n \<longrightarrow> items s' m = items s m) \<and> (\<forall>m. known s' m = known s m)"
begin

text \<open>Restarting a task: whatever was queued under the label, only the new package is left.\<close>

lemma restart:
  assumes "invar s" "known s n"
  shows "\<exists>s1 s2. wipe s n = Inr s1 \<and> put s1 n w = Inr s2 \<and> invar s2 \<and> items s2 n = [w]
    \<and> (\<forall>m. m \<noteq> n \<longrightarrow> items s2 m = items s m) \<and> (\<forall>m. known s2 m = known s m)"
proof -
  obtain s1 where s1: "wipe s n = Inr s1" "invar s1" "items s1 n = []"
    "\<forall>m. m \<noteq> n \<longrightarrow> items s1 m = items s m" "\<forall>m. known s1 m = known s m"
    using wipe_ok [OF assms(1)] by blast
  then obtain s2 where "put s1 n w = Inr s2" "invar s2" "items s2 n = items s1 n @ [w]"
    "\<forall>m. m \<noteq> n \<longrightarrow> items s2 m = items s1 m" "\<forall>m. known s2 m = known s1 m"
    using put_ok [of s1 n w] assms(2) by auto
  with s1 show ?thesis by auto
qed

end

interpretation sq: label_queue sched_wf queue_of has_label add clear
proof (unfold_locales, goal_cases)
  case (1 s n w)
  then show ?case using add_known [OF 1, of w] by (auto simp: has_label_def)
next
  case (2 s n)
  then show ?case using clear_known [OF 2, of n] by (auto simp: has_label_def)
qed

section \<open>Runs of the page\<close>

text \<open>
  Handlers reach the scheduler through its operations only; a package is a handler that
  the timer calls.  A page step is a handler or a timer callback.
\<close>

inductive sched_ops :: "'w scheduler \<Rightarrow> 'w scheduler \<Rightarrow> bool" where
  ops_refl: "sched_ops s s"
| ops_label: "sched_ops s t \<Longrightarrow> addLabel t n p = Inr u \<Longrightarrow> sched_ops s u"
| ops_add: "sched_ops s t \<Longrightarrow> add t n w = Inr u \<Longrightarrow> sched_ops s u"
| ops_clear: "sched_ops s t \<Longrightarrow> clear t n = Inr u \<Longrightarrow> sched_ops s u"

definition through_ops :: "('w \<Rightarrow> 'g \<times> 'w scheduler \<Rightarrow> bool \<times> 'g \<times> 'w scheduler) \<Rightarrow> bool" where
  "through_ops exec \<longleftrightarrow> (\<forall>w g s. sched_ops s (snd (snd (exec w (g, s)))))"

definition never_throws :: "('w \<Rightarrow> 'g \<times> 'w scheduler \<Rightarrow> bool \<times> 'g \<times> 'w scheduler) \<Rightarrow> bool" where
  "never_throws exec \<longleftrightarrow> (\<forall>w gs. \<not> fst (exec w gs))"

inductive page_step ::
  "('w \<Rightarrow> 'g \<times> 'w scheduler \<Rightarrow> bool \<times> 'g \<times> 'w scheduler) \<Rightarrow> 'g \<times> 'w scheduler \<Rightarrow> 'g \<times> 'w scheduler \<Rightarrow> bool"
  for exec where
  handler: "sched_ops s s' \<Longrightarrow> page_step exec (g, s) (g', s')"
| timer: "0 < armed s \<Longrightarrow> page_step exec (g, s) (on_timer exec (g, s))"

inductive page_run ::
  "('w \<Rightarrow> 'g \<times> 'w scheduler \<Rightarrow> bool \<times> 'g \<times> 'w scheduler) \<Rightarrow> 'g \<times> 'w scheduler \<Rightarrow> 'g \<times> 'w scheduler \<Rightarrow> bool"
  for exec where
  run_refl: "page_run exec a a"
| run_step: "page_run exec a b \<Longrightarrow> page_step exec b c \<Longrightarrow> page_run exec a c"

inductive_cases page_stepE: "page_step exec a b"

text \<open>The invariant of a run, and the part of it that needs packages that do not throw.\<close>

definition timer_inv :: "'w scheduler \<Rightarrow> bool" where
  "timer_inv s \<longleftrightarrow> sched_wf s \<and> armed s \<le> (if timeout_set s then 1 else 0)"

definition live_inv :: "'w scheduler \<Rightarrow> bool" where
  "live_inv s \<longleftrightarrow> sched_wf s \<and> armed s = (if timeout_set s then 1 else 0)
     \<and> (pending s = [] \<or> timeout_set s)"

lemma add_cases:
  assumes "sched_wf s" "add s n w = Inr s'"
  shows "sched_wf s' \<and> timeout_set s' \<and> armed s' = (if timeout_set s then armed s else Suc (armed s))"
  using assms add_known [of s n w] add_unknown [of s n w] by (cases "has_label s n") auto

lemma concat_wipe: "concat xs = [] \<Longrightarrow> concat (xs[i := []]) = []"
  by (induction xs arbitrary: i) (auto split: nat.splits)

lemma clear_cases:
  assumes "sched_wf s" "clear s n = Inr s'"
  shows "sched_wf s' \<and> timeout_set s' = timeout_set s \<and> armed s' = armed s
    \<and> (pending s = [] \<longrightarrow> pending s' = [])"
proof -
  have "pending s' = []" if "pending s = []"
    using assms(2) that concat_wipe [OF that [unfolded pending_def]]
    by (auto simp: clear_def Let_def pending_def simp del: concat_eq_Nil_conv split: if_splits)
  then show ?thesis using assms clear_known [of s n] by auto
qed

lemma addLabel_cases:
  assumes "sched_wf s" "addLabel s n p = Inr s'"
  shows "sched_wf s' \<and> timeout_set s' = timeout_set s \<and> armed s' = armed s \<and> pending s' = pending s"
proof -
  obtain s'' where "addLabel s n p = Inr s''" "sched_wf s''" "pending s'' = pending s"
    "timeout_set s'' = timeout_set s" "armed s'' = armed s"
    using addLabel_ok [OF assms(1), of n p] by blast
  with assms(2) show ?thesis by simp
qed

lemma sched_ops_inv [wf_intros]: "sched_ops s t \<Longrightarrow> timer_inv s \<Longrightarrow> timer_inv t"
proof (induction rule: sched_ops.induct)
  case (ops_label s t n p u)
  then show ?case using addLabel_cases [of t n p u] by (auto simp: timer_inv_def)
next
  case (ops_add s t n w u)
  then show ?case using add_cases [of t n w u] by (auto simp: timer_inv_def)
next
  case (ops_clear s t n u)
  then show ?case using clear_cases [of t n u] by (auto simp: timer_inv_def)
qed auto

lemma sched_ops_live [wf_intros]: "sched_ops s t \<Longrightarrow> live_inv s \<Longrightarrow> live_inv t"
proof (induction rule: sched_ops.induct)
  case (ops_label s t n p u)
  then show ?case using addLabel_cases [of t n p u] by (simp add: timer_inv_def live_inv_def split: if_splits)
next
  case (ops_add s t n w u)
  then show ?case using add_cases [of t n w u] by (simp add: timer_inv_def live_inv_def split: if_splits)
next
  case (ops_clear s t n u)
  then show ?case using clear_cases [of t n u] by (simp add: timer_inv_def live_inv_def split: if_splits)
qed auto

text \<open>While \<open>timeout\<close> is defined no operation arms a callback: this is the state in a package.\<close>

lemma sched_ops_busy:
  "sched_ops s t \<Longrightarrow> sched_wf s \<Longrightarrow> timeout_set s \<Longrightarrow> sched_wf t \<and> timeout_set t \<and> armed t = armed s"
proof (induction rule: sched_ops.induct)
  case (ops_label s t n p u)
  then show ?case using addLabel_cases [of t n p u] by auto
next
  case (ops_add s t n w u)
  then show ?case using add_cases [of t n w u] by auto
next
  case (ops_clear s t n u)
  then show ?case using clear_cases [of t n u] by auto
qed auto

lemma on_timer_inv:
  assumes "through_ops exec" "0 < armed s" "timer_inv s"
  shows "timer_inv (snd (on_timer exec (g, s)))"
proof (cases rule: nextWork_cases [of "s\<lparr>armed := armed s - 1\<rparr>"])
  case empty
  then show ?thesis using assms(3)
    by (simp add: on_timer_def timer_inv_def sched_wf_def split: if_splits)
next
  case (pop w s')
  let ?s = "s\<lparr>armed := armed s - 1\<rparr>"
  have s': "sched_wf s'" "timeout_set s'" "armed s' = 0"
    using assms(2,3) pop nextWork_frame [of ?s] nextWork_wf [of ?s]
    by (auto simp: timer_inv_def sched_wf_def)
  obtain th g' t where e: "exec w (g, s') = (th, g', t)" by (cases "exec w (g, s')")
  have "sched_ops s' t" using assms(1) e unfolding through_ops_def by (metis snd_conv)
  then have "sched_wf t \<and> timeout_set t \<and> armed t = 0"
    using s' sched_ops_busy [of s' t] by simp
  then show ?thesis using pop e
    by (auto simp: on_timer_def timer_inv_def doWork_def sched_wf_def)
qed

lemma on_timer_live:
  assumes "through_ops exec" "never_throws exec" "0 < armed s" "live_inv s"
  shows "live_inv (snd (on_timer exec (g, s)))"
proof (cases rule: nextWork_cases [of "s\<lparr>armed := armed s - 1\<rparr>"])
  case empty
  then show ?thesis using assms(4)
    by (simp add: on_timer_def timer_inv_def live_inv_def sched_wf_def pending_def)
next
  case (pop w s')
  let ?s = "s\<lparr>armed := armed s - 1\<rparr>"
  have s': "sched_wf s'" "timeout_set s'" "armed s' = 0"
    using assms(3,4) pop nextWork_frame [of ?s] nextWork_wf [of ?s]
    by (auto simp: timer_inv_def live_inv_def sched_wf_def)
  obtain th g' t where e: "exec w (g, s') = (th, g', t)" by (cases "exec w (g, s')")
  have "sched_ops s' t" using assms(1) e unfolding through_ops_def by (metis snd_conv)
  then have "sched_wf t \<and> timeout_set t \<and> armed t = 0"
    using s' sched_ops_busy [of s' t] by simp
  moreover have "\<not> th" using assms(2) e unfolding never_throws_def by (metis fst_conv)
  ultimately show ?thesis using pop e
    by (auto simp: on_timer_def timer_inv_def live_inv_def doWork_def sched_wf_def)
qed

lemma page_run_timer_inv:
  "page_run exec a b \<Longrightarrow> through_ops exec \<Longrightarrow> timer_inv (snd a) \<Longrightarrow> timer_inv (snd b)"
  by (induction rule: page_run.induct)
     (auto elim!: page_stepE dest: sched_ops_inv simp del: split_paired_All intro: on_timer_inv)

lemma page_run_live_inv:
  "page_run exec a b \<Longrightarrow> through_ops exec \<Longrightarrow> never_throws exec \<Longrightarrow> live_inv (snd a) \<Longrightarrow> live_inv (snd b)"
  by (induction rule: page_run.induct)
     (auto elim!: page_stepE dest: sched_ops_live intro: on_timer_live)

lemma live_inv_new: "live_inv new_scheduler"
  by (simp add: live_inv_def timer_inv_def new_scheduler_def sched_wf_def pending_def)

lemma timer_inv_new: "timer_inv new_scheduler"
  by (simp add: timer_inv_def new_scheduler_def sched_wf_def)

text \<open>A callback that throws leaves \<open>timeout\<close> defined with nothing armed; no step repairs it.\<close>

definition stalled :: "'w scheduler \<Rightarrow> bool" where
  "stalled s \<longleftrightarrow> sched_wf s \<and> timeout_set s \<and> armed s = 0"

lemma stalled_run: "page_run exec a b \<Longrightarrow> stalled (snd a) \<Longrightarrow> stalled (snd b)"
  by (induction rule: page_run.induct) (auto elim!: page_stepE simp: stalled_def dest: sched_ops_busy)

lemma on_timer_throw:
  assumes "through_ops exec" "timer_inv s" "armed s = 1" "pending s = w # ws"
    and "\<And>gs. fst (exec w gs)"
  shows "stalled (snd (on_timer exec (g, s)))"
proof (cases rule: nextWork_cases [of "s\<lparr>armed := armed s - 1\<rparr>"])
  case empty
  then show ?thesis using assms(4) by simp
next
  case (pop v s')
  let ?s = "s\<lparr>armed := armed s - 1\<rparr>"
  have v: "v = w" using pop assms(4) by simp
  have s': "sched_wf s'" "timeout_set s'" "armed s' = 0"
    using assms(2,3) pop nextWork_frame [of ?s] nextWork_wf [of ?s]
    by (auto simp: timer_inv_def sched_wf_def)
  obtain th g' t where e: "exec w (g, s') = (th, g', t)" by (cases "exec w (g, s')")
  have "sched_ops s' t" using assms(1) e unfolding through_ops_def by (metis snd_conv)
  then have "sched_wf t \<and> timeout_set t \<and> armed t = 0"
    using s' sched_ops_busy [of s' t] by simp
  moreover have th using assms(5) [of "(g, s')"] e by simp
  ultimately show ?thesis using pop e v by (simp add: on_timer_def stalled_def)
qed

text \<open>Draining: packages that leave the scheduler alone run once each, in order.\<close>

lemma run_timer_drain:
  assumes "\<And>w g s. exec w (g, s) = (False, f w g, s)"
  shows "armed s = 1 \<Longrightarrow> pending s = ws \<Longrightarrow>
    \<exists>s'. run_timer (Suc (length ws)) exec (g, s) = (fold f ws g, s')
      \<and> pending s' = [] \<and> \<not> timeout_set s' \<and> armed s' = 0"
proof (induction ws arbitrary: g s)
  case Nil
  then show ?case
    by (cases rule: nextWork_cases [of "s\<lparr>armed := armed s - 1\<rparr>"])
       (auto simp: on_timer_def)
next
  case (Cons w ws)
  show ?case
  proof (cases rule: nextWork_cases [of "s\<lparr>armed := armed s - 1\<rparr>"])
    case empty
    then show ?thesis using Cons.prems(2) by simp
  next
    case (pop v s')
    have v: "v = w" "pending s' = ws" using pop Cons.prems(2) by simp_all
    have "armed s' = 0" using pop Cons.prems(1) nextWork_frame [of "s\<lparr>armed := armed s - 1\<rparr>"] by simp
    then have "on_timer exec (g, s) = (f w g, doWork s')" "armed (doWork s') = 1" "pending (doWork s') = ws"
      using pop v assms by (simp_all add: on_timer_def doWork_def pending_def)
    then show ?thesis using Cons.IH [of "doWork s'" "f w g"] Cons.prems(1) by simp
  qed
qed

section \<open>Properties\<close>

text \<open>C38. The package \<open>nextWork\<close> returns heads the queue of a label such that every label of a
  smaller priority number has an empty queue; only that queue changes, and over all queues
  together it is the head of the pending packages.\<close>

theorem nextWork_lowest_priority:
  assumes "sched_wf s" "nextWork s = (Some w, s')"
  shows "pending s = w # pending s'
    \<and> (\<exists>i < length (labels s). queues s ! i = w # queues s' ! i
         \<and> (\<forall>j < length (labels s). j \<noteq> i \<longrightarrow> queues s' ! j = queues s ! j)
         \<and> (\<forall>j < length (labels s). lprio (labels s ! j) < lprio (labels s ! i) \<longrightarrow> queues s ! j = []))"
proof -
  let ?i = "first_nonempty (queues s)"
  have i: "?i < length (queues s)" "queues s ! ?i \<noteq> []"
    and w: "w = hd (queues s ! ?i)" "s' = s\<lparr>queues := (queues s)[?i := tl (queues s ! ?i)]\<rparr>"
    using assms(2) by (auto simp: nextWork_def Let_def split: if_splits)
  have len: "length (labels s) = length (queues s)" using assms(1) by (simp add: sched_wf_def)
  have "queues s ! j = []" if j: "j < length (labels s)" and lt: "lprio (labels s ! j) < lprio (labels s ! ?i)" for j
  proof -
    have "j < ?i"
      using sorted_nth_mono [of "map lprio (labels s)" ?i j] assms(1) j lt i(1) len
      by (fastforce simp: sched_wf_def not_less)
    moreover have "q = []" if "q \<in> set (take ?i (queues s))" for q
      using first_nonempty_spec(3) [of "queues s"] that by (simp del: take_eq_Nil)
    ultimately show ?thesis using i(1) by (metis in_set_conv_nth length_take min.absorb4 nth_take)
  qed
  moreover have "pending s = w # pending s'"
    using assms(2) by (cases rule: nextWork_cases [of s]) auto
  ultimately show ?thesis using i w len by (intro conjI exI [of _ ?i]) auto
qed

theorem nextWork_lowest_priority_witness:
  "pending \<lparr>labels = [\<lparr>lname = ''init'', lprio = 1\<rparr>, \<lparr>lname = ''filter'', lprio = 4\<rparr>],
     queues = [[], [7::nat, 8]], timeout_set = True, armed = 1\<rparr> = [7, 8]"
  using nextWork_lowest_priority
    [of "\<lparr>labels = [\<lparr>lname = ''init'', lprio = 1\<rparr>, \<lparr>lname = ''filter'', lprio = 4\<rparr>],
     queues = [[], [7::nat, 8]], timeout_set = True, armed = 1\<rparr>" 7
     "\<lparr>labels = [\<lparr>lname = ''init'', lprio = 1\<rparr>, \<lparr>lname = ''filter'', lprio = 4\<rparr>],
     queues = [[], [8::nat]], timeout_set = True, armed = 1\<rparr>"]
  by (simp add: sched_wf_def nextWork_def Let_def pending_def)

text \<open>C40. From a new scheduler, whatever handlers and packages do through its operations: at most
  one timer callback is ever armed, and as long as no package throws, work that is pending
  always has its callback armed, so no package is forgotten.\<close>

theorem pending_work_has_timer:
  assumes "page_run exec (g, new_scheduler) (g', s)" "through_ops exec"
  shows "armed s \<le> 1 \<and> (never_throws exec \<longrightarrow> pending s \<noteq> [] \<longrightarrow> armed s = 1 \<and> timeout_set s)"
  using page_run_timer_inv [OF assms] page_run_live_inv [OF assms] live_inv_new timer_inv_new
  by (auto simp: timer_inv_def live_inv_def split: if_splits)

definition example_exec :: "nat \<Rightarrow> nat list \<times> nat scheduler \<Rightarrow> bool \<times> nat list \<times> nat scheduler" where
  "example_exec w gs = (False, fst gs @ [w], snd gs)"

definition example_sched :: "nat scheduler" where
  "example_sched = \<lparr>labels = [\<lparr>lname = ''init'', lprio = 1\<rparr>], queues = [[5, 6]],
     timeout_set = True, armed = 1\<rparr>"

lemma example_run: "page_run example_exec ([], new_scheduler) ([], example_sched)"
proof -
  let ?s1 = "\<lparr>labels = [\<lparr>lname = ''init'', lprio = 1\<rparr>], queues = [[]], timeout_set = False, armed = 0\<rparr>"
  let ?s2 = "\<lparr>labels = [\<lparr>lname = ''init'', lprio = 1\<rparr>], queues = [[5::nat]], timeout_set = True, armed = 1\<rparr>"
  have "addLabel (new_scheduler :: nat scheduler) ''init'' 1 = Inr ?s1"
    by (simp add: new_scheduler_def addLabel_def splice_in_def)
  moreover have "add ?s1 ''init'' 5 = Inr ?s2" by (simp add: add_def doWork_def)
  moreover have "add ?s2 ''init'' 6 = Inr example_sched" by (simp add: add_def example_sched_def)
  ultimately have "sched_ops new_scheduler example_sched"
    by (meson ops_refl ops_label ops_add)
  then show ?thesis by (rule run_step [OF run_refl handler])
qed

theorem pending_work_has_timer_witness: "armed example_sched \<le> 1"
  using pending_work_has_timer [OF example_run]
  by (simp add: through_ops_def example_exec_def ops_refl)

text \<open>With an armed callback and packages that neither throw nor queue more work, the
  timer runs every pending package exactly once, in the order of \<open>pending\<close>, and one further
  callback finds nothing and undefines \<open>timeout\<close>: the loop of callbacks ends.\<close>

theorem scheduler_drains:
  assumes "\<And>w g s. exec w (g, s) = (False, f w g, s)" "armed s = 1"
  shows "\<exists>s'. run_timer (Suc (length (pending s))) exec (g, s) = (fold f (pending s) g, s')
    \<and> pending s' = [] \<and> \<not> timeout_set s' \<and> armed s' = 0"
  using run_timer_drain [OF assms(1,2) refl] .

theorem scheduler_drains_witness:
  "\<exists>s'. run_timer 3 example_exec ([], example_sched) = ([5, 6], s') \<and> pending s' = []"
  using scheduler_drains [of example_exec "\<lambda>w g. g @ [w]" example_sched "[]"]
  by (auto simp: example_exec_def example_sched_def pending_def numeral_3_eq_3 numeral_2_eq_2)

text \<open>A package that throws stops the scheduler for good: its callback ends without arming
  the next one while \<open>timeout\<close> stays defined, and after any further handlers and callbacks
  that is still so, so work added later is never run.\<close>

theorem scheduler_stalls_after_throw:
  assumes "through_ops exec" "timer_inv s" "armed s = 1" "pending s = w # ws"
    and "\<And>gs. fst (exec w gs)" and "page_run exec (on_timer exec (g, s)) (g', t)"
  shows "armed t = 0 \<and> timeout_set t \<and> (\<forall>n v t'. add t n v = Inr t' \<longrightarrow> armed t' = 0)"
proof -
  have "stalled t" using stalled_run [OF assms(6)] on_timer_throw [OF assms(1-5), of g] by simp
  then show ?thesis using add_cases by (fastforce simp: stalled_def)
qed

definition throwing_exec :: "nat \<Rightarrow> nat list \<times> nat scheduler \<Rightarrow> bool \<times> nat list \<times> nat scheduler" where
  "throwing_exec w gs = (True, gs)"

theorem scheduler_stalls_after_throw_witness:
  "armed (snd (on_timer throwing_exec ([], example_sched))) = 0"
proof -
  obtain g t where o: "on_timer throwing_exec ([], example_sched) = (g, t)" by (metis surj_pair)
  have "page_run throwing_exec (on_timer throwing_exec ([], example_sched)) (g, t)"
    using o run_refl by metis
  from scheduler_stalls_after_throw [OF _ _ _ _ _ this, of 5 "[6]"] o show ?thesis
    by (simp add: through_ops_def throwing_exec_def ops_refl example_sched_def timer_inv_def
        sched_wf_def pending_def)
qed

text \<open>On a well-formed scheduler \<open>clearLabel\<close> never removes a label: for a label that exists it
  throws a \<open>ReferenceError\<close>, for any other name it does nothing.\<close>

theorem clearLabel_always_throws:
  assumes "sched_wf s"
  shows "clearLabel s n = (if has_label s n then Inl ReferenceError else Inr s)"
  using assms name_index_bound [of "labels s" n]
  by (auto simp: clearLabel_def sched_wf_def has_label_def name_index_queues_eq)

theorem clearLabel_always_throws_witness: "clearLabel example_sched ''init'' = Inl ReferenceError"
  using clearLabel_always_throws [of example_sched "''init''"]
  by (simp add: example_sched_def sched_wf_def has_label_def)

end
