(* ===== verification/TxnTime.thy ===== *)
theory TxnTime
  imports Prelude
begin

text \<open>
  Transaction times of \<open>restm-core/.../storage/types/TxnTime.scala\<close>: \<open>ExactTime\<close> as seconds
  and nanoseconds, its carry, sum, difference and comparison, the process-wide clock
  \<open>safeNow\<close>, and \<open>TxnTime\<close>, which orders transactions by time plus priority.  The longs are
  integers: an epoch in seconds stays far below 2^63 (a nanosecond sum of two normal times
  below 2^31).  Comparison is reduced to the total number of nanoseconds, so the order is a
  preorder: two distinct times with one effective time compare as equal.
\<close>

section \<open>Exact times\<close>

datatype exact_time = ExactTime (epoch: int) (nanos: int)

function carry :: "exact_time \<Rightarrow> exact_time" where
  "carry (ExactTime e n) =
     (if n < 0 then carry (ExactTime (e - 1) (n + 1000000000))
      else if n \<ge> 1000000000 then carry (ExactTime (e + 1) (n - 1000000000))
      else ExactTime e n)"
  by pat_completeness auto
termination
  by (relation "measure (\<lambda>t. if nanos t < 0 then nat (1000000000 - nanos t) else nat (nanos t))") auto

declare carry.simps [simp del]

definition isNormal :: "exact_time \<Rightarrow> bool" where
  "isNormal t = (if nanos t < 0 then False else if nanos t \<ge> 1000000000 then False else True)"

definition exact_minus :: "exact_time \<Rightarrow> exact_time \<Rightarrow> exact_time" where
  "exact_minus a b = carry (ExactTime (epoch a - epoch b) (nanos a - nanos b))"

definition exact_plus :: "exact_time \<Rightarrow> exact_time \<Rightarrow> exact_time" where
  "exact_plus a b = carry (ExactTime (epoch a + epoch b) (nanos a + nanos b))"

definition long_compare :: "int \<Rightarrow> int \<Rightarrow> int" where
  "long_compare a b = (if a < b then -1 else if a = b then 0 else 1)"

definition exact_compare_normal :: "exact_time \<Rightarrow> exact_time \<Rightarrow> int" where
  "exact_compare_normal a b =
     (let y = long_compare (epoch a) (epoch b)
      in if y \<noteq> 0 then y else long_compare (nanos a) (nanos b))"

text \<open>
  \<open>compare\<close> carries the receiver and starts again where it is not normal, then carries the
  argument; a carried time is normal, so each restart happens once.
\<close>

definition exact_compare :: "exact_time \<Rightarrow> exact_time \<Rightarrow> int" where
  "exact_compare a b =
     (let a' = if \<not> isNormal a then carry a else a;
          b' = if \<not> isNormal b then carry b else b
      in exact_compare_normal a' b')"

text \<open>\<open>duration\<close> is the time as a number of nanoseconds.\<close>

definition duration :: "exact_time \<Rightarrow> int" where
  "duration t = nanos t + epoch t * 1000000000"

text \<open>
  The clock: \<open>safeNow\<close> takes the wall clock if it has advanced past the last time handed out,
  and otherwise steps the last time by a nanosecond.  \<open>wall\<close> is what \<open>new ExactTime()\<close> read.
\<close>

definition safeNow :: "exact_time \<Rightarrow> exact_time \<Rightarrow> exact_time" where
  "safeNow prev wall =
     (if exact_compare prev wall < 0 then wall else ExactTime (epoch prev) (nanos prev + 1))"

fun safeNow_run :: "exact_time \<Rightarrow> exact_time list \<Rightarrow> exact_time list" where
  "safeNow_run prev [] = []"
| "safeNow_run prev (w # ws) = safeNow prev w # safeNow_run (safeNow prev w) ws"

section \<open>Transaction times\<close>

datatype txn_time = TxnTime (txn_exact: exact_time) (priorityMs: int)

text \<open>
  The implicit conversion of a duration of \<open>ms\<close> milliseconds: whole seconds and the
  remaining nanoseconds, both truncated towards zero as Scala's \<open>toSeconds\<close> and \<open>%\<close> do.
\<close>

definition tquot :: "int \<Rightarrow> int \<Rightarrow> int" where
  "tquot a b = sgn a * (\<bar>a\<bar> div b)"

definition trem :: "int \<Rightarrow> int \<Rightarrow> int" where
  "trem a b = sgn a * (\<bar>a\<bar> mod b)"

definition exact_of_ms :: "int \<Rightarrow> exact_time" where
  "exact_of_ms ms = ExactTime (tquot (ms * 1000000) 1000000000) (trem (ms * 1000000) 1000000000)"

definition effectiveTime :: "txn_time \<Rightarrow> exact_time" where
  "effectiveTime t = exact_plus (txn_exact t) (exact_of_ms (priorityMs t))"

definition txn_compare :: "txn_time \<Rightarrow> txn_time \<Rightarrow> int" where
  "txn_compare a b = exact_compare (effectiveTime a) (effectiveTime b)"

definition age_ns :: "exact_time \<Rightarrow> txn_time \<Rightarrow> int" where
  "age_ns now t = duration (exact_minus now (txn_exact t))"

section \<open>Comparison is comparison of nanoseconds\<close>

lemma carry_normal: "isNormal (carry t)"
  by (induction t rule: carry.induct) (subst carry.simps, auto simp: isNormal_def)

lemma duration_carry [simp]: "duration (carry t) = duration t"
proof (induction t rule: carry.induct)
  case (1 e n)
  then show ?case by (subst carry.simps) (auto simp: duration_def algebra_simps)
qed

lemma duration_plus [simp]: "duration (exact_plus a b) = duration a + duration b"
  by (simp add: exact_plus_def) (simp add: duration_def algebra_simps)

lemma duration_minus [simp]: "duration (exact_minus a b) = duration a - duration b"
  by (simp add: exact_minus_def) (simp add: duration_def algebra_simps)

lemma tquot_trem: "tquot a b * b + trem a b = a"
proof -
  have "tquot a b * b + trem a b = sgn a * (\<bar>a\<bar> div b * b + \<bar>a\<bar> mod b)"
    unfolding tquot_def trem_def by (simp only: algebra_simps)
  then show ?thesis by (simp add: sgn_mult_abs)
qed

lemma duration_of_ms [simp]: "duration (exact_of_ms ms) = ms * 1000000"
  using tquot_trem [of "ms * 1000000" 1000000000] by (simp add: exact_of_ms_def duration_def)

lemma long_compare_sgn: "long_compare a b = sgn (a - b)"
  by (simp add: long_compare_def)

lemma exact_compare_normal_duration:
  assumes "isNormal a" "isNormal b"
  shows "exact_compare_normal a b = sgn (duration a - duration b)"
  using assms by (auto simp: exact_compare_normal_def Let_def long_compare_def duration_def isNormal_def
      sgn_if split: if_splits)

lemma exact_compare_duration: "exact_compare a b = sgn (duration a - duration b)"
  using exact_compare_normal_duration carry_normal by (simp add: exact_compare_def Let_def)

lemma exact_compare_less: "exact_compare a b < 0 \<longleftrightarrow> duration a < duration b"
  by (auto simp: exact_compare_duration sgn_if)

definition tkey :: "txn_time \<Rightarrow> int" where
  "tkey t = duration (txn_exact t) + priorityMs t * 1000000"

lemma txn_compare_key: "txn_compare a b = sgn (tkey a - tkey b)"
  by (simp add: txn_compare_def exact_compare_duration effectiveTime_def tkey_def)

lemma age_ns_eq: "age_ns now t = duration now - duration (txn_exact t)"
  by (simp add: age_ns_def)

text \<open>The order of \<open>Ordered[TxnTime]\<close>, as the library's preorder class.\<close>

instantiation txn_time :: preorder
begin

definition less_eq_txn_time :: "txn_time \<Rightarrow> txn_time \<Rightarrow> bool" where
  "a \<le> b \<longleftrightarrow> txn_compare a b \<le> 0"

definition less_txn_time :: "txn_time \<Rightarrow> txn_time \<Rightarrow> bool" where
  "a < b \<longleftrightarrow> txn_compare a b < 0"

instance
  by standard (auto simp: less_eq_txn_time_def less_txn_time_def txn_compare_key sgn_if split: if_splits)

end

lemma txn_le_key: "a \<le> b \<longleftrightarrow> tkey a \<le> tkey b"
  by (auto simp: less_eq_txn_time_def txn_compare_key sgn_if)

lemma txn_less_key: "a < b \<longleftrightarrow> tkey a < tkey b"
  by (auto simp: less_txn_time_def txn_compare_key sgn_if)

lemmas txn_order_key = txn_le_key txn_less_key

lemma safeNow_increases: "duration prev < duration (safeNow prev wall)"
  by (auto simp: safeNow_def exact_compare_less) (simp add: duration_def)

lemma safeNow_run_above: "t \<in> set (safeNow_run prev ws) \<Longrightarrow> duration prev < duration t"
proof (induction ws arbitrary: prev)
  case (Cons w ws)
  then show ?case using safeNow_increases [of prev w] by fastforce
qed simp

text \<open>However the wall clock behaves, backwards steps included, the times one process hands
  out increase strictly: no two transactions of a process and of one priority share a time.\<close>

theorem safeNow_strictly_increasing:
  "sorted_wrt (\<lambda>a b. exact_compare a b < 0) (safeNow_run prev ws)
     \<and> distinct (map (\<lambda>t. tkey (TxnTime t p)) (safeNow_run prev ws))"
proof (induction ws arbitrary: prev)
  case (Cons w ws)
  then show ?case
    using safeNow_run_above [of _ "safeNow prev w" ws]
    by (fastforce simp: exact_compare_less tkey_def)
qed simp

text \<open>\<open>compare\<close> on transaction times agrees with the order of the effective times in
  nanoseconds, for normal and carried representations alike, so it is antisymmetric up to
  equal effective times, transitive and total.\<close>

theorem txn_compare_total_preorder:
  "txn_compare a b = sgn (tkey a - tkey b)
     \<and> txn_compare a b = - txn_compare b a
     \<and> (a \<le> b \<or> b \<le> (a :: txn_time))"
  by (auto simp: txn_compare_key sgn_if txn_le_key)

end
