(* ===== verification/MemActor.thy ===== *)
theory MemActor
  imports TxnTime
begin

text \<open>
  One pointer of the store, \<open>restm-core/.../storage/actors/MemActor.scala\<close>: the committed
  history, the newest read, the write lock and the value queued by its owner.  An actor
  runs its messages one at a time, so each operation is a function of the state that
  returns its result, or the exception its future fails with, and the state it leaves.
  A null value (a deleted pointer) is \<open>None\<close> inside a record or a queued value.
  The lemmas give the invariant of the lock and the history, the stability of reads, the
  exclusion of older writers, the commit protocol and the behaviour of a late write.
\<close>

section \<open>State\<close>

record 'v history_record =
  hr_time :: txn_time
  hr_value :: "'v option"
  coldStorageTs :: "int option"

record 'v mem_actor =
  history :: "'v history_record list"
  lastRead :: "txn_time option"
  writeLock :: "txn_time option"
  staleCommit :: "txn_time option"
  queuedValue :: "'v option option"
  closed :: bool

datatype store_error =
    TransactionConflict "txn_time option"
  | RequirementFailed
  | NoSuchElement
  | UnsupportedOperation
  | ArithmeticError

definition new_record :: "txn_time \<Rightarrow> 'v option \<Rightarrow> 'v history_record" where
  "new_record t v = \<lparr>hr_time = t, hr_value = v, coldStorageTs = None\<rparr>"

definition new_mem_actor :: "txn_time option \<Rightarrow> 'v mem_actor" where
  "new_mem_actor t = \<lparr>history = [], lastRead = t, writeLock = None, staleCommit = None,
     queuedValue = None, closed = False\<rparr>"

section \<open>Operations\<close>

text \<open>\<open>withActor\<close> of \<open>ActorQueue\<close>: a closed actor refuses the message.\<close>

definition withActor ::
  "('v mem_actor \<Rightarrow> (store_error + 'a) \<times> 'v mem_actor) \<Rightarrow> 'v mem_actor \<Rightarrow> (store_error + 'a) \<times> 'v mem_actor" where
  "withActor f m = (if closed m then (Inl (TransactionConflict None), m) else f m)"

text \<open>\<open>maxBy(_.time)\<close>: the first of the records with the greatest time, with its index.\<close>

fun maxBy_time :: "nat \<Rightarrow> 'v history_record \<Rightarrow> nat \<Rightarrow> 'v history_record list \<Rightarrow> nat \<times> 'v history_record" where
  "maxBy_time bi b i [] = (bi, b)"
| "maxBy_time bi b i (x # xs) =
     (if hr_time x > hr_time b then maxBy_time i x (Suc i) xs else maxBy_time bi b (Suc i) xs)"

definition getCurrentValue ::
  "'v mem_actor \<Rightarrow> (store_error + (txn_time \<times> 'v option) option) \<times> 'v mem_actor" where
  "getCurrentValue = withActor (\<lambda>m.
     (case history m of
        [] \<Rightarrow> (Inr None, m)
      | r # rs \<Rightarrow> (let h = snd (maxBy_time 0 r 1 rs) in (Inr (Some (hr_time h, hr_value h)), m))))"

definition collectGarbage :: "exact_time \<Rightarrow> 'v mem_actor \<Rightarrow> (store_error + nat) \<times> 'v mem_actor" where
  "collectGarbage now = withActor (\<lambda>m.
     (case history m of
        [] \<Rightarrow> (Inl UnsupportedOperation, m)
      | r # rs \<Rightarrow>
          (let hd_idx = fst (maxBy_time 0 r 1 rs);
               garbage = (\<lambda>i. age_ns now (hr_time (history m ! i)) > 15000000000 \<and> i \<noteq> hd_idx)
           in (Inr (length (filter garbage [0..<length (history m)])),
               m\<lparr>history := map (\<lambda>i. history m ! i)
                   (filter (\<lambda>i. \<not> garbage i) [0..<length (history m)])\<rparr>))))"

text \<open>\<open>history(history.lastIndexWhere(_.time <= time))\<close>, and its value unless null.\<close>

definition visible_record :: "'v history_record list \<Rightarrow> txn_time \<Rightarrow> 'v history_record option" where
  "visible_record h t =
     (case filter (\<lambda>r. hr_time r \<le> t) h of [] \<Rightarrow> None | r # rs \<Rightarrow> Some (last (r # rs)))"

definition visible_value :: "'v history_record list \<Rightarrow> txn_time \<Rightarrow> 'v option" where
  "visible_value h t = (case visible_record h t of None \<Rightarrow> None | Some r \<Rightarrow> hr_value r)"

text \<open>
  \<open>safeRead\<close> is false, so a read that the newest read covers takes no lock and changes
  nothing; otherwise an older write lock fails it and the newest read moves up.
\<close>

definition getValue :: "txn_time \<Rightarrow> 'v mem_actor \<Rightarrow> (store_error + 'v option) \<times> 'v mem_actor" where
  "getValue t m =
     (if \<exists>l \<in> set_option (lastRead m). l \<ge> t then (Inr (visible_value (history m) t), m)
      else (case writeLock m of
              Some w \<Rightarrow>
                if w < t then (Inl (TransactionConflict (Some w)), m)
                else (Inr (visible_value (history m) t),
                      m\<lparr>lastRead := (case lastRead m of Some l \<Rightarrow> if l > t then Some l else Some t
                                                   | None \<Rightarrow> Some t)\<rparr>)
            | None \<Rightarrow>
                (Inr (visible_value (history m) t),
                 m\<lparr>lastRead := (case lastRead m of Some l \<Rightarrow> if l > t then Some l else Some t
                                                | None \<Rightarrow> Some t)\<rparr>)))"

definition init_value :: "txn_time \<Rightarrow> 'v \<Rightarrow> 'v mem_actor \<Rightarrow> (store_error + bool) \<times> 'v mem_actor" where
  "init_value t v = withActor (\<lambda>m.
     (if history m \<noteq> [] then (Inr False, m)
      else (Inr True, m\<lparr>history := [new_record t (Some v)], lastRead := Some t, writeLock := None,
                        queuedValue := None, staleCommit := None\<rparr>)))"

definition take_writeLock :: "txn_time \<Rightarrow> 'v mem_actor \<Rightarrow> (store_error + txn_time option) \<times> 'v mem_actor" where
  "take_writeLock t = withActor (\<lambda>m.
     (case writeLock m of
        Some w \<Rightarrow> if w = t then (Inr None, m) else (Inr (Some w), m)
      | None \<Rightarrow>
          if \<exists>l \<in> set_option (lastRead m). l > t then (Inr (lastRead m), m)
          else if \<exists>r \<in> set (history m). hr_time r > t
               then (case find (\<lambda>r. hr_time r \<ge> t) (history m) of
                       Some r \<Rightarrow> (Inr (Some (hr_time r)), m)
                     | None \<Rightarrow> (Inl NoSuchElement, m))
          else (Inr None, m\<lparr>writeLock := Some t\<rparr>)))"

text \<open>
  The stale branch of \<open>writeBlob\<close> and \<open>delete\<close> dates the record with \<open>writeLock.get\<close>, which
  throws when nobody holds the lock.
\<close>

definition writeBlob :: "txn_time \<Rightarrow> 'v \<Rightarrow> 'v mem_actor \<Rightarrow> (store_error + unit) \<times> 'v mem_actor" where
  "writeBlob t v = withActor (\<lambda>m.
     (if writeLock m \<noteq> Some t \<and> staleCommit m \<noteq> Some t then (Inl (TransactionConflict None), m)
      else if queuedValue m \<noteq> None then (Inl RequirementFailed, m)
      else if staleCommit m = Some t
           then (case writeLock m of
                   None \<Rightarrow> (Inl NoSuchElement, m)
                 | Some w \<Rightarrow> (Inr (), m\<lparr>history := history m @ [new_record w (Some v)],
                                       writeLock := None, queuedValue := None, staleCommit := None\<rparr>))
           else (Inr (), m\<lparr>queuedValue := Some (Some v)\<rparr>)))"

definition delete_value :: "txn_time \<Rightarrow> 'v mem_actor \<Rightarrow> (store_error + unit) \<times> 'v mem_actor" where
  "delete_value t = withActor (\<lambda>m.
     (if writeLock m \<noteq> Some t \<and> staleCommit m \<noteq> Some t then (Inl (TransactionConflict None), m)
      else if queuedValue m \<noteq> None then (Inl RequirementFailed, m)
      else if staleCommit m = Some t
           then (case writeLock m of
                   None \<Rightarrow> (Inl NoSuchElement, m)
                 | Some w \<Rightarrow> (Inr (), m\<lparr>history := history m @ [new_record w None],
                                       writeLock := None, queuedValue := Some None, staleCommit := None\<rparr>))
           else (Inr (), m\<lparr>queuedValue := Some None, staleCommit := None\<rparr>)))"

definition writeCommit :: "txn_time \<Rightarrow> 'v mem_actor \<Rightarrow> (store_error + unit) \<times> 'v mem_actor" where
  "writeCommit t = withActor (\<lambda>m.
     (if writeLock m \<noteq> Some t then (Inl RequirementFailed, m)
      else (case queuedValue m of
              Some q \<Rightarrow> (Inr (), m\<lparr>history := filter (\<lambda>r. hr_time r \<noteq> t) (history m) @ [new_record t q],
                                  staleCommit := None, queuedValue := None, writeLock := None\<rparr>)
            | None \<Rightarrow> (Inr (), m\<lparr>staleCommit := writeLock m, writeLock := None\<rparr>))))"

definition writeReset :: "txn_time \<Rightarrow> 'v mem_actor \<Rightarrow> (store_error + unit) \<times> 'v mem_actor" where
  "writeReset t = withActor (\<lambda>m.
     (if writeLock m \<noteq> Some t then (Inl RequirementFailed, m)
      else (Inr (), m\<lparr>writeLock := None, queuedValue := None, staleCommit := None\<rparr>)))"

definition close_actor :: "'v mem_actor \<Rightarrow> 'v mem_actor" where
  "close_actor m = m\<lparr>closed := True\<rparr>"

lemmas mem_ops = withActor_def getCurrentValue_def collectGarbage_def getValue_def init_value_def
  take_writeLock_def writeBlob_def delete_value_def writeCommit_def writeReset_def close_actor_def

section \<open>Runs of one actor\<close>

text \<open>The messages that reach an actor, apart from the garbage collection, which has its own facts.\<close>

datatype 'v mem_event =
    EvCurrent
  | EvGet txn_time
  | EvInit txn_time 'v
  | EvLock txn_time
  | EvBlob txn_time 'v
  | EvDelete txn_time
  | EvCommit txn_time
  | EvReset txn_time
  | EvClose

fun mem_step :: "'v mem_event \<Rightarrow> 'v mem_actor \<Rightarrow> 'v mem_actor" where
  "mem_step EvCurrent m = snd (getCurrentValue m)"
| "mem_step (EvGet t) m = snd (getValue t m)"
| "mem_step (EvInit t v) m = snd (init_value t v m)"
| "mem_step (EvLock t) m = snd (take_writeLock t m)"
| "mem_step (EvBlob t v) m = snd (writeBlob t v m)"
| "mem_step (EvDelete t) m = snd (delete_value t m)"
| "mem_step (EvCommit t) m = snd (writeCommit t m)"
| "mem_step (EvReset t) m = snd (writeReset t m)"
| "mem_step EvClose m = close_actor m"

fun event_time :: "'v mem_event \<Rightarrow> txn_time option" where
  "event_time (EvLock t) = Some t"
| "event_time _ = None"

definition mem_run :: "'v mem_event list \<Rightarrow> 'v mem_actor \<Rightarrow> 'v mem_actor" where
  "mem_run es m = fold mem_step es m"

section \<open>The invariant of the history and the lock\<close>

text \<open>
  The history is in time order, and a write lock is no older than any record and than the
  newest read.
\<close>

definition mem_inv :: "'v mem_actor \<Rightarrow> bool" where
  "mem_inv m \<longleftrightarrow> sorted_wrt (\<lambda>a b. hr_time a \<le> hr_time b) (history m)
     \<and> (\<forall>w. writeLock m = Some w \<longrightarrow>
          (\<forall>r \<in> set (history m). hr_time r \<le> w) \<and> (\<forall>l. lastRead m = Some l \<longrightarrow> l \<le> w))"

lemma mem_inv_new [wf_intros]: "mem_inv (new_mem_actor t)"
  by (simp add: mem_inv_def new_mem_actor_def)

lemma new_record_simps [simp]:
  "hr_time (new_record t v) = t" "hr_value (new_record t v) = v" "coldStorageTs (new_record t v) = None"
  by (simp_all add: new_record_def)

lemma getCurrentValue_state [simp]: "snd (getCurrentValue m) = m"
  by (simp add: mem_ops Let_def split: list.splits)

lemma getValue_inv [wf_intros]: "mem_inv m \<Longrightarrow> mem_inv (snd (getValue t m))"
  by (auto simp: mem_inv_def getValue_def txn_order_key split: option.splits)

lemma init_value_inv [wf_intros]: "mem_inv m \<Longrightarrow> mem_inv (snd (init_value t v m))"
  by (auto simp: mem_inv_def init_value_def withActor_def)

lemma take_writeLock_inv [wf_intros]:
  assumes "mem_inv m" shows "mem_inv (snd (take_writeLock t m))"
  using assms by (auto simp: mem_inv_def take_writeLock_def withActor_def txn_order_key not_less
      split: option.splits)

lemma sorted_snoc:
  "sorted_wrt (\<lambda>a b. hr_time a \<le> hr_time b) (h @ [r]) \<longleftrightarrow>
     sorted_wrt (\<lambda>a b. hr_time a \<le> hr_time b) h \<and> (\<forall>x \<in> set h. hr_time x \<le> hr_time r)"
  by (simp add: sorted_wrt_append)

lemma writeBlob_inv [wf_intros]: "mem_inv m \<Longrightarrow> mem_inv (snd (writeBlob t v m))"
  by (auto simp: mem_inv_def writeBlob_def withActor_def sorted_snoc split: option.splits)

lemma delete_value_inv [wf_intros]: "mem_inv m \<Longrightarrow> mem_inv (snd (delete_value t m))"
  by (auto simp: mem_inv_def delete_value_def withActor_def sorted_snoc split: option.splits)

lemma writeCommit_inv [wf_intros]: "mem_inv m \<Longrightarrow> mem_inv (snd (writeCommit t m))"
  by (auto simp: mem_inv_def writeCommit_def withActor_def sorted_snoc sorted_wrt_filter split: option.splits)

lemma writeReset_inv [wf_intros]: "mem_inv m \<Longrightarrow> mem_inv (snd (writeReset t m))"
  by (auto simp: mem_inv_def writeReset_def withActor_def)

lemma close_actor_inv [wf_intros]: "mem_inv m \<Longrightarrow> mem_inv (close_actor m)"
  by (simp add: mem_inv_def close_actor_def)

lemma mem_step_inv [wf_intros]: "mem_inv m \<Longrightarrow> mem_inv (mem_step e m)"
  by (cases e) (simp_all add: getValue_inv init_value_inv take_writeLock_inv writeBlob_inv
      delete_value_inv writeCommit_inv writeReset_inv close_actor_inv)

lemma mem_run_inv [wf_intros]: "mem_inv m \<Longrightarrow> mem_inv (mem_run es m)"
  unfolding mem_run_def by (induction es arbitrary: m) (simp_all add: mem_step_inv)

section \<open>Reads\<close>

lemma visible_record_alt:
  "visible_record h t = (let rs = filter (\<lambda>r. hr_time r \<le> t) h in if rs = [] then None else Some (last rs))"
  by (cases "filter (\<lambda>r. hr_time r \<le> t) h") (simp_all add: visible_record_def)

lemma visible_value_append_later [simp]:
  "\<not> hr_time r \<le> t \<Longrightarrow> visible_value (h @ [r]) t = visible_value h t"
  by (simp add: visible_value_def visible_record_def)

lemma visible_value_append_now:
  "hr_time r \<le> t \<Longrightarrow> visible_value (h @ [r]) t = hr_value r"
  by (simp add: visible_value_def visible_record_alt)

lemma visible_value_filter:
  assumes "\<And>r. r \<in> set h \<Longrightarrow> \<not> P r \<Longrightarrow> \<not> hr_time r \<le> t"
  shows "visible_value (filter P h) t = visible_value h t"
proof -
  have "filter (\<lambda>r. hr_time r \<le> t) (filter P h) = filter (\<lambda>r. hr_time r \<le> t) h"
    unfolding filter_filter using assms by (intro filter_cong) auto
  then show ?thesis by (simp add: visible_value_def visible_record_def)
qed

lemma visible_value_remove [simp]:
  "t < u \<Longrightarrow> visible_value (filter (\<lambda>r. hr_time r \<noteq> u) h) t = visible_value h t"
  by (rule visible_value_filter) (auto simp: txn_order_key)

text \<open>
  What a successful read at \<open>t\<close> leaves behind, and what every message keeps: the newest read
  covers \<open>t\<close>, and a lock is strictly younger.
\<close>

definition read_covered :: "txn_time \<Rightarrow> 'v mem_actor \<Rightarrow> bool" where
  "read_covered t m \<longleftrightarrow> history m \<noteq> [] \<and> (\<exists>l. lastRead m = Some l \<and> t \<le> l)
     \<and> (\<forall>w. writeLock m = Some w \<longrightarrow> t < w)"

lemma getValue_covers:
  assumes "mem_inv m" "history m \<noteq> []" "getValue t m = (Inr v, m')"
    and "\<forall>w. writeLock m = Some w \<longrightarrow> tkey w \<noteq> tkey t"
  shows "read_covered t m' \<and> v = visible_value (history m') t \<and> mem_inv m'"
  using assms getValue_inv [of m t]
  by (fastforce simp: read_covered_def getValue_def mem_inv_def txn_order_key
      split: option.splits if_splits)

lemma getValue_covered [simp]:
  "read_covered t m \<Longrightarrow> getValue t m = (Inr (visible_value (history m) t), m)"
  by (auto simp: read_covered_def getValue_def)

lemma getValue_keeps_cover:
  "read_covered t m \<Longrightarrow> read_covered t (snd (getValue u m))
     \<and> history (snd (getValue u m)) = history m"
  by (auto simp: read_covered_def getValue_def txn_order_key split: option.splits)

lemma take_writeLock_keeps_cover:
  "read_covered t m \<Longrightarrow> tkey u \<noteq> tkey t \<Longrightarrow> read_covered t (snd (take_writeLock u m))
     \<and> history (snd (take_writeLock u m)) = history m"
  by (auto simp: read_covered_def take_writeLock_def withActor_def txn_order_key split: option.splits)

lemma writeBlob_keeps_cover:
  "read_covered t m \<Longrightarrow> read_covered t (snd (writeBlob u v m))
     \<and> visible_value (history (snd (writeBlob u v m))) t = visible_value (history m) t"
  by (auto simp: read_covered_def writeBlob_def withActor_def txn_order_key split: option.splits)

lemma delete_value_keeps_cover:
  "read_covered t m \<Longrightarrow> read_covered t (snd (delete_value u m))
     \<and> visible_value (history (snd (delete_value u m))) t = visible_value (history m) t"
  by (auto simp: read_covered_def delete_value_def withActor_def txn_order_key split: option.splits)

lemma writeCommit_keeps_cover:
  "read_covered t m \<Longrightarrow> read_covered t (snd (writeCommit u m))
     \<and> visible_value (history (snd (writeCommit u m))) t = visible_value (history m) t"
  by (auto simp: read_covered_def writeCommit_def withActor_def split: option.splits)
     (auto simp: txn_order_key)

lemma writeReset_keeps_cover:
  "read_covered t m \<Longrightarrow> read_covered t (snd (writeReset u m)) \<and> history (snd (writeReset u m)) = history m"
  by (auto simp: read_covered_def writeReset_def withActor_def)

lemma init_value_keeps_cover:
  "read_covered t m \<Longrightarrow> snd (init_value u v m) = m"
  by (auto simp: read_covered_def init_value_def withActor_def)

lemma close_keeps_cover:
  "read_covered t m \<Longrightarrow> read_covered t (close_actor m) \<and> history (close_actor m) = history m"
  by (simp add: read_covered_def close_actor_def)

definition lock_times_avoid :: "txn_time \<Rightarrow> 'v mem_event list \<Rightarrow> bool" where
  "lock_times_avoid t es \<longleftrightarrow> (\<forall>e \<in> set es. \<forall>u. event_time e = Some u \<longrightarrow> tkey u \<noteq> tkey t)"

lemma mem_step_keeps_cover:
  assumes "read_covered t m" "\<And>u. event_time e = Some u \<Longrightarrow> tkey u \<noteq> tkey t"
  shows "read_covered t (mem_step e m)
    \<and> visible_value (history (mem_step e m)) t = visible_value (history m) t"
  using assms
  by (cases e) (simp_all add: getValue_keeps_cover take_writeLock_keeps_cover writeBlob_keeps_cover
      delete_value_keeps_cover writeCommit_keeps_cover writeReset_keeps_cover init_value_keeps_cover
      close_keeps_cover)

lemma mem_run_keeps_cover:
  "read_covered t m \<Longrightarrow> lock_times_avoid t es \<Longrightarrow> read_covered t (mem_run es m)
    \<and> visible_value (history (mem_run es m)) t = visible_value (history m) t"
proof (induction es arbitrary: m)
  case (Cons e es)
  then show ?case
    using mem_step_keeps_cover [of t m e]
    by (simp add: mem_run_def lock_times_avoid_def)
qed (simp add: mem_run_def)

section \<open>Garbage collection\<close>

lemma maxBy_time_bound:
  "bi < i \<Longrightarrow> fst (maxBy_time bi b i xs) < i + length xs"
proof (induction xs arbitrary: bi b i)
  case (Cons x xs)
  show ?case using Cons.IH [of i "Suc i" x] Cons.IH [of bi "Suc i" b] Cons.prems by simp
qed simp

lemma maxBy_time_nth:
  "bi < i \<Longrightarrow> ys ! bi = b \<Longrightarrow> drop i ys = xs \<Longrightarrow>
    ys ! fst (maxBy_time bi b i xs) = snd (maxBy_time bi b i xs)"
proof (induction xs arbitrary: bi b i)
  case (Cons x xs)
  have "ys ! i = x" "drop (Suc i) ys = xs"
    using Cons.prems(3) by (metis drop_eq_Nil2 hd_drop_conv_nth linorder_not_less list.discI list.sel(1))
      (metis Cons.prems(3) drop_Suc list.sel(3) tl_drop)
  then show ?case
    using Cons.IH [of i "Suc i" x] Cons.IH [of bi "Suc i" b] Cons.prems by simp
qed simp

lemma maxBy_time_max:
  "hr_time b \<le> hr_time (snd (maxBy_time bi b i xs)) \<and>
   (\<forall>x \<in> set xs. hr_time x \<le> hr_time (snd (maxBy_time bi b i xs)))"
proof (induction xs arbitrary: bi b i)
  case (Cons x xs)
  show ?case using Cons.IH [of x i "Suc i"] Cons.IH [of b bi "Suc i"]
    by (auto simp: txn_order_key)
qed simp

text \<open>The head of a non-empty history: its index is in range and no record is newer.\<close>

lemma maxBy_time_head:
  assumes "h = r # rs"
  shows "fst (maxBy_time 0 r 1 rs) < length h"
    "h ! fst (maxBy_time 0 r 1 rs) = snd (maxBy_time 0 r 1 rs)"
    "\<forall>x \<in> set h. hr_time x \<le> hr_time (snd (maxBy_time 0 r 1 rs))"
  using assms maxBy_time_bound [of 0 1 r rs] maxBy_time_nth [of 0 1 h r rs] maxBy_time_max [of r 0 1 rs]
  by auto

definition head_time :: "'v mem_actor \<Rightarrow> txn_time option" where
  "head_time m = (case history m of [] \<Rightarrow> None | r # rs \<Rightarrow> Some (hr_time (snd (maxBy_time 0 r 1 rs))))"

lemma collectGarbage_history:
  assumes "collectGarbage now m = (Inr n, m')" "history m = r # rs"
  defines "k \<equiv> fst (maxBy_time 0 r 1 rs)"
  defines "keep \<equiv> filter (\<lambda>i. \<not> age_ns now (hr_time (history m ! i)) > 15000000000 \<or> i = k) [0..<length (history m)]"
  shows "history m' = map (\<lambda>i. history m ! i) keep \<and> writeLock m' = writeLock m \<and> lastRead m' = lastRead m
    \<and> n + length (history m') = length (history m)"
proof -
  let ?G = "\<lambda>i. age_ns now (hr_time (history m ! i)) > 15000000000 \<and> i \<noteq> k"
  have h: "n = length (filter ?G [0..<length (history m)])"
    "history m' = map (\<lambda>i. history m ! i) (filter (\<lambda>i. \<not> ?G i) [0..<length (history m)])"
    "writeLock m' = writeLock m" "lastRead m' = lastRead m"
    using assms(1,2) unfolding k_def
    by (auto simp: collectGarbage_def withActor_def Let_def simp del: upt_Suc split: if_splits)
  moreover have "keep = filter (\<lambda>i. \<not> ?G i) [0..<length (history m)]"
    unfolding keep_def by (intro filter_cong) auto
  ultimately show ?thesis
    using sum_length_filter_compl [of ?G "[0..<length (history m)]"] by simp
qed

lemma collectGarbage_result:
  assumes "\<not> closed m" "history m = r # rs"
  obtains n m' where "collectGarbage now m = (Inr n, m')"
  using assms by (simp add: collectGarbage_def withActor_def Let_def del: upt_Suc)

text \<open>
  With distinct effective times the head is the last record, and a collection keeps it there.
\<close>

definition strict_history :: "'v history_record list \<Rightarrow> bool" where
  "strict_history h \<longleftrightarrow> sorted_wrt (\<lambda>a b. hr_time a < hr_time b) h"

lemma strict_history_head:
  assumes "strict_history h" "h = r # rs"
  shows "fst (maxBy_time 0 r 1 rs) = length rs"
proof (rule ccontr)
  let ?k = "fst (maxBy_time 0 r 1 rs)"
  assume "?k \<noteq> length rs"
  then have k: "?k < length rs" using maxBy_time_head(1) [OF assms(2)] assms(2) by simp
  then have "hr_time (h ! ?k) < hr_time (h ! length rs)"
    using sorted_wrt_nth_less [OF assms(1) [unfolded strict_history_def] k] assms(2) by simp
  moreover have "hr_time (h ! length rs) \<le> hr_time (h ! ?k)"
    using maxBy_time_head(2,3) [OF assms(2)] assms(2) by (metis length_Cons lessI nth_mem)
  ultimately show False by (simp add: txn_order_key)
qed

lemma collectGarbage_keeps_last:
  assumes "collectGarbage now m = (Inr n, m')" "history m = r # rs" "strict_history (history m)"
  shows "\<exists>xs. history m' = xs @ [last (history m)] \<and> set xs \<subseteq> set (history m)"
proof -
  let ?h = "history m" and ?k = "fst (maxBy_time 0 r 1 rs)"
  let ?P = "\<lambda>i. \<not> age_ns now (hr_time (?h ! i)) > 15000000000 \<or> i = ?k"
  have k: "?k = length rs" using strict_history_head [OF assms(3,2)] .
  have len: "length ?h = Suc (length rs)" using assms(2) by simp
  have "history m' = map (\<lambda>i. ?h ! i) (filter ?P [0..<Suc (length rs)])"
    using collectGarbage_history [OF assms(1,2)] unfolding len by blast
  also have "\<dots> = map (\<lambda>i. ?h ! i) (filter ?P [0..<length rs]) @ [?h ! length rs]"
    using k by simp
  also have "?h ! length rs = last ?h" using assms(2) by (metis diff_Suc_1 last_conv_nth len list.discI)
  finally show ?thesis using len
    by (intro exI [of _ "map (\<lambda>i. ?h ! i) (filter ?P [0..<length rs])"]) auto
qed

section \<open>Collection and late writes\<close>

lemma collectGarbage_current:
  assumes "collectGarbage now m = (Inr n, m')" "history m = r # rs" "strict_history (history m)"
  shows "strict_history (history m') \<and> last (history m') = last (history m) \<and> history m' \<noteq> []"
proof -
  obtain xs where xs: "history m' = xs @ [last (history m)]"
    using collectGarbage_keeps_last [OF assms] by blast
  let ?h = "history m" and ?k = "fst (maxBy_time 0 r 1 rs)"
  let ?keep = "filter (\<lambda>i. \<not> age_ns now (hr_time (?h ! i)) > 15000000000 \<or> i = ?k) [0..<length ?h]"
  have m': "history m' = map (\<lambda>i. ?h ! i) ?keep" using collectGarbage_history [OF assms(1,2)] by blast
  have "sorted_wrt (<) ?keep" using sorted_wrt_filter strict_sorted_iff sorted_wrt_upt by blast
  then have "sorted_wrt (\<lambda>i j. hr_time (?h ! i) < hr_time (?h ! j)) ?keep"
  proof (rule sorted_wrt_mono_rel [rotated])
    fix i j assume "i \<in> set ?keep" "j \<in> set ?keep" "i < j"
    then show "hr_time (?h ! i) < hr_time (?h ! j)"
      using sorted_wrt_nth_less [OF assms(3) [unfolded strict_history_def], of i j] by simp
  qed
  then have "strict_history (history m')" unfolding m' strict_history_def sorted_wrt_map .
  then show ?thesis using xs by simp
qed

lemma visible_value_at_last:
  "h \<noteq> [] \<Longrightarrow> hr_time (last h) \<le> t \<Longrightarrow> visible_value h t = hr_value (last h)"
  using visible_value_append_now [of "last h" t "butlast h"] by simp

lemma maxBy_time_strict_last:
  assumes "strict_history h" "h = r # rs"
  shows "snd (maxBy_time 0 r 1 rs) = last h"
  using strict_history_head [OF assms] maxBy_time_head(2) [OF assms(2)] assms(2)
  by (metis diff_Suc_1 last_conv_nth length_Cons list.discI)

lemma getCurrentValue_last:
  assumes "\<not> closed m" "strict_history (history m)" "history m \<noteq> []"
  shows "getCurrentValue m = (Inr (Some (hr_time (last (history m)), hr_value (last (history m)))), m)"
proof -
  obtain r rs where h: "history m = r # rs" using assms(3) by (cases "history m") auto
  then show ?thesis using assms(1) maxBy_time_strict_last [OF assms(2) h]
    by (simp add: getCurrentValue_def withActor_def Let_def)
qed

text \<open>A lock committed before its value arrives.\<close>

lemma early_commit_state:
  assumes "writeLock m = None" "queuedValue m = None" "take_writeLock t m = (Inr None, m1)"
    "writeCommit t m1 = (r, m2)"
  shows "r = Inr () \<and> \<not> closed m2 \<and> m2 = m\<lparr>staleCommit := Some t\<rparr> \<and> m1 = m\<lparr>writeLock := Some t\<rparr>"
proof -
  have cl: "\<not> closed m" using assms(3) by (auto simp: take_writeLock_def withActor_def)
  have m1: "m1 = m\<lparr>writeLock := Some t\<rparr>"
    using assms(1,3) cl by (auto simp: take_writeLock_def withActor_def split: if_splits option.splits)
  moreover have "r = Inr ()" "m2 = m1\<lparr>staleCommit := Some t, writeLock := None\<rparr>"
    using assms(2,4) cl m1 by (auto simp: writeCommit_def withActor_def)
  ultimately show ?thesis using cl assms(1) by simp
qed

text \<open>Closing is for good, a read leaves the history alone, and the init of an empty pointer forgets the
  newest read.\<close>

lemma mem_step_closed: "closed m \<Longrightarrow> closed (mem_step e m)"
  by (cases e) (auto simp: mem_ops split: option.splits)

lemma mem_run_closed: "closed m \<Longrightarrow> closed (mem_run es m)"
  unfolding mem_run_def by (induction es arbitrary: m) (simp_all add: mem_step_closed)

lemma getValue_history: "history (snd (getValue t m)) = history m"
  by (auto simp: getValue_def split: option.splits)

lemma init_forgets_read:
  "history m = [] \<Longrightarrow> \<not> closed m \<Longrightarrow> s \<le> u \<Longrightarrow> fst (take_writeLock u (snd (init_value s y m))) = Inr None"
  by (simp add: init_value_def take_writeLock_def withActor_def txn_order_key)

section \<open>Properties\<close>

text \<open>C4. Snapshot reads are repeatable: after a read at \<open>t\<close> of an initialised pointer has returned
  a value, a read at \<open>t\<close> returns the same value again after any sequence of messages (reads, locks,
  queued writes, deletes, commits, resets, inits, closing) of transactions with other effective times.\<close>

theorem snapshot_read_stable:
  assumes "mem_inv m" "history m \<noteq> []" "getValue t m = (Inr v, m')"
    and "\<forall>w. writeLock m = Some w \<longrightarrow> tkey w \<noteq> tkey t" "lock_times_avoid t es"
  shows "fst (getValue t (mem_run es m')) = Inr v"
proof -
  have c: "read_covered t m'" "v = visible_value (history m') t"
    using getValue_covers [OF assms(1-4)] by auto
  then show ?thesis using mem_run_keeps_cover [OF c(1) assms(5)] by simp
qed

text \<open>C6. A read shuts out older writers of an initialised pointer, and only of an initialised one.  The
  pointer satisfies its invariant, the transaction that holds its lock at the read, if any, and those
  that lock it afterwards have effective times other than \<open>t\<close>, and the actor is open when the late
  writer comes.  If its history was not empty at the read, then after a read at \<open>t\<close> a transaction
  older than \<open>t\<close> is never given the write lock, whatever messages come between; it is told of a
  younger time instead.  If its history was empty (a read that found nothing), the read protects
  nothing: an init at any time no later than \<open>u\<close> sets the newest read back, and the older
  transaction \<open>u\<close> is given the lock.\<close>

theorem older_writer_locked_out:
  assumes "mem_inv m" "getValue t m = (Inr v, m')"
    and "\<forall>w. writeLock m = Some w \<longrightarrow> tkey w \<noteq> tkey t" "lock_times_avoid t es"
    and "u < t" "\<not> closed (mem_run es m')"
  shows "(history m \<noteq> [] \<longrightarrow> (\<exists>x. fst (take_writeLock u (mem_run es m')) = Inr (Some x) \<and> u < x))
    \<and> (history m = [] \<longrightarrow> (\<forall>s y. s \<le> u \<longrightarrow>
          fst (take_writeLock u (snd (init_value s y m'))) = Inr None))"
proof (intro conjI impI allI)
  assume "history m \<noteq> []"
  then have c: "read_covered t m'" using getValue_covers [OF assms(1) _ assms(2,3)] by auto
  then have "read_covered t (mem_run es m')" using mem_run_keeps_cover [OF c assms(4)] by simp
  then show "\<exists>x. fst (take_writeLock u (mem_run es m')) = Inr (Some x) \<and> u < x" using assms(5,6)
    by (auto simp: read_covered_def take_writeLock_def withActor_def txn_order_key split: option.splits)
next
  fix s y assume "history m = []" "s \<le> u"
  moreover have "history m' = history m" using assms(2) getValue_history by (metis snd_conv)
  moreover have "\<not> closed m'" using assms(6) mem_run_closed by blast
  ultimately show "fst (take_writeLock u (snd (init_value s y m'))) = Inr None"
    by (simp add: init_forgets_read)
qed

text \<open>While one transaction holds the write lock of a pointer, every other transaction that locks
  is told the owner, and its writes, deletes, commits and resets fail; none of them changes the pointer.\<close>

theorem write_lock_exclusive:
  assumes "writeLock m = Some w" "t \<noteq> w" "staleCommit m \<noteq> Some t" "\<not> closed m"
  shows "take_writeLock t m = (Inr (Some w), m)
    \<and> writeBlob t v m = (Inl (TransactionConflict None), m)
    \<and> delete_value t m = (Inl (TransactionConflict None), m)
    \<and> writeCommit t m = (Inl RequirementFailed, m) \<and> writeReset t m = (Inl RequirementFailed, m)"
  using assms by (simp add: mem_ops)

text \<open>C5. The commit protocol: a lock that is granted, one queued value and a commit publish the value.
  Reads at or after the commit time see it and older reads see what they saw before; the lock and the
  queue are free again, and the history stays in order.\<close>

theorem commit_publishes:
  assumes "mem_inv m" "writeLock m = None" "queuedValue m = None" "staleCommit m \<noteq> Some t"
    and "take_writeLock t m = (Inr None, m1)" "writeBlob t v m1 = (r2, m2)" "writeCommit t m2 = (r3, m3)"
  shows "r2 = Inr () \<and> r3 = Inr () \<and> writeLock m3 = None \<and> queuedValue m3 = None \<and> mem_inv m3
    \<and> (\<forall>u. t \<le> u \<longrightarrow> visible_value (history m3) u = Some v)
    \<and> (\<forall>u. u < t \<longrightarrow> visible_value (history m3) u = visible_value (history m) u)"
proof -
  have cl: "\<not> closed m" using assms(5) by (auto simp: take_writeLock_def withActor_def)
  have m1: "m1 = m\<lparr>writeLock := Some t\<rparr>"
    using assms(2,5) cl by (auto simp: take_writeLock_def withActor_def split: if_splits option.splits)
  have m2: "r2 = Inr ()" "m2 = m1\<lparr>queuedValue := Some (Some v)\<rparr>"
    using assms(3,4,6) cl m1 by (auto simp: writeBlob_def withActor_def)
  have m3: "r3 = Inr ()"
    "m3 = m2\<lparr>history := filter (\<lambda>r. hr_time r \<noteq> t) (history m) @ [new_record t (Some v)],
       staleCommit := None, queuedValue := None, writeLock := None\<rparr>"
    using assms(7) cl m1 m2 by (auto simp: writeCommit_def withActor_def)
  have "mem_inv m3"
    using assms(1,5,6,7) take_writeLock_inv [of m t] writeBlob_inv [of m1 t v] writeCommit_inv [of m2 t]
    by simp
  moreover have "visible_value (history m3) u = visible_value (history m) u" if "u < t" for u
    using that m3 by (simp add: txn_order_key)
  ultimately show ?thesis using m2 m3 by (auto simp: visible_value_append_now)
qed

text \<open>C13. A write that arrives after its commit is never stored under its own time: with the lock free the
  write fails and its value is dropped; and when a second transaction has locked the pointer in
  between, the value is stored under the time of the second transaction, whose lock is taken away
  without its consent, so that its own commit fails.\<close>

theorem late_write_misdated:
  assumes "writeLock m = None" "queuedValue m = None" "t \<noteq> u"
    and "take_writeLock t m = (Inr None, m1)" "writeCommit t m1 = (r, m2)"
    and "take_writeLock u m2 = (Inr None, m3)" "writeBlob t v m3 = (r4, m4)"
  shows "fst (writeBlob t v m2) = Inl NoSuchElement
    \<and> r4 = Inr () \<and> history m4 = history m @ [new_record u (Some v)] \<and> writeLock m4 = None
    \<and> fst (writeCommit u m4) = Inl RequirementFailed"
proof -
  have m2: "\<not> closed m2" "m2 = m\<lparr>staleCommit := Some t\<rparr>"
    using early_commit_state [OF assms(1,2,4,5)] by auto
  have m3: "m3 = m2\<lparr>writeLock := Some u\<rparr>"
    using assms(1,6) m2 by (auto simp: take_writeLock_def withActor_def split: if_splits option.splits)
  have "r4 = Inr ()" "m4 = m3\<lparr>history := history m @ [new_record u (Some v)], writeLock := None,
      queuedValue := None, staleCommit := None\<rparr>"
    using assms(2,7) m2 m3 by (auto simp: writeBlob_def withActor_def)
  then show ?thesis using m2 m3 assms(1,2) by (simp add: writeBlob_def writeCommit_def withActor_def)
qed

text \<open>Garbage collection of an ordered history keeps the current value, every read at or after the time
  of the newest record, and the order of the history.\<close>

theorem collectGarbage_keeps_current:
  assumes "strict_history (history m)" "collectGarbage now m = (Inr n, m')"
    and "hr_time (last (history m)) \<le> t"
  shows "fst (getCurrentValue m') = fst (getCurrentValue m)
    \<and> visible_value (history m') t = visible_value (history m) t \<and> strict_history (history m')"
proof -
  have ne: "history m \<noteq> []" and cl: "\<not> closed m"
    using assms(2) by (auto simp: collectGarbage_def withActor_def split: if_splits)
  then obtain r rs where h: "history m = r # rs" by (cases "history m") auto
  have m': "strict_history (history m')" "last (history m') = last (history m)" "history m' \<noteq> []"
    using collectGarbage_current [OF assms(2) h assms(1)] by auto
  have cl': "\<not> closed m'" using assms(2) cl h
    by (auto simp: collectGarbage_def withActor_def Let_def simp del: upt_Suc)
  show ?thesis
    using getCurrentValue_last [OF cl assms(1) ne] getCurrentValue_last [OF cl' m'(1,3)]
      visible_value_at_last [OF ne] visible_value_at_last [OF m'(3)] m' assms(3) by simp
qed

text \<open>Garbage collection does not keep the snapshots of running transactions: when every record a
  transaction at \<open>t\<close> can see is older than fifteen seconds and a newer record exists, the value the
  transaction read before the collection is gone after it, and its read returns nothing.\<close>

theorem collectGarbage_loses_snapshot:
  assumes "strict_history (history m)" "collectGarbage now m = (Inr n, m')"
    and "visible_value (history m) t = Some v" "t < hr_time (last (history m))"
    and "\<forall>r \<in> set (history m). hr_time r \<le> t \<longrightarrow> age_ns now (hr_time r) > 15000000000"
  shows "visible_value (history m') t = None"
proof -
  obtain r rs where h: "history m = r # rs" using assms(3)
    by (cases "history m") (auto simp: visible_value_def visible_record_def)
  have k: "fst (maxBy_time 0 r 1 rs) = length rs" using strict_history_head [OF assms(1) h] .
  have last: "history m ! length rs = last (history m)" using h by (metis diff_Suc_1 last_conv_nth length_Cons list.discI)
  have "\<not> hr_time x \<le> t" if mem: "x \<in> set (history m')" for x
  proof -
    obtain i where i: "i < length (history m)" "x = history m ! i"
      "\<not> age_ns now (hr_time x) > 15000000000 \<or> i = length rs"
      using mem collectGarbage_history [OF assms(2) h] unfolding k by (auto simp del: upt_Suc)
    show ?thesis
    proof (cases "i = length rs")
      case True then show ?thesis using assms(4) i(2) last by (simp add: txn_order_key)
    next
      case False then show ?thesis using assms(5) i by (metis nth_mem)
    qed
  qed
  then show ?thesis by (simp add: visible_value_def visible_record_def filter_empty_conv)
qed

section \<open>Witnesses\<close>

definition at_sec :: "int \<Rightarrow> txn_time" where
  "at_sec s = TxnTime (ExactTime s 0) 0"

lemma tkey_at_sec [simp]: "tkey (at_sec s) = s * 1000000000"
  by (simp add: at_sec_def tkey_def duration_def)

lemma at_sec_eq [simp]: "at_sec a = at_sec b \<longleftrightarrow> a = b"
  by (simp add: at_sec_def)

lemma age_at_sec [simp]: "age_ns (ExactTime a 0) (at_sec b) = (a - b) * 1000000000"
  by (simp add: age_ns_eq at_sec_def duration_def)

text \<open>A pointer created at second 80 and overwritten at second 95, as its messages leave it.\<close>

definition two_writes :: "nat mem_actor" where
  "two_writes = mem_run [EvInit (at_sec 80) 1, EvLock (at_sec 95), EvBlob (at_sec 95) 2,
     EvCommit (at_sec 95), EvGet (at_sec 95)] (new_mem_actor None)"

lemma two_writes_eq: "two_writes = \<lparr>history = [new_record (at_sec 80) (Some 1), new_record (at_sec 95) (Some 2)],
     lastRead = Some (at_sec 95), writeLock = None, staleCommit = None, queuedValue = None, closed = False\<rparr>"
  by (simp add: two_writes_def mem_run_def new_mem_actor_def mem_ops txn_order_key)

lemma two_writes_inv: "mem_inv two_writes"
  unfolding two_writes_def by (intro mem_run_inv mem_inv_new)

lemma two_writes_strict: "strict_history (history two_writes)"
  by (simp add: two_writes_eq strict_history_def txn_order_key)

lemma two_writes_collected:
  "collectGarbage (ExactTime 100 0) two_writes =
     (Inr 1, two_writes\<lparr>history := [new_record (at_sec 95) (Some 2)]\<rparr>)"
  by (simp add: two_writes_eq collectGarbage_def withActor_def txn_order_key upt_rec Let_def)

theorem snapshot_read_stable_witness:
  "fst (getValue (at_sec 90) (mem_run [EvLock (at_sec 99), EvBlob (at_sec 99) 3, EvCommit (at_sec 99)]
     two_writes)) = Inr (Some 1)"
  by (rule snapshot_read_stable [OF two_writes_inv])
     (simp_all add: two_writes_eq getValue_def txn_order_key visible_value_def visible_record_def
       lock_times_avoid_def)

theorem older_writer_locked_out_witness:
  "(\<exists>x. fst (take_writeLock (at_sec 85) (mem_run [EvLock (at_sec 99)] two_writes)) = Inr (Some x) \<and> at_sec 85 < x)
   \<and> fst (take_writeLock (at_sec 85) (snd (init_value (at_sec 80) 1
        ((new_mem_actor None :: nat mem_actor)\<lparr>lastRead := Some (at_sec 90)\<rparr>)))) = Inr None"
  using older_writer_locked_out [OF two_writes_inv, where t = "at_sec 90" and es = "[EvLock (at_sec 99)]"
      and u = "at_sec 85"]
    older_writer_locked_out [OF mem_inv_new [where 'a = nat, of None], where t = "at_sec 90" and es = "[]"
      and u = "at_sec 85"]
  by (auto simp: two_writes_eq getValue_def txn_order_key visible_value_def visible_record_def
       lock_times_avoid_def mem_run_def take_writeLock_def withActor_def new_mem_actor_def)

theorem write_lock_exclusive_witness:
  "take_writeLock (at_sec 98) (two_writes\<lparr>writeLock := Some (at_sec 99)\<rparr>)
     = (Inr (Some (at_sec 99)), two_writes\<lparr>writeLock := Some (at_sec 99)\<rparr>)"
  using write_lock_exclusive [of "two_writes\<lparr>writeLock := Some (at_sec 99)\<rparr>" "at_sec 99" "at_sec 98"]
  by (simp add: two_writes_eq)

lemma two_writes_lock:
  "take_writeLock (at_sec 99) two_writes = (Inr None, two_writes\<lparr>writeLock := Some (at_sec 99)\<rparr>)"
  by (simp add: two_writes_eq take_writeLock_def withActor_def txn_order_key)

theorem commit_publishes_witness:
  "visible_value (history (snd (writeCommit (at_sec 99) (snd (writeBlob (at_sec 99) 7
     (two_writes\<lparr>writeLock := Some (at_sec 99)\<rparr>)))))) (at_sec 99) = Some 7"
  using commit_publishes [OF two_writes_inv _ _ _ two_writes_lock prod.collapse [symmetric] prod.collapse [symmetric], of 7]
  by (simp add: two_writes_eq)

theorem late_write_misdated_witness:
  "fst (writeBlob (at_sec 99) 7 (two_writes\<lparr>staleCommit := Some (at_sec 99)\<rparr>)) = Inl NoSuchElement"
  using late_write_misdated [OF _ _ _ two_writes_lock, of "at_sec 101" _ _
      "two_writes\<lparr>staleCommit := Some (at_sec 99), writeLock := Some (at_sec 101)\<rparr>" 7]
  by (simp add: two_writes_eq take_writeLock_def writeCommit_def writeBlob_def withActor_def txn_order_key)

theorem collectGarbage_keeps_current_witness:
  "visible_value (history (two_writes\<lparr>history := [new_record (at_sec 95) (Some 2)]\<rparr>)) (at_sec 96) = Some 2"
  using collectGarbage_keeps_current [OF two_writes_strict two_writes_collected, of "at_sec 96"]
  by (simp add: two_writes_eq txn_order_key visible_value_def visible_record_def)

theorem collectGarbage_loses_snapshot_witness:
  "visible_value (history two_writes) (at_sec 90) = Some 1 \<and>
   visible_value (history (two_writes\<lparr>history := [new_record (at_sec 95) (Some 2)]\<rparr>)) (at_sec 90) = None"
  using collectGarbage_loses_snapshot [OF two_writes_strict two_writes_collected, of "at_sec 90" 1]
  by (simp add: two_writes_eq txn_order_key visible_value_def visible_record_def)

end
