(* ===== verification/TxnActor.thy ===== *)
theory TxnActor
  imports MemActor
begin

text \<open>
  A transaction's record, \<open>restm-core/.../storage/actors/TxnActor.scala\<close>: the pointers it has
  locked and its state.  The state leaves OPEN once; after that the set of locks is frozen.
  A transaction actor is never closed.
\<close>

datatype txn_state = OPEN | COMMIT | RESET

record 'p txn_actor =
  locks :: "'p list"
  state :: txn_state

definition new_txn_actor :: "'p txn_actor" where
  "new_txn_actor = \<lparr>locks = [], state = OPEN\<rparr>"

definition addLock :: "'p \<Rightarrow> 'p txn_actor \<Rightarrow> txn_state \<times> 'p txn_actor" where
  "addLock p a = (let a' = (if state a = OPEN then a\<lparr>locks := List.insert p (locks a)\<rparr> else a) in (state a', a'))"

definition setState :: "txn_state \<Rightarrow> 'p txn_actor \<Rightarrow> (store_error + 'p list) \<times> 'p txn_actor" where
  "setState st a =
     (if state a \<noteq> st then
        (if state a \<noteq> OPEN then (Inl RequirementFailed, a)
         else if st = OPEN then (Inl RequirementFailed, a)
         else (Inr (locks a), a\<lparr>state := st\<rparr>))
      else (Inr (locks a), a))"

definition getState :: "'p txn_actor \<Rightarrow> txn_state \<times> 'p txn_actor" where
  "getState a = (state a, a)"

datatype 'p txn_event = EvAddLock 'p | EvSetState txn_state | EvGetState

fun txn_step :: "'p txn_event \<Rightarrow> 'p txn_actor \<Rightarrow> 'p txn_actor" where
  "txn_step (EvAddLock p) a = snd (addLock p a)"
| "txn_step (EvSetState st) a = snd (setState st a)"
| "txn_step EvGetState a = snd (getState a)"

definition txn_run :: "'p txn_event list \<Rightarrow> 'p txn_actor \<Rightarrow> 'p txn_actor" where
  "txn_run es a = fold txn_step es a"

lemma addLock_cases:
  "addLock p a = (if state a = OPEN then (OPEN, a\<lparr>locks := List.insert p (locks a)\<rparr>) else (state a, a))"
  by (simp add: addLock_def Let_def)

lemma setState_ok_iff:
  "(\<exists>ls. fst (setState st a) = Inr ls) \<longleftrightarrow> state a = st \<or> (state a = OPEN \<and> st \<noteq> OPEN)"
  by (simp add: setState_def)

lemma setState_locks [simp]: "locks (snd (setState st a)) = locks a"
  by (simp add: setState_def)

lemma setState_result: "fst (setState st a) = Inr ls \<Longrightarrow> ls = locks a \<and> state (snd (setState st a)) = st"
  by (auto simp: setState_def split: if_splits)

lemma txn_step_frozen: "state a \<noteq> OPEN \<Longrightarrow> txn_step e a = a"
  by (cases e) (simp_all add: addLock_cases setState_def getState_def)

lemma txn_run_frozen: "state a \<noteq> OPEN \<Longrightarrow> txn_run es a = a"
  unfolding txn_run_def by (induction es arbitrary: a) (simp_all add: txn_step_frozen)

text \<open>C7. A transaction decides once: whatever messages arrive after it has been committed or reset, its state
  and its set of locked pointers stay as they were, the other outcome is refused, the same outcome
  answers with the same locks, and a lock reported late is told the outcome and not recorded.\<close>

theorem txn_outcome_is_final:
  assumes "setState st a = (Inr ls, a')" "st \<noteq> OPEN" "other \<noteq> st"
  shows "let b = txn_run es a' in state b = st \<and> locks b = locks a
    \<and> setState st b = (Inr ls, b) \<and> setState other b = (Inl RequirementFailed, b)
    \<and> addLock p b = (st, b)"
proof -
  have a': "state a' = st" "locks a' = locks a" "ls = locks a"
    using setState_result [of st a ls] setState_locks [of st a] assms(1) by auto
  have "txn_run es a' = a'" using a'(1) assms(2) by (simp add: txn_run_frozen)
  then show ?thesis using a' assms(2,3) by (simp add: setState_def addLock_cases)
qed

theorem txn_outcome_is_final_witness:
  "state (txn_run [EvAddLock 2, EvSetState RESET] \<lparr>locks = [1::nat], state = COMMIT\<rparr>) = COMMIT"
  using txn_outcome_is_final [of COMMIT "\<lparr>locks = [1::nat], state = OPEN\<rparr>" "[1]" "\<lparr>locks = [1], state = COMMIT\<rparr>" RESET
      "[EvAddLock 2, EvSetState RESET]" 3]
  by (simp add: setState_def Let_def)

end
