(* ===== verification/Restm.thy ===== *)
theory Restm
  imports TxnActor "HOL-Library.AList"
begin

text \<open>
  The storage node: \<open>RestmActors\<close> (the pointer and transaction actors, the cold store and the
  freezing of pointers), \<open>HeapColdStorage\<close>, and the protocol of \<open>RestmImpl\<close> over it.  A commit or
  a reset answers as soon as the transaction has changed state; the calls it starts on the
  locked pointers are futures nobody waits for, so they stand in the store as outstanding tasks
  that a step may run in any order.  The second half of a lock, which records the lock with its
  transaction, is a task as well.  The test switch \<open>failChainedCalls\<close>, which keeps these calls from
  being started, is off here, as it is unless a test sets it.  \<open>ptrs1\<close> is a cache of \<open>ptrs2\<close> with the same entries: one map.
\<close>

section \<open>State\<close>

datatype 'p restm_task =
    CommitValue 'p txn_time
  | ResetValue 'p txn_time
  | AddLock 'p txn_time

record ('p, 'v) store =
  ptrs :: "'p \<rightharpoonup> 'v mem_actor"
  txns :: "txn_time \<rightharpoonup> 'p txn_actor"
  cold :: "'p \<Rightarrow> (txn_time \<times> 'v option) list"
  freezeQueue :: "'p list"
  tasks :: "'p restm_task list"
  wall :: exact_time

definition new_store :: "exact_time \<Rightarrow> ('p, 'v) store" where
  "new_store w = \<lparr>ptrs = Map.empty, txns = Map.empty, cold = (\<lambda>_. []), freezeQueue = [], tasks = [], wall = w\<rparr>"

section \<open>Cold storage\<close>

definition cold_store :: "'p \<Rightarrow> (txn_time \<times> 'v option) list \<Rightarrow> ('p, 'v) store \<Rightarrow> ('p, 'v) store" where
  "cold_store p data s =
     s\<lparr>cold := (cold s)(p := fold (\<lambda>(t, v) d. AList.update t v d) data (cold s p))\<rparr>"

definition cold_read :: "'p \<Rightarrow> ('p, 'v) store \<Rightarrow> (txn_time \<times> 'v option) list" where
  "cold_read p s = cold s p"

definition wall_ms :: "('p, 'v) store \<Rightarrow> int" where
  "wall_ms s = duration (wall s) div 1000000"

section \<open>Actors\<close>

text \<open>A pointer that is not in memory is restored from the cold store, in time order.\<close>

definition restored_actor :: "'p \<Rightarrow> txn_time option \<Rightarrow> ('p, 'v) store \<Rightarrow> 'v mem_actor" where
  "restored_actor p t s = (new_mem_actor t)\<lparr>history :=
     sort_key (\<lambda>r. tkey (hr_time r))
       (map (\<lambda>(u, v). \<lparr>hr_time = u, hr_value = v, coldStorageTs = Some (wall_ms s)\<rparr>) (cold_read p s))\<rparr>"

definition getPtrActor :: "'p \<Rightarrow> txn_time option \<Rightarrow> ('p, 'v) store \<Rightarrow> 'v mem_actor \<times> ('p, 'v) store" where
  "getPtrActor p t s =
     (case ptrs s p of
        Some a \<Rightarrow> (a, s)
      | None \<Rightarrow> (let a = restored_actor p t s in (a, s\<lparr>ptrs := (ptrs s)(p \<mapsto> a)\<rparr>)))"

definition with_ptr ::
  "'p \<Rightarrow> txn_time option \<Rightarrow> ('v mem_actor \<Rightarrow> 'r \<times> 'v mem_actor) \<Rightarrow> ('p, 'v) store \<Rightarrow> 'r \<times> ('p, 'v) store" where
  "with_ptr p t f s =
     (let (a, s1) = getPtrActor p t s; (r, a') = f a in (r, s1\<lparr>ptrs := (ptrs s1)(p \<mapsto> a')\<rparr>))"

definition getTxnActor :: "txn_time \<Rightarrow> ('p, 'v) store \<Rightarrow> 'p txn_actor" where
  "getTxnActor t s = (case txns s t of Some a \<Rightarrow> a | None \<Rightarrow> new_txn_actor)"

definition with_txn ::
  "txn_time \<Rightarrow> ('p txn_actor \<Rightarrow> 'r \<times> 'p txn_actor) \<Rightarrow> ('p, 'v) store \<Rightarrow> 'r \<times> ('p, 'v) store" where
  "with_txn t f s = (let (r, a') = f (getTxnActor t s) in (r, s\<lparr>txns := (txns s)(t \<mapsto> a')\<rparr>))"

definition queueStorage :: "'p \<Rightarrow> ('p, 'v) store \<Rightarrow> ('p, 'v) store" where
  "queueStorage p s = s\<lparr>freezeQueue := freezeQueue s @ [p]\<rparr>"

section \<open>RestmActors: the internal operations\<close>

definition queueValue :: "'p \<Rightarrow> txn_time \<Rightarrow> 'v \<Rightarrow> ('p, 'v) store \<Rightarrow> (store_error + unit) \<times> ('p, 'v) store" where
  "queueValue p t v = with_ptr p (Some t) (writeBlob t v)"

definition initValue :: "txn_time \<Rightarrow> 'v \<Rightarrow> 'p \<Rightarrow> ('p, 'v) store \<Rightarrow> (store_error + bool) \<times> ('p, 'v) store" where
  "initValue t v p s = (let (r, s1) = with_ptr p (Some t) (init_value t v) s
     in (r, if r = Inr True then queueStorage p s1 else s1))"

definition txnState :: "txn_time \<Rightarrow> ('p, 'v) store \<Rightarrow> txn_state \<times> ('p, 'v) store" where
  "txnState t = with_txn t getState"

definition resetValue :: "'p \<Rightarrow> txn_time \<Rightarrow> ('p, 'v) store \<Rightarrow> (store_error + unit) \<times> ('p, 'v) store" where
  "resetValue p t = with_ptr p (Some t) (writeReset t)"

definition lockValue :: "'p \<Rightarrow> txn_time \<Rightarrow> ('p, 'v) store \<Rightarrow> (store_error + txn_time option) \<times> ('p, 'v) store" where
  "lockValue p t = with_ptr p (Some t) (take_writeLock t)"

definition commitValue :: "'p \<Rightarrow> txn_time \<Rightarrow> ('p, 'v) store \<Rightarrow> (store_error + unit) \<times> ('p, 'v) store" where
  "commitValue p t s = (let (r, s1) = with_ptr p (Some t) (writeCommit t) s
     in (r, if r = Inr () then queueStorage p s1 else s1))"

definition getValueNow :: "'p \<Rightarrow> ('p, 'v) store \<Rightarrow> (store_error + 'v option) \<times> ('p, 'v) store" where
  "getValueNow p s = (let (r, s1) = with_ptr p None getCurrentValue s
     in ((case r of Inl e \<Rightarrow> Inl e | Inr None \<Rightarrow> Inr None | Inr (Some (t, v)) \<Rightarrow> Inr v), s1))"

definition getValueAt :: "'p \<Rightarrow> txn_time \<Rightarrow> ('p, 'v) store \<Rightarrow> (store_error + 'v option) \<times> ('p, 'v) store" where
  "getValueAt p t = with_ptr p (Some t) (getValue t)"

definition addTxnLock :: "'p \<Rightarrow> txn_time \<Rightarrow> ('p, 'v) store \<Rightarrow> txn_state \<times> ('p, 'v) store" where
  "addTxnLock p t = with_txn t (addLock p)"

definition resetTxn :: "txn_time \<Rightarrow> ('p, 'v) store \<Rightarrow> (store_error + 'p list) \<times> ('p, 'v) store" where
  "resetTxn t = with_txn t (setState RESET)"

definition commitTxn :: "txn_time \<Rightarrow> ('p, 'v) store \<Rightarrow> (store_error + 'p list) \<times> ('p, 'v) store" where
  "commitTxn t = with_txn t (setState COMMIT)"

definition deleteValue :: "'p \<Rightarrow> txn_time \<Rightarrow> ('p, 'v) store \<Rightarrow> (store_error + unit) \<times> ('p, 'v) store" where
  "deleteValue p t = with_ptr p (Some t) (delete_value t)"

section \<open>RestmActors: freezing and eviction\<close>

text \<open>
  The body the freeze thread runs in the actor for a queued pointer: the records without a
  cold-storage stamp are uploaded and stamped.  The collection it asks for is a message of its
  own, which the actor runs after this one.
\<close>

definition stamp_record :: "int \<Rightarrow> 'v history_record \<Rightarrow> 'v history_record" where
  "stamp_record ms r = (if coldStorageTs r = None then r\<lparr>coldStorageTs := Some ms\<rparr> else r)"

definition freeze_ptr :: "'p \<Rightarrow> ('p, 'v) store \<Rightarrow> ('p, 'v) store" where
  "freeze_ptr p s =
     (let (a, s1) = getPtrActor p None s;
          up = filter (\<lambda>r. coldStorageTs r = None) (history a);
          stamped = map (stamp_record (wall_ms s)) (history a);
          s2 = (if up = [] then s1
                else (cold_store p (map (\<lambda>r. (hr_time r, hr_value r)) up) s1)
                  \<lparr>ptrs := (ptrs s1)(p \<mapsto> a\<lparr>history := stamped\<rparr>)\<rparr>)
      in snd (with_ptr p None (collectGarbage (wall s)) s2))"

definition freeze_next :: "('p, 'v) store \<Rightarrow> ('p, 'v) store" where
  "freeze_next s = (case freezeQueue s of [] \<Rightarrow> s | p # q \<Rightarrow> freeze_ptr p (s\<lparr>freezeQueue := q\<rparr>))"

text \<open>
  The expiry check, armed with the times and the newest read the pointer had: a pointer with a
  new commit is left to its own later check, one that was read is checked again, and an idle
  one without a lock leaves memory.  The result is the newest read to check against next time.
\<close>

definition expire_ptr ::
  "'p \<Rightarrow> txn_time list \<Rightarrow> txn_time \<Rightarrow> ('p, 'v) store \<Rightarrow> txn_time option \<times> ('p, 'v) store" where
  "expire_ptr p prevTxns prevRead s =
     (case ptrs s p of
        None \<Rightarrow> (None, s)
      | Some a \<Rightarrow>
          if closed a then (None, s)
          else if \<exists>r \<in> set (history a). hr_time r \<notin> set prevTxns then (None, s)
          else if \<exists>l \<in> set_option (lastRead a). l > prevRead then (lastRead a, s)
          else if writeLock a = None then (None, s\<lparr>ptrs := (ptrs s)(p := None)\<rparr>)
          else (None, s))"

section \<open>RestmImpl: the transaction protocol\<close>

definition txnTimeout :: int where
  "txnTimeout = 7000000000"

definition start_tasks :: "'p restm_task list \<Rightarrow> ('p, 'v) store \<Rightarrow> ('p, 'v) store" where
  "start_tasks ts s = s\<lparr>tasks := tasks s @ ts\<rparr>"

definition reset :: "txn_time \<Rightarrow> ('p, 'v) store \<Rightarrow> (store_error + unit) \<times> ('p, 'v) store" where
  "reset t s = (case resetTxn t s of
       (Inl e, s1) \<Rightarrow> (Inl e, s1)
     | (Inr ls, s1) \<Rightarrow> (Inr (), start_tasks (map (\<lambda>p. ResetValue p t) ls) s1))"

definition commit :: "txn_time \<Rightarrow> ('p, 'v) store \<Rightarrow> (store_error + unit) \<times> ('p, 'v) store" where
  "commit t s = (case commitTxn t s of
       (Inl e, s1) \<Rightarrow> (Inl e, s1)
     | (Inr ls, s1) \<Rightarrow> (Inr (), start_tasks (map (\<lambda>p. CommitValue p t) ls) s1))"

definition cleanup :: "txn_time \<Rightarrow> ('p, 'v) store \<Rightarrow> ('p, 'v) store" where
  "cleanup t s = (let (st, s1) = txnState t s in snd (if st = COMMIT then commit t s1 else reset t s1))"

text \<open>
  A read without a time asks the age of the conflicting transaction without a null check: a
  conflict with no transaction, from a closed actor, becomes a null pointer exception.
\<close>

datatype read_error = Store store_error | NullPointer

definition getPtrNow :: "'p \<Rightarrow> ('p, 'v) store \<Rightarrow> (read_error + 'v option) \<times> ('p, 'v) store" where
  "getPtrNow p s = (case getValueNow p s of
       (Inr v, s1) \<Rightarrow> (Inr v, s1)
     | (Inl (TransactionConflict (Some w)), s1) \<Rightarrow>
         (Inl (Store (TransactionConflict (Some w))), if age_ns (wall s1) w > txnTimeout then cleanup w s1 else s1)
     | (Inl (TransactionConflict None), s1) \<Rightarrow> (Inl NullPointer, s1)
     | (Inl e, s1) \<Rightarrow> (Inl (Store e), s1))"

definition getPtr :: "'p \<Rightarrow> txn_time \<Rightarrow> ('p, 'v) store \<Rightarrow> (store_error + 'v option) \<times> ('p, 'v) store" where
  "getPtr p t s = (case getValueAt p t s of
       (Inl (TransactionConflict (Some w)), s1) \<Rightarrow>
         (Inl (TransactionConflict (Some w)), if age_ns (wall s1) w > txnTimeout then cleanup w s1 else s1)
     | (r, s1) \<Rightarrow> (r, s1))"

text \<open>\<open>newPtr\<close> tries the identifiers it is given until one is free.\<close>

fun newPtr :: "txn_time \<Rightarrow> 'v \<Rightarrow> 'p list \<Rightarrow> ('p, 'v) store \<Rightarrow> (store_error + 'p) option \<times> ('p, 'v) store" where
  "newPtr t v [] s = (None, s)"
| "newPtr t v (p # ps) s = (case initValue t v p s of
       (Inl e, s1) \<Rightarrow> (Some (Inl e), s1)
     | (Inr True, s1) \<Rightarrow> (Some (Inr p), s1)
     | (Inr False, s1) \<Rightarrow> newPtr t v ps s1)"

definition lock_begin :: "'p \<Rightarrow> txn_time \<Rightarrow> ('p, 'v) store \<Rightarrow> (store_error + txn_time option) \<times> ('p, 'v) store" where
  "lock_begin p t s = (case lockValue p t s of
       (Inl e, s1) \<Rightarrow> (Inl e, s1)
     | (Inr None, s1) \<Rightarrow> (Inr None, start_tasks [AddLock p t] s1)
     | (Inr (Some w), s1) \<Rightarrow> (Inr (Some w), if age_ns (wall s1) w > txnTimeout then cleanup w s1 else s1))"

definition lock_recorded :: "'p \<Rightarrow> txn_time \<Rightarrow> ('p, 'v) store \<Rightarrow> ('p, 'v) store" where
  "lock_recorded p t s = (let (st, s1) = addTxnLock p t s in
     (case st of OPEN \<Rightarrow> s1
      | RESET \<Rightarrow> start_tasks [ResetValue p t] s1
      | COMMIT \<Rightarrow> start_tasks [CommitValue p t] s1))"

fun run_task :: "'p restm_task \<Rightarrow> ('p, 'v) store \<Rightarrow> ('p, 'v) store" where
  "run_task (CommitValue p t) s = snd (commitValue p t s)"
| "run_task (ResetValue p t) s = snd (resetValue p t s)"
| "run_task (AddLock p t) s = lock_recorded p t s"

definition run_nth_task :: "nat \<Rightarrow> ('p, 'v) store \<Rightarrow> ('p, 'v) store" where
  "run_nth_task i s = run_task (tasks s ! i) (s\<lparr>tasks := take i (tasks s) @ drop (Suc i) (tasks s)\<rparr>)"

end
