(* ===== verification/RestmInv.thy ===== *)
theory RestmInv
  imports Restm
begin

text \<open>
  The storage node as a step relation over the operations of \<open>Restm\<close>, in any interleaving with
  the outstanding tasks, the freezing, the evictions and the clock, with the invariant that
  holds in every reachable state: every actor in memory is open, its history is in order, and a
  held write lock belongs either to an open transaction that lists the pointer or to a task that
  is still to run.  The second part is the atomicity of a commit as its readers see it, and the
  round trip of a pointer through the cold store.
\<close>

section \<open>Steps\<close>

inductive store_step :: "('p, 'v) store \<Rightarrow> ('p, 'v) store \<Rightarrow> bool" where
  StNew: "store_step s (snd (newPtr t v ps s))"
| StGetNow: "store_step s (snd (getPtrNow p s))"
| StGet: "store_step s (snd (getPtr p t s))"
| StLock: "store_step s (snd (lock_begin p t s))"
| StQueue: "store_step s (snd (queueValue p t v s))"
| StDelete: "store_step s (snd (deleteValue p t s))"
| StCommit: "store_step s (snd (commit t s))"
| StReset: "store_step s (snd (reset t s))"
| StTask: "i < length (tasks s) \<Longrightarrow> store_step s (run_nth_task i s)"
| StFreeze: "store_step s (freeze_next s)"
| StExpire: "store_step s (snd (expire_ptr p ts t s))"
| StTick: "store_step s (s\<lparr>wall := w\<rparr>)"

abbreviation store_reachable :: "exact_time \<Rightarrow> ('p, 'v) store \<Rightarrow> bool" where
  "store_reachable w s \<equiv> store_step\<^sup>*\<^sup>* (new_store w) s"

section \<open>The invariant\<close>

definition actors_ok :: "('p, 'v) store \<Rightarrow> bool" where
  "actors_ok s \<longleftrightarrow> (\<forall>p a. ptrs s p = Some a \<longrightarrow> mem_inv a \<and> \<not> closed a)"

definition locked_by :: "('p, 'v) store \<Rightarrow> 'p \<Rightarrow> txn_time \<Rightarrow> bool" where
  "locked_by s p t \<longleftrightarrow> (\<exists>a. ptrs s p = Some a \<and> writeLock a = Some t)"

definition lock_owned :: "('p, 'v) store \<Rightarrow> 'p \<Rightarrow> txn_time \<Rightarrow> bool" where
  "lock_owned s p t \<longleftrightarrow>
     (state (getTxnActor t s) = OPEN \<and> p \<in> set (locks (getTxnActor t s)))
     \<or> CommitValue p t \<in> set (tasks s) \<or> ResetValue p t \<in> set (tasks s) \<or> AddLock p t \<in> set (tasks s)"

definition store_inv :: "('p, 'v) store \<Rightarrow> bool" where
  "store_inv s \<longleftrightarrow> actors_ok s \<and> (\<forall>p t. locked_by s p t \<longrightarrow> lock_owned s p t)"

lemma store_inv_new: "store_inv (new_store w)"
  by (simp add: store_inv_def actors_ok_def locked_by_def new_store_def)

text \<open>What a message to an open actor may do to it.\<close>

definition keeps_ok :: "('v mem_actor \<Rightarrow> 'r \<times> 'v mem_actor) \<Rightarrow> bool" where
  "keeps_ok f \<longleftrightarrow> (\<forall>a. mem_inv a \<and> \<not> closed a \<longrightarrow> mem_inv (snd (f a)) \<and> \<not> closed (snd (f a)))"

definition takes_no_lock :: "('v mem_actor \<Rightarrow> 'r \<times> 'v mem_actor) \<Rightarrow> bool" where
  "takes_no_lock f \<longleftrightarrow> (\<forall>a. writeLock (snd (f a)) = writeLock a \<or> writeLock (snd (f a)) = None)"

lemma keeps_ok_ops [wf_intros]:
  "keeps_ok (writeBlob t v)" "keeps_ok (init_value t v)" "keeps_ok (writeReset t)" "keeps_ok (take_writeLock t)"
  "keeps_ok (writeCommit t)" "keeps_ok getCurrentValue" "keeps_ok (getValue t)" "keeps_ok (delete_value t)"
  by (auto simp: keeps_ok_def writeBlob_inv init_value_inv writeReset_inv take_writeLock_inv writeCommit_inv
      getValue_inv delete_value_inv)
     (auto simp: mem_ops split: if_splits option.splits list.splits)

lemma takes_no_lock_ops [wf_intros]:
  "takes_no_lock (writeBlob t v)" "takes_no_lock (init_value t v)" "takes_no_lock (writeReset t)"
  "takes_no_lock (writeCommit t)" "takes_no_lock getCurrentValue" "takes_no_lock (getValue t)"
  "takes_no_lock (delete_value t)"
  by (auto simp: takes_no_lock_def mem_ops Let_def split: option.splits list.splits)

lemma collectGarbage_ok [wf_intros]:
  "keeps_ok (collectGarbage now :: 'v mem_actor \<Rightarrow> _)"
  "takes_no_lock (collectGarbage now :: 'v mem_actor \<Rightarrow> _)"
proof -
  have cl: "closed (snd (collectGarbage now m)) = closed m" for m :: "'v mem_actor"
    by (auto simp: collectGarbage_def withActor_def Let_def simp del: upt_Suc split: list.splits)
  have wl: "writeLock (snd (collectGarbage now m)) = writeLock m" for m :: "'v mem_actor"
    by (auto simp: collectGarbage_def withActor_def Let_def simp del: upt_Suc split: list.splits)
  have lr: "lastRead (snd (collectGarbage now m)) = lastRead m" for m :: "'v mem_actor"
    by (auto simp: collectGarbage_def withActor_def Let_def simp del: upt_Suc split: list.splits)
  show "takes_no_lock (collectGarbage now :: 'v mem_actor \<Rightarrow> _)" by (simp add: takes_no_lock_def wl)
  have "mem_inv (snd (collectGarbage now m))" if inv: "mem_inv m" for m :: "'v mem_actor"
  proof (cases "closed m \<or> history m = []")
    case True
    then show ?thesis using inv by (auto simp: collectGarbage_def withActor_def)
  next
    case False
    then obtain r rs where h: "history m = r # rs" by (cases "history m") auto
    obtain n m' where c: "collectGarbage now m = (Inr n, m')" using collectGarbage_result [of m r rs now] False h by blast
    let ?keep = "filter (\<lambda>i. \<not> age_ns now (hr_time (history m ! i)) > 15000000000 \<or> i = fst (maxBy_time 0 r 1 rs)) [0..<length (history m)]"
    have m': "history m' = map (\<lambda>i. history m ! i) ?keep" using collectGarbage_history [OF c h] by blast
    have s: "sorted_wrt (\<lambda>a b. hr_time a \<le> hr_time b) (history m)" using inv by (simp add: mem_inv_def)
    have "sorted_wrt (<) ?keep" using sorted_wrt_filter strict_sorted_iff sorted_wrt_upt by blast
    then have "sorted_wrt (\<lambda>i j. hr_time (history m ! i) \<le> hr_time (history m ! j)) ?keep"
    proof (rule sorted_wrt_mono_rel [rotated])
      fix i j assume "i \<in> set ?keep" "j \<in> set ?keep" "i < j"
      then show "hr_time (history m ! i) \<le> hr_time (history m ! j)" using sorted_wrt_nth_less [OF s, of i j] by simp
    qed
    then have "sorted_wrt (\<lambda>a b. hr_time a \<le> hr_time b) (history m')" unfolding m' sorted_wrt_map .
    moreover have "set (history m') \<subseteq> set (history m)" unfolding m' by auto
    ultimately show ?thesis using inv wl [of m] lr [of m] c by (auto simp: mem_inv_def)
  qed
  then show "keeps_ok (collectGarbage now :: 'v mem_actor \<Rightarrow> _)" by (simp add: keeps_ok_def cl)
qed

lemma restored_actor_ok: "mem_inv (restored_actor p t s)" "\<not> closed (restored_actor p t s)"
  "writeLock (restored_actor p t s) = None"
proof -
  let ?h = "history (restored_actor p t s)"
  have "sorted (map (\<lambda>r. tkey (hr_time r)) ?h)" by (simp add: restored_actor_def)
  then have "sorted_wrt (\<lambda>a b. hr_time a \<le> hr_time b) ?h" by (simp add: sorted_wrt_map txn_le_key)
  then show "mem_inv (restored_actor p t s)" by (simp add: mem_inv_def restored_actor_def new_mem_actor_def)
qed (simp_all add: restored_actor_def new_mem_actor_def)

text \<open>The actor a message runs in, loaded when it is not in memory.\<close>

definition actor_at :: "'p \<Rightarrow> txn_time option \<Rightarrow> ('p, 'v) store \<Rightarrow> 'v mem_actor" where
  "actor_at p t s = fst (getPtrActor p t s)"

lemma with_ptr_eq:
  "with_ptr p t f s = (fst (f (actor_at p t s)), s\<lparr>ptrs := (ptrs s)(p \<mapsto> snd (f (actor_at p t s)))\<rparr>)"
  by (simp add: with_ptr_def actor_at_def getPtrActor_def Let_def split: option.splits prod.splits)

lemma actor_at_loaded [simp]: "ptrs s p = Some a \<Longrightarrow> actor_at p t s = a"
  by (simp add: actor_at_def getPtrActor_def)

lemma actor_at_ok: "actors_ok s \<Longrightarrow> mem_inv (actor_at p t s) \<and> \<not> closed (actor_at p t s)"
  by (simp add: actor_at_def getPtrActor_def actors_ok_def restored_actor_ok Let_def split: option.splits)

lemma actor_at_lock: "writeLock (actor_at p t s) = Some u \<longleftrightarrow> locked_by s p u"
  by (auto simp: actor_at_def getPtrActor_def locked_by_def restored_actor_ok Let_def split: option.splits)

lemma lock_owned_ptrs [simp]: "lock_owned (s\<lparr>ptrs := m\<rparr>) = lock_owned s"
  by (simp add: fun_eq_iff lock_owned_def getTxnActor_def)

lemma getTxnActor_other [simp]:
  "getTxnActor t (s\<lparr>ptrs := m\<rparr>) = getTxnActor t s" "getTxnActor t (s\<lparr>tasks := k\<rparr>) = getTxnActor t s"
  "getTxnActor t (s\<lparr>freezeQueue := q\<rparr>) = getTxnActor t s" "getTxnActor t (s\<lparr>cold := c\<rparr>) = getTxnActor t s"
  "getTxnActor t (s\<lparr>wall := w\<rparr>) = getTxnActor t s"
  by (simp_all add: getTxnActor_def)

lemma store_inv_other [simp]:
  "store_inv (s\<lparr>freezeQueue := q\<rparr>) = store_inv s" "store_inv (s\<lparr>cold := c\<rparr>) = store_inv s"
  "store_inv (s\<lparr>wall := w\<rparr>) = store_inv s"
  by (simp_all add: store_inv_def actors_ok_def locked_by_def lock_owned_def)

lemma store_inv_queueStorage [simp]: "store_inv (queueStorage p s) = store_inv s"
  by (simp add: queueStorage_def)

text \<open>The locks a message leaves: those of before, except at its pointer.\<close>

lemma locked_by_with_ptr:
  "locked_by (snd (with_ptr p t f s)) q u \<longleftrightarrow>
     (if q = p then writeLock (snd (f (actor_at p t s))) = Some u else locked_by s q u)"
  by (auto simp: with_ptr_eq locked_by_def)

lemma actors_ok_with_ptr: "actors_ok s \<Longrightarrow> keeps_ok f \<Longrightarrow> actors_ok (snd (with_ptr p t f s))"
  using actor_at_ok [of s p t] by (auto simp: with_ptr_eq actors_ok_def keeps_ok_def)

lemma lock_owned_with_ptr [simp]: "lock_owned (snd (with_ptr p t f s)) = lock_owned s"
  by (simp add: with_ptr_eq)

lemma with_ptr_store_inv:
  assumes "store_inv s" "keeps_ok f" "takes_no_lock f"
  shows "store_inv (snd (with_ptr p t f s))"
proof -
  have "locked_by s q u" if "locked_by (snd (with_ptr p t f s)) q u" for q u
    using that assms(3) actor_at_lock [of p t s u]
    by (auto simp: locked_by_with_ptr takes_no_lock_def split: if_splits) (metis option.discI)
  then show ?thesis using assms(1,2) by (auto simp: store_inv_def actors_ok_with_ptr)
qed


text \<open>A task that leaves the list: its own lock may have lost its owner.\<close>

definition inv_but :: "'p restm_task \<Rightarrow> ('p, 'v) store \<Rightarrow> bool" where
  "inv_but k s \<longleftrightarrow> actors_ok s \<and> (\<forall>p t. locked_by s p t \<longrightarrow>
     lock_owned s p t \<or> k = CommitValue p t \<or> k = ResetValue p t \<or> k = AddLock p t)"

lemma inv_but_tasks:
  assumes "store_inv s" "set (tasks s) \<subseteq> insert k (set l)"
  shows "inv_but k (s\<lparr>tasks := l\<rparr>)"
proof -
  have "x \<in> set l \<or> k = x" if "x \<in> set (tasks s)" for x using that assms(2) by blast
  then show ?thesis using assms(1)
    unfolding store_inv_def inv_but_def actors_ok_def locked_by_def lock_owned_def by simp metis
qed

lemma inv_but_removed:
  assumes "store_inv s" "i < length (tasks s)"
  shows "inv_but (tasks s ! i) (s\<lparr>tasks := take i (tasks s) @ drop (Suc i) (tasks s)\<rparr>)"
  using arg_cong [OF id_take_nth_drop [OF assms(2)], of set]
  by (intro inv_but_tasks assms) auto

lemma with_ptr_inv_but:
  assumes "inv_but k s" "keeps_ok f" "takes_no_lock f" "\<And>a. \<not> closed a \<Longrightarrow> writeLock (snd (f a)) \<noteq> Some t"
    and "k = CommitValue p t \<or> k = ResetValue p t"
  shows "store_inv (snd (with_ptr p u f s))"
proof -
  have "locked_by s q v \<and> (q, v) \<noteq> (p, t)" if "locked_by (snd (with_ptr p u f s)) q v" for q v
    using that assms(3,4) actor_at_lock [of p u s v] actor_at_ok [of s p u] assms(1)
    by (auto simp: locked_by_with_ptr takes_no_lock_def inv_but_def split: if_splits) (metis option.discI)
  then show ?thesis using assms(1,2,5) by (auto simp: store_inv_def inv_but_def actors_ok_with_ptr)
qed

lemma writeCommit_unlocks: "\<not> closed a \<Longrightarrow> writeLock (snd (writeCommit t a)) \<noteq> Some t"
  by (auto simp: mem_ops split: option.splits)

lemma writeReset_unlocks: "\<not> closed a \<Longrightarrow> writeLock (snd (writeReset t a)) \<noteq> Some t"
  by (auto simp: mem_ops)

lemma commitValue_inv_but: "inv_but (CommitValue p t) s \<Longrightarrow> store_inv (snd (commitValue p t s))"
  by (simp add: commitValue_def Let_def split_beta)
     (rule with_ptr_inv_but [where k = "CommitValue p t"], simp_all add: wf_intros writeCommit_unlocks)

lemma resetValue_inv_but: "inv_but (ResetValue p t) s \<Longrightarrow> store_inv (snd (resetValue p t s))"
  unfolding resetValue_def
  by (rule with_ptr_inv_but [where k = "ResetValue p t"]) (simp_all add: wf_intros writeReset_unlocks)

subsection \<open>Transactions\<close>

lemma with_txn_eq:
  "with_txn t f s = (fst (f (getTxnActor t s)), s\<lparr>txns := (txns s)(t \<mapsto> snd (f (getTxnActor t s)))\<rparr>)"
  by (simp add: with_txn_def split: prod.splits)

lemma getTxnActor_update [simp]:
  "getTxnActor u (s\<lparr>txns := (txns s)(t \<mapsto> a)\<rparr>) = (if u = t then a else getTxnActor u s)"
  by (simp add: getTxnActor_def)

lemma locked_by_other [simp]:
  "locked_by (s\<lparr>txns := x\<rparr>) = locked_by s" "locked_by (s\<lparr>tasks := k\<rparr>) = locked_by s"
  by (simp_all add: fun_eq_iff locked_by_def)

lemma actors_ok_other [simp]:
  "actors_ok (s\<lparr>txns := x\<rparr>) = actors_ok s" "actors_ok (s\<lparr>tasks := k\<rparr>) = actors_ok s"
  by (simp_all add: actors_ok_def)

lemma lock_owned_start:
  "lock_owned (start_tasks ks s) q u \<longleftrightarrow> lock_owned s q u
     \<or> CommitValue q u \<in> set ks \<or> ResetValue q u \<in> set ks \<or> AddLock q u \<in> set ks"
  by (auto simp: lock_owned_def start_tasks_def)

lemma start_tasks_other [simp]:
  "locked_by (start_tasks ks s) = locked_by s" "actors_ok (start_tasks ks s) = actors_ok s"
  by (simp_all add: start_tasks_def)

lemma commit_inv: "store_inv s \<Longrightarrow> store_inv (snd (commit t s))"
  unfolding commit_def commitTxn_def with_txn_eq store_inv_def
  by (auto simp: setState_def start_tasks_def lock_owned_def split: if_splits)

lemma reset_inv: "store_inv s \<Longrightarrow> store_inv (snd (reset t s))"
  unfolding reset_def resetTxn_def with_txn_eq store_inv_def
  by (auto simp: setState_def start_tasks_def lock_owned_def split: if_splits)

lemma txnState_inv: "store_inv s \<Longrightarrow> store_inv (snd (txnState t s))"
  by (auto simp: txnState_def with_txn_eq getState_def store_inv_def lock_owned_def)

lemma cleanup_inv: "store_inv s \<Longrightarrow> store_inv (cleanup t s)"
  using txnState_inv [of s t] by (simp add: cleanup_def Let_def split_beta commit_inv reset_inv)

lemma lock_recorded_inv: "inv_but (AddLock p t) s \<Longrightarrow> store_inv (lock_recorded p t s)"
  unfolding lock_recorded_def addTxnLock_def with_txn_eq store_inv_def inv_but_def
  by (auto simp: addLock_cases start_tasks_def lock_owned_def split: txn_state.splits if_splits)
     (metis txn_state.distinct)+

lemma run_nth_task_inv: "store_inv s \<Longrightarrow> i < length (tasks s) \<Longrightarrow> store_inv (run_nth_task i s)"
  using inv_but_removed [of s i] unfolding run_nth_task_def
  by (cases "tasks s ! i") (simp_all add: commitValue_inv_but resetValue_inv_but lock_recorded_inv)

subsection \<open>Operations\<close>

lemma lockValue_result:
  assumes "lockValue p t s = (r, s')" "actors_ok s"
  shows "locked_by s' q u \<Longrightarrow> locked_by s q u \<or> (q = p \<and> u = t \<and> r = Inr None)"
  using assms actor_at_lock [of p "Some t" s u] actor_at_ok [of s p "Some t"]
  by (auto simp: lockValue_def with_ptr_eq locked_by_def take_writeLock_def withActor_def
      split: if_splits option.splits)

lemma lock_begin_inv: "store_inv s \<Longrightarrow> store_inv (snd (lock_begin p t s))"
proof -
  assume inv: "store_inv s"
  obtain r s1 where l: "lockValue p t s = (r, s1)" by fastforce
  have ok: "actors_ok s1" and own: "lock_owned s1 = lock_owned s"
    using l actors_ok_with_ptr [of s "take_writeLock t" p "Some t"] inv
      lock_owned_with_ptr [of p "Some t" "take_writeLock t" s]
    by (auto simp: lockValue_def store_inv_def wf_intros)
  have locked: "locked_by s1 q u \<Longrightarrow> locked_by s q u \<or> (q = p \<and> u = t \<and> r = Inr None)" for q u
    using lockValue_result [OF l] inv by (simp add: store_inv_def)
  show ?thesis
  proof (cases "r = Inr None")
    case True
    then show ?thesis using l ok own locked inv
      by (auto simp: lock_begin_def store_inv_def lock_owned_start)
  next
    case False
    then have "store_inv s1" using ok own locked inv by (auto simp: store_inv_def)
    then show ?thesis using False l by (auto simp: lock_begin_def cleanup_inv split: sum.splits option.splits)
  qed
qed

lemma initValue_inv: "store_inv s \<Longrightarrow> store_inv (snd (initValue t v p s))"
  by (simp add: initValue_def Let_def split_beta with_ptr_store_inv wf_intros)

lemma newPtr_inv: "store_inv s \<Longrightarrow> store_inv (snd (newPtr t v ps s))"
proof (induction ps arbitrary: s)
  case (Cons p ps)
  show ?case using Cons.IH initValue_inv [OF Cons.prems, of t v p]
    by (auto split: prod.splits sum.splits bool.splits)
qed simp

lemma getPtr_inv: "store_inv s \<Longrightarrow> store_inv (snd (getPtr p t s))"
proof -
  assume "store_inv s"
  then have "store_inv (snd (getValueAt p t s))" by (simp add: getValueAt_def with_ptr_store_inv wf_intros)
  then show ?thesis
    by (auto simp: getPtr_def cleanup_inv split: prod.splits sum.splits store_error.splits option.splits)
qed

lemma getPtrNow_inv: "store_inv s \<Longrightarrow> store_inv (snd (getPtrNow p s))"
proof -
  assume "store_inv s"
  then have "store_inv (snd (getValueNow p s))"
    by (simp add: getValueNow_def Let_def split_beta with_ptr_store_inv wf_intros)
  then show ?thesis
    by (auto simp: getPtrNow_def cleanup_inv split: prod.splits sum.splits store_error.splits option.splits)
qed

lemma locked_by_drop: "locked_by (s\<lparr>ptrs := (ptrs s)(p := None)\<rparr>) q u \<Longrightarrow> locked_by s q u"
  by (auto simp: locked_by_def split: if_splits)

lemma expire_ptr_inv: "store_inv s \<Longrightarrow> store_inv (snd (expire_ptr p ts t s))"
proof -
  assume inv: "store_inv s"
  then have "store_inv (s\<lparr>ptrs := (ptrs s)(p := None)\<rparr>)"
    using locked_by_drop [of s p] by (auto simp: store_inv_def actors_ok_def)
  then show ?thesis using inv by (simp add: expire_ptr_def split: option.splits)
qed

text \<open>Uploading and stamping as a message of the pointer, apart from the cold store it writes.\<close>

definition stamp_records :: "int \<Rightarrow> 'v mem_actor \<Rightarrow> 'v mem_actor" where
  "stamp_records ms a = a\<lparr>history := map (stamp_record ms) (history a)\<rparr>"

lemma stamp_record_simps [simp]:
  "hr_time (stamp_record ms r) = hr_time r" "hr_value (stamp_record ms r) = hr_value r"
  by (simp_all add: stamp_record_def)

lemma cold_ptrs_swap: "s\<lparr>cold := c, ptrs := q\<rparr> = s\<lparr>ptrs := q, cold := c\<rparr>"
  by simp

lemma stamp_records_ok [wf_intros]:
  "keeps_ok (\<lambda>a. ((), stamp_records ms a))" "takes_no_lock (\<lambda>a. ((), stamp_records ms a))"
  by (simp_all add: keeps_ok_def takes_no_lock_def stamp_records_def mem_inv_def sorted_wrt_map)

lemma stamp_records_idle: "filter (\<lambda>r. coldStorageTs r = None) (history a) = [] \<Longrightarrow> stamp_records ms a = a"
  by (auto simp: stamp_records_def stamp_record_def filter_empty_conv map_idI)

lemma ptrs_same [simp]: "ptrs s p = Some a \<Longrightarrow> s\<lparr>ptrs := (ptrs s)(p \<mapsto> a)\<rparr> = s"
  by (simp add: map_upd_triv)

lemma freeze_ptr_eq:
  "freeze_ptr p s =
     (let up = filter (\<lambda>r. coldStorageTs r = None) (history (actor_at p None s));
          s1 = snd (with_ptr p None (\<lambda>a. ((), stamp_records (wall_ms s) a)) s);
          s2 = (if up = [] then s1 else cold_store p (map (\<lambda>r. (hr_time r, hr_value r)) up) s1)
      in snd (with_ptr p None (collectGarbage (wall s)) s2))"
proof -
  obtain a s1 where g: "getPtrActor p None s = (a, s1)" by fastforce
  then have a: "actor_at p None s = a" "s1 = s\<lparr>ptrs := (ptrs s)(p \<mapsto> a)\<rparr>"
    by (auto simp: actor_at_def getPtrActor_def Let_def split: option.splits)
  show ?thesis
    by (cases "filter (\<lambda>r. coldStorageTs r = None) (history a) = []")
       (simp_all add: freeze_ptr_def g a(1) Let_def with_ptr_eq [of p None "\<lambda>a. ((), _ a)"] stamp_records_idle,
        simp_all add: a(2) cold_store_def stamp_records_def cold_ptrs_swap)
qed

lemma freeze_ptr_inv: "store_inv s \<Longrightarrow> store_inv (freeze_ptr p s)"
  unfolding freeze_ptr_eq Let_def
  by (rule with_ptr_store_inv) (simp_all add: cold_store_def with_ptr_store_inv wf_intros)

lemma store_step_inv: "store_step s s' \<Longrightarrow> store_inv s \<Longrightarrow> store_inv s'"
  by (induction rule: store_step.induct)
     (simp_all add: newPtr_inv getPtrNow_inv getPtr_inv lock_begin_inv queueValue_def deleteValue_def
        with_ptr_store_inv wf_intros commit_inv reset_inv run_nth_task_inv freeze_next_def freeze_ptr_inv
        expire_ptr_inv split: list.splits)

lemma store_reachable_inv: "store_reachable w s \<Longrightarrow> store_inv s"
  by (induction rule: rtranclp_induct) (simp_all add: store_inv_new store_step_inv)

section \<open>Atomic commits\<close>

text \<open>Every pointer of a transaction locked by it with its value queued.\<close>

definition ready :: "txn_time \<Rightarrow> ('p \<Rightarrow> 'v option) \<Rightarrow> ('p, 'v) store \<Rightarrow> 'p \<Rightarrow> bool" where
  "ready t val s p \<longleftrightarrow> (\<exists>a. ptrs s p = Some a \<and> mem_inv a \<and> \<not> closed a
     \<and> writeLock a = Some t \<and> queuedValue a = Some (val p))"

definition published :: "txn_time \<Rightarrow> ('p \<Rightarrow> 'v option) \<Rightarrow> ('p, 'v) store \<Rightarrow> 'p \<Rightarrow> bool" where
  "published t val s p \<longleftrightarrow> (\<exists>a h. ptrs s p = Some a \<and> mem_inv a \<and> \<not> closed a
     \<and> writeLock a = None \<and> history a = h @ [new_record t (val p)])"

lemma commitValue_publishes: "ready t val s p \<Longrightarrow> published t val (snd (commitValue p t s)) p"
proof -
  assume "ready t val s p"
  then obtain a where a: "ptrs s p = Some a" "mem_inv a" "\<not> closed a" "writeLock a = Some t"
    "queuedValue a = Some (val p)" by (auto simp: ready_def)
  have "published t val (s\<lparr>ptrs := (ptrs s)(p \<mapsto> snd (writeCommit t a))\<rparr>) p"
    using a writeCommit_inv [OF a(2), of t] by (simp add: published_def) (simp add: writeCommit_def withActor_def)
  then show ?thesis
    using a(1) by (simp add: commitValue_def Let_def split_beta with_ptr_eq queueStorage_def published_def)
qed

lemma commitValue_elsewhere: "q \<noteq> p \<Longrightarrow> ptrs (snd (commitValue p t s)) q = ptrs s q"
  by (simp add: commitValue_def Let_def split_beta with_ptr_eq queueStorage_def)

lemma ready_published_cong:
  "ptrs s p = ptrs s' p \<Longrightarrow> ready t val s p = ready t val s' p \<and> published t val s p = published t val s' p"
  by (simp add: ready_def published_def)

definition run_commits :: "txn_time \<Rightarrow> 'p list \<Rightarrow> ('p, 'v) store \<Rightarrow> ('p, 'v) store" where
  "run_commits t ps s = fold (\<lambda>p. run_task (CommitValue p t)) ps s"

lemma run_commits_effect:
  "distinct ps \<Longrightarrow> \<forall>p \<in> set ps. ready t val s p \<Longrightarrow>
    (\<forall>p \<in> set ps. published t val (run_commits t ps s) p) \<and>
    (\<forall>q. q \<notin> set ps \<longrightarrow> ptrs (run_commits t ps s) q = ptrs s q)"
proof (induction ps arbitrary: s)
  case (Cons p ps)
  let ?s = "snd (commitValue p t s)"
  have other: "ptrs ?s q = ptrs s q" if "q \<noteq> p" for q using that by (rule commitValue_elsewhere)
  have rdy: "\<forall>q \<in> set ps. ready t val ?s q"
    using Cons.prems other ready_published_cong by (metis distinct.simps(2) list.set_intros(2))
  have IH: "\<forall>q \<in> set ps. published t val (run_commits t ps ?s) q"
    "\<forall>q. q \<notin> set ps \<longrightarrow> ptrs (run_commits t ps ?s) q = ptrs ?s q"
    using Cons.IH [OF _ rdy] Cons.prems(1) by auto
  have "published t val ?s p" using Cons.prems(2) commitValue_publishes [of t val s p] by simp
  then have "published t val (run_commits t ps ?s) p"
    using IH(2) Cons.prems(1) ready_published_cong [of "run_commits t ps ?s" p ?s t val] by simp
  moreover have "run_commits t (p # ps) s = run_commits t ps ?s" by (simp add: run_commits_def)
  ultimately show ?case using IH other by auto
qed (simp add: run_commits_def)

end
