(* ===== verification/StmClient.thy ===== *)
theory StmClient
  imports RestmInv
begin

text \<open>
  The client of the store: \<open>STMTxnCtx\<close> (the context of one transaction with its caches), \<open>STMPtr\<close> and
  the retry loop of \<open>STMTxn\<close>.  Each call of the cluster is preceded by what other clients and the
  node did in the meantime: \<open>call\<close> takes it from a list of moves of the world.  The logic of a
  transaction is the caller's code, so it is any program over the operations of pointers.  Values
  are the objects themselves; serialization is left out.  An error is a transaction conflict, with
  the transaction it names, or any other exception; \<open>chainEx\<close> keeps this distinction.
\<close>

section \<open>The world and the context\<close>

datatype client_error = Conflict "txn_time option" | Failure

fun to_client :: "store_error \<Rightarrow> client_error" where
  "to_client (TransactionConflict w) = Conflict w"
| "to_client e = Failure"

record ('p, 'v) world =
  node :: "('p, 'v) store"
  others :: "(('p, 'v) store \<Rightarrow> ('p, 'v) store) list"
  fresh :: "'p list"

definition call :: "(('p, 'v) store \<Rightarrow> 'r \<times> ('p, 'v) store) \<Rightarrow> ('p, 'v) world \<Rightarrow> 'r \<times> ('p, 'v) world" where
  "call f w =
     (let s = (case others w of [] \<Rightarrow> node w | e # es \<Rightarrow> e (node w)); (r, s') = f s
      in (r, w\<lparr>node := s', others := tl (others w)\<rparr>))"

record ('p, 'v) txn_ctx =
  txnId :: txn_time
  writeLocks :: "'p \<rightharpoonup> client_error + bool"
  readCache :: "'p \<rightharpoonup> client_error + 'v option"
  initCache :: "'p \<rightharpoonup> 'v option"
  writeCache :: "('p \<times> 'v option) list"
  isClosed :: bool

definition new_ctx :: "txn_time \<Rightarrow> ('p, 'v) txn_ctx" where
  "new_ctx t = \<lparr>txnId = t, writeLocks = Map.empty, readCache = Map.empty, initCache = Map.empty, writeCache = [],
     isClosed = False\<rparr>"

definition isReadOnly :: "('p, 'v) txn_ctx \<Rightarrow> bool" where
  "isReadOnly c = (writeCache c = [])"

section \<open>STMTxnCtx\<close>

text \<open>The identifiers that will be drawn are a list of the world; without one left the loop would go on.\<close>

definition ctx_newPtr ::
  "'v \<Rightarrow> ('p, 'v) txn_ctx \<Rightarrow> ('p, 'v) world \<Rightarrow> (client_error + 'p) \<times> ('p, 'v) txn_ctx \<times> ('p, 'v) world" where
  "ctx_newPtr v c w =
     (case call (newPtr (txnId c) v (fresh w)) w of
        (Some (Inr p), w') \<Rightarrow>
          (Inr p, c\<lparr>initCache := (initCache c)(p \<mapsto> Some v)\<rparr>, w'\<lparr>fresh := tl (dropWhile (\<lambda>q. q \<noteq> p) (fresh w'))\<rparr>)
      | (Some (Inl e), w') \<Rightarrow> (Inl (to_client e), c, w')
      | (None, w') \<Rightarrow> (Inl Failure, c, w'\<lparr>fresh := []\<rparr>))"

text \<open>The caches come first; what the node answers, an error too, is the answer from then on.\<close>

definition readOpt ::
  "'p \<Rightarrow> ('p, 'v) txn_ctx \<Rightarrow> ('p, 'v) world \<Rightarrow> (client_error + 'v option) \<times> ('p, 'v) txn_ctx \<times> ('p, 'v) world" where
  "readOpt p c w =
     (if isClosed c then (Inl Failure, c, w)
      else (case map_of (writeCache c) p of
              Some x \<Rightarrow> (Inr x, c, w)
            | None \<Rightarrow>
                (case initCache c p of
                   Some x \<Rightarrow> (Inr x, c, w)
                 | None \<Rightarrow>
                     (case readCache c p of
                        Some r \<Rightarrow> (r, c, w)
                      | None \<Rightarrow>
                          (let (r, w') = call (getPtr p (txnId c)) w; r' = map_sum to_client id r
                           in (r', c\<lparr>readCache := (readCache c)(p \<mapsto> r')\<rparr>, w'))))))"

text \<open>
  The lock of the node answers once it is recorded with the transaction; the recording may have been
  run among the other tasks of the node already.
\<close>

definition finish_lock :: "'p \<Rightarrow> txn_time \<Rightarrow> ('p, 'v) store \<Rightarrow> unit \<times> ('p, 'v) store" where
  "finish_lock p t s =
     ((), case find (\<lambda>i. tasks s ! i = AddLock p t) [0..<length (tasks s)] of None \<Rightarrow> s | Some i \<Rightarrow> run_nth_task i s)"

definition cluster_lock ::
  "'p \<Rightarrow> txn_time \<Rightarrow> ('p, 'v) world \<Rightarrow> (client_error + txn_time option) \<times> ('p, 'v) world" where
  "cluster_lock p t w =
     (case call (lock_begin p t) w of
        (Inr None, w') \<Rightarrow> (Inr None, snd (call (finish_lock p t) w'))
      | (r, w') \<Rightarrow> (map_sum to_client id r, w'))"

definition lockOptional ::
  "'p \<Rightarrow> ('p, 'v) txn_ctx \<Rightarrow> ('p, 'v) world \<Rightarrow> (client_error + bool) \<times> ('p, 'v) txn_ctx \<times> ('p, 'v) world" where
  "lockOptional p c w =
     (case writeLocks c p of
        Some r \<Rightarrow> (r, c, w)
      | None \<Rightarrow>
          (let (r, w') = (if isClosed c then (Inl Failure, w) else cluster_lock p (txnId c) w);
               r' = map_sum id (\<lambda>x. x = None) r
           in (r', c\<lparr>writeLocks := (writeLocks c)(p \<mapsto> r')\<rparr>, w')))"

text \<open>A failed lock is an exception here, no conflict.\<close>

definition ctx_lock ::
  "'p \<Rightarrow> ('p, 'v) txn_ctx \<Rightarrow> ('p, 'v) world \<Rightarrow> (client_error + unit) \<times> ('p, 'v) txn_ctx \<times> ('p, 'v) world" where
  "ctx_lock p c w =
     (case lockOptional p c w of
        (Inl e, c', w') \<Rightarrow> (Inl e, c', w')
      | (Inr b, c', w') \<Rightarrow> (if b then Inr () else Inl Failure, c', w'))"

text \<open>What \<open>write\<close> and \<open>delete\<close> do once they know that the value changes.\<close>

definition lock_and_put ::
  "'p \<Rightarrow> 'v option \<Rightarrow> ('p, 'v) txn_ctx \<Rightarrow> ('p, 'v) world \<Rightarrow> (client_error + unit) \<times> ('p, 'v) txn_ctx \<times> ('p, 'v) world" where
  "lock_and_put p x c w =
     (case ctx_lock p c w of
        (Inl e, c', w') \<Rightarrow> (Inl e, c', w')
      | (Inr _, c', w') \<Rightarrow>
          if isClosed c' then (Inl Failure, c', w')
          else (Inr (), c'\<lparr>writeCache := AList.update p x (writeCache c')\<rparr>, w'))"

definition ctx_write ::
  "'p \<Rightarrow> 'v \<Rightarrow> ('p, 'v) txn_ctx \<Rightarrow> ('p, 'v) world \<Rightarrow> (client_error + unit) \<times> ('p, 'v) txn_ctx \<times> ('p, 'v) world" where
  "ctx_write p v c w =
     (if isClosed c then (Inl Failure, c, w)
      else (case readOpt p c w of
              (Inl e, c', w') \<Rightarrow> (Inl e, c', w')
            | (Inr prior, c', w') \<Rightarrow> if prior \<noteq> Some v then lock_and_put p (Some v) c' w' else (Inr (), c', w')))"

definition ctx_delete ::
  "'p \<Rightarrow> ('p, 'v) txn_ctx \<Rightarrow> ('p, 'v) world \<Rightarrow> (client_error + unit) \<times> ('p, 'v) txn_ctx \<times> ('p, 'v) world" where
  "ctx_delete p c w =
     (if isClosed c then (Inl Failure, c, w)
      else (case readOpt p c w of
              (Inl e, c', w') \<Rightarrow> (Inl e, c', w')
            | (Inr prior, c', w') \<Rightarrow> if prior \<noteq> None then lock_and_put p None c' w' else (Inr (), c', w')))"

text \<open>All writes are sent, then the first failure in their order is the failure of them all.\<close>

fun send_writes ::
  "txn_time \<Rightarrow> ('p \<times> 'v option) list \<Rightarrow> ('p, 'v) world \<Rightarrow> (client_error + unit) \<times> ('p, 'v) world" where
  "send_writes t [] w = (Inr (), w)"
| "send_writes t ((p, x) # ws) w =
     (let (r, w1) = (case x of Some v \<Rightarrow> call (queueValue p t v) w | None \<Rightarrow> call (deleteValue p t) w);
          (r', w2) = send_writes t ws w1
      in (case r of Inl e \<Rightarrow> Inl (to_client e) | Inr _ \<Rightarrow> r', w2))"

definition ctx_commit ::
  "('p, 'v) txn_ctx \<Rightarrow> ('p, 'v) world \<Rightarrow> (client_error + unit) \<times> ('p, 'v) txn_ctx \<times> ('p, 'v) world" where
  "ctx_commit c w =
     (case send_writes (txnId c) (writeCache c) w of
        (Inl e, w') \<Rightarrow> (Inl e, c\<lparr>isClosed := True\<rparr>, w')
      | (Inr _, w') \<Rightarrow> (let (r, w'') = call (commit (txnId c)) w'
                        in (map_sum to_client id r, c\<lparr>isClosed := True\<rparr>, w'')))"

definition revert ::
  "('p, 'v) txn_ctx \<Rightarrow> ('p, 'v) world \<Rightarrow> (client_error + unit) \<times> ('p, 'v) txn_ctx \<times> ('p, 'v) world" where
  "revert c w = (let (r, w') = call (reset (txnId c)) w in (map_sum to_client id r, c\<lparr>isClosed := True\<rparr>, w'))"

section \<open>STMPtr and transaction programs\<close>

text \<open>Every failure of a write or a delete of a pointer becomes a conflict.\<close>

fun to_conflict :: "client_error \<Rightarrow> client_error" where
  "to_conflict (Conflict w) = Conflict w"
| "to_conflict Failure = Conflict None"

datatype ('p, 'v, 'r) prog =
    PRet 'r
  | PFail client_error
  | PRead 'p "'v option \<Rightarrow> ('p, 'v, 'r) prog"
  | PWrite 'p 'v "('p, 'v, 'r) prog"
  | PDelete 'p "('p, 'v, 'r) prog"
  | PLock 'p "bool \<Rightarrow> ('p, 'v, 'r) prog"
  | PNew 'v "'p \<Rightarrow> ('p, 'v, 'r) prog"

primrec run_prog ::
  "('p, 'v, 'r) prog \<Rightarrow> ('p, 'v) txn_ctx \<Rightarrow> ('p, 'v) world \<Rightarrow> (client_error + 'r) \<times> ('p, 'v) txn_ctx \<times> ('p, 'v) world" where
  "run_prog (PRet r) c w = (Inr r, c, w)"
| "run_prog (PFail e) c w = (Inl e, c, w)"
| "run_prog (PRead p k) c w =
     (case readOpt p c w of (Inl e, c', w') \<Rightarrow> (Inl e, c', w') | (Inr x, c', w') \<Rightarrow> run_prog (k x) c' w')"
| "run_prog (PWrite p v k) c w =
     (case ctx_write p v c w of (Inl e, c', w') \<Rightarrow> (Inl (to_conflict e), c', w') | (Inr _, c', w') \<Rightarrow> run_prog k c' w')"
| "run_prog (PDelete p k) c w =
     (case ctx_delete p c w of (Inl e, c', w') \<Rightarrow> (Inl (to_conflict e), c', w') | (Inr _, c', w') \<Rightarrow> run_prog k c' w')"
| "run_prog (PLock p k) c w =
     (case lockOptional p c w of (Inl e, c', w') \<Rightarrow> (Inl e, c', w') | (Inr b, c', w') \<Rightarrow> run_prog (k b) c' w')"
| "run_prog (PNew v k) c w =
     (case ctx_newPtr v c w of (Inl e, c', w') \<Rightarrow> (Inl e, c', w') | (Inr p, c', w') \<Rightarrow> run_prog (k p) c' w')"

text \<open>The derived operations of \<open>STMPtr\<close>; \<open>update\<close> of a pointer without a value fails.\<close>

definition ptr_read :: "'p \<Rightarrow> ('v \<Rightarrow> ('p, 'v, 'r) prog) \<Rightarrow> ('p, 'v, 'r) prog" where
  "ptr_read p k = PRead p (\<lambda>x. case x of Some v \<Rightarrow> k v | None \<Rightarrow> PFail Failure)"

definition ptr_read_default :: "'p \<Rightarrow> 'v \<Rightarrow> ('v \<Rightarrow> ('p, 'v, 'r) prog) \<Rightarrow> ('p, 'v, 'r) prog" where
  "ptr_read_default p d k = PRead p (\<lambda>x. k (case x of Some v \<Rightarrow> v | None \<Rightarrow> d))"

definition ptr_init :: "'p \<Rightarrow> 'v \<Rightarrow> ('p, 'v, 'r) prog \<Rightarrow> ('p, 'v, 'r) prog" where
  "ptr_init p d k = PRead p (\<lambda>x. case x of Some v \<Rightarrow> k | None \<Rightarrow> PWrite p d k)"

definition ptr_initOrUpdate :: "'p \<Rightarrow> 'v \<Rightarrow> ('v \<Rightarrow> 'v) \<Rightarrow> ('p, 'v, 'r) prog \<Rightarrow> ('p, 'v, 'r) prog" where
  "ptr_initOrUpdate p d f k = PRead p (\<lambda>x. PWrite p (case x of Some v \<Rightarrow> f v | None \<Rightarrow> d) k)"

definition ptr_update :: "'p \<Rightarrow> ('v \<Rightarrow> 'v) \<Rightarrow> ('p, 'v, 'r) prog \<Rightarrow> ('p, 'v, 'r) prog" where
  "ptr_update p f k = PRead p (\<lambda>x. case x of Some v \<Rightarrow> PWrite p (f v) k | None \<Rightarrow> PFail Failure)"

definition ptr_assign :: "'p \<Rightarrow> 'v option \<Rightarrow> ('p, 'v, 'r) prog \<Rightarrow> ('p, 'v, 'r) prog" where
  "ptr_assign p x k = (case x of Some v \<Rightarrow> PWrite p v k | None \<Rightarrow> PDelete p k)"

section \<open>STMTxn\<close>

text \<open>One attempt: \<open>slow\<close> says that it took more than five seconds.\<close>

definition attempt ::
  "bool \<Rightarrow> bool \<Rightarrow> ('p, 'v, 'r) prog \<Rightarrow> txn_time \<Rightarrow> ('p, 'v) world \<Rightarrow> (client_error + 'r) \<times> ('p, 'v) txn_ctx \<times> ('p, 'v) world" where
  "attempt allowCompletion slow logic t w =
     (case run_prog logic (new_ctx t) w of
        (Inl e, c, w1) \<Rightarrow> (Inl e, c, w1)
      | (Inr r, c, w1) \<Rightarrow>
          if \<not> allowCompletion then (Inr r, c, w1)
          else if \<not> isReadOnly c \<and> slow
          then (case revert c w1 of (Inl e, c', w2) \<Rightarrow> (Inl e, c', w2) | (Inr _, c', w2) \<Rightarrow> (Inl (Conflict None), c', w2))
          else (case ctx_commit c w1 of (Inl e, c', w2) \<Rightarrow> (Inl e, c', w2) | (Inr _, c', w2) \<Rightarrow> (Inr r, c', w2)))"

text \<open>
  The retry loop: attempt \<open>k\<close> has the transaction \<open>ids k\<close>.  A conflict is retried \<open>n\<close> more times, after
  its transaction was reset; any other failure, and a conflict of the last attempt, resets and fails.
\<close>

fun txnRun ::
  "bool \<Rightarrow> (nat \<Rightarrow> bool) \<Rightarrow> ('p, 'v, 'r) prog \<Rightarrow> (nat \<Rightarrow> txn_time) \<Rightarrow> nat \<Rightarrow> nat \<Rightarrow> ('p, 'v) world
     \<Rightarrow> (client_error + 'r) \<times> ('p, 'v) world" where
  "txnRun allow slow logic ids n k w =
     (case attempt allow (slow k) logic (ids k) w of
        (Inr r, c, w1) \<Rightarrow> (Inr r, w1)
      | (Inl e, c, w1) \<Rightarrow>
          (case (e, n) of
             (Conflict _, Suc m) \<Rightarrow>
               (case revert c w1 of (Inl e', _, w2) \<Rightarrow> (Inl e', w2) | (Inr _, _, w2) \<Rightarrow> txnRun allow slow logic ids m (Suc k) w2)
           | _ \<Rightarrow>
               if allow then (case revert c w1 of (Inl e', _, w2) \<Rightarrow> (Inl e', w2) | (Inr _, _, w2) \<Rightarrow> (Inl Failure, w2))
               else (Inl Failure, w1)))"

declare txnRun.simps [simp del]

end
