(* ===== verification/RestmProps.thy ===== *)
theory RestmProps
  imports RestmInv
begin

text \<open>
  The properties of the storage node: no lock is lost, a stale lock is recovered, a commit is
  atomic for its readers, and a pointer survives its eviction to the cold store.
\<close>

section \<open>Locks\<close>

text \<open>C1. No lock is lost: in every reachable state, whatever the interleaving of operations and tasks, a
  pointer that is write locked by a transaction is listed by that transaction, still open, or has a
  task outstanding that will record, commit or reset the lock.  With no task left, the owner of a
  held lock is an open transaction that lists it.\<close>

theorem no_lost_lock:
  assumes "store_reachable w s" "locked_by s p t"
  shows "lock_owned s p t
    \<and> (tasks s = [] \<longrightarrow> state (getTxnActor t s) = OPEN \<and> p \<in> set (locks (getTxnActor t s)))"
  using store_reachable_inv [OF assms(1)] assms(2) by (auto simp: store_inv_def lock_owned_def)

lemma tasks_with_ptr [simp]: "tasks (snd (with_ptr p t f s)) = tasks s" "wall (snd (with_ptr p t f s)) = wall s"
  "txns (snd (with_ptr p t f s)) = txns s"
  by (simp_all add: with_ptr_eq)

lemma getTxnActor_with_ptr [simp]: "getTxnActor u (snd (with_ptr p t f s)) = getTxnActor u s"
  by (simp add: getTxnActor_def)

lemma lockValue_refused:
  assumes "actors_ok s" "locked_by s p w" "w \<noteq> t"
  shows "lockValue p t s = (Inr (Some w), s)"
  using assms by (auto simp: lockValue_def with_ptr_eq locked_by_def take_writeLock_def withActor_def actors_ok_def)

lemma cleanup_open:
  assumes "state (getTxnActor w s) = OPEN"
  shows "tasks (cleanup w s) = tasks s @ map (\<lambda>p. ResetValue p w) (locks (getTxnActor w s))
    \<and> ptrs (cleanup w s) = ptrs s"
  using assms by (simp add: cleanup_def txnState_def with_txn_eq getState_def reset_def resetTxn_def
      setState_def start_tasks_def)

lemma cleanup_resets:
  assumes "state (getTxnActor w s) = OPEN"
  shows "state (getTxnActor w (cleanup w s)) = RESET"
  using assms by (simp add: cleanup_def txnState_def with_txn_eq getState_def reset_def resetTxn_def
      setState_def start_tasks_def)

text \<open>The pointer after its holder's reset has run, and a younger transaction that locks it then.\<close>

definition released :: "'v mem_actor \<Rightarrow> 'v mem_actor" where
  "released a = a\<lparr>writeLock := None, queuedValue := None, staleCommit := None\<rparr>"

lemma reset_task_releases:
  assumes "ptrs s p = Some a" "\<not> closed a" "writeLock a = Some w" "tasks s ! i = ResetValue p w"
  shows "ptrs (run_nth_task i s) p = Some (released a)"
  using assms by (simp add: run_nth_task_def resetValue_def with_ptr_eq actor_at_def getPtrActor_def
      writeReset_def withActor_def released_def)

lemma released_lock_granted:
  assumes "mem_inv a" "\<not> closed a" "writeLock a = Some w" "w < t"
  shows "fst (take_writeLock t (released a)) = Inr None"
  using assms by (fastforce simp: released_def take_writeLock_def withActor_def mem_inv_def txn_order_key)

text \<open>C9. An abandoned lock is recovered, and what it would have written is thrown away.  The holder of
  the pointer is an open transaction \<open>w\<close> older than the timeout that lists the lock (as every holder is when
  no task is outstanding), and another transaction \<open>t\<close> tries to lock the pointer: \<open>t\<close> is told of the holder,
  the holder is RESET and so can no longer commit, no pointer has changed yet, and a task is outstanding
  whose run, at once, leaves the pointer with its history and its newest read, without the lock and
  without the value queued for it.  A younger \<open>t\<close> that tries again then gets the lock.\<close>

theorem abandoned_lock_recovered:
  assumes "store_reachable w0 s" "ptrs s p = Some a" "writeLock a = Some w" "w \<noteq> t"
    and "state (getTxnActor w s) = OPEN" "p \<in> set (locks (getTxnActor w s))"
    and "age_ns (wall s) w > txnTimeout"
  shows "\<exists>s1 i. lock_begin p t s = (Inr (Some w), s1)
    \<and> state (getTxnActor w s1) = RESET \<and> fst (commit w s1) = Inl RequirementFailed \<and> ptrs s1 = ptrs s
    \<and> i < length (tasks s1)
    \<and> ptrs (run_nth_task i s1) p = Some (a\<lparr>writeLock := None, queuedValue := None, staleCommit := None\<rparr>)
    \<and> (w < t \<longrightarrow> fst (lock_begin p t (run_nth_task i s1)) = Inr None)"
proof -
  let ?s1 = "cleanup w s"
  have ok: "actors_ok s" using store_reachable_inv [OF assms(1)] by (simp add: store_inv_def)
  then have a: "mem_inv a" "\<not> closed a" using assms(2) by (auto simp: actors_ok_def)
  have lb: "lock_begin p t s = (Inr (Some w), ?s1)"
    using lockValue_refused [OF ok _ assms(4), of p] assms(2,3,7) by (simp add: lock_begin_def locked_by_def)
  have "ResetValue p w \<in> set (tasks ?s1)" using cleanup_open [OF assms(5)] assms(6) by simp
  then obtain i where i: "i < length (tasks ?s1)" "tasks ?s1 ! i = ResetValue p w" by (auto simp: in_set_conv_nth)
  have ptr: "ptrs (run_nth_task i ?s1) p = Some (released a)"
    using reset_task_releases [OF _ a(2) assms(3) i(2)] cleanup_open [OF assms(5)] assms(2) by simp
  have "fst (lock_begin p t (run_nth_task i ?s1)) = Inr None" if "w < t"
    using released_lock_granted [OF a assms(3) that] ptr
    by (simp add: lock_begin_def lockValue_def with_ptr_eq)
  moreover have "fst (commit w ?s1) = Inl RequirementFailed" using cleanup_resets [OF assms(5)]
    by (simp add: commit_def commitTxn_def with_txn_eq setState_def)
  ultimately show ?thesis
    using lb i(1) cleanup_open [OF assms(5)] cleanup_resets [OF assms(5)] ptr unfolding released_def by blast
qed

section \<open>Commits\<close>

lemma commit_open:
  assumes "state (getTxnActor t s) = OPEN" "commit t s = (r, s1)"
  shows "r = Inr () \<and> ptrs s1 = ptrs s \<and> tasks s1 = tasks s @ map (\<lambda>p. CommitValue p t) (locks (getTxnActor t s))
    \<and> state (getTxnActor t s1) = COMMIT"
  using assms by (auto simp: commit_def commitTxn_def with_txn_eq setState_def start_tasks_def)

lemma getPtr_ready:
  assumes "ready t val s p" "t < u"
  shows "fst (getPtr p u s) = Inl (TransactionConflict (Some t))"
proof -
  obtain a where a: "ptrs s p = Some a" "mem_inv a" "writeLock a = Some t" using assms(1) by (auto simp: ready_def)
  have "\<not> (\<exists>l \<in> set_option (lastRead a). l \<ge> u)" using a assms(2) by (auto simp: mem_inv_def txn_order_key)
  then have "getValue u a = (Inl (TransactionConflict (Some t)), a)" using a(3) assms(2) by (simp add: getValue_def)
  then show ?thesis using a(1) by (simp add: getPtr_def getValueAt_def with_ptr_eq)
qed

lemma getPtr_published:
  assumes "published t val s p" "t < u"
  shows "fst (getPtr p u s) = Inr (val p)"
proof -
  obtain a h where a: "ptrs s p = Some a" "writeLock a = None" "history a = h @ [new_record t (val p)]"
    using assms(1) by (auto simp: published_def)
  have "visible_value (history a) u = val p"
    using assms(2) a(3) by (simp add: visible_value_append_now less_imp_le)
  then have "fst (getValue u a) = Inr (val p)" using a(2) by (simp add: getValue_def)
  then show ?thesis using a(1) by (simp add: getPtr_def getValueAt_def with_ptr_eq split: prod.splits)
qed

text \<open>C3. A commit is atomic for its readers although it answers before its pointers are written: once it
  has answered, and after any of its pointer commits have run in any order, a younger transaction
  that reads a pointer of the transaction gets the committed value or a conflict that names the
  transaction; it never sees the value of before.\<close>

theorem commit_atomic_visibility:
  assumes "state (getTxnActor t s) = OPEN" "\<forall>p \<in> set (locks (getTxnActor t s)). ready t val s p"
    and "commit t s = (r, s1)" "distinct fin" "set fin \<subseteq> set (locks (getTxnActor t s))"
    and "p \<in> set (locks (getTxnActor t s))" "t < u"
  shows "r = Inr () \<and> fst (getPtr p u (run_commits t fin s1)) =
    (if p \<in> set fin then Inr (val p) else Inl (TransactionConflict (Some t)))"
proof -
  have s1: "r = Inr ()" "ptrs s1 = ptrs s" using commit_open [OF assms(1,3)] by auto
  have rdy: "ready t val s1 q" if "q \<in> set (locks (getTxnActor t s))" for q
    using assms(2) that s1(2) by (simp add: ready_def)
  have eff: "\<forall>q \<in> set fin. published t val (run_commits t fin s1) q"
    "\<forall>q. q \<notin> set fin \<longrightarrow> ptrs (run_commits t fin s1) q = ptrs s1 q"
    using run_commits_effect [OF assms(4), of t val s1] rdy assms(5) by (auto simp: subset_iff)
  show ?thesis
  proof (cases "p \<in> set fin")
    case True
    then have "published t val (run_commits t fin s1) p" using eff(1) by blast
    from getPtr_published [OF this assms(7)] show ?thesis using True s1(1) by simp
  next
    case False
    then have "ready t val (run_commits t fin s1) p"
      using rdy [OF assms(6)] eff(2) ready_published_cong [of "run_commits t fin s1" p s1 t val] by simp
    from getPtr_ready [OF this assms(7)] show ?thesis using False s1(1) by simp
  qed
qed

text \<open>A commit and a reset of one transaction exclude each other: after either has answered, the other
  fails, starts no task and leaves every pointer alone.\<close>

theorem commit_reset_exclusive:
  assumes "state (getTxnActor t s) = OPEN"
  shows "fst (reset t (snd (commit t s))) = Inl RequirementFailed
    \<and> tasks (snd (reset t (snd (commit t s)))) = tasks (snd (commit t s))
    \<and> fst (commit t (snd (reset t s))) = Inl RequirementFailed
    \<and> tasks (snd (commit t (snd (reset t s)))) = tasks (snd (reset t s))
    \<and> ptrs (snd (commit t (snd (reset t s)))) = ptrs s"
  using assms by (simp add: commit_def reset_def commitTxn_def resetTxn_def with_txn_eq setState_def
      start_tasks_def)

text \<open>A read without a time of a pointer whose actor is closed does not report the conflict: it fails
  with a null pointer exception, where the read with a time reports the conflict.\<close>

theorem getPtrNow_closed_null_pointer:
  assumes "ptrs s p = Some a" "closed a"
  shows "fst (getPtrNow p s) = Inl NullPointer
    \<and> fst (queueValue p t v s) = Inl (TransactionConflict None)"
  using assms by (simp add: getPtrNow_def getValueNow_def queueValue_def with_ptr_eq getCurrentValue_def
      writeBlob_def withActor_def)

section \<open>The cold store\<close>

lemma map_of_cold_fold:
  "distinct (map fst data) \<Longrightarrow>
    map_of (fold (\<lambda>(t, v) d. AList.update t v d) data d) = map_of d ++ map_of data"
proof (induction data arbitrary: d)
  case (Cons x data)
  obtain t v where x: "x = (t, v)" by (cases x)
  have "t \<notin> dom (map_of data)" using Cons.prems by (simp add: x dom_map_of_conv_image_fst)
  then have "map_of (AList.update t v d) ++ map_of data = (map_of d ++ map_of data)(t \<mapsto> v)"
    by (simp add: AList.update_conv' map_add_upd_left)
  moreover have "map_of (fold (\<lambda>(t, v) d. AList.update t v d) data (AList.update t v d))
      = map_of (AList.update t v d) ++ map_of data" using Cons by simp
  ultimately show ?case by (simp add: x map_add_upd del: fun_upd_apply)
qed simp

lemma distinct_cold_fold:
  "distinct (map fst d) \<Longrightarrow> distinct (map fst (fold (\<lambda>(t, v) d. AList.update t v d) data d))"
  by (induction data arbitrary: d) (auto simp: AList.distinct_update split: prod.splits)

lemma strict_history_distinct: "strict_history h \<Longrightarrow> distinct (map hr_time h)"
  unfolding strict_history_def
  by (induction h) (auto simp: txn_order_key)

lemma visible_value_all:
  "h \<noteq> [] \<Longrightarrow> \<forall>r \<in> set h. hr_time r \<le> u \<Longrightarrow> visible_value h u = hr_value (last h)"
  by (simp add: visible_value_at_last)

text \<open>The last record of a history sorted by time whose newest time is unique.\<close>

lemma sorted_last_value:
  assumes "\<forall>x \<in> set xs. x = y \<or> hr_time x < hr_time y" "y \<in> set xs"
  shows "last (sort_key (\<lambda>r. tkey (hr_time r)) xs) = y"
proof -
  let ?h = "sort_key (\<lambda>r. tkey (hr_time r)) xs"
  have ne: "?h \<noteq> []" using assms(2) by (metis length_pos_if_in_set length_sort less_irrefl list.size(3))
  have srt: "sorted_wrt (\<lambda>a b. tkey (hr_time a) \<le> tkey (hr_time b)) ?h" using sorted_sort_key [of "\<lambda>r. tkey (hr_time r)" xs] by (simp only: sorted_wrt_map)
  have "tkey (hr_time y) \<le> tkey (hr_time (last ?h))"
  proof -
    have split: "?h = butlast ?h @ [last ?h]" using ne by simp
    have "y \<in> set ?h" using assms(2) by simp
    then have "y \<in> set (butlast ?h) \<or> y = last ?h" by (subst (asm) split) (simp only: set_append, auto)
    moreover have "\<forall>x \<in> set (butlast ?h). tkey (hr_time x) \<le> tkey (hr_time (last ?h))"
      using srt by (subst (asm) split) (simp only: sorted_wrt_append, simp)
    ultimately show ?thesis by auto
  qed
  moreover have "last ?h \<in> set xs" using last_in_set [OF ne] by simp
  ultimately show ?thesis using assms(1) by (force simp: txn_order_key)
qed


text \<open>What a pointer has in the cold store agrees with its history.\<close>

definition cold_agrees :: "('p, 'v) store \<Rightarrow> 'p \<Rightarrow> 'v mem_actor \<Rightarrow> bool" where
  "cold_agrees s p a \<longleftrightarrow> distinct (map fst (cold s p)) \<and> history a \<noteq> []
     \<and> (\<forall>r \<in> set (history a). coldStorageTs r \<noteq> None \<longrightarrow> (hr_time r, hr_value r) \<in> set (cold s p))
     \<and> (\<forall>(t, v) \<in> set (cold s p). t < hr_time (last (history a)) \<or>
          (t = hr_time (last (history a)) \<and> v = hr_value (last (history a))))"

definition evict :: "'p \<Rightarrow> ('p, 'v) store \<Rightarrow> ('p, 'v) store" where
  "evict p s = s\<lparr>ptrs := (ptrs s)(p := None)\<rparr>"

lemma freeze_ptr_cold:
  assumes "ptrs s p = Some a"
  shows "cold (freeze_ptr p s) p = fold (\<lambda>(t, v) d. AList.update t v d)
    (map (\<lambda>r. (hr_time r, hr_value r)) (filter (\<lambda>r. coldStorageTs r = None) (history a))) (cold s p)"
  using assms by (simp add: freeze_ptr_eq Let_def with_ptr_eq cold_store_def)

lemma key_in_union: "(k, v) \<in> set A \<or> (k, v) \<in> set B \<Longrightarrow> k \<in> fst ` set A \<union> fst ` set B"
  by force

lemma frozen_entries:
  assumes "ptrs s p = Some a" "strict_history (history a)" "cold_agrees s p a"
  defines "L \<equiv> last (history a)"
  shows "(hr_time L, hr_value L) \<in> set (cold (freeze_ptr p s) p)"
    "\<forall>(t, v) \<in> set (cold (freeze_ptr p s) p). t < hr_time L \<or> (t = hr_time L \<and> v = hr_value L)"
proof -
  let ?up = "map (\<lambda>r. (hr_time r, hr_value r)) (filter (\<lambda>r. coldStorageTs r = None) (history a))"
  let ?c = "cold (freeze_ptr p s) p"
  have ne: "history a \<noteq> []" and dc: "distinct (map fst (cold s p))" using assms(3) by (auto simp: cold_agrees_def)
  have du: "distinct (map fst ?up)"
    using strict_history_distinct [OF assms(2)] by (simp add: comp_def distinct_map_filter)
  have c: "map_of ?c = map_of (cold s p) ++ map_of ?up"
    unfolding freeze_ptr_cold [OF assms(1)] by (rule map_of_cold_fold [OF du])
  have dist: "distinct (map fst ?c)" unfolding freeze_ptr_cold [OF assms(1)] by (rule distinct_cold_fold [OF dc])
  have last: "x = L \<or> hr_time x < hr_time L" if "x \<in> set (history a)" for x
  proof -
    have h: "history a = butlast (history a) @ [L]" using ne by (simp add: L_def)
    have "sorted_wrt (\<lambda>a b. hr_time a < hr_time b) (butlast (history a) @ [L])"
      using assms(2) h by (simp add: strict_history_def)
    moreover have "x \<in> set (butlast (history a) @ [L])" using that h by simp
    ultimately show ?thesis by (auto simp: sorted_wrt_append)
  qed
  have entry: "(t, v) \<in> set ?up \<or> (t, v) \<in> set (cold s p)" if "(t, v) \<in> set ?c" for t v
    using map_of_is_SomeI [OF dist that] unfolding c
    by (auto simp: map_add_def split: option.splits dest!: map_of_SomeD)
  show all: "\<forall>(t, v) \<in> set ?c. t < hr_time L \<or> (t = hr_time L \<and> v = hr_value L)"
    using entry last assms(3) by (fastforce simp: cold_agrees_def L_def)
  have mem: "(hr_time L, hr_value L) \<in> set ?up \<or> (hr_time L, hr_value L) \<in> set (cold s p)"
  proof (cases "coldStorageTs L = None")
    case True
    then have "L \<in> set (filter (\<lambda>r. coldStorageTs r = None) (history a))"
      using last_in_set [OF ne] by (simp add: L_def)
    then show ?thesis by (metis (mono_tags, lifting) image_eqI set_map)
  next
    case False
    then show ?thesis using last_in_set [OF ne] assms(3) by (simp add: cold_agrees_def L_def)
  qed
  from key_in_union [OF this] have "hr_time L \<in> fst ` set ?up \<union> fst ` set (cold s p)" .
  then have "hr_time L \<in> dom (map_of ?c)" unfolding c dom_map_add dom_map_of_conv_image_fst .
  then obtain v where "map_of ?c (hr_time L) = Some v" unfolding dom_def mem_Collect_eq by (cases "map_of ?c (hr_time L)") simp_all
  then have v: "(hr_time L, v) \<in> set ?c" by (rule map_of_SomeD)
  have "v = hr_value L" using bspec [OF all v] by (simp add: txn_order_key)
  then show "(hr_time L, hr_value L) \<in> set ?c" using v by (simp only:)
qed

lemma reloaded_value:
  assumes "ptrs s p = Some a" "strict_history (history a)" "cold_agrees s p a" "hr_time (last (history a)) \<le> u"
  shows "visible_value (history (restored_actor p t (evict p (freeze_ptr p s)))) u = hr_value (last (history a))"
proof -
  let ?L = "last (history a)" and ?s = "evict p (freeze_ptr p s)"
  let ?mk = "\<lambda>(u, v). \<lparr>hr_time = u, hr_value = v, coldStorageTs = Some (wall_ms ?s)\<rparr>"
  let ?xs = "map ?mk (cold ?s p)" and ?y = "?mk (hr_time ?L, hr_value ?L)"
  have cold: "cold ?s p = cold (freeze_ptr p s) p" by (simp add: evict_def)
  have y: "?y \<in> set ?xs" using imageI [OF frozen_entries(1) [OF assms(1-3)], of ?mk] by (simp add: cold)
  have max: "\<forall>x \<in> set ?xs. x = ?y \<or> hr_time x < hr_time ?y"
  proof
    fix x assume "x \<in> set ?xs"
    then obtain v w where x: "(v, w) \<in> set (cold (freeze_ptr p s) p)" "x = ?mk (v, w)"
      unfolding cold by (auto simp only: set_map)
    then have "v < hr_time ?L \<or> (v = hr_time ?L \<and> w = hr_value ?L)"
      using frozen_entries(2) [OF assms(1-3)] by blast
    then show "x = ?y \<or> hr_time x < hr_time ?y" using x(2) by auto
  qed
  have h: "history (restored_actor p t ?s) = sort_key (\<lambda>r. tkey (hr_time r)) ?xs"
    by (simp add: restored_actor_def cold_read_def)
  let ?H = "history (restored_actor p t ?s)"
  have last: "last ?H = ?y" unfolding h by (rule sorted_last_value [OF max y])
  have "?y \<in> set ?H" using y unfolding h by (simp only: set_sort)
  then have ne: "?H \<noteq> []" by (metis empty_iff list.set(1))
  have "hr_time (last ?H) \<le> u" "hr_value (last ?H) = hr_value ?L" using assms(4) unfolding last by simp_all
  then show ?thesis using visible_value_at_last [OF ne] by (simp only:)
qed

text \<open>\<open>evict\<close> is what the expiry check does to an idle pointer: one without a new record, a newer read or a lock.\<close>

lemma expire_evicts:
  assumes "ptrs s p = Some a" "\<not> closed a" "writeLock a = None" "\<forall>r \<in> set (history a). hr_time r \<in> set ts"
    and "\<forall>l. lastRead a = Some l \<longrightarrow> \<not> l > t"
  shows "snd (expire_ptr p ts t s) = evict p s"
  using assms by (auto simp: expire_ptr_def evict_def)

text \<open>C11. Eviction loses nothing: a pointer that is open and not locked, whose records are in the order of
  strictly increasing times and agree with what the cold store has of them, when frozen to the cold
  store, dropped from memory and loaded again by a later transaction reads, at every time from its newest
  record on, as it did before.\<close>

theorem cold_storage_roundtrip:
  assumes "ptrs s p = Some a" "\<not> closed a" "writeLock a = None" "strict_history (history a)" "cold_agrees s p a"
    and "hr_time (last (history a)) \<le> u"
  shows "fst (getPtr p u (evict p (freeze_ptr p s))) = fst (getPtr p u s)"
proof -
  let ?s = "evict p (freeze_ptr p s)"
  have ne: "history a \<noteq> []" using assms(5) by (simp add: cold_agrees_def)
  have "fst (getPtr p u s) = Inr (hr_value (last (history a)))"
    using assms(1,3) visible_value_at_last [OF ne assms(6)]
    by (simp add: getPtr_def getValueAt_def with_ptr_eq getValue_def split: prod.splits)
  moreover have at: "actor_at p (Some u) ?s = restored_actor p (Some u) ?s"
    by (simp add: actor_at_def getPtrActor_def evict_def Let_def)
  have "fst (getPtr p u ?s) = Inr (hr_value (last (history a)))"
    using reloaded_value [OF assms(1,4,5,6), of "Some u"] restored_actor_ok(3) [of p "Some u" ?s]
    by (simp add: getPtr_def getValueAt_def with_ptr_eq at getValue_def split: prod.splits)
  ultimately show ?thesis by simp
qed


section \<open>Witnesses\<close>

text \<open>Pointer 1, created at second 80, then locked by the transaction of second 90, which the second
  state shows with its value queued.\<close>

definition demo_locked :: "(nat, nat) store" where
  "demo_locked = run_nth_task 0 (snd (lock_begin 1 (at_sec 90) (snd (newPtr (at_sec 80) 1 [1]
     (new_store (ExactTime 100 0))))))"

definition demo_ready :: "(nat, nat) store" where
  "demo_ready = snd (queueValue 1 (at_sec 90) 7 demo_locked)"

definition demo_actor :: "nat option option \<Rightarrow> nat mem_actor" where
  "demo_actor q = \<lparr>history = [new_record (at_sec 80) (Some 1)], lastRead = Some (at_sec 80),
     writeLock = Some (at_sec 90), staleCommit = None, queuedValue = q, closed = False\<rparr>"

lemma demo_locked_eq: "demo_locked = \<lparr>ptrs = [1 \<mapsto> demo_actor None],
    txns = [at_sec 90 \<mapsto> \<lparr>locks = [1], state = OPEN\<rparr>], cold = (\<lambda>_. []), freezeQueue = [1], tasks = [],
    wall = ExactTime 100 0\<rparr>"
  by (simp add: demo_locked_def new_store_def initValue_def with_ptr_eq actor_at_def getPtrActor_def
      restored_actor_def cold_read_def new_mem_actor_def init_value_def withActor_def lock_begin_def
      lockValue_def take_writeLock_def txn_order_key run_nth_task_def lock_recorded_def addTxnLock_def
      with_txn_eq addLock_cases getTxnActor_def new_txn_actor_def start_tasks_def queueStorage_def
      demo_actor_def Let_def)

lemma demo_ready_eq: "demo_ready = demo_locked\<lparr>ptrs := [1 \<mapsto> demo_actor (Some (Some 7))]\<rparr>"
  by (simp add: demo_ready_def demo_locked_eq queueValue_def with_ptr_eq writeBlob_def withActor_def
      demo_actor_def)

lemma demo_locked_reachable: "store_reachable (ExactTime 100 0) demo_locked"
proof -
  let ?s0 = "new_store (ExactTime 100 0) :: (nat, nat) store"
  let ?s1 = "snd (newPtr (at_sec 80) 1 [1] ?s0)" and ?s2 = "snd (lock_begin 1 (at_sec 90) (snd (newPtr (at_sec 80) 1 [1] ?s0)))"
  have "0 < length (tasks ?s2)"
    by (simp add: new_store_def initValue_def with_ptr_eq actor_at_def getPtrActor_def
      restored_actor_def cold_read_def new_mem_actor_def init_value_def withActor_def lock_begin_def
      lockValue_def take_writeLock_def txn_order_key start_tasks_def queueStorage_def Let_def)
  then have "store_step ?s2 demo_locked" unfolding demo_locked_def by (rule StTask)
  then show ?thesis using StNew [of ?s0 "at_sec 80" 1 "[1]"] StLock [of ?s1 1 "at_sec 90"]
    by (meson rtranclp.rtrancl_into_rtrancl rtranclp.rtrancl_refl)
qed

lemma demo_locked_by: "locked_by demo_locked 1 (at_sec 90)"
  by (simp add: locked_by_def demo_locked_eq demo_actor_def)

lemma demo_ready_reachable: "store_reachable (ExactTime 100 0) demo_ready"
  unfolding demo_ready_def using demo_locked_reachable StQueue by (rule rtranclp.rtrancl_into_rtrancl)

theorem no_lost_lock_witness:
  "state (getTxnActor (at_sec 90) demo_locked) = OPEN"
  using no_lost_lock [OF demo_locked_reachable demo_locked_by] by (simp add: demo_locked_eq)

theorem abandoned_lock_recovered_witness:
  "\<exists>s1 i. lock_begin 1 (at_sec 99) demo_ready = (Inr (Some (at_sec 90)), s1)
    \<and> state (getTxnActor (at_sec 90) s1) = RESET \<and> i < length (tasks s1)
    \<and> fst (lock_begin 1 (at_sec 99) (run_nth_task i s1)) = Inr None"
  using abandoned_lock_recovered [OF demo_ready_reachable, where p = 1 and a = "demo_actor (Some (Some 7))"
      and w = "at_sec 90" and t = "at_sec 99"]
  by (auto simp: demo_ready_eq demo_locked_eq demo_actor_def getTxnActor_def txnTimeout_def txn_order_key)

lemma demo_ready_ready: "ready (at_sec 90) (\<lambda>_. Some 7) demo_ready 1"
  by (simp add: ready_def demo_ready_eq demo_actor_def mem_inv_def txn_order_key)

lemma demo_ready_txn: "getTxnActor (at_sec 90) demo_ready = \<lparr>locks = [1], state = OPEN\<rparr>"
  by (simp add: demo_ready_eq demo_locked_eq getTxnActor_def)

theorem commit_atomic_visibility_witness:
  "fst (getPtr 1 (at_sec 95) (run_commits (at_sec 90) [] (snd (commit (at_sec 90) demo_ready))))
      = Inl (TransactionConflict (Some (at_sec 90)))
   \<and> fst (getPtr 1 (at_sec 95) (run_commits (at_sec 90) [1] (snd (commit (at_sec 90) demo_ready)))) = Inr (Some 7)"
  using commit_atomic_visibility [of "at_sec 90" demo_ready "\<lambda>_. Some 7" _ _ "[]" 1 "at_sec 95", OF _ _ prod.collapse [symmetric]]
    commit_atomic_visibility [of "at_sec 90" demo_ready "\<lambda>_. Some 7" _ _ "[1]" 1 "at_sec 95", OF _ _ prod.collapse [symmetric]]
  using demo_ready_ready by (simp add: demo_ready_txn txn_order_key)

theorem commit_reset_exclusive_witness:
  "fst (reset (at_sec 90) (snd (commit (at_sec 90) demo_ready))) = Inl RequirementFailed"
  using commit_reset_exclusive [of "at_sec 90" demo_ready] by (simp add: demo_ready_txn)

theorem getPtrNow_closed_null_pointer_witness:
  "fst (getPtrNow 1 (demo_locked\<lparr>ptrs := [1 \<mapsto> close_actor (demo_actor None)]\<rparr>)) = Inl NullPointer"
  using getPtrNow_closed_null_pointer [of "demo_locked\<lparr>ptrs := [1 \<mapsto> close_actor (demo_actor None)]\<rparr>" 1
      "close_actor (demo_actor None)" "at_sec 1" 0]
  by (simp add: close_actor_def)

definition demo_idle :: "(nat, nat) store" where
  "demo_idle = demo_locked\<lparr>ptrs := [1 \<mapsto> two_writes]\<rparr>"

theorem cold_storage_roundtrip_witness:
  "fst (getPtr 1 (at_sec 96) (evict 1 (freeze_ptr 1 demo_idle))) = fst (getPtr 1 (at_sec 96) demo_idle)"
  by (rule cold_storage_roundtrip [of _ _ two_writes])
     (simp_all add: demo_idle_def demo_locked_eq two_writes_strict,
      simp_all add: two_writes_eq cold_agrees_def txn_order_key)

end
