(* ===== verification/StmProps.thy ===== *)
theory StmProps
  imports StmClient RestmProps
begin

text \<open>
  What the client of the store guarantees.  \<open>pinned\<close> is what a read at a time leaves on a pointer; a
  contract for the moves of the others (the locale \<open>polite\<close>: they keep the invariant of the node and
  every pin) is enough for an attempt to compute what its program computes alone on the snapshot of
  its time, \<open>spec\<close>.  The messages of other transactions, in any order, satisfy the contract.
\<close>

section \<open>Pins\<close>

definition covered :: "txn_time \<Rightarrow> 'v mem_actor \<Rightarrow> bool" where
  "covered t a = (\<exists>l. lastRead a = Some l \<and> t \<le> l)"

definition pins :: "txn_time \<Rightarrow> 'v option \<Rightarrow> 'v mem_actor \<Rightarrow> bool" where
  "pins t x a = (covered t a \<and> visible_value (history a) t = x)"

definition pinned :: "txn_time \<Rightarrow> 'p \<Rightarrow> ('p, 'v) store \<Rightarrow> 'v option \<Rightarrow> bool" where
  "pinned t p s x = (\<exists>a. ptrs s p = Some a \<and> pins t x a)"

definition seen :: "txn_time \<Rightarrow> ('p, 'v) store \<Rightarrow> 'p \<Rightarrow> 'v option" where
  "seen t s p = visible_value (history (actor_at p (Some t) s)) t"

lemma pinned_seen: "pinned t p s x \<Longrightarrow> seen t s p = x"
  by (auto simp: pinned_def pins_def seen_def)

lemma pinned_cong: "ptrs s' = ptrs s \<Longrightarrow> pinned t p s' x = pinned t p s x"
  by (simp add: pinned_def)

lemma pins_getValue: "pins t x a \<Longrightarrow> pins t x (snd (getValue u a))"
  by (auto simp: pins_def covered_def getValue_def txn_order_key split: option.splits)

lemma pins_lock: "pins t x a \<Longrightarrow> pins t x (snd (take_writeLock u a))"
  by (auto simp: pins_def covered_def take_writeLock_def withActor_def split: option.splits)

lemma pins_reset: "pins t x a \<Longrightarrow> pins t x (snd (writeReset u a))"
  by (auto simp: pins_def covered_def writeReset_def withActor_def)

lemma pins_queue: "pins t x a \<Longrightarrow> staleCommit a \<noteq> Some u \<Longrightarrow> pins t x (snd (writeBlob u v a))"
  by (auto simp: pins_def covered_def writeBlob_def withActor_def)

lemma pins_delete: "pins t x a \<Longrightarrow> staleCommit a \<noteq> Some u \<Longrightarrow> pins t x (snd (delete_value u a))"
  by (auto simp: pins_def covered_def delete_value_def withActor_def)

lemma pins_commit:
  assumes "mem_inv a" "pins t x a" "tkey u \<noteq> tkey t"
  shows "pins t x (snd (writeCommit u a))"
proof (cases "closed a \<or> writeLock a \<noteq> Some u")
  case False
  obtain l where l: "lastRead a = Some l" "t \<le> l" using assms(2) by (auto simp: pins_def covered_def)
  then have "l \<le> u" using assms(1) False by (auto simp: mem_inv_def)
  then have "t < u" using l assms(3) by (simp add: txn_order_key)
  then show ?thesis using assms(2) False l
    by (auto simp: pins_def covered_def writeCommit_def withActor_def txn_order_key split: option.splits)
qed (use assms(2) in \<open>auto simp: writeCommit_def withActor_def\<close>)

lemma pinned_with_ptr:
  assumes "pinned t p s x" "\<And>a. q = p \<Longrightarrow> ptrs s p = Some a \<Longrightarrow> pins t x a \<Longrightarrow> pins t x (snd (f a))"
  shows "pinned t p (snd (with_ptr q u f s)) x"
  using assms by (auto simp: pinned_def with_ptr_eq)

lemma ptrs_with_txn [simp]: "ptrs (snd (with_txn t f s)) = ptrs s"
  by (simp add: with_txn_eq)

lemma ptrs_start_tasks [simp]: "ptrs (start_tasks ks s) = ptrs s"
  by (simp add: start_tasks_def)

lemma ptrs_commit [simp]: "ptrs (snd (commit t s)) = ptrs s"
  unfolding commit_def commitTxn_def with_txn_eq by (auto split: sum.split prod.split)

lemma ptrs_reset [simp]: "ptrs (snd (reset t s)) = ptrs s"
  unfolding reset_def resetTxn_def with_txn_eq by (auto split: sum.split prod.split)

lemma ptrs_cleanup [simp]: "ptrs (cleanup t s) = ptrs s"
  by (simp add: cleanup_def txnState_def Let_def split_beta)

lemma ptrs_lock_recorded [simp]: "ptrs (lock_recorded p t s) = ptrs s"
  by (simp add: lock_recorded_def addTxnLock_def Let_def split_beta split: txn_state.split)

lemma ptrs_getPtr: "ptrs (snd (getPtr p t s)) = ptrs (snd (getValueAt p t s))"
  by (auto simp: getPtr_def split: sum.splits store_error.splits option.splits prod.splits)

lemma ptrs_getPtrNow: "ptrs (snd (getPtrNow p s)) = ptrs (snd (getValueNow p s))"
  by (auto simp: getPtrNow_def split: sum.splits store_error.splits option.splits prod.splits)

lemma ptrs_lock_begin: "ptrs (snd (lock_begin p t s)) = ptrs (snd (lockValue p t s))"
  by (auto simp: lock_begin_def split: sum.splits option.splits prod.splits)

lemma pinned_getPtr: "pinned t p s x \<Longrightarrow> pinned t p (snd (getPtr q u s)) x"
  unfolding pinned_cong [OF ptrs_getPtr] getValueAt_def by (rule pinned_with_ptr) (simp_all add: pins_getValue)

lemma pinned_getPtrNow: "pinned t p s x \<Longrightarrow> pinned t p (snd (getPtrNow q s)) x"
  unfolding pinned_cong [OF ptrs_getPtrNow] getValueNow_def
  by (simp add: Let_def split_beta) (rule pinned_with_ptr, simp_all)

lemma pinned_lock_begin: "pinned t p s x \<Longrightarrow> pinned t p (snd (lock_begin q u s)) x"
  unfolding pinned_cong [OF ptrs_lock_begin] lockValue_def by (rule pinned_with_ptr) (simp_all add: pins_lock)

lemma pinned_queueStorage [simp]: "pinned t p (queueStorage q s) x = pinned t p s x"
  by (rule pinned_cong) (simp add: queueStorage_def)

lemma pinned_newPtr: "p \<notin> set ps \<Longrightarrow> pinned t p s x \<Longrightarrow> pinned t p (snd (newPtr u v ps s)) x"
proof (induction ps arbitrary: s)
  case (Cons q ps)
  have "pinned t p (snd (initValue u v q s)) x"
    by (simp add: initValue_def Let_def split_beta) (rule pinned_with_ptr, use Cons.prems in auto)
  then show ?case using Cons by (auto split: sum.split prod.split bool.split)
qed simp

lemma pinned_run_nth_task:
  assumes "pinned t p s x" "store_inv s" "i < length (tasks s)" "\<And>q u. tasks s ! i = CommitValue q u \<Longrightarrow> tkey u \<noteq> tkey t"
  shows "pinned t p (run_nth_task i s) x"
proof -
  let ?s = "s\<lparr>tasks := take i (tasks s) @ drop (Suc i) (tasks s)\<rparr>"
  have s: "pinned t p ?s x" using assms(1) by (simp add: pinned_def)
  have inv: "mem_inv a" if "ptrs ?s p = Some a" for a using that assms(2) by (auto simp: store_inv_def actors_ok_def)
  show ?thesis
  proof (cases "tasks s ! i")
    case (CommitValue q u)
    then have "pinned t p (snd (with_ptr q (Some u) (writeCommit u) ?s)) x"
      using assms(4) s inv by (intro pinned_with_ptr) (auto intro: pins_commit)
    then show ?thesis using CommitValue by (simp add: run_nth_task_def commitValue_def Let_def split_beta)
  next
    case (ResetValue q u)
    then show ?thesis using pinned_with_ptr [OF s, of q "writeReset u" "Some u"]
      by (simp add: run_nth_task_def resetValue_def pins_reset)
  next
    case (AddLock q u)
    then show ?thesis using s by (simp add: run_nth_task_def pinned_def)
  qed
qed

section \<open>Other transactions\<close>

text \<open>
  What the rest of the system does while the transaction of time \<open>t\<close> runs: any message of another
  time, reads and resets of any, any task but a commit of that time.  A write that arrives after the
  commit of its transaction, and freezing and eviction, are left out: they break reads, see
  \<open>late_write_misdated\<close> and \<open>collectGarbage_loses_snapshot\<close>.
\<close>

inductive other_step :: "txn_time \<Rightarrow> ('p, 'v) store \<Rightarrow> ('p, 'v) store \<Rightarrow> bool" for t where
  OtNew: "\<forall>q \<in> set ps. ptrs s q = None \<Longrightarrow> other_step t s (snd (newPtr u v ps s))"
| OtGetNow: "other_step t s (snd (getPtrNow p s))"
| OtGet: "other_step t s (snd (getPtr p u s))"
| OtLock: "tkey u \<noteq> tkey t \<Longrightarrow> other_step t s (snd (lock_begin p u s))"
| OtQueue: "staleCommit (actor_at p (Some u) s) \<noteq> Some u \<Longrightarrow> other_step t s (snd (queueValue p u v s))"
| OtDelete: "staleCommit (actor_at p (Some u) s) \<noteq> Some u \<Longrightarrow> other_step t s (snd (deleteValue p u s))"
| OtCommit: "tkey u \<noteq> tkey t \<Longrightarrow> other_step t s (snd (commit u s))"
| OtReset: "other_step t s (snd (reset u s))"
| OtTask: "i < length (tasks s) \<Longrightarrow> (\<And>q u. tasks s ! i = CommitValue q u \<Longrightarrow> tkey u \<noteq> tkey t) \<Longrightarrow> other_step t s (run_nth_task i s)"
| OtTick: "other_step t s (s\<lparr>wall := w\<rparr>)"

lemma other_step_store: "other_step t s s' \<Longrightarrow> store_step s s'"
  by (induction rule: other_step.induct) (auto intro: store_step.intros)

lemma other_step_pinned: "other_step t s s' \<Longrightarrow> store_inv s \<Longrightarrow> pinned t p s x \<Longrightarrow> pinned t p s' x"
proof (induction rule: other_step.induct)
  case (OtNew ps s u v)
  then have "p \<notin> set ps" by (auto simp: pinned_def)
  then show ?case using OtNew by (intro pinned_newPtr)
next
  case (OtQueue q u s v)
  then show ?case unfolding queueValue_def by (intro pinned_with_ptr) (simp_all add: pins_queue)
next
  case (OtDelete q u s)
  then show ?case unfolding deleteValue_def by (intro pinned_with_ptr) (simp_all add: pins_delete)
qed (simp_all add: pinned_getPtrNow pinned_getPtr pinned_lock_begin pinned_run_nth_task pinned_cong [OF ptrs_commit]
    pinned_cong [OF ptrs_reset] pinned_cong [of "s\<lparr>wall := w\<rparr>" s for s w])

section \<open>An attempt on a snapshot\<close>

text \<open>
  The reference: the program alone on a snapshot, with its own writes laid over it.  It is given the
  identifiers that were drawn and the locks that were granted.
\<close>

definition view :: "('p \<Rightarrow> 'v option) \<Rightarrow> ('p \<times> 'v option) list \<Rightarrow> 'p \<Rightarrow> 'v option" where
  "view m wr p = (case map_of wr p of Some x \<Rightarrow> x | None \<Rightarrow> m p)"

primrec spec ::
  "('p, 'v, 'r) prog \<Rightarrow> 'p list \<Rightarrow> ('p \<Rightarrow> 'v option) \<Rightarrow> ('p \<Rightarrow> bool) \<Rightarrow> ('p \<times> 'v option) list
     \<Rightarrow> ('r \<times> ('p \<times> 'v option) list) option" where
  "spec (PRet r) ids m lk wr = Some (r, wr)"
| "spec (PFail e) ids m lk wr = None"
| "spec (PRead p k) ids m lk wr = spec (k (view m wr p)) ids m lk wr"
| "spec (PWrite p v k) ids m lk wr =
     spec k ids m lk (if view m wr p \<noteq> Some v then AList.update p (Some v) wr else wr)"
| "spec (PDelete p k) ids m lk wr =
     spec k ids m lk (if view m wr p \<noteq> None then AList.update p None wr else wr)"
| "spec (PLock p k) ids m lk wr = spec (k (lk p)) ids m lk wr"
| "spec (PNew v k) ids m lk wr =
     (case ids of [] \<Rightarrow> None | p # is \<Rightarrow> if m p = Some v then spec (k p) is m lk wr else None)"

text \<open>A relation that every operation of the context keeps is kept by a program.\<close>

lemma run_prog_lift:
  assumes refl: "\<And>c w. R c w c w"
    and trans: "\<And>c w c1 w1 c2 w2. R c w c1 w1 \<Longrightarrow> R c1 w1 c2 w2 \<Longrightarrow> R c w c2 w2"
    and read: "\<And>p c w r c' w'. readOpt p c w = (r, c', w') \<Longrightarrow> R c w c' w'"
    and wrt: "\<And>p v c w r c' w'. ctx_write p v c w = (r, c', w') \<Longrightarrow> R c w c' w'"
    and delete: "\<And>p c w r c' w'. ctx_delete p c w = (r, c', w') \<Longrightarrow> R c w c' w'"
    and lock: "\<And>p c w r c' w'. lockOptional p c w = (r, c', w') \<Longrightarrow> R c w c' w'"
    and new: "\<And>v c w r c' w'. ctx_newPtr v c w = (r, c', w') \<Longrightarrow> R c w c' w'"
  shows "run_prog prog c w = (r, c', w') \<Longrightarrow> R c w c' w'"
proof (induction prog arbitrary: c w)
  case (PRead p k)
  obtain q c1 w1 where q: "readOpt p c w = (q, c1, w1)" by (metis prod_cases3)
  then show ?case using PRead.prems read [OF q] trans [OF read [OF q] PRead.IH [OF rangeI]] by (cases q) auto
next
  case (PWrite p v k)
  obtain q c1 w1 where q: "ctx_write p v c w = (q, c1, w1)" by (metis prod_cases3)
  then show ?case using PWrite.prems wrt [OF q] trans [OF wrt [OF q] PWrite.IH] by (cases q) auto
next
  case (PDelete p k)
  obtain q c1 w1 where q: "ctx_delete p c w = (q, c1, w1)" by (metis prod_cases3)
  then show ?case using PDelete.prems delete [OF q] trans [OF delete [OF q] PDelete.IH] by (cases q) auto
next
  case (PLock p k)
  obtain q c1 w1 where q: "lockOptional p c w = (q, c1, w1)" by (metis prod_cases3)
  then show ?case using PLock.prems lock [OF q] trans [OF lock [OF q] PLock.IH [OF rangeI]] by (cases q) auto
next
  case (PNew v k)
  obtain q c1 w1 where q: "ctx_newPtr v c w = (q, c1, w1)" by (metis prod_cases3)
  then show ?case using PNew.prems new [OF q] trans [OF new [OF q] PNew.IH [OF rangeI]] by (cases q) auto
qed (simp_all add: refl)

text \<open>The read cache only grows.\<close>

lemma readOpt_mono: "readOpt p c w = (r, c', w') \<Longrightarrow> dom (readCache c) \<subseteq> dom (readCache c')"
  by (auto simp: readOpt_def Let_def split: if_splits option.splits prod.splits)

lemma lockOptional_mono: "lockOptional p c w = (r, c', w') \<Longrightarrow> readCache c' = readCache c"
  by (auto simp: lockOptional_def Let_def split: if_splits option.splits prod.splits)

lemma lock_and_put_mono: "lock_and_put p x c w = (r, c', w') \<Longrightarrow> readCache c' = readCache c"
  by (auto simp: lock_and_put_def ctx_lock_def dest: lockOptional_mono split: if_splits sum.splits prod.splits)

lemma write_mono: "ctx_write p v c w = (r, c', w') \<Longrightarrow> dom (readCache c) \<subseteq> dom (readCache c')"
  by (auto simp: ctx_write_def dest!: readOpt_mono lock_and_put_mono split: if_splits sum.splits prod.splits)

lemma delete_mono: "ctx_delete p c w = (r, c', w') \<Longrightarrow> dom (readCache c) \<subseteq> dom (readCache c')"
  by (auto simp: ctx_delete_def dest!: readOpt_mono lock_and_put_mono split: if_splits sum.splits prod.splits)

lemma newPtr_mono: "ctx_newPtr v c w = (r, c', w') \<Longrightarrow> readCache c' = readCache c"
  by (auto simp: ctx_newPtr_def split: option.splits sum.splits prod.splits)

lemma run_prog_mono: "run_prog prog c w = (r, c', w') \<Longrightarrow> dom (readCache c) \<subseteq> dom (readCache c')"
  by (erule run_prog_lift [rotated 7])
     (auto dest: readOpt_mono write_mono delete_mono lockOptional_mono newPtr_mono)

lemma newPtr_makes: "newPtr t v ps s = (Some (Inr p), s') \<Longrightarrow> p \<in> set ps \<and> pinned t p s' (Some v)"
proof (induction ps arbitrary: s)
  case (Cons q ps)
  obtain r s1 where i: "initValue t v q s = (r, s1)" by fastforce
  have "pinned t q s1 (Some v)" if "r = Inr True"
  proof -
    let ?a = "actor_at q (Some t) s"
    have "fst (init_value t v ?a) = Inr True" "pinned t q s1 x = pinned t q (snd (with_ptr q (Some t) (init_value t v) s)) x" for x
      using i that by (auto simp: initValue_def Let_def split_beta with_ptr_eq)
    moreover have "pins t (Some v) (snd (init_value t v ?a))" if "fst (init_value t v ?a) = Inr True"
      using that by (auto simp: init_value_def withActor_def pins_def covered_def visible_value_def visible_record_def
          txn_order_key split: if_splits)
    ultimately show ?thesis by (simp add: pinned_def with_ptr_eq)
  qed
  then show ?case using Cons i by (auto split: sum.splits bool.splits)
qed simp

locale polite =
  fixes env :: "('p, 'v) store \<Rightarrow> ('p, 'v) store \<Rightarrow> bool" and t :: txn_time
  assumes env_inv: "env s s' \<Longrightarrow> store_inv s \<Longrightarrow> store_inv s'"
    and env_pinned: "env s s' \<Longrightarrow> store_inv s \<Longrightarrow> pinned t p s x \<Longrightarrow> pinned t p s' x"
begin

definition moves :: "('p, 'v) world \<Rightarrow> bool" where
  "moves w = (\<forall>e \<in> set (others w). \<forall>s. store_inv s \<longrightarrow> env s (e s))"

text \<open>The invariant of a running attempt.\<close>

definition running :: "('p, 'v) txn_ctx \<Rightarrow> ('p, 'v) world \<Rightarrow> bool" where
  "running c w \<longleftrightarrow> store_inv (node w) \<and> moves w \<and> \<not> isClosed c \<and> txnId c = t \<and> distinct (fresh w)
     \<and> (\<forall>p x. readCache c p = Some (Inr x) \<longrightarrow> pinned t p (node w) x)
     \<and> (\<forall>p x. initCache c p = Some x \<longrightarrow> pinned t p (node w) x)
     \<and> (\<forall>p x. initCache c p = Some x \<longrightarrow> p \<notin> set (fresh w))"

text \<open>What a step of the attempt may change.\<close>

definition goes :: "('p, 'v) txn_ctx \<Rightarrow> ('p, 'v) world \<Rightarrow> ('p, 'v) txn_ctx \<Rightarrow> ('p, 'v) world \<Rightarrow> bool" where
  "goes c w c' w' \<longleftrightarrow> running c' w' \<and> readCache c \<subseteq>\<^sub>m readCache c' \<and> writeLocks c \<subseteq>\<^sub>m writeLocks c'
     \<and> initCache c \<subseteq>\<^sub>m initCache c' \<and> set (fresh w') \<subseteq> set (fresh w)"

lemma goes_refl: "running c w \<Longrightarrow> goes c w c w"
  by (simp add: goes_def)

lemma goes_trans: "goes c w c1 w1 \<Longrightarrow> goes c1 w1 c2 w2 \<Longrightarrow> goes c w c2 w2"
  unfolding goes_def by (blast intro: map_le_trans)

lemma call_running:
  assumes "running c w" "call f w = (r, w')"
    and inv: "\<And>s. store_inv s \<Longrightarrow> store_inv (snd (f s))"
    and pin: "\<And>s p x. readCache c p \<noteq> None \<or> initCache c p \<noteq> None \<Longrightarrow> store_inv s \<Longrightarrow> pinned t p s x \<Longrightarrow> pinned t p (snd (f s)) x"
  shows "running c w' \<and> fresh w' = fresh w \<and> (\<exists>s. store_inv s \<and> f s = (r, node w'))"
proof -
  define s where "s = (case others w of [] \<Rightarrow> node w | e # es \<Rightarrow> e (node w))"
  have w: "store_inv (node w)" "moves w" using assms(1) by (auto simp: running_def)
  have s: "store_inv s" "\<And>p x. pinned t p (node w) x \<Longrightarrow> pinned t p s x"
    using w env_inv [of "node w"] env_pinned [of "node w"] by (cases "others w"; simp add: s_def moves_def; blast)+
  have f: "f s = (r, node w')" "fresh w' = fresh w" "others w' = tl (others w)"
    using assms(2) by (auto simp: call_def s_def [symmetric] Let_def split_beta)
  have n: "node w' = snd (f s)" using f by simp
  have "moves w'" using w by (cases "others w") (simp_all add: moves_def f(3))
  then have "running c w'"
    using assms(1) s inv [OF s(1)] pin [OF _ s(1)] unfolding running_def f(2) n by blast
  then show ?thesis using f s by blast
qed

lemma own_getPtr:
  assumes "running c w" "call (getPtr p t) w = (r, w')"
  shows "running c w' \<and> fresh w' = fresh w \<and> (\<forall>x. r = Inr x \<longrightarrow> pinned t p (node w') x)"
proof -
  obtain s where s: "store_inv s" "getPtr p t s = (r, node w')" and run: "running c w'" "fresh w' = fresh w"
    using call_running [OF assms getPtr_inv pinned_getPtr] by auto
  have "pinned t p (node w') x" if "r = Inr x" for x
  proof -
    have g: "getValueAt p t s = (Inr x, node w')"
      using s(2) that by (auto simp: getPtr_def split: sum.splits store_error.splits option.splits prod.splits)
    then have "fst (getValue t (actor_at p (Some t) s)) = Inr x"
      and e: "node w' = s\<lparr>ptrs := (ptrs s)(p \<mapsto> snd (getValue t (actor_at p (Some t) s)))\<rparr>"
      by (auto simp: getValueAt_def with_ptr_eq)
    moreover have n: "ptrs (node w') p = Some (snd (getValue t (actor_at p (Some t) s)))" by (simp add: e)
    ultimately have "pins t x (snd (getValue t (actor_at p (Some t) s)))"
      by (auto simp: pins_def covered_def getValue_def txn_order_key split: option.splits if_splits)
    then show ?thesis using n by (simp add: pinned_def)
  qed
  then show ?thesis using run by blast
qed

lemma goes_readOpt:
  assumes "running c w" "readOpt p c w = (r, c', w')"
  shows "goes c w c' w' \<and> writeCache c' = writeCache c \<and> (\<forall>x. r = Inr x \<longrightarrow>
     map_of (writeCache c) p = Some x \<or> (map_of (writeCache c) p = None \<and>
       (initCache c' p = Some x \<or> readCache c' p = Some (Inr x))))"
proof (cases "map_of (writeCache c) p = None \<and> initCache c p = None \<and> readCache c p = None")
  case False
  then show ?thesis using assms goes_refl [OF assms(1)]
    by (auto simp: readOpt_def running_def split: option.splits)
next
  case True
  obtain q w1 where q: "call (getPtr p t) w = (q, w1)" by fastforce
  have run: "running c w1" "fresh w1 = fresh w" "\<forall>x. q = Inr x \<longrightarrow> pinned t p (node w1) x"
    using own_getPtr [OF assms(1) q] by auto
  have r: "r = map_sum to_client id q" "c' = c\<lparr>readCache := (readCache c)(p \<mapsto> map_sum to_client id q)\<rparr>" "w' = w1"
    using assms True q by (auto simp: readOpt_def running_def Let_def)
  have "running c' w'" using run by (cases q) (auto simp: running_def r)
  then have "goes c w c' w'" using True run(2) by (auto simp: goes_def r map_le_def)
  then show ?thesis using True by (cases q) (auto simp: r)
qed

lemma undisturbed_finish_lock:
  "store_inv s \<Longrightarrow> store_inv (snd (finish_lock p u s))"
  "store_inv s \<Longrightarrow> pinned t q s x \<Longrightarrow> pinned t q (snd (finish_lock p u s)) x"
proof -
  have task: "i < length (tasks s) \<and> tasks s ! i = AddLock p u"
    if "find (\<lambda>i. tasks s ! i = AddLock p u) [0..<length (tasks s)] = Some i" for i
    using that by (auto simp: find_Some_iff)
  show "store_inv s \<Longrightarrow> store_inv (snd (finish_lock p u s))"
    using task run_nth_task_inv by (auto simp: finish_lock_def split: option.split)
  show "store_inv s \<Longrightarrow> pinned t q s x \<Longrightarrow> pinned t q (snd (finish_lock p u s)) x"
    using task by (auto simp: finish_lock_def split: option.split intro!: pinned_run_nth_task)
qed

lemma running_cluster_lock:
  assumes "running c w" "cluster_lock p t w = (r, w')"
  shows "running c w' \<and> fresh w' = fresh w"
proof -
  obtain q w1 where q: "call (lock_begin p t) w = (q, w1)" by fastforce
  have run: "running c w1" "fresh w1 = fresh w"
    using call_running [OF assms(1) q lock_begin_inv pinned_lock_begin] by auto
  obtain w2 where u: "call (finish_lock p t) w1 = ((), w2)" by (cases "call (finish_lock p t) w1") auto
  have "running c w2" "fresh w2 = fresh w1"
    using call_running [OF run(1) u undisturbed_finish_lock] by auto
  then show ?thesis using assms(2) q run u by (auto simp: cluster_lock_def split: sum.splits option.splits)
qed

lemma goes_lockOptional:
  assumes "running c w" "lockOptional p c w = (r, c', w')"
  shows "goes c w c' w' \<and> writeCache c' = writeCache c \<and> writeLocks c' p = Some r"
proof (cases "writeLocks c p")
  case None
  obtain q w1 where q: "cluster_lock p t w = (q, w1)" by fastforce
  have run: "running c w1" "fresh w1 = fresh w" using running_cluster_lock [OF assms(1) q] by auto
  have r: "r = map_sum id (\<lambda>x. x = None) q" "c' = c\<lparr>writeLocks := (writeLocks c)(p \<mapsto> r)\<rparr>" "w' = w1"
    using assms None q by (auto simp: lockOptional_def running_def Let_def)
  have "running c' w'" using run by (simp add: running_def r)
  then show ?thesis using None run by (auto simp: goes_def r map_le_def)
qed (use assms goes_refl in \<open>auto simp: lockOptional_def\<close>)

lemma goes_lock_and_put:
  assumes "running c w" "lock_and_put p x c w = (r, c', w')"
  shows "goes c w c' w' \<and> (\<forall>u. r = Inr u \<longrightarrow> writeCache c' = AList.update p x (writeCache c))"
proof -
  obtain q c1 w1 where q: "lockOptional p c w = (q, c1, w1)" by (metis prod_cases3)
  have g: "goes c w c1 w1" "writeCache c1 = writeCache c" using goes_lockOptional [OF assms(1) q] by auto
  have "running (c1\<lparr>writeCache := z\<rparr>) w1" for z using g by (simp add: goes_def running_def)
  then have "goes c w (c1\<lparr>writeCache := z\<rparr>) w1" for z using g by (simp add: goes_def)
  moreover have "\<not> isClosed c1" using g by (simp add: goes_def running_def)
  ultimately show ?thesis using assms(2) q g
    by (auto simp: lock_and_put_def ctx_lock_def split: sum.splits if_splits)
qed

lemma goes_write:
  assumes "running c w" "ctx_write p v c w = (r, c', w')"
  shows "goes c w c' w' \<and> (\<forall>u. r = Inr u \<longrightarrow> (\<exists>x c1 w1. readOpt p c w = (Inr x, c1, w1) \<and> goes c w c1 w1 \<and> goes c1 w1 c' w' \<and>
     writeCache c' = (if x \<noteq> Some v then AList.update p (Some v) (writeCache c) else writeCache c)))"
proof -
  obtain q c1 w1 where q: "readOpt p c w = (q, c1, w1)" by (metis prod_cases3)
  have g: "goes c w c1 w1" "writeCache c1 = writeCache c" using goes_readOpt [OF assms(1) q] by auto
  have n: "\<not> isClosed c" and run: "running c1 w1" using assms(1) g by (auto simp: running_def goes_def)
  obtain q2 c2 w2 where l: "lock_and_put p (Some v) c1 w1 = (q2, c2, w2)" by (metis prod_cases3)
  note lp = goes_lock_and_put [OF run l]
  show ?thesis
    using assms(2) n q g lp l goes_trans [OF g(1)] goes_refl [OF run]
    by (auto simp: ctx_write_def split: sum.splits if_splits)
qed

lemma goes_delete:
  assumes "running c w" "ctx_delete p c w = (r, c', w')"
  shows "goes c w c' w' \<and> (\<forall>u. r = Inr u \<longrightarrow> (\<exists>x c1 w1. readOpt p c w = (Inr x, c1, w1) \<and> goes c w c1 w1 \<and> goes c1 w1 c' w' \<and>
     writeCache c' = (if x \<noteq> None then AList.update p None (writeCache c) else writeCache c)))"
proof -
  obtain q c1 w1 where q: "readOpt p c w = (q, c1, w1)" by (metis prod_cases3)
  have g: "goes c w c1 w1" "writeCache c1 = writeCache c" using goes_readOpt [OF assms(1) q] by auto
  have n: "\<not> isClosed c" and run: "running c1 w1" using assms(1) g by (auto simp: running_def goes_def)
  obtain q2 c2 w2 where l: "lock_and_put p None c1 w1 = (q2, c2, w2)" by (metis prod_cases3)
  note lp = goes_lock_and_put [OF run l]
  show ?thesis
    using assms(2) n q g lp l goes_trans [OF g(1)] goes_refl [OF run]
    by (auto simp: ctx_delete_def split: sum.splits if_splits)
qed

text \<open>What a read answers is what the snapshot of any later moment of the attempt shows.\<close>

lemma read_is_view:
  assumes "running c w" "readOpt p c w = (Inr x, c1, w1)" "goes c1 w1 c2 w2"
  shows "view (seen t (node w2)) (writeCache c) p = x"
proof (cases "map_of (writeCache c) p")
  case None
  then have "initCache c1 p = Some x \<or> readCache c1 p = Some (Inr x)" using goes_readOpt [OF assms(1,2)] by auto
  then have "initCache c2 p = Some x \<or> readCache c2 p = Some (Inr x)"
    using assms(3) by (auto simp: goes_def map_le_def dom_def)
  then have "pinned t p (node w2) x" using assms(3) by (auto simp: goes_def running_def)
  then show ?thesis using None by (simp add: view_def pinned_seen)
qed (use goes_readOpt [OF assms(1,2)] in \<open>simp add: view_def\<close>)

lemma goes_newPtr:
  assumes "running c w" "ctx_newPtr v c w = (Inr p, c', w')" "dom (readCache c) \<inter> set (fresh w) = {}"
  shows "goes c w c' w' \<and> writeCache c' = writeCache c \<and> initCache c' p = Some (Some v) \<and> p \<in> set (fresh w)"
proof -
  obtain q w1 where q: "call (newPtr t v (fresh w)) w = (q, w1)" by fastforce
  have c: "q = Some (Inr p)" "c' = c\<lparr>initCache := (initCache c)(p \<mapsto> Some v)\<rparr>"
    "w' = w1\<lparr>fresh := tl (dropWhile (\<lambda>q. q \<noteq> p) (fresh w1))\<rparr>"
    using assms(1,2) q by (auto simp: ctx_newPtr_def running_def split: option.splits sum.splits)
  have pin: "pinned t a (snd (newPtr t v (fresh w) s)) x"
    if "readCache c a \<noteq> None \<or> initCache c a \<noteq> None" "store_inv s" "pinned t a s x" for s a x
    using that assms(1,3) by (intro pinned_newPtr) (auto simp: running_def)
  have run: "running c w1" "fresh w1 = fresh w" and "\<exists>s. newPtr t v (fresh w) s = (q, node w1)"
    using call_running [OF assms(1) q newPtr_inv pin] by auto
  then have p: "p \<in> set (fresh w)" "pinned t p (node w1) (Some v)" using c(1) by (auto dest: newPtr_makes)
  have d: "distinct (fresh w)" using assms(1) by (simp add: running_def)
  have "dropWhile (\<lambda>q. q \<noteq> p) (fresh w) \<noteq> []" using p(1) by auto
  then obtain ys where ys: "dropWhile (\<lambda>q. q \<noteq> p) (fresh w) = p # ys"
    using hd_dropWhile [of "\<lambda>q. q \<noteq> p" "fresh w"] by (metis list.collapse)
  have "distinct (p # ys)" "set (p # ys) \<subseteq> set (fresh w)"
    using d distinct_dropWhile [of "fresh w" "\<lambda>q. q \<noteq> p"] set_dropWhileD [of _ "\<lambda>q. q \<noteq> p" "fresh w"] ys by auto
  moreover have "moves w1 \<Longrightarrow> moves w'" by (simp add: moves_def c)
  ultimately have "running c' w'" using run p ys unfolding running_def c by (auto simp: moves_def)
  moreover have "initCache c p = None" using assms(1) p(1) by (cases "initCache c p") (auto simp: running_def)
  ultimately show ?thesis using \<open>set (p # ys) \<subseteq> set (fresh w)\<close> ys run(2) p(1) by (auto simp: goes_def c map_le_def)
qed

lemma run_refines:
  assumes "running c w" "run_prog prog c w = (Inr r, c', w')" "dom (readCache c') \<inter> set (fresh w) = {}"
  shows "goes c w c' w' \<and> (\<exists>ids. distinct ids \<and> set ids \<subseteq> set (fresh w) \<and> spec prog ids (seen t (node w')) (\<lambda>p. writeLocks c' p = Some (Inr True)) (writeCache c)
    = Some (r, writeCache c'))"
  using assms
proof (induction prog arbitrary: c w)
  case (PRet x)
  then show ?case using goes_refl by (auto intro!: exI [of _ "[]"])
next
  case (PFail e)
  then show ?case by simp
next
  case (PRead p k)
  then obtain x c1 w1 where q: "readOpt p c w = (Inr x, c1, w1)" and k: "run_prog (k x) c1 w1 = (Inr r, c', w')"
    by (auto split: sum.splits prod.splits)
  have g: "goes c w c1 w1" "writeCache c1 = writeCache c" "set (fresh w1) \<subseteq> set (fresh w)"
    using goes_readOpt [OF PRead.prems(1) q] by (auto simp: goes_def)
  then have "running c1 w1" "dom (readCache c') \<inter> set (fresh w1) = {}" using PRead.prems(3) by (auto simp: goes_def)
  note ih = PRead.IH [OF _ this(1) k this(2)]
  then have g1: "goes c1 w1 c' w'" by auto
  then show ?case using ih g goes_trans [OF g(1) g1] read_is_view [OF PRead.prems(1) q g1] by fastforce
next
  case (PWrite p v k)
  then obtain u c1 w1 where q: "ctx_write p v c w = (Inr u, c1, w1)" and k: "run_prog k c1 w1 = (Inr r, c', w')"
    by (auto split: sum.splits prod.splits)
  then obtain x c0 w0 where r: "readOpt p c w = (Inr x, c0, w0)" and g: "goes c w c0 w0" "goes c0 w0 c1 w1"
    "writeCache c1 = (if x \<noteq> Some v then AList.update p (Some v) (writeCache c) else writeCache c)"
    using goes_write [OF PWrite.prems(1) q] by blast
  have "running c1 w1" "dom (readCache c') \<inter> set (fresh w1) = {}" using g PWrite.prems(3) by (auto simp: goes_def)
  note ih = PWrite.IH [OF this(1) k this(2)]
  then have g1: "goes c0 w0 c' w'" using goes_trans g(2) by blast
  have "set ids \<subseteq> set (fresh w)" if "set ids \<subseteq> set (fresh w1)" for ids using that g by (auto simp: goes_def)
  then show ?case using ih goes_trans [OF g(1) g1] unfolding spec.simps read_is_view [OF PWrite.prems(1) r g1] g(3) by blast
next
  case (PDelete p k)
  then obtain u c1 w1 where q: "ctx_delete p c w = (Inr u, c1, w1)" and k: "run_prog k c1 w1 = (Inr r, c', w')"
    by (auto split: sum.splits prod.splits)
  then obtain x c0 w0 where r: "readOpt p c w = (Inr x, c0, w0)" and g: "goes c w c0 w0" "goes c0 w0 c1 w1"
    "writeCache c1 = (if x \<noteq> None then AList.update p None (writeCache c) else writeCache c)"
    using goes_delete [OF PDelete.prems(1) q] by blast
  have "running c1 w1" "dom (readCache c') \<inter> set (fresh w1) = {}" using g PDelete.prems(3) by (auto simp: goes_def)
  note ih = PDelete.IH [OF this(1) k this(2)]
  then have g1: "goes c0 w0 c' w'" using goes_trans g(2) by blast
  have "set ids \<subseteq> set (fresh w)" if "set ids \<subseteq> set (fresh w1)" for ids using that g by (auto simp: goes_def)
  then show ?case using ih goes_trans [OF g(1) g1] unfolding spec.simps read_is_view [OF PDelete.prems(1) r g1] g(3) by blast
next
  case (PLock p k)
  then obtain b c1 w1 where q: "lockOptional p c w = (Inr b, c1, w1)" and k: "run_prog (k b) c1 w1 = (Inr r, c', w')"
    by (auto split: sum.splits prod.splits)
  have g: "goes c w c1 w1" "writeCache c1 = writeCache c" "writeLocks c1 p = Some (Inr b)"
    using goes_lockOptional [OF PLock.prems(1) q] by auto
  then have "running c1 w1" "dom (readCache c') \<inter> set (fresh w1) = {}" using PLock.prems(3) by (auto simp: goes_def)
  note ih = PLock.IH [OF _ this(1) k this(2)]
  then have g1: "goes c1 w1 c' w'" by auto
  then have "writeLocks c' p = Some (Inr b)" using g(3) by (auto simp: goes_def map_le_def dom_def)
  then have b: "(writeLocks c' p = Some (Inr True)) = b" by simp
  have "set ids \<subseteq> set (fresh w)" if "set ids \<subseteq> set (fresh w1)" for ids using that g(1) by (auto simp: goes_def)
  then show ?case using ih goes_trans [OF g(1) g1] unfolding spec.simps b g(2) by blast
next
  case (PNew v k)
  then obtain p c1 w1 where q: "ctx_newPtr v c w = (Inr p, c1, w1)" and k: "run_prog (k p) c1 w1 = (Inr r, c', w')"
    by (auto split: sum.splits prod.splits)
  have "dom (readCache c) \<inter> set (fresh w) = {}"
    using run_prog_mono [OF k] PNew.prems(3) unfolding newPtr_mono [OF q] by blast
  then have g: "goes c w c1 w1" "writeCache c1 = writeCache c" "initCache c1 p = Some (Some v)"
    using goes_newPtr [OF PNew.prems(1) q] by auto
  then have "running c1 w1" "dom (readCache c') \<inter> set (fresh w1) = {}" using PNew.prems(3) by (auto simp: goes_def)
  note ih = PNew.IH [OF _ this(1) k this(2)]
  then have g1: "goes c1 w1 c' w'" by auto
  then have "initCache c' p = Some (Some v)" using g(3) by (auto simp: goes_def map_le_def dom_def)
  then have "pinned t p (node w') (Some v)" using g1 by (auto simp: goes_def running_def)
  then have m: "seen t (node w') p = Some v" by (rule pinned_seen)
  have "p \<notin> set (fresh w1)" using g by (auto simp: goes_def running_def)
  moreover have "p \<in> set (fresh w)" using goes_newPtr [OF PNew.prems(1) q] \<open>dom (readCache c) \<inter> set (fresh w) = {}\<close> by blast
  moreover obtain ids where "distinct ids" "set ids \<subseteq> set (fresh w1)"
    "spec (k p) ids (seen t (node w')) (\<lambda>p. writeLocks c' p = Some (Inr True)) (writeCache c) = Some (r, writeCache c')"
    using ih g by auto
  ultimately have "distinct (p # ids)" "set (p # ids) \<subseteq> set (fresh w)"
    "spec (PNew v k) (p # ids) (seen t (node w')) (\<lambda>p. writeLocks c' p = Some (Inr True)) (writeCache c) = Some (r, writeCache c')"
    using m g(1) by (auto simp: goes_def)
  then show ?case using goes_trans [OF g(1) g1] by blast
qed

end

text \<open>The messages of other transactions keep the contract.\<close>

lemma other_steps_keep:
  "(other_step t)\<^sup>*\<^sup>* s s' \<Longrightarrow> store_inv s \<Longrightarrow> store_inv s' \<and> (\<forall>p x. pinned t p s x \<longrightarrow> pinned t p s' x)"
proof (induction rule: rtranclp_induct)
  case (step s1 s2)
  then have "store_inv s1" "store_inv s2" using store_step_inv [OF other_step_store [OF step(2)]] by auto
  then show ?case using step other_step_pinned [OF step(2)] by simp
qed simp

interpretation others_polite: polite "(other_step t)\<^sup>*\<^sup>*" t for t
  by unfold_locales (simp_all add: other_steps_keep)

text \<open>C2. An attempt of a transaction runs as if alone: when its program has run to the end, among any
  messages of other transactions, its result, its pending writes and deletes are those of the
  program run by itself on the snapshot that the node shows at the time of the transaction at that
  moment, with the identifiers it drew.  The node is in any reachable state, identifiers are drawn at most once, and the program
  did not read a pointer before it drew its identifier.\<close>

theorem attempt_runs_on_snapshot:
  assumes "store_inv (node w)" "\<And>e s. e \<in> set (others w) \<Longrightarrow> store_inv s \<Longrightarrow> (other_step t)\<^sup>*\<^sup>* s (e s)" "distinct (fresh w)"
    and "run_prog logic (new_ctx t) w = (Inr r, c', w')" "dom (readCache c') \<inter> set (fresh w) = {}"
  shows "\<exists>ids. distinct ids \<and> set ids \<subseteq> set (fresh w) \<and> spec logic ids (seen t (node w')) (\<lambda>p. writeLocks c' p = Some (Inr True)) [] = Some (r, writeCache c')"
proof -
  have "others_polite.running t (new_ctx t) w"
    using assms(1-3) by (auto simp: others_polite.running_def others_polite.moves_def new_ctx_def)
  from others_polite.run_refines [OF this assms(4,5)] show ?thesis by (simp add: new_ctx_def)
qed

definition client_world :: "(nat, nat) world" where
  "client_world = \<lparr>node = snd (newPtr (at_sec 80) 5 [1] (new_store (ExactTime 100 0))),
     others = [\<lambda>s. snd (getPtr 1 (at_sec 95) s), \<lambda>s. snd (lock_begin 1 (at_sec 85) s)], fresh = [2, 3]\<rparr>"

definition client_logic :: "(nat, nat, nat option) prog" where
  "client_logic = PRead 1 (\<lambda>x. PNew 4 (\<lambda>p. PWrite p 6 (PRet x)))"

lemma client_world_ok: "store_inv (node client_world)"
  unfolding client_world_def world.select_convs by (intro newPtr_inv store_inv_new)

lemma client_moves:
  assumes "e \<in> set (others client_world)"
  shows "(other_step (at_sec 90))\<^sup>*\<^sup>* s (e s)"
proof -
  have "other_step (at_sec 90) s (snd (getPtr 1 (at_sec 95) s))" "other_step (at_sec 90) s (snd (lock_begin 1 (at_sec 85) s))"
    by (auto intro: other_step.intros)
  then show ?thesis using assms by (auto simp: client_world_def)
qed

theorem attempt_runs_on_snapshot_witness:
  "\<exists>c' w' ids. run_prog client_logic (new_ctx (at_sec 90)) client_world = (Inr (Some 5), c', w')
     \<and> distinct ids \<and> set ids \<subseteq> set (fresh client_world) \<and> spec client_logic ids (seen (at_sec 90) (node w')) (\<lambda>p. writeLocks c' p = Some (Inr True)) [] = Some (Some 5, [(2, Some 6)])"
proof -
  obtain r c' w' where run: "run_prog client_logic (new_ctx (at_sec 90)) client_world = (r, c', w')" by (metis prod_cases3)
  have "(\<lambda>(r, c', w'). r = Inr (Some 5) \<and> writeCache c' = [(2, Some 6)] \<and> readCache c' 2 = None \<and> readCache c' 3 = None)
      (run_prog client_logic (new_ctx (at_sec 90)) client_world)"
    by code_simp
  then have r: "r = Inr (Some 5)" "writeCache c' = [(2, Some 6)]" "readCache c' 2 = None" "readCache c' 3 = None"
    unfolding run by simp_all
  have "dom (readCache c') \<inter> set (fresh client_world) = {}" using r by (auto simp: client_world_def)
  then have "\<exists>ids. distinct ids \<and> set ids \<subseteq> set (fresh client_world) \<and> spec client_logic ids (seen (at_sec 90) (node w')) (\<lambda>p. writeLocks c' p = Some (Inr True)) []
      = Some (Some 5, writeCache c')"
    by (intro attempt_runs_on_snapshot [OF _ _ _ run [unfolded r(1)]] client_world_ok client_moves)
       (simp_all add: client_world_def)
  then show ?thesis using run r by auto
qed

section \<open>The retry loop\<close>

text \<open>No message changes a transaction that has been committed or reset.\<close>

definition frozen :: "txn_time \<Rightarrow> ('p, 'v) store \<Rightarrow> ('p, 'v) store \<Rightarrow> bool" where
  "frozen u s s' = (state (getTxnActor u s) \<noteq> OPEN \<longrightarrow> getTxnActor u s' = getTxnActor u s)"

lemma frozen_refl: "frozen u s s"
  by (simp add: frozen_def)

lemma frozen_trans: "frozen u s s1 \<Longrightarrow> frozen u s1 s2 \<Longrightarrow> frozen u s s2"
  by (auto simp: frozen_def)

lemma frozen_same: "(\<And>u. getTxnActor u s' = getTxnActor u s) \<Longrightarrow> frozen u s s'"
  by (simp add: frozen_def)

lemma getTxnActor_start [simp]: "getTxnActor u (start_tasks ks s) = getTxnActor u s"
  by (simp add: start_tasks_def)

lemma frozen_with_txn:
  "(\<And>a. state a \<noteq> OPEN \<Longrightarrow> snd (f a) = a) \<Longrightarrow> frozen u s (snd (with_txn t f s))"
  by (simp add: frozen_def with_txn_eq)

lemma frozen_setState: "frozen u s (snd (with_txn t (setState st) s))"
  by (rule frozen_with_txn) (auto simp: setState_def)

lemma frozen_commit: "frozen u s (snd (commit t s))"
  using frozen_setState [of u s t COMMIT] by (auto simp: commit_def commitTxn_def frozen_def split: sum.split prod.split)

lemma frozen_reset: "frozen u s (snd (reset t s))"
  using frozen_setState [of u s t RESET] by (auto simp: reset_def resetTxn_def frozen_def split: sum.split prod.split)

lemma frozen_cleanup: "frozen u s (cleanup t s)"
proof -
  have "frozen u s (snd (txnState t s))" unfolding txnState_def by (rule frozen_with_txn) (simp add: getState_def)
  then show ?thesis by (auto simp: cleanup_def Let_def split_beta intro: frozen_trans frozen_commit frozen_reset)
qed

lemma frozen_lock_recorded: "frozen u s (lock_recorded p t s)"
proof -
  have "frozen u s (snd (addTxnLock p t s))" unfolding addTxnLock_def by (rule frozen_with_txn) (simp add: addLock_cases)
  then show ?thesis by (auto simp: lock_recorded_def Let_def split_beta frozen_def split: txn_state.split)
qed

lemma getTxnActor_queueStorage [simp]: "getTxnActor u (queueStorage p s) = getTxnActor u s"
  by (simp add: queueStorage_def)

lemma getTxnActor_newPtr [simp]: "getTxnActor u (snd (newPtr t v ps s)) = getTxnActor u s"
proof (induction ps arbitrary: s)
  case (Cons q ps)
  have "getTxnActor u (snd (initValue t v q s)) = getTxnActor u s" by (simp add: initValue_def Let_def split_beta)
  then show ?case using Cons by (auto split: sum.split prod.split bool.split)
qed simp

lemma frozen_getPtr: "frozen u s (snd (getPtr p t s))"
proof -
  have "getTxnActor u (snd (getValueAt p t s)) = getTxnActor u s" by (simp add: getValueAt_def)
  then have "frozen u s (snd (getValueAt p t s))" by (simp add: frozen_def)
  then show ?thesis by (auto simp: getPtr_def intro: frozen_trans frozen_cleanup split: sum.split store_error.split option.split prod.split)
qed

lemma frozen_getPtrNow: "frozen u s (snd (getPtrNow p s))"
proof -
  have "getTxnActor u (snd (getValueNow p s)) = getTxnActor u s" by (simp add: getValueNow_def Let_def split_beta)
  then have "frozen u s (snd (getValueNow p s))" by (simp add: frozen_def)
  then show ?thesis by (auto simp: getPtrNow_def intro: frozen_trans frozen_cleanup split: sum.split store_error.split option.split prod.split)
qed

lemma frozen_lock_begin: "frozen u s (snd (lock_begin p t s))"
proof -
  obtain r s1 where l: "lockValue p t s = (r, s1)" by fastforce
  have "getTxnActor u (snd (lockValue p t s)) = getTxnActor u s" by (simp add: lockValue_def)
  then have "frozen u s s1" by (simp add: frozen_def l)
  then show ?thesis using frozen_trans [OF _ frozen_cleanup [of u s1]]
    by (auto simp: lock_begin_def l frozen_def split: sum.split option.split)
qed

lemma frozen_run_nth_task: "frozen u s (run_nth_task i s)"
proof (cases "tasks s ! i")
  case (AddLock p t)
  have "frozen u s (s\<lparr>tasks := take i (tasks s) @ drop (Suc i) (tasks s)\<rparr>)" by (simp add: frozen_def)
  then show ?thesis using AddLock frozen_lock_recorded by (simp add: run_nth_task_def) (rule frozen_trans)
qed (simp_all add: run_nth_task_def commitValue_def resetValue_def Let_def split_beta frozen_def)

lemma store_step_frozen: "store_step s s' \<Longrightarrow> frozen u s s'"
proof (induction rule: store_step.induct)
  case (StFreeze s)
  then show ?case by (auto simp: freeze_next_def freeze_ptr_eq frozen_def cold_store_def Let_def split: list.split)
next
  case (StExpire s p ts t)
  then show ?case by (auto simp: expire_ptr_def frozen_def split: option.split)
qed (simp_all add: frozen_getPtr frozen_getPtrNow frozen_lock_begin frozen_commit frozen_reset frozen_run_nth_task,
     simp_all add: frozen_def queueValue_def deleteValue_def)

definition world_steps :: "('p, 'v) world \<Rightarrow> bool" where
  "world_steps w = (\<forall>e \<in> set (others w). \<forall>s. store_step\<^sup>*\<^sup>* s (e s))"

lemma steps_frozen: "store_step\<^sup>*\<^sup>* s s' \<Longrightarrow> frozen u s s'"
  by (induction rule: rtranclp_induct) (auto intro: frozen_refl frozen_trans store_step_frozen)

text \<open>What every operation of the client keeps.\<close>

definition quiet :: "('p, 'v) world \<Rightarrow> ('p, 'v) world \<Rightarrow> bool" where
  "quiet w w' = (world_steps w \<longrightarrow> world_steps w' \<and> (\<forall>u. frozen u (node w) (node w')))"

lemma quiet_refl [simp]: "quiet w w"
  by (simp add: quiet_def frozen_refl)

lemma quiet_trans [trans]: "quiet w w1 \<Longrightarrow> quiet w1 w2 \<Longrightarrow> quiet w w2"
  unfolding quiet_def by (blast intro: frozen_trans)

lemma call_moved:
  assumes "call f w = (r, w')" "world_steps w"
  obtains s where "world_steps w'" "\<And>u. frozen u (node w) s" "f s = (r, node w')"
proof -
  define s where "s = (case others w of [] \<Rightarrow> node w | e # es \<Rightarrow> e (node w))"
  have "f s = (r, node w')" "others w' = tl (others w)"
    using assms(1) by (auto simp: call_def s_def [symmetric] Let_def split_beta)
  moreover have "frozen u (node w) s" for u
    using assms(2) by (cases "others w") (auto simp: s_def world_steps_def frozen_refl steps_frozen)
  moreover have "world_steps w'"
    using assms(2) calculation(2) by (cases "others w") (auto simp: world_steps_def)
  ultimately show ?thesis using that by blast
qed

lemma quiet_call: "call f w = (r, w') \<Longrightarrow> (\<And>u s. frozen u s (snd (f s))) \<Longrightarrow> quiet w w'"
proof (unfold quiet_def, intro impI)
  assume c: "call f w = (r, w')" and f: "\<And>u s. frozen u s (snd (f s))" and m: "world_steps w"
  obtain s where s: "world_steps w'" "\<And>u. frozen u (node w) s" "f s = (r, node w')" using call_moved [OF c m] by blast
  have "frozen u s (node w')" for u using f [of u s] s(3) by simp
  then show "world_steps w' \<and> (\<forall>u. frozen u (node w) (node w'))" using s frozen_trans by blast
qed

lemma frozen_finish_lock: "frozen u s (snd (finish_lock p t s))"
  by (simp add: finish_lock_def frozen_refl frozen_run_nth_task split: option.split)

lemma quiet_readOpt: "readOpt p c w = (r, c', w') \<Longrightarrow> quiet w w' \<and> txnId c' = txnId c"
  by (auto simp: readOpt_def Let_def frozen_getPtr dest: quiet_call split: if_splits option.splits prod.splits)

lemma quiet_cluster_lock: "cluster_lock p t w = (r, w') \<Longrightarrow> quiet w w'"
proof -
  assume a: "cluster_lock p t w = (r, w')"
  obtain q w1 where q: "call (lock_begin p t) w = (q, w1)" by fastforce
  obtain w2 where u: "call (finish_lock p t) w1 = ((), w2)" by (cases "call (finish_lock p t) w1") auto
  have "quiet w w1" "quiet w1 w2" using quiet_call [OF q frozen_lock_begin] quiet_call [OF u frozen_finish_lock] by auto
  then show ?thesis using a q u quiet_trans by (auto simp: cluster_lock_def split: sum.splits option.splits)
qed

lemma quiet_lockOptional: "lockOptional p c w = (r, c', w') \<Longrightarrow> quiet w w' \<and> txnId c' = txnId c"
  by (auto simp: lockOptional_def Let_def dest: quiet_cluster_lock split: if_splits option.splits prod.splits)

lemma quiet_lock_and_put: "lock_and_put p x c w = (r, c', w') \<Longrightarrow> quiet w w' \<and> txnId c' = txnId c"
  by (auto simp: lock_and_put_def ctx_lock_def dest: quiet_lockOptional split: if_splits sum.splits prod.splits)

lemma quiet_write: "ctx_write p v c w = (r, c', w') \<Longrightarrow> quiet w w' \<and> txnId c' = txnId c"
  by (auto simp: ctx_write_def dest!: quiet_readOpt quiet_lock_and_put intro: quiet_trans split: if_splits sum.splits prod.splits)

lemma quiet_delete: "ctx_delete p c w = (r, c', w') \<Longrightarrow> quiet w w' \<and> txnId c' = txnId c"
  by (auto simp: ctx_delete_def dest!: quiet_readOpt quiet_lock_and_put intro: quiet_trans split: if_splits sum.splits prod.splits)

lemma quiet_newPtr:
  assumes "ctx_newPtr v c w = (r, c', w')"
  shows "quiet w w' \<and> txnId c' = txnId c"
proof -
  obtain q w1 where q: "call (newPtr (txnId c) v (fresh w)) w = (q, w1)" by fastforce
  have "quiet w w1" by (rule quiet_call [OF q]) (simp add: frozen_def)
  then have "quiet w (w1\<lparr>fresh := fs\<rparr>)" for fs by (simp add: quiet_def world_steps_def)
  then show ?thesis using assms q \<open>quiet w w1\<close> by (auto simp: ctx_newPtr_def split: option.splits sum.splits)
qed

lemma quiet_run_prog: "run_prog prog c w = (r, c', w') \<Longrightarrow> quiet w w' \<and> txnId c' = txnId c"
  by (erule run_prog_lift [rotated 7])
     (auto dest: quiet_readOpt quiet_write quiet_delete quiet_lockOptional quiet_newPtr intro: quiet_trans)

lemma frozen_with_ptr: "frozen u s (snd (with_ptr p t f s))"
  by (simp add: frozen_def)

lemma quiet_send_writes: "send_writes t ws w = (r, w') \<Longrightarrow> quiet w w'"
proof (induction t ws w arbitrary: r w' rule: send_writes.induct)
  case (2 t p x ws w)
  obtain q w1 where q: "(case x of Some v \<Rightarrow> call (queueValue p t v) w | None \<Rightarrow> call (deleteValue p t) w) = (q, w1)" by fastforce
  have "quiet w w1"
    using q by (cases x) (auto simp: queueValue_def deleteValue_def frozen_with_ptr intro: quiet_call)
  moreover obtain r2 w2 where "send_writes t ws w1 = (r2, w2)" by fastforce
  ultimately show ?case using 2 q by (auto simp: Let_def intro: quiet_trans [of w w1])
qed simp

text \<open>A revert closes the transaction whatever it answers, and so does a commit that succeeds.\<close>

lemma reset_closes: "state (getTxnActor t (snd (reset t s))) \<noteq> OPEN \<and> fst (reset t s) \<in> {Inr (), Inl RequirementFailed}"
  by (auto simp: reset_def resetTxn_def with_txn_eq setState_def start_tasks_def)

lemma commit_closes: "fst (commit t s) = Inr u \<Longrightarrow> state (getTxnActor t (snd (commit t s))) = COMMIT"
  by (auto simp: commit_def commitTxn_def with_txn_eq setState_def start_tasks_def split: if_splits)

lemma revert_effect:
  assumes "revert c w = (r, c', w')"
  shows "quiet w w' \<and> (world_steps w \<longrightarrow> state (getTxnActor (txnId c) (node w')) \<noteq> OPEN) \<and> r \<in> {Inr (), Inl Failure}
    \<and> txnId c' = txnId c"
proof -
  obtain q w1 where q: "call (reset (txnId c)) w = (q, w1)" by fastforce
  have r: "r = map_sum to_client id q" "w' = w1" "txnId c' = txnId c" using assms q by (auto simp: revert_def Let_def)
  obtain s where s: "reset (txnId c) s = (q, node w1)" using q by (auto simp: call_def Let_def split_beta prod_eq_iff)
  then show ?thesis using reset_closes [of "txnId c" s] quiet_call [OF q frozen_reset] r by auto
qed

lemma commit_effect:
  assumes "ctx_commit c w = (r, c', w')"
  shows "quiet w w' \<and> (\<forall>u. r = Inr u \<longrightarrow> state (getTxnActor (txnId c) (node w')) = COMMIT) \<and> txnId c' = txnId c"
proof -
  obtain r1 w1 where r1: "send_writes (txnId c) (writeCache c) w = (r1, w1)" by fastforce
  obtain q w2 where q: "call (commit (txnId c)) w1 = (q, w2)" by fastforce
  obtain s where s: "commit (txnId c) s = (q, node w2)" using q by (auto simp: call_def Let_def split_beta prod_eq_iff)
  show ?thesis
    using assms r1 q commit_closes [of "txnId c" s] s quiet_send_writes [OF r1] quiet_trans [OF _ quiet_call [OF q frozen_commit]]
    by (cases r1; cases q) (auto simp: ctx_commit_def)
qed

lemma attempt_effect:
  assumes "attempt True slow logic t w = (r, c', w')"
  shows "quiet w w' \<and> txnId c' = t \<and> (\<forall>x. r = Inr x \<longrightarrow> state (getTxnActor t (node w')) = COMMIT)"
proof -
  obtain q c1 w1 where q: "run_prog logic (new_ctx t) w = (q, c1, w1)" by (metis prod_cases3)
  have run: "quiet w w1" "txnId c1 = t" using quiet_run_prog [OF q] by (auto simp: new_ctx_def)
  obtain r2 c2 w2 where v: "revert c1 w1 = (r2, c2, w2)" by (metis prod_cases3)
  obtain r3 c3 w3 where k: "ctx_commit c1 w1 = (r3, c3, w3)" by (metis prod_cases3)
  show ?thesis
    using assms q run v k revert_effect [OF v] commit_effect [OF k] quiet_trans
    by (auto simp: attempt_def split: sum.splits if_splits)
qed

lemma txnRun_quiet: "txnRun True slow logic ids n k w = (res, w') \<Longrightarrow> quiet w w'"
proof (induction n arbitrary: k w)
  case (0 k w)
  obtain r c w1 where a: "attempt True (slow k) logic (ids k) w = (r, c, w1)" by (metis prod_cases3)
  obtain r2 c2 w2 where v: "revert c w1 = (r2, c2, w2)" by (metis prod_cases3)
  have "quiet w w1" "quiet w1 w2" using attempt_effect [OF a] revert_effect [OF v] by auto
  then show ?case using 0 a v quiet_trans by (auto simp: txnRun.simps split: sum.splits client_error.splits)
next
  case (Suc n k w)
  obtain r c w1 where a: "attempt True (slow k) logic (ids k) w = (r, c, w1)" by (metis prod_cases3)
  obtain r2 c2 w2 where v: "revert c w1 = (r2, c2, w2)" by (metis prod_cases3)
  have "quiet w w1" "quiet w1 w2" using attempt_effect [OF a] revert_effect [OF v] by auto
  moreover have "quiet w2 w'" if "txnRun True slow logic ids n (Suc k) w2 = (res, w')" using Suc.IH [OF that] .
  ultimately show ?case using Suc.prems a v quiet_trans
    by (auto simp: txnRun.simps [of _ _ _ _ "Suc n"] split: sum.splits client_error.splits)
qed

lemma frozen_closed: "frozen u s s' \<Longrightarrow> state (getTxnActor u s) \<noteq> OPEN \<Longrightarrow> getTxnActor u s' = getTxnActor u s"
  by (simp add: frozen_def)

text \<open>
  The attempts a run has made: after \<open>m\<close> retries, counted from attempt \<open>k\<close> in world \<open>w\<close>, attempt \<open>k + m\<close>
  starts in \<open>wm\<close>; each attempt before it ended in a conflict and was reset.
\<close>

inductive retried ::
  "(nat \<Rightarrow> bool) \<Rightarrow> ('p, 'v, 'r) prog \<Rightarrow> (nat \<Rightarrow> txn_time) \<Rightarrow> nat \<Rightarrow> ('p, 'v) world \<Rightarrow> nat \<Rightarrow> ('p, 'v) world \<Rightarrow> bool"
  for slow logic ids where
  retried_start: "retried slow logic ids k w 0 w"
| retried_again: "attempt True (slow k) logic (ids k) w = (Inl (Conflict x), c, w1) \<Longrightarrow>
    revert c w1 = (Inr u, c2, w2) \<Longrightarrow> retried slow logic ids (Suc k) w2 m wm \<Longrightarrow>
    retried slow logic ids k w (Suc m) wm"

text \<open>How the last attempt, number \<open>i\<close> from \<open>wm\<close>, ends the run with \<open>res\<close> in \<open>w'\<close> when \<open>spent\<close> retries are left over.\<close>

definition run_ends ::
  "(nat \<Rightarrow> bool) \<Rightarrow> ('p, 'v, 'r) prog \<Rightarrow> (nat \<Rightarrow> txn_time) \<Rightarrow> nat \<Rightarrow> ('p, 'v) world \<Rightarrow> bool
     \<Rightarrow> (client_error + 'r) \<Rightarrow> ('p, 'v) world \<Rightarrow> bool" where
  "run_ends slow logic ids i wm spent res w' \<longleftrightarrow>
     (case res of
        Inr r \<Rightarrow> state (getTxnActor (ids i) (node w')) = COMMIT
          \<and> (\<exists>c. attempt True (slow i) logic (ids i) wm = (Inr r, c, w'))
      | Inl e \<Rightarrow> e = Failure \<and> (\<exists>e' c w1 r2 c2.
            attempt True (slow i) logic (ids i) wm = (Inl e', c, w1) \<and> revert c w1 = (r2, c2, w')
            \<and> (e' = Failure \<or> spent \<or> r2 = Inl Failure)))"

text \<open>The last attempt, when the loop does not go on.\<close>

lemma run_ends_here:
  assumes "world_steps w" "attempt True (slow k) logic (ids k) w = (r, c, w1)" "revert c w1 = (r2, c2, w2)"
    and "txnRun True slow logic ids n k w = (res, w')"
    and "n = 0 \<or> \<not> ((\<exists>x. r = Inl (Conflict x)) \<and> (\<exists>u. r2 = Inr u))"
  shows "run_ends slow logic ids k w (n = 0) res w' \<and> state (getTxnActor (ids k) (node w')) \<noteq> OPEN"
proof -
  note ae = attempt_effect [OF assms(2)]
  have "world_steps w1" using ae assms(1) by (simp add: quiet_def)
  then have cl: "state (getTxnActor (ids k) (node w2)) \<noteq> OPEN" "r2 \<in> {Inr (), Inl Failure}"
    using revert_effect [OF assms(3)] ae by auto
  note run = assms(4) [unfolded txnRun.simps [of True slow logic ids n k w]]
  show ?thesis
  proof (cases r)
    case (Inr x)
    then show ?thesis using assms(2) run ae by (auto simp: run_ends_def)
  next
    case (Inl e)
    show ?thesis
    proof (cases e)
      case Failure
      then show ?thesis using Inl assms(2,3) run cl by (auto simp: run_ends_def)
    next
      case (Conflict x)
      then show ?thesis using Inl assms(2,3,5) run cl by (cases n) (auto simp: run_ends_def)
    qed
  qed
qed

text \<open>C8. The retry loop settles what it starts: whatever the others do meanwhile, the run returns after
  some number \<open>m\<close> of retries, at most \<open>n\<close>.  Each of the attempts \<open>k\<close> to \<open>k + m - 1\<close> was made, ended in a
  conflict and was reset before the next one began; attempt \<open>k + m\<close> was made last.  When the run
  has returned, with a result or with an error, the transaction of every attempt made is closed, so
  that its locks are released.  A result is the result of the last attempt, whose transaction
  is committed.  An error is never a conflict: the last attempt failed and was reset, and a
  conflict is given up only when all \<open>n\<close> retries are used or its reset was itself refused.
  (The loop completes its transactions itself, as \<open>allowCompletion\<close> says, and the other clients' messages are steps of the store.)\<close>

theorem txnRun_settles:
  assumes "world_steps w" "txnRun True slow logic ids n k w = (res, w')"
  shows "\<exists>m \<le> n. \<exists>wm. retried slow logic ids k w m wm
    \<and> (\<forall>j \<le> m. state (getTxnActor (ids (k + j)) (node w')) \<noteq> OPEN)
    \<and> run_ends slow logic ids (k + m) wm (m = n) res w'"
  using assms
proof (induction n arbitrary: k w)
  case (0 k w)
  obtain r c w1 where a: "attempt True (slow k) logic (ids k) w = (r, c, w1)" by (metis prod_cases3)
  obtain r2 c2 w2 where v: "revert c w1 = (r2, c2, w2)" by (metis prod_cases3)
  show ?case using run_ends_here [OF 0(1) a v 0(2)]
    by (intro exI [of _ 0] exI [of _ w] conjI) (simp_all add: retried_start)
next
  case (Suc n k w)
  obtain r c w1 where a: "attempt True (slow k) logic (ids k) w = (r, c, w1)" by (metis prod_cases3)
  obtain r2 c2 w2 where v: "revert c w1 = (r2, c2, w2)" by (metis prod_cases3)
  note ae = attempt_effect [OF a] and re = revert_effect [OF v]
  have cl: "state (getTxnActor (ids k) (node w2)) \<noteq> OPEN" "world_steps w2"
    using re ae Suc.prems(1) by (auto simp: quiet_def)
  show ?case
  proof (cases "(\<exists>x. r = Inl (Conflict x)) \<and> (\<exists>u. r2 = Inr u)")
    case True
    then obtain x u where x: "r = Inl (Conflict x)" "r2 = Inr u" by blast
    then have t: "txnRun True slow logic ids n (Suc k) w2 = (res, w')"
      using Suc.prems(2) a v by (auto simp: txnRun.simps [of _ _ _ _ "Suc n"])
    obtain m wm where m: "m \<le> n" "retried slow logic ids (Suc k) w2 m wm"
      "\<forall>j \<le> m. state (getTxnActor (ids (Suc k + j)) (node w')) \<noteq> OPEN"
      "run_ends slow logic ids (Suc k + m) wm (m = n) res w'"
      using Suc.IH [OF cl(2) t] by blast
    have "frozen (ids k) (node w2) (node w')" using txnRun_quiet [OF t] cl(2) by (simp add: quiet_def)
    then have "state (getTxnActor (ids k) (node w')) \<noteq> OPEN" using frozen_closed cl(1) by metis
    then have "\<forall>j \<le> Suc m. state (getTxnActor (ids (k + j)) (node w')) \<noteq> OPEN"
      using m(3) by (metis add.right_neutral add_Suc_right add_Suc Suc_le_mono not0_implies_Suc)
    moreover have "retried slow logic ids k w (Suc m) wm" using retried_again a v x m(2) by blast
    ultimately show ?thesis using m by (intro exI [of _ "Suc m"] exI [of _ wm] conjI) simp_all
  next
    case False
    then show ?thesis using run_ends_here [OF Suc.prems(1) a v Suc.prems(2)]
      by (intro exI [of _ 0] exI [of _ w] conjI) (simp_all add: retried_start)
  qed
qed

lemma client_world_steps: "world_steps client_world"
proof -
  have "store_step s (snd (getPtr 1 (at_sec 95) s))" "store_step s (snd (lock_begin 1 (at_sec 85) s))" for s :: "(nat, nat) store"
    by (auto intro: store_step.intros)
  then show ?thesis by (auto simp: world_steps_def client_world_def)
qed

theorem txnRun_settles_witness:
  "\<exists>w'. txnRun True (\<lambda>k. k = 0) client_logic (\<lambda>k. at_sec (90 + int k)) 3 0 client_world = (Inr (Some 5), w')
     \<and> state (getTxnActor (at_sec 90) (node w')) \<noteq> OPEN"
proof -
  let ?run = "txnRun True (\<lambda>k. k = 0) client_logic (\<lambda>k. at_sec (90 + int k)) 3 0 client_world"
  obtain res w' where run: "?run = (res, w')" by fastforce
  have "fst ?run = Inr (Some 5)" by code_simp
  then have r: "res = Inr (Some 5)" unfolding run by simp
  obtain m where "\<forall>j \<le> m. state (getTxnActor (at_sec (90 + int (0 + j))) (node w')) \<noteq> OPEN"
    using txnRun_settles [OF client_world_steps run] by blast
  then have "state (getTxnActor (at_sec (90 + int (0 + 0))) (node w')) \<noteq> OPEN" by blast
  then show ?thesis using run r by simp
qed

end
