(* ===== verification/LinkedList.thy ===== *)
theory LinkedList
  imports StmProps
begin

text \<open>
  The linked list of \<open>restm-api\<close>, \<open>stm/collection/LinkedList.scala\<close>: a queue whose header and nodes are
  values of the store, as programs over the operations of pointers.  Values are added at the head and
  removed at the tail.  \<open>chain\<close> is the invariant of the nodes; every operation keeps it and answers as a
  queue of values does, on the snapshot of its transaction and hence in an attempt among others.
\<close>

section \<open>Header and nodes\<close>

datatype ('p, 'a) list_value =
    SimpleLinkedListHead (ll_head: "'p option") (ll_tail: "'p option")
  | SimpleLinkedListNode (ll_value: 'a) (ll_next: "'p option") (ll_prev: "'p option")

text \<open>A value of the other class is a cast that fails, and so is each \<open>require\<close>.\<close>

definition read_head ::
  "'p \<Rightarrow> ('p option \<Rightarrow> 'p option \<Rightarrow> ('p, ('p, 'a) list_value, 'r) prog) \<Rightarrow> ('p, ('p, 'a) list_value, 'r) prog
    \<Rightarrow> ('p, ('p, 'a) list_value, 'r) prog" where
  "read_head root k absent =
     PRead root (\<lambda>x. case x of None \<Rightarrow> absent | Some (SimpleLinkedListHead h t) \<Rightarrow> k h t | Some _ \<Rightarrow> PFail Failure)"

definition read_node ::
  "'p \<Rightarrow> ('a \<Rightarrow> 'p option \<Rightarrow> 'p option \<Rightarrow> ('p, ('p, 'a) list_value, 'r) prog) \<Rightarrow> ('p, ('p, 'a) list_value, 'r) prog" where
  "read_node p k = ptr_read p (\<lambda>x. case x of SimpleLinkedListNode v nx pv \<Rightarrow> k v nx pv | _ \<Rightarrow> PFail Failure)"

definition requiring :: "bool \<Rightarrow> ('p, 'v, 'r) prog \<Rightarrow> ('p, 'v, 'r) prog" where
  "requiring b k = (if b then k else PFail Failure)"

definition head_add ::
  "'p option \<Rightarrow> 'p option \<Rightarrow> 'a \<Rightarrow> 'p \<Rightarrow> ('p, ('p, 'a) list_value, 'r) prog \<Rightarrow> ('p, ('p, 'a) list_value, 'r) prog" where
  "head_add head tail newValue self k =
     (case head of
        Some nodePtr \<Rightarrow>
          read_node nodePtr (\<lambda>v nx pv.
            requiring (nx = None)
              (PNew (SimpleLinkedListNode newValue None (Some nodePtr)) (\<lambda>newPtr.
                PWrite nodePtr (SimpleLinkedListNode v (Some newPtr) pv)
                  (PWrite self (SimpleLinkedListHead (Some newPtr) tail) k))))
      | None \<Rightarrow>
          requiring (tail = None)
            (PNew (SimpleLinkedListNode newValue None None) (\<lambda>newNode.
              PWrite self (SimpleLinkedListHead (Some newNode) (Some newNode)) k)))"

definition head_remove ::
  "'p option \<Rightarrow> 'p option \<Rightarrow> 'p \<Rightarrow> ('a option \<Rightarrow> ('p, ('p, 'a) list_value, 'r) prog) \<Rightarrow> ('p, ('p, 'a) list_value, 'r) prog" where
  "head_remove head tail self k =
     (case tail of
        Some tailPtr \<Rightarrow>
          read_node tailPtr (\<lambda>v nx pv.
            requiring (pv = None)
              (case nx of
                 Some nextPtr \<Rightarrow>
                   read_node nextPtr (\<lambda>v2 nx2 pv2.
                     requiring (pv2 = tail)
                       (PWrite nextPtr (SimpleLinkedListNode v2 nx2 None)
                         (PWrite self (SimpleLinkedListHead head (Some nextPtr)) (k (Some v)))))
               | None \<Rightarrow> requiring (tail = head) (PWrite self (SimpleLinkedListHead None None) (k (Some v)))))
      | None \<Rightarrow> requiring (head = None) (k None))"

section \<open>The operations\<close>

definition list_add :: "'p \<Rightarrow> 'a \<Rightarrow> ('p, ('p, 'a) list_value, 'r) prog \<Rightarrow> ('p, ('p, 'a) list_value, 'r) prog" where
  "list_add root v k = read_head root (\<lambda>h t. head_add h t v root k) (head_add None None v root k)"

definition list_remove ::
  "'p \<Rightarrow> ('a option \<Rightarrow> ('p, ('p, 'a) list_value, 'r) prog) \<Rightarrow> ('p, ('p, 'a) list_value, 'r) prog" where
  "list_remove root k = read_head root (\<lambda>h t. head_remove h t root k) (k None)"

text \<open>
  The stream reads the nodes one by one as it is forced, until one is not there; a program that forces
  it all has fuel for the nodes it may read, and a list that is longer fails.
\<close>

primrec walk ::
  "nat \<Rightarrow> 'p option \<Rightarrow> ('a list \<Rightarrow> ('p, ('p, 'a) list_value, 'r) prog) \<Rightarrow> ('p, ('p, 'a) list_value, 'r) prog" where
  "walk 0 np k = (case np of None \<Rightarrow> k [] | Some p \<Rightarrow> PFail Failure)"
| "walk (Suc n) np k =
     (case np of
        None \<Rightarrow> k []
      | Some p \<Rightarrow>
          PRead p (\<lambda>x. case x of
              None \<Rightarrow> k []
            | Some (SimpleLinkedListNode v nx pv) \<Rightarrow> walk n nx (\<lambda>vs. k (v # vs))
            | Some _ \<Rightarrow> PFail Failure))"

definition list_stream ::
  "nat \<Rightarrow> 'p \<Rightarrow> ('a list \<Rightarrow> ('p, ('p, 'a) list_value, 'r) prog) \<Rightarrow> ('p, ('p, 'a) list_value, 'r) prog" where
  "list_stream n root k = read_head root (\<lambda>h t. walk n t k) (k [])"

definition list_size ::
  "nat \<Rightarrow> 'p \<Rightarrow> (nat \<Rightarrow> ('p, ('p, 'a) list_value, 'r) prog) \<Rightarrow> ('p, ('p, 'a) list_value, 'r) prog" where
  "list_size n root k = list_stream n root (\<lambda>vs. k (length vs))"

definition list_create :: "('p \<Rightarrow> ('p, ('p, 'a) list_value, 'r) prog) \<Rightarrow> ('p, ('p, 'a) list_value, 'r) prog" where
  "list_create k = PNew (SimpleLinkedListHead None None) k"

definition list_lock :: "'p \<Rightarrow> (bool \<Rightarrow> ('p, ('p, 'a) list_value, 'r) prog) \<Rightarrow> ('p, ('p, 'a) list_value, 'r) prog" where
  "list_lock root k = PLock root k"

text \<open>A transaction that runs a sequence of them.\<close>

datatype 'a list_op = Add 'a | Remove | Size | Stream
datatype 'a list_answer = Added | Removed "'a option" | Sized nat | Streamed "'a list"

primrec list_script ::
  "nat \<Rightarrow> 'p \<Rightarrow> 'a list_op list \<Rightarrow> ('a list_answer list \<Rightarrow> ('p, ('p, 'a) list_value, 'r) prog) \<Rightarrow> ('p, ('p, 'a) list_value, 'r) prog" where
  "list_script n root [] k = k []"
| "list_script n root (x # xs) k =
     (case x of
        Add v \<Rightarrow> list_add root v (list_script n root xs (\<lambda>as. k (Added # as)))
      | Remove \<Rightarrow> list_remove root (\<lambda>r. list_script n root xs (\<lambda>as. k (Removed r # as)))
      | Size \<Rightarrow> list_size n root (\<lambda>m. list_script n root xs (\<lambda>as. k (Sized m # as)))
      | Stream \<Rightarrow> list_stream n root (\<lambda>vs. list_script n root xs (\<lambda>as. k (Streamed vs # as))))"

section \<open>The queue they implement\<close>

fun queue_op :: "'a list_op \<Rightarrow> 'a list \<Rightarrow> 'a list_answer \<times> 'a list" where
  "queue_op (Add v) vs = (Added, vs @ [v])"
| "queue_op Remove [] = (Removed None, [])"
| "queue_op Remove (v # vs) = (Removed (Some v), vs)"
| "queue_op Size vs = (Sized (length vs), vs)"
| "queue_op Stream vs = (Streamed vs, vs)"

fun queue_run :: "'a list_op list \<Rightarrow> 'a list \<Rightarrow> 'a list_answer list \<times> 'a list" where
  "queue_run [] vs = ([], vs)"
| "queue_run (x # xs) vs = (let (a, vs1) = queue_op x vs; (as, vs2) = queue_run xs vs1 in (a # as, vs2))"

lemma queue_run_Cons:
  "queue_run (x # xs) vs = (fst (queue_op x vs) # fst (queue_run xs (snd (queue_op x vs))), snd (queue_run xs (snd (queue_op x vs))))"
  by (simp add: split_beta Let_def)

declare queue_run.simps(2) [simp del]

section \<open>The invariant\<close>

text \<open>The nodes from the tail to the head: each one's \<open>next\<close> is the one after it, its \<open>prev\<close> the one before.\<close>

fun chain :: "('p \<Rightarrow> ('p, 'a) list_value option) \<Rightarrow> 'p option \<Rightarrow> 'p list \<Rightarrow> 'a list \<Rightarrow> bool" where
  "chain M pv [] [] = True"
| "chain M pv (p # ps) (v # vs) =
     (M p = Some (SimpleLinkedListNode v (if ps = [] then None else Some (hd ps)) pv) \<and> chain M (Some p) ps vs)"
| "chain M pv _ _ = False"

definition list_at :: "('p \<Rightarrow> ('p, 'a) list_value option) \<Rightarrow> 'p \<Rightarrow> 'p list \<Rightarrow> 'a list \<Rightarrow> bool" where
  "list_at M root ps vs =
     (distinct (root # ps) \<and> chain M None ps vs \<and>
      (M root = Some (SimpleLinkedListHead (if ps = [] then None else Some (last ps)) (if ps = [] then None else Some (hd ps)))
       \<or> M root = None \<and> ps = []))"

lemma chain_length: "chain M pv ps vs \<Longrightarrow> length ps = length vs"
  by (induction M pv ps vs rule: chain.induct) auto

lemma chain_cong: "(\<And>p. p \<in> set ps \<Longrightarrow> M' p = M p) \<Longrightarrow> chain M' pv ps vs = chain M pv ps vs"
  by (induction M pv ps vs rule: chain.induct) auto

lemma chain_last:
  "chain M pv ps vs \<Longrightarrow> ps \<noteq> [] \<Longrightarrow> \<exists>u pp. M (last ps) = Some (SimpleLinkedListNode u None pp)"
  by (induction M pv ps vs rule: chain.induct) auto

lemma chain_snoc:
  assumes "chain M pv ps vs" "distinct (q # ps)" "ps \<noteq> []"
    and "M' q = Some (SimpleLinkedListNode w None (Some (last ps)))"
    and "M (last ps) = Some (SimpleLinkedListNode u None pp)" "M' (last ps) = Some (SimpleLinkedListNode u (Some q) pp)"
    and "\<And>p. p \<in> set (butlast ps) \<Longrightarrow> M' p = M p"
  shows "chain M' pv (ps @ [q]) (vs @ [w])"
  using assms
proof (induction M pv ps vs rule: chain.induct)
  case (2 M pv p ps v vs)
  show ?case
  proof (cases ps)
    case Nil
    then show ?thesis using 2 by (cases vs) auto
  next
    case (Cons a as)
    have "M' p = M p" using 2(8) Cons by simp
    moreover have "chain M' (Some p) (ps @ [q]) (vs @ [w])"
      using 2 Cons by (intro 2(1)) auto
    ultimately show ?thesis using 2(2) Cons by simp
  qed
qed auto

section \<open>Each operation on a snapshot\<close>

lemma view_write [simp]:
  "view m (if view m wr p \<noteq> Some v then AList.update p (Some v) wr else wr) = (view m wr)(p \<mapsto> v)"
  by (auto simp: view_def update_conv' fun_eq_iff)

lemma dom_write:
  "dom (map_of (if b then AList.update p x wr else wr)) \<subseteq> insert p (dom (map_of wr))"
  by (auto simp: update_conv' dom_def split: if_splits)

lemma spec_write:
  obtains wr' where "spec (PWrite p v k) ids m lk wr = spec k ids m lk wr'" "view m wr' = (view m wr)(p \<mapsto> v)"
    "dom (map_of wr') \<subseteq> insert p (dom (map_of wr))"
  using that [OF spec.simps(4)] view_write dom_write by metis

declare spec.simps [simp del]

lemma list_at_empty:
  "list_at M root ps vs \<Longrightarrow> ps = [] \<Longrightarrow> M root = None \<or> M root = Some (SimpleLinkedListHead None None)"
  by (auto simp: list_at_def)

lemma spec_add:
  assumes "list_at (view m wr) root ps vs" "p \<notin> set (root # ps)" "map_of wr p = None"
    and "m p = Some (SimpleLinkedListNode v None (if ps = [] then None else Some (last ps)))"
  shows "\<exists>wr'. spec (list_add root v k) (p # ids) m lk wr = spec k ids m lk wr' \<and> list_at (view m wr') root (ps @ [p]) (vs @ [v])
     \<and> dom (map_of wr') \<subseteq> insert root (set ps) \<union> dom (map_of wr)"
proof (cases "ps = []")
  case True
  then have vs: "vs = []" using assms(1) by (cases vs) (auto simp: list_at_def)
  obtain wr1 where w: "spec (PWrite root (SimpleLinkedListHead (Some p) (Some p)) k) ids m lk wr = spec k ids m lk wr1"
    "view m wr1 = (view m wr)(root \<mapsto> SimpleLinkedListHead (Some p) (Some p))" "dom (map_of wr1) \<subseteq> insert root (dom (map_of wr))"
    by (rule spec_write)
  have "spec (list_add root v k) (p # ids) m lk wr = spec (PWrite root (SimpleLinkedListHead (Some p) (Some p)) k) ids m lk wr"
    by (rule disjE [OF list_at_empty [OF assms(1) True]])
       (simp_all add: list_add_def read_head_def head_add_def requiring_def assms(4) True spec.simps)
  moreover have "list_at (view m wr1) root (ps @ [p]) (vs @ [v])"
    using assms(2-4) True vs by (simp add: list_at_def w(2)) (simp add: view_def)
  ultimately show ?thesis using w(1,3) by (intro exI [of _ wr1]) auto
next
  case False
  let ?l = "last ps"
  obtain u pp where l: "view m wr ?l = Some (SimpleLinkedListNode u None pp)"
    using assms(1) False chain_last by (fastforce simp: list_at_def)
  let ?k = "PWrite root (SimpleLinkedListHead (Some p) (Some (hd ps))) k"
  obtain wr1 where w1: "spec (PWrite ?l (SimpleLinkedListNode u (Some p) pp) ?k) ids m lk wr = spec ?k ids m lk wr1"
    "view m wr1 = (view m wr)(?l \<mapsto> SimpleLinkedListNode u (Some p) pp)" "dom (map_of wr1) \<subseteq> insert ?l (dom (map_of wr))"
    by (rule spec_write)
  obtain wr2 where w2: "spec ?k ids m lk wr1 = spec k ids m lk wr2"
    "view m wr2 = (view m wr1)(root \<mapsto> SimpleLinkedListHead (Some p) (Some (hd ps)))" "dom (map_of wr2) \<subseteq> insert root (dom (map_of wr1))"
    by (rule spec_write)
  have root: "view m wr root = Some (SimpleLinkedListHead (Some ?l) (Some (hd ps)))" "root \<notin> set ps" "distinct ps"
    "chain (view m wr) None ps vs"
    using assms(1) False by (auto simp: list_at_def)
  have "spec (list_add root v k) (p # ids) m lk wr = spec (PWrite ?l (SimpleLinkedListNode u (Some p) pp) ?k) ids m lk wr"
    using assms(4) False l root(1) by (simp add: list_add_def read_head_def head_add_def read_node_def ptr_read_def requiring_def spec.simps)
  moreover have "list_at (view m wr2) root (ps @ [p]) (vs @ [v])"
  proof -
    have "?l \<in> set ps" using False by simp
    then have "?l \<noteq> root" "?l \<noteq> p" using root(2) assms(2) by auto
    have "chain (view m wr2) None (ps @ [p]) (vs @ [v])"
    proof (rule chain_snoc [OF root(4) _ False _ l])
      show "distinct (p # ps)" using assms(2) root(3) by simp
      show "view m wr2 p = Some (SimpleLinkedListNode v None (Some ?l))"
        using assms(2-4) False \<open>?l \<noteq> p\<close> by (simp add: w1 w2) (simp add: view_def)
      show "view m wr2 ?l = Some (SimpleLinkedListNode u (Some p) pp)" using \<open>?l \<noteq> root\<close> by (simp add: w1 w2)
      show "view m wr2 q = view m wr q" if "q \<in> set (butlast ps)" for q
      proof -
        have "q \<noteq> ?l" using that root(3) False by (metis append_butlast_last_id distinct_append disjoint_iff list.set_intros(1))
        then show ?thesis using that root(2) by (auto simp: w1 w2 dest: in_set_butlastD)
      qed
    qed
    then show ?thesis using assms(2) False root by (auto simp: list_at_def w2(2))
  qed
  moreover have "?l \<in> set ps" using False by simp
  then have "dom (map_of wr2) \<subseteq> insert root (set ps) \<union> dom (map_of wr)" using w1(3) w2(3) by blast
  ultimately show ?thesis using w1(1) w2(1) by metis
qed

lemma spec_remove:
  assumes "list_at (view m wr) root ps vs"
  shows "\<exists>wr'. spec (list_remove root k) ids m lk wr = spec (k (case vs of [] \<Rightarrow> None | v # _ \<Rightarrow> Some v)) ids m lk wr'
     \<and> list_at (view m wr') root (tl ps) (tl vs) \<and> dom (map_of wr') \<subseteq> insert root (set ps) \<union> dom (map_of wr)"
proof (cases ps)
  case Nil
  then have "vs = []" using assms by (cases vs) (auto simp: list_at_def)
  moreover have "spec (list_remove root k) ids m lk wr = spec (k None) ids m lk wr"
    by (rule disjE [OF list_at_empty [OF assms Nil]])
       (simp_all add: list_remove_def read_head_def head_remove_def requiring_def spec.simps)
  ultimately show ?thesis using assms Nil \<open>vs = []\<close> by auto
next
  case (Cons p qs)
  then obtain v us where vs: "vs = v # us" using assms by (cases vs) (auto simp: list_at_def)
  have root: "view m wr root = Some (SimpleLinkedListHead (Some (last ps)) (Some p))" "root \<notin> set ps" "distinct ps"
    "chain (view m wr) None ps vs"
    using assms Cons by (auto simp: list_at_def)
  show ?thesis
  proof (cases qs)
    case Nil
    then have "us = []" using root(4) Cons vs by (cases us) auto
    obtain wr1 where w: "spec (PWrite root (SimpleLinkedListHead None None) (k (Some v))) ids m lk wr = spec (k (Some v)) ids m lk wr1"
      "view m wr1 = (view m wr)(root \<mapsto> SimpleLinkedListHead None None)" "dom (map_of wr1) \<subseteq> insert root (dom (map_of wr))"
      by (rule spec_write)
    have "view m wr root = Some (SimpleLinkedListHead (Some p) (Some p))" "view m wr p = Some (SimpleLinkedListNode v None None)"
      using root(1,4) Cons Nil vs by simp_all
    then have "spec (list_remove root k) ids m lk wr = spec (PWrite root (SimpleLinkedListHead None None) (k (Some v))) ids m lk wr"
      by (simp add: list_remove_def read_head_def head_remove_def read_node_def ptr_read_def requiring_def spec.simps)
    moreover have "list_at (view m wr1) root (tl ps) (tl vs)" using Cons Nil vs \<open>us = []\<close> by (simp add: list_at_def w(2))
    ultimately show ?thesis using w(1,3) vs by auto
  next
    case (Cons q rs)
    then obtain v2 ws where us: "us = v2 # ws" using root(4) \<open>ps = p # qs\<close> vs by (cases us) auto
    let ?nx = "if rs = [] then None else Some (hd rs)"
    let ?k = "PWrite root (SimpleLinkedListHead (Some (last ps)) (Some q)) (k (Some v))"
    obtain wr1 where w1: "spec (PWrite q (SimpleLinkedListNode v2 ?nx None) ?k) ids m lk wr = spec ?k ids m lk wr1"
      "view m wr1 = (view m wr)(q \<mapsto> SimpleLinkedListNode v2 ?nx None)" "dom (map_of wr1) \<subseteq> insert q (dom (map_of wr))"
      by (rule spec_write)
    obtain wr2 where w2: "spec ?k ids m lk wr1 = spec (k (Some v)) ids m lk wr2"
      "view m wr2 = (view m wr1)(root \<mapsto> SimpleLinkedListHead (Some (last ps)) (Some q))" "dom (map_of wr2) \<subseteq> insert root (dom (map_of wr1))"
      by (rule spec_write)
    have c: "view m wr p = Some (SimpleLinkedListNode v (Some q) None)" "view m wr q = Some (SimpleLinkedListNode v2 ?nx (Some p))"
      "chain (view m wr) (Some q) rs ws"
      using root(4) \<open>ps = p # qs\<close> Cons vs us by auto
    have e: "spec (list_remove root k) ids m lk wr = spec (PWrite q (SimpleLinkedListNode v2 ?nx None) ?k) ids m lk wr"
      using root(1) c(1,2) by (simp add: list_remove_def read_head_def head_remove_def read_node_def ptr_read_def requiring_def spec.simps)
    have la: "list_at (view m wr2) root qs us"
    proof -
      have "view m wr2 a = view m wr a" if "a \<in> set rs" for a
        using that root(2,3) \<open>ps = p # qs\<close> Cons by (auto simp: w1 w2)
      then have "chain (view m wr2) (Some q) rs ws" using c(3) chain_cong by metis
      then show ?thesis using root(2,3) \<open>ps = p # qs\<close> Cons us not_sym [of root q] by (simp add: list_at_def w1 w2)
    qed
    have "spec (list_remove root k) ids m lk wr = spec (k (Some v)) ids m lk wr2" using e unfolding w1(1) w2(1) .
    moreover have "dom (map_of wr2) \<subseteq> insert root (set ps) \<union> dom (map_of wr)"
      using w1(3) w2(3) unfolding \<open>ps = p # qs\<close> Cons list.set by blast
    ultimately show ?thesis using la unfolding vs \<open>ps = p # qs\<close> list.sel list.case by blast
  qed
qed

lemma spec_walk:
  "chain (view m wr) pv ps vs \<Longrightarrow> length ps \<le> n \<Longrightarrow>
     spec (walk n (if ps = [] then None else Some (hd ps)) k) ids m lk wr = spec (k vs) ids m lk wr"
proof (induction n arbitrary: pv ps vs k)
  case 0
  then show ?case by (cases vs) auto
next
  case (Suc n)
  show ?case
  proof (cases ps)
    case Nil
    then show ?thesis using Suc.prems by (cases vs) auto
  next
    case (Cons p qs)
    then obtain v us where vs: "vs = v # us" using Suc.prems by (cases vs) auto
    have "chain (view m wr) (Some p) qs us" "length qs \<le> n" using Suc.prems Cons vs by auto
    from Suc.IH [OF this] show ?thesis using Suc.prems Cons vs by (simp add: spec.simps)
  qed
qed

lemma spec_stream:
  assumes "list_at (view m wr) root ps vs" "length ps \<le> n"
  shows "spec (list_stream n root k) ids m lk wr = spec (k vs) ids m lk wr"
proof -
  have c: "chain (view m wr) None ps vs" using assms by (simp add: list_at_def)
  have "vs = []" if "ps = []" using c that by (cases vs) auto
  moreover have "view m wr root = None \<and> ps = [] \<or>
      view m wr root = Some (SimpleLinkedListHead (if ps = [] then None else Some (last ps)) (if ps = [] then None else Some (hd ps)))"
    using assms(1) by (auto simp: list_at_def)
  ultimately show ?thesis using spec_walk [OF c assms(2), of k ids lk]
    by (elim disjE) (simp_all add: list_stream_def read_head_def spec.simps)
qed


section \<open>Scripts\<close>

text \<open>
  The bound on the length that fuel is needed for, and the identifiers a script draws: the node that is
  created with each is in the snapshot.
\<close>

fun adds :: "'a list_op list \<Rightarrow> nat" where
  "adds [] = 0"
| "adds (Add v # xs) = Suc (adds xs)"
| "adds (_ # xs) = adds xs"

fun created :: "('p \<Rightarrow> ('p, 'a) list_value option) \<Rightarrow> 'p list \<Rightarrow> 'a list_op list \<Rightarrow> 'p list \<Rightarrow> bool" where
  "created m ps [] ids = True"
| "created m ps (Add v # xs) (p # ids) =
     (m p = Some (SimpleLinkedListNode v None (if ps = [] then None else Some (last ps))) \<and> created m (ps @ [p]) xs ids)"
| "created m ps (Add v # xs) [] = False"
| "created m ps (Remove # xs) ids = created m (tl ps) xs ids"
| "created m ps (_ # xs) ids = created m ps xs ids"

lemma spec_add_needs:
  assumes "spec (list_add root v k) ids m lk wr = Some y" "list_at (view m wr) root ps vs"
  shows "\<exists>p ids'. ids = p # ids' \<and> m p = Some (SimpleLinkedListNode v None (if ps = [] then None else Some (last ps)))"
proof -
  let ?n = "SimpleLinkedListNode v None (if ps = [] then None else Some (last ps))"
  have "\<exists>k'. spec (list_add root v k) ids m lk wr = spec (PNew ?n k') ids m lk wr"
  proof (cases "ps = []")
    case True
    have "spec (list_add root v k) ids m lk wr = spec (PNew ?n (\<lambda>p. PWrite root (SimpleLinkedListHead (Some p) (Some p)) k)) ids m lk wr"
      by (rule disjE [OF list_at_empty [OF assms(2) True]])
         (simp_all add: list_add_def read_head_def head_add_def requiring_def spec.simps(3) True)
    then show ?thesis by blast
  next
    case False
    then obtain u pp where "view m wr (last ps) = Some (SimpleLinkedListNode u None pp)"
      using assms(2) chain_last by (fastforce simp: list_at_def)
    moreover have "view m wr root = Some (SimpleLinkedListHead (Some (last ps)) (Some (hd ps)))"
      using assms(2) False by (simp add: list_at_def)
    ultimately have "spec (list_add root v k) ids m lk wr = spec (PNew ?n (\<lambda>p. PWrite (last ps) (SimpleLinkedListNode u (Some p) pp)
        (PWrite root (SimpleLinkedListHead (Some p) (Some (hd ps))) k))) ids m lk wr"
      using False by (simp add: list_add_def read_head_def head_add_def read_node_def ptr_read_def requiring_def spec.simps(3))
    then show ?thesis by blast
  qed
  then obtain k' where "spec (PNew ?n k') ids m lk wr = Some y" using assms(1) by auto
  then show ?thesis by (auto simp: spec.simps(7) simp del: if_split split: list.splits if_split_asm)
qed

lemma script_created:
  "spec (list_script n root xs k) ids m lk wr = Some y \<Longrightarrow> list_at (view m wr) root ps vs \<Longrightarrow> distinct ids \<Longrightarrow>
     set ids \<inter> (insert root (set ps) \<union> dom (map_of wr)) = {} \<Longrightarrow> length ps + adds xs \<le> n \<Longrightarrow> created m ps xs ids"
proof (induction xs arbitrary: ids wr ps vs k)
  case (Cons x xs)
  show ?case
  proof (cases x)
    case (Add v)
    then obtain p ids' where p: "ids = p # ids'" "m p = Some (SimpleLinkedListNode v None (if ps = [] then None else Some (last ps)))"
      using spec_add_needs [OF _ Cons.prems(2)] Cons.prems(1) unfolding list_script.simps Add list_op.case by blast
    have q: "p \<notin> set (root # ps)" "map_of wr p = None" using Cons.prems(4) p(1) by auto
    obtain wr1 where w: "spec (list_script n root (x # xs) k) ids m lk wr = spec (list_script n root xs (\<lambda>as. k (Added # as))) ids' m lk wr1"
      "list_at (view m wr1) root (ps @ [p]) (vs @ [v])" "dom (map_of wr1) \<subseteq> insert root (set ps) \<union> dom (map_of wr)"
      using spec_add [OF Cons.prems(2) q p(2), of "list_script n root xs (\<lambda>as. k (Added # as))" ids' lk] Add p(1) by auto
    have "created m (ps @ [p]) xs ids'"
    proof (rule Cons.IH [OF _ w(2)])
      show "spec (list_script n root xs (\<lambda>as. k (Added # as))) ids' m lk wr1 = Some y" using w(1) Cons.prems(1) by simp
      show "distinct ids'" using Cons.prems(3) p(1) by simp
      show "set ids' \<inter> (insert root (set (ps @ [p])) \<union> dom (map_of wr1)) = {}" using Cons.prems(3,4) p(1) w(3) by auto
      show "length (ps @ [p]) + adds xs \<le> n" using Cons.prems(5) Add by simp
    qed
    then show ?thesis using p Add by simp
  next
    case Remove
    obtain wr1 where w: "spec (list_script n root (x # xs) k) ids m lk wr =
        spec (list_script n root xs (\<lambda>as. k (Removed (case vs of [] \<Rightarrow> None | v # _ \<Rightarrow> Some v) # as))) ids m lk wr1"
      "list_at (view m wr1) root (tl ps) (tl vs)" "dom (map_of wr1) \<subseteq> insert root (set ps) \<union> dom (map_of wr)"
      using spec_remove [OF Cons.prems(2), of "\<lambda>r. list_script n root xs (\<lambda>as. k (Removed r # as))" ids lk] Remove by auto
    have "set (tl ps) \<subseteq> set ps" by (cases ps) auto
    then have d: "set ids \<inter> (insert root (set (tl ps)) \<union> dom (map_of wr1)) = {}" using Cons.prems(4) w(3) by blast
    have "length (tl ps) + adds xs \<le> n" using Cons.prems(5) Remove by simp
    then have "created m (tl ps) xs ids" using Cons.IH [OF _ w(2) Cons.prems(3) d] Cons.prems(1) unfolding w(1) by blast
    then show ?thesis using Remove by simp
  next
    case Size
    have "length ps \<le> n" using Cons.prems(5) by simp
    then show ?thesis
      using Cons.prems Size Cons.IH [of "\<lambda>as. k (Sized (length vs) # as)"] by (simp add: list_size_def spec_stream [OF Cons.prems(2)])
  next
    case Stream
    have "length ps \<le> n" using Cons.prems(5) by simp
    then show ?thesis
      using Cons.prems Stream Cons.IH [of "\<lambda>as. k (Streamed vs # as)"] by (simp add: spec_stream [OF Cons.prems(2)])
  qed
qed simp

lemma script_is_queue:
  "list_at (view m wr) root ps vs \<Longrightarrow> distinct ids \<Longrightarrow> set ids \<inter> (insert root (set ps) \<union> dom (map_of wr)) = {} \<Longrightarrow>
     length ps + adds xs \<le> n \<Longrightarrow> created m ps xs ids \<Longrightarrow>
     \<exists>ids' wr' ps'. spec (list_script n root xs k) ids m lk wr = spec (k (fst (queue_run xs vs))) ids' m lk wr'
       \<and> list_at (view m wr') root ps' (snd (queue_run xs vs)) \<and> set ps' \<subseteq> set ps \<union> set ids"
proof (induction xs arbitrary: ids wr ps vs k)
  case (Cons x xs)
  show ?case
  proof (cases x)
    case (Add v)
    then obtain p ids' where p: "ids = p # ids'" "m p = Some (SimpleLinkedListNode v None (if ps = [] then None else Some (last ps)))"
      "created m (ps @ [p]) xs ids'"
      using Cons.prems(5) by (cases ids) auto
    have q: "p \<notin> set (root # ps)" "map_of wr p = None" using Cons.prems(3) p(1) by auto
    obtain wr1 where w: "spec (list_script n root (x # xs) k) ids m lk wr = spec (list_script n root xs (\<lambda>as. k (Added # as))) ids' m lk wr1"
      "list_at (view m wr1) root (ps @ [p]) (vs @ [v])" "dom (map_of wr1) \<subseteq> insert root (set ps) \<union> dom (map_of wr)"
      using spec_add [OF Cons.prems(1) q p(2), of "list_script n root xs (\<lambda>as. k (Added # as))" ids' lk] Add p(1) by auto
    have d: "distinct ids'" "set ids' \<inter> (insert root (set (ps @ [p])) \<union> dom (map_of wr1)) = {}" "length (ps @ [p]) + adds xs \<le> n"
      using Cons.prems(2-4) p(1) w(3) Add by auto
    obtain is' wr' ps' where q: "spec (list_script n root xs (\<lambda>as. k (Added # as))) ids' m lk wr1 = spec (k (Added # fst (queue_run xs (vs @ [v])))) is' m lk wr'"
      "list_at (view m wr') root ps' (snd (queue_run xs (vs @ [v])))" "set ps' \<subseteq> set (ps @ [p]) \<union> set ids'"
      using Cons.IH [OF w(2) d p(3)] by blast
    then have "set ps' \<subseteq> set ps \<union> set ids" using p(1) by auto
    then show ?thesis using q(1,2) unfolding w(1) queue_run_Cons unfolding Add queue_op.simps fst_conv snd_conv by blast
  next
    case Remove
    obtain wr1 where w: "spec (list_script n root (x # xs) k) ids m lk wr =
        spec (list_script n root xs (\<lambda>as. k (Removed (case vs of [] \<Rightarrow> None | v # _ \<Rightarrow> Some v) # as))) ids m lk wr1"
      "list_at (view m wr1) root (tl ps) (tl vs)" "dom (map_of wr1) \<subseteq> insert root (set ps) \<union> dom (map_of wr)"
      using spec_remove [OF Cons.prems(1), of "\<lambda>r. list_script n root xs (\<lambda>as. k (Removed r # as))" ids lk] Remove by auto
    have t: "set (tl ps) \<subseteq> set ps" by (cases ps) auto
    then have d: "set ids \<inter> (insert root (set (tl ps)) \<union> dom (map_of wr1)) = {}" using Cons.prems(3) w(3) by blast
    have l: "length (tl ps) + adds xs \<le> n" "created m (tl ps) xs ids" using Cons.prems(4,5) Remove by auto
    have "queue_op x vs = (Removed (case vs of [] \<Rightarrow> None | v # _ \<Rightarrow> Some v), tl vs)" using Remove by (cases vs) simp_all
    moreover obtain is' wr' ps' where
      "spec (list_script n root xs (\<lambda>as. k (Removed (case vs of [] \<Rightarrow> None | v # _ \<Rightarrow> Some v) # as))) ids m lk wr1 =
        spec (k (Removed (case vs of [] \<Rightarrow> None | v # _ \<Rightarrow> Some v) # fst (queue_run xs (tl vs)))) is' m lk wr'"
      "list_at (view m wr') root ps' (snd (queue_run xs (tl vs)))" "set ps' \<subseteq> set (tl ps) \<union> set ids"
      using Cons.IH [OF w(2) Cons.prems(2) d l] by blast
    moreover from this t have "set ps' \<subseteq> set ps \<union> set ids" by blast
    ultimately show ?thesis unfolding w(1) queue_run_Cons by (metis fst_conv snd_conv)
  next
    case Size
    then show ?thesis
      using Cons.prems Cons.IH [OF Cons.prems(1-3), of "\<lambda>as. k (Sized (length vs) # as)"]
      by (simp add: list_size_def spec_stream [OF Cons.prems(1)] queue_run_Cons)
  next
    case Stream
    then show ?thesis
      using Cons.prems Cons.IH [OF Cons.prems(1-3), of "\<lambda>as. k (Streamed vs # as)"]
      by (simp add: spec_stream [OF Cons.prems(1)] queue_run_Cons)
  qed
qed auto

text \<open>C22. A list stays well formed.  On a snapshot that holds a list, any sequence of operations in one
  transaction runs to its end, no requirement and no cast fails, it answers as a queue, and the
  pending writes laid over the snapshot make the list of what is left.  The identifiers drawn are
  new, the snapshot holds what they were created with, and there is fuel for the longest list.\<close>

theorem list_stays_well_formed:
  assumes "list_at m root ps vs" "distinct ids" "set ids \<inter> insert root (set ps) = {}"
    and "length ps + adds xs \<le> n" "created m ps xs ids"
  shows "\<exists>wr ps'. spec (list_script n root xs PRet) ids m lk [] = Some (fst (queue_run xs vs), wr)
    \<and> list_at (view m wr) root ps' (snd (queue_run xs vs))"
proof -
  have "view m [] = m" by (simp add: view_def fun_eq_iff)
  then show ?thesis using script_is_queue [of m "[]" root ps vs ids xs n PRet lk] assms
    by (auto simp: spec.simps(1))
qed

text \<open>C15. A list is a queue for an attempt among others.  An attempt whose script of operations has run to
  its end, among any messages of other transactions, answered as a queue does that holds the values
  of the list in the snapshot of its time, and its pending writes make the list of what is left.  The
  identifiers it may draw are not those of the list, and it did not read one before it drew it.\<close>

theorem list_attempt_is_queue:
  assumes "store_inv (node w)" "\<And>e s. e \<in> set (others w) \<Longrightarrow> store_inv s \<Longrightarrow> (other_step t)\<^sup>*\<^sup>* s (e s)" "distinct (fresh w)"
    and "run_prog (list_script n root xs PRet) (new_ctx t) w = (Inr r, c', w')" "dom (readCache c') \<inter> set (fresh w) = {}"
    and "list_at (seen t (node w')) root ps vs" "set (fresh w) \<inter> insert root (set ps) = {}" "length ps + adds xs \<le> n"
  shows "r = fst (queue_run xs vs) \<and> (\<exists>ps'. list_at (view (seen t (node w')) (writeCache c')) root ps' (snd (queue_run xs vs)))"
proof -
  let ?m = "seen t (node w')" let ?lk = "\<lambda>p. writeLocks c' p = Some (Inr True)"
  have "others_polite.running t (new_ctx t) w"
    using assms(1-3) by (auto simp: others_polite.running_def others_polite.moves_def new_ctx_def)
  from others_polite.run_refines [OF this assms(4,5)] obtain ids where ids: "distinct ids" "set ids \<subseteq> set (fresh w)"
    "spec (list_script n root xs PRet) ids ?m ?lk [] = Some (r, writeCache c')"
    by (auto simp: new_ctx_def)
  have e: "view ?m [] = ?m" by (simp add: view_def fun_eq_iff)
  have l: "list_at (view ?m []) root ps vs" using assms(6) unfolding e .
  have d: "set ids \<inter> (insert root (set ps) \<union> dom (map_of [])) = {}" using assms(7) ids(2) by auto
  note c = script_created [OF ids(3) l ids(1) d assms(8)]
  show ?thesis using script_is_queue [OF l ids(1) d assms(8) c, of PRet ?lk] ids(3) by (auto simp: spec.simps(1))
qed

section \<open>Witnesses\<close>

definition list_ops :: "nat list_op list" where
  "list_ops = [Add 7, Add 8, Remove, Size, Stream]"

definition list_snapshot :: "nat \<Rightarrow> (nat, nat) list_value option" where
  "list_snapshot = [1 \<mapsto> SimpleLinkedListHead (Some 4) (Some 4), 4 \<mapsto> SimpleLinkedListNode 6 None None,
     2 \<mapsto> SimpleLinkedListNode 7 None (Some 4), 3 \<mapsto> SimpleLinkedListNode 8 None (Some 2)]"

theorem list_stays_well_formed_witness:
  "\<exists>wr ps'. spec (list_script 3 1 list_ops PRet) [2, 3] list_snapshot (\<lambda>_. True) []
      = Some ([Added, Added, Removed (Some 6), Sized 2, Streamed [7, 8]], wr) \<and> list_at (view list_snapshot wr) 1 ps' [7, 8]"
proof -
  have q: "queue_run list_ops [6] = ([Added, Added, Removed (Some 6), Sized 2, Streamed [7, 8]], [7, 8])" by code_simp
  have "\<exists>wr ps'. spec (list_script 3 1 list_ops PRet) [2, 3] list_snapshot (\<lambda>_. True) [] = Some (fst (queue_run list_ops [6]), wr)
      \<and> list_at (view list_snapshot wr) 1 ps' (snd (queue_run list_ops [6]))"
    by (rule list_stays_well_formed [of _ _ "[4]"]) (simp_all add: list_at_def list_snapshot_def list_ops_def)
  then show ?thesis by (simp add: q)
qed

definition list_world :: "(nat, (nat, nat) list_value) world" where
  "list_world = \<lparr>node = new_store (ExactTime 100 0), others = [\<lambda>s. snd (getPtr 7 (at_sec 95) s), \<lambda>s. snd (lock_begin 8 (at_sec 85) s)],
     fresh = [2, 3]\<rparr>"

lemma list_moves: "e \<in> set (others list_world) \<Longrightarrow> (other_step (at_sec 90))\<^sup>*\<^sup>* s (e s)"
  by (auto simp: list_world_def intro!: r_into_rtranclp other_step.intros)

theorem list_attempt_is_queue_witness:
  "\<exists>c' w' ps'. run_prog (list_script 2 1 list_ops PRet) (new_ctx (at_sec 90)) list_world
      = (Inr [Added, Added, Removed (Some 7), Sized 1, Streamed [8]], c', w')
    \<and> list_at (view (seen (at_sec 90) (node w')) (writeCache c')) 1 ps' [8]"
proof -
  obtain r c' w' where run: "run_prog (list_script 2 1 list_ops PRet) (new_ctx (at_sec 90)) list_world = (r, c', w')"
    by (metis prod_cases3)
  have "(\<lambda>(r, c', w'). r = Inr [Added, Added, Removed (Some 7), Sized 1, Streamed [8]] \<and> readCache c' 2 = None \<and> readCache c' 3 = None
      \<and> seen (at_sec 90) (node w') 1 = None)
      (run_prog (list_script 2 1 list_ops PRet) (new_ctx (at_sec 90)) list_world)"
    by code_simp
  then have r: "r = Inr [Added, Added, Removed (Some 7), Sized 1, Streamed [8]]" "readCache c' 2 = None" "readCache c' 3 = None"
    "seen (at_sec 90) (node w') 1 = None"
    unfolding run by simp_all
  have q: "queue_run list_ops [] = ([Added, Added, Removed (Some 7), Sized 1, Streamed [8]], [8])" by code_simp
  have "dom (readCache c') \<inter> set (fresh list_world) = {}" using r by (auto simp: list_world_def)
  then have "[Added, Added, Removed (Some 7), Sized 1, Streamed [8]] = fst (queue_run list_ops []) \<and>
      (\<exists>ps'. list_at (view (seen (at_sec 90) (node w')) (writeCache c')) 1 ps' (snd (queue_run list_ops [])))"
    using r(4)
    by (intro list_attempt_is_queue [OF _ _ _ run [unfolded r(1)], of "[]" "[]"] list_moves)
       (simp_all add: list_world_def list_ops_def store_inv_new list_at_def)
  then show ?thesis using run r by (auto simp: q)
qed

end
