(* ===== verification/Cluster.thy ===== *)
theory Cluster
  imports RestmProps
begin

text \<open>
  Clusters of storage nodes, \<open>storage/remote\<close>: the interface \<open>RestmInternal\<close> as a record of operations on a
  state, the node of \<open>RestmActors\<close> as one implementation, and the two that are built from others: the
  router, which sends each request to one shard by hash code, and the replicator, which sends it to
  all.  The hash codes of pointers and times, and the order in which replicas answer, are parameters.
\<close>

section \<open>The interface\<close>

record ('p, 'v, 's) internal =
  i_resetValue :: "'p \<Rightarrow> txn_time \<Rightarrow> 's \<Rightarrow> (store_error + unit) \<times> 's"
  i_lockValue :: "'p \<Rightarrow> txn_time \<Rightarrow> 's \<Rightarrow> (store_error + txn_time option) \<times> 's"
  i_commitValue :: "'p \<Rightarrow> txn_time \<Rightarrow> 's \<Rightarrow> (store_error + unit) \<times> 's"
  i_getNow :: "'p \<Rightarrow> 's \<Rightarrow> (store_error + 'v option) \<times> 's"
  i_getAt :: "'p \<Rightarrow> txn_time \<Rightarrow> 's \<Rightarrow> (store_error + 'v option) \<times> 's"
  i_initValue :: "txn_time \<Rightarrow> 'v \<Rightarrow> 'p \<Rightarrow> 's \<Rightarrow> (store_error + bool) \<times> 's"
  i_addLock :: "'p \<Rightarrow> txn_time \<Rightarrow> 's \<Rightarrow> (store_error + txn_state) \<times> 's"
  i_resetTxn :: "txn_time \<Rightarrow> 's \<Rightarrow> (store_error + 'p list) \<times> 's"
  i_commitTxn :: "txn_time \<Rightarrow> 's \<Rightarrow> (store_error + 'p list) \<times> 's"
  i_txnState :: "txn_time \<Rightarrow> 's \<Rightarrow> (store_error + txn_state) \<times> 's"
  i_queueValue :: "'p \<Rightarrow> txn_time \<Rightarrow> 'v \<Rightarrow> 's \<Rightarrow> (store_error + unit) \<times> 's"
  i_delete :: "'p \<Rightarrow> txn_time \<Rightarrow> 's \<Rightarrow> (store_error + unit) \<times> 's"

definition answers :: "('s \<Rightarrow> 'a \<times> 's) \<Rightarrow> 's \<Rightarrow> (store_error + 'a) \<times> 's" where
  "answers f s = (let (r, s') = f s in (Inr r, s'))"

definition node_internal :: "('p, 'v, ('p, 'v) store) internal" where
  "node_internal = \<lparr>i_resetValue = resetValue, i_lockValue = lockValue, i_commitValue = commitValue, i_getNow = getValueNow,
     i_getAt = getValueAt, i_initValue = initValue, i_addLock = (\<lambda>p t. answers (addTxnLock p t)), i_resetTxn = resetTxn,
     i_commitTxn = commitTxn, i_txnState = (\<lambda>t. answers (txnState t)), i_queueValue = queueValue, i_delete = deleteValue\<rparr>"

section \<open>RestmInternalRouter\<close>

text \<open>The remainder of the hash code, made positive; a router without shards divides by zero.\<close>

function wrap :: "int \<Rightarrow> nat \<Rightarrow> int" where
  "wrap m n = (if m < 0 \<and> 0 < n then wrap (m + int n) n else m)"
  by pat_completeness auto
termination by (relation "measure (\<lambda>(m, n). nat (- m))") auto

declare wrap.simps [simp del]

definition shard_index :: "int \<Rightarrow> nat \<Rightarrow> nat option" where
  "shard_index h n = (if n = 0 then None else Some (nat (wrap (trem h (int n)) n)))"

definition at_shard :: "int \<Rightarrow> ('s \<Rightarrow> (store_error + 'a) \<times> 's) \<Rightarrow> 's list \<Rightarrow> (store_error + 'a) \<times> 's list" where
  "at_shard h f ss =
     (case shard_index h (length ss) of
        None \<Rightarrow> (Inl ArithmeticError, ss)
      | Some i \<Rightarrow> (let (r, s) = f (ss ! i) in (r, ss[i := s])))"

definition router ::
  "('p \<Rightarrow> int) \<Rightarrow> (txn_time \<Rightarrow> int) \<Rightarrow> ('p, 'v, 's) internal \<Rightarrow> ('p, 'v, 's list) internal" where
  "router hp ht n = \<lparr>i_resetValue = (\<lambda>p t. at_shard (hp p) (i_resetValue n p t)),
     i_lockValue = (\<lambda>p t. at_shard (hp p) (i_lockValue n p t)), i_commitValue = (\<lambda>p t. at_shard (hp p) (i_commitValue n p t)),
     i_getNow = (\<lambda>p. at_shard (hp p) (i_getNow n p)), i_getAt = (\<lambda>p t. at_shard (hp p) (i_getAt n p t)),
     i_initValue = (\<lambda>t v p. at_shard (hp p) (i_initValue n t v p)), i_addLock = (\<lambda>p t. at_shard (ht t) (i_addLock n p t)),
     i_resetTxn = (\<lambda>t. at_shard (ht t) (i_resetTxn n t)), i_commitTxn = (\<lambda>t. at_shard (ht t) (i_commitTxn n t)),
     i_txnState = (\<lambda>t. at_shard (ht t) (i_txnState n t)), i_queueValue = (\<lambda>p t v. at_shard (hp p) (i_queueValue n p t v)),
     i_delete = (\<lambda>p t. at_shard (hp p) (i_delete n p t))\<rparr>"

section \<open>RestmInternalReplicator\<close>

text \<open>
  \<open>Future.sequence\<close>: every replica is asked, and the first failure in their order is the failure of
  all.  \<open>Future.find\<close> takes the first answer that matches among those that arrive, and passes over
  the replicas that fail.
\<close>

fun ask_all :: "('s \<Rightarrow> (store_error + 'a) \<times> 's) \<Rightarrow> 's list \<Rightarrow> (store_error + 'a) list \<times> 's list" where
  "ask_all f [] = ([], [])"
| "ask_all f (s # ss) = (let (r, s') = f s; (rs, ss') = ask_all f ss in (r # rs, s' # ss'))"

fun gather :: "(store_error + 'a) list \<Rightarrow> store_error + 'a list" where
  "gather [] = Inr []"
| "gather (r # rs) = (case r of Inl e \<Rightarrow> Inl e | Inr x \<Rightarrow> map_sum id ((#) x) (gather rs))"

definition sequence :: "('s \<Rightarrow> (store_error + 'a) \<times> 's) \<Rightarrow> 's list \<Rightarrow> (store_error + 'a list) \<times> 's list" where
  "sequence f ss = (let (rs, ss') = ask_all f ss in (gather rs, ss'))"

definition find_defined :: "nat list \<Rightarrow> ('s \<Rightarrow> (store_error + 'v option) \<times> 's) \<Rightarrow> 's list \<Rightarrow> (store_error + 'v option) \<times> 's list" where
  "find_defined arrival f ss =
     (let (rs, ss') = ask_all f ss
      in (Inr (case find (\<lambda>r. \<exists>v \<in> set_option (case r of Inr x \<Rightarrow> x | Inl e \<Rightarrow> None). True) (map (\<lambda>i. rs ! i) arrival) of
                 Some (Inr x) \<Rightarrow> x | _ \<Rightarrow> None), ss'))"

fun first_some :: "'a option list \<Rightarrow> 'a option" where
  "first_some [] = None"
| "first_some (x # xs) = (case x of Some y \<Rightarrow> Some y | None \<Rightarrow> first_some xs)"

definition unit_of :: "(store_error + 'a) \<times> 's \<Rightarrow> (store_error + unit) \<times> 's" where
  "unit_of x = (map_sum id (\<lambda>_. ()) (fst x), snd x)"

definition rep_reset :: "('p, 'v, 's) internal \<Rightarrow> 'p \<Rightarrow> txn_time \<Rightarrow> 's list \<Rightarrow> (store_error + unit) \<times> 's list" where
  "rep_reset n p t ss = unit_of (sequence (i_resetValue n p t) ss)"

text \<open>A refused lock, and a value that is there already, are reset on every replica first.\<close>

definition rep_lock :: "('p, 'v, 's) internal \<Rightarrow> 'p \<Rightarrow> txn_time \<Rightarrow> 's list \<Rightarrow> (store_error + txn_time option) \<times> 's list" where
  "rep_lock n p t ss =
     (case sequence (i_lockValue n p t) ss of
        (Inl e, ss1) \<Rightarrow> (Inl e, ss1)
      | (Inr rs, ss1) \<Rightarrow>
          (case first_some rs of
             None \<Rightarrow> (Inr None, ss1)
           | Some w \<Rightarrow> (case rep_reset n p t ss1 of (Inl e, ss2) \<Rightarrow> (Inl e, ss2) | (Inr _, ss2) \<Rightarrow> (Inr (Some w), ss2))))"

definition rep_init :: "('p, 'v, 's) internal \<Rightarrow> txn_time \<Rightarrow> 'v \<Rightarrow> 'p \<Rightarrow> 's list \<Rightarrow> (store_error + bool) \<times> 's list" where
  "rep_init n t v p ss =
     (case sequence (i_initValue n t v p) ss of
        (Inl e, ss1) \<Rightarrow> (Inl e, ss1)
      | (Inr rs, ss1) \<Rightarrow>
          (if rs \<noteq> [] \<and> list_all id rs then (Inr True, ss1)
           else (case rep_reset n p t ss1 of (Inl e, ss2) \<Rightarrow> (Inl e, ss2) | (Inr _, ss2) \<Rightarrow> (Inr False, ss2))))"

definition not_open :: "txn_state list \<Rightarrow> txn_state" where
  "not_open rs = (case find (\<lambda>r. r \<noteq> OPEN) rs of Some r \<Rightarrow> r | None \<Rightarrow> OPEN)"

definition replicator :: "nat list \<Rightarrow> ('p, 'v, 's) internal \<Rightarrow> ('p, 'v, 's list) internal" where
  "replicator arrival n = \<lparr>i_resetValue = rep_reset n, i_lockValue = rep_lock n,
     i_commitValue = (\<lambda>p t ss. unit_of (sequence (i_commitValue n p t) ss)),
     i_getNow = (\<lambda>p. find_defined arrival (i_getNow n p)), i_getAt = (\<lambda>p t. find_defined arrival (i_getAt n p t)),
     i_initValue = rep_init n,
     i_addLock = (\<lambda>p t ss. let (r, ss') = sequence (i_addLock n p t) ss in (map_sum id not_open r, ss')),
     i_resetTxn = (\<lambda>t ss. let (r, ss') = sequence (i_resetTxn n t) ss in (map_sum id (\<lambda>ls. remdups (concat ls)) r, ss')),
     i_commitTxn = (\<lambda>t ss. let (r, ss') = sequence (i_commitTxn n t) ss in (map_sum id (\<lambda>ls. remdups (concat ls)) r, ss')),
     i_txnState = (\<lambda>t ss. let (r, ss') = sequence (i_txnState n t) ss in (map_sum id not_open r, ss')),
     i_queueValue = (\<lambda>p t v ss. unit_of (sequence (i_queueValue n p t v) ss)),
     i_delete = (\<lambda>p t ss. unit_of (sequence (i_delete n p t) ss))\<rparr>"

section \<open>Requests\<close>

datatype ('p, 'v) request =
    QReset 'p txn_time | QLock 'p txn_time | QCommit 'p txn_time | QGetNow 'p | QGet 'p txn_time | QInit txn_time 'v 'p
  | QAddLock 'p txn_time | QResetTxn txn_time | QCommitTxn txn_time | QTxnState txn_time | QQueue 'p txn_time 'v | QDelete 'p txn_time

datatype ('p, 'v) reply = AUnit | ATime "txn_time option" | AValue "'v option" | ABool bool | AState txn_state | APtrs "'p set"

definition reply :: "('a \<Rightarrow> ('p, 'v) reply) \<Rightarrow> (store_error + 'a) \<times> 's \<Rightarrow> (store_error + ('p, 'v) reply) \<times> 's" where
  "reply g x = (map_sum id g (fst x), snd x)"

fun serve :: "('p, 'v, 's) internal \<Rightarrow> ('p, 'v) request \<Rightarrow> 's \<Rightarrow> (store_error + ('p, 'v) reply) \<times> 's" where
  "serve n (QReset p t) s = reply (\<lambda>_. AUnit) (i_resetValue n p t s)"
| "serve n (QLock p t) s = reply ATime (i_lockValue n p t s)"
| "serve n (QCommit p t) s = reply (\<lambda>_. AUnit) (i_commitValue n p t s)"
| "serve n (QGetNow p) s = reply AValue (i_getNow n p s)"
| "serve n (QGet p t) s = reply AValue (i_getAt n p t s)"
| "serve n (QInit t v p) s = reply ABool (i_initValue n t v p s)"
| "serve n (QAddLock p t) s = reply AState (i_addLock n p t s)"
| "serve n (QResetTxn t) s = reply (\<lambda>ls. APtrs (set ls)) (i_resetTxn n t s)"
| "serve n (QCommitTxn t) s = reply (\<lambda>ls. APtrs (set ls)) (i_commitTxn n t s)"
| "serve n (QTxnState t) s = reply AState (i_txnState n t s)"
| "serve n (QQueue p t v) s = reply (\<lambda>_. AUnit) (i_queueValue n p t v s)"
| "serve n (QDelete p t) s = reply (\<lambda>_. AUnit) (i_delete n p t s)"

fun serve_all :: "('p, 'v, 's) internal \<Rightarrow> ('p, 'v) request list \<Rightarrow> 's \<Rightarrow> (store_error + ('p, 'v) reply) list \<times> 's" where
  "serve_all n [] s = ([], s)"
| "serve_all n (q # qs) s = (let (r, s1) = serve n q s; (rs, s2) = serve_all n qs s1 in (r # rs, s2))"

section \<open>A routed cluster is one node\<close>

text \<open>
  The state of the cluster as the state of one node: each pointer and transaction from its shard.  The
  queue of pointers to freeze and the tasks belong to the shards themselves.
\<close>

definition shard :: "int \<Rightarrow> 's list \<Rightarrow> nat" where
  "shard h ss = nat (h mod int (length ss))"

definition merge :: "('p \<Rightarrow> int) \<Rightarrow> (txn_time \<Rightarrow> int) \<Rightarrow> ('p, 'v) store list \<Rightarrow> ('p, 'v) store" where
  "merge hp ht ss = \<lparr>ptrs = (\<lambda>p. ptrs (ss ! shard (hp p) ss) p), txns = (\<lambda>t. txns (ss ! shard (ht t) ss) t),
     cold = (\<lambda>p. cold (ss ! shard (hp p) ss) p), freezeQueue = [], tasks = [], wall = wall (hd ss)\<rparr>"

definition forget :: "('p, 'v) store \<Rightarrow> ('p, 'v) store" where
  "forget s = s\<lparr>freezeQueue := [], tasks := []\<rparr>"

lemma wrap_mod: "0 < n \<Longrightarrow> m < int n \<Longrightarrow> wrap m n = m mod int n"
proof (induction m n rule: wrap.induct)
  case (1 m n)
  then show ?case by (cases "m < 0") (simp_all add: wrap.simps [of m n])
qed

lemma shard_index_eq: "ss \<noteq> [] \<Longrightarrow> shard_index h (length ss) = Some (shard h ss)"
proof -
  assume ss: "ss \<noteq> []"
  let ?n = "int (length ss)"
  have "trem h ?n mod ?n = h mod ?n"
    by (cases "h < 0"; cases "h = 0") (simp_all add: trem_def mod_minus_eq)
  moreover have "trem h ?n < ?n"
  proof (cases "h > 0")
    case False
    then have "trem h ?n \<le> 0" using ss by (simp add: trem_def mult_le_0_iff sgn_if)
    then show ?thesis using ss by (simp add: le_less_trans)
  qed (use ss in \<open>simp add: trem_def\<close>)
  ultimately show ?thesis using ss by (simp add: shard_index_def shard_def wrap_mod)
qed

lemma shard_bound: "ss \<noteq> [] \<Longrightarrow> shard h ss < length ss"
  by (simp add: shard_def nat_less_iff)

text \<open>An operation of one pointer, and one of one transaction, sees and changes only these.\<close>

definition local_ptr :: "'p \<Rightarrow> (('p, 'v) store \<Rightarrow> 'r \<times> ('p, 'v) store) \<Rightarrow> bool" where
  "local_ptr p g \<longleftrightarrow> (\<exists>F. \<forall>s. fst (g s) = fst (F (ptrs s p) (cold s p) (wall s))
     \<and> (\<exists>fq. snd (g s) = s\<lparr>ptrs := (ptrs s)(p := snd (F (ptrs s p) (cold s p) (wall s))), freezeQueue := fq\<rparr>))"

definition local_txn :: "txn_time \<Rightarrow> (('p, 'v) store \<Rightarrow> 'r \<times> ('p, 'v) store) \<Rightarrow> bool" where
  "local_txn t g \<longleftrightarrow> (\<exists>F. \<forall>s. g s = (fst (F (txns s t)), s\<lparr>txns := (txns s)(t := snd (F (txns s t)))\<rparr>))"

lemma local_ptr_cong:
  assumes "local_ptr p g" "ptrs s = ptrs s'" "cold s = cold s'" "wall s = wall s'" "txns s = txns s'"
  shows "fst (g s) = fst (g s') \<and> forget (snd (g s)) = forget (snd (g s'))"
proof -
  obtain F where F: "\<And>s. fst (g s) = fst (F (ptrs s p) (cold s p) (wall s))"
    "\<And>s. \<exists>fq. snd (g s) = s\<lparr>ptrs := (ptrs s)(p := snd (F (ptrs s p) (cold s p) (wall s))), freezeQueue := fq\<rparr>"
    using assms(1) unfolding local_ptr_def by blast
  obtain f1 f2 where "snd (g s) = s\<lparr>ptrs := (ptrs s)(p := snd (F (ptrs s p) (cold s p) (wall s))), freezeQueue := f1\<rparr>"
    "snd (g s') = s'\<lparr>ptrs := (ptrs s')(p := snd (F (ptrs s' p) (cold s' p) (wall s'))), freezeQueue := f2\<rparr>"
    using F(2) by metis
  then show ?thesis using assms(2-5) F(1) by (simp add: forget_def)
qed

lemma local_txn_cong:
  assumes "local_txn t g" "ptrs s = ptrs s'" "cold s = cold s'" "wall s = wall s'" "txns s = txns s'"
  shows "fst (g s) = fst (g s') \<and> forget (snd (g s)) = forget (snd (g s'))"
  using assms by (auto simp: local_txn_def forget_def)

definition one_wall :: "('p, 'v) store list \<Rightarrow> bool" where
  "one_wall ss = (ss \<noteq> [] \<and> (\<exists>w. list_all (\<lambda>s. wall s = w) ss))"

text \<open>What is to hold of an operation and the shard it is sent to.\<close>

definition routes :: "('p \<Rightarrow> int) \<Rightarrow> (txn_time \<Rightarrow> int) \<Rightarrow> int \<Rightarrow> (('p, 'v) store \<Rightarrow> (store_error + 'r) \<times> ('p, 'v) store) \<Rightarrow> bool" where
  "routes hp ht h g \<longleftrightarrow> (\<forall>ss. one_wall ss \<longrightarrow> one_wall (snd (at_shard h g ss)) \<and> fst (at_shard h g ss) = fst (g (merge hp ht ss))
     \<and> merge hp ht (snd (at_shard h g ss)) = forget (snd (g (merge hp ht ss))))"

lemma wall_nth: "one_wall ss \<Longrightarrow> i < length ss \<Longrightarrow> wall (ss ! i) = wall (hd ss)"
  by (cases ss; cases i) (auto simp: one_wall_def list_all_iff)

lemma shard_update [simp]: "shard h (ss[i := s]) = shard h ss"
  by (simp add: shard_def)

lemma merge_update:
  "i < length ss \<Longrightarrow> wall (hd (ss[i := s])) = wall (hd ss) \<Longrightarrow>
     merge hp ht (ss[i := s]) =
       \<lparr>ptrs = (\<lambda>p. if shard (hp p) ss = i then ptrs s p else ptrs (ss ! shard (hp p) ss) p),
        txns = (\<lambda>t. if shard (ht t) ss = i then txns s t else txns (ss ! shard (ht t) ss) t),
        cold = (\<lambda>p. if shard (hp p) ss = i then cold s p else cold (ss ! shard (hp p) ss) p),
        freezeQueue = [], tasks = [], wall = wall (hd ss)\<rparr>"
  by (auto simp: merge_def nth_list_update fun_eq_iff)

lemma one_wall_update:
  assumes "one_wall ss" "i < length ss" "wall s = wall (ss ! i)"
  shows "one_wall (ss[i := s])" "wall (hd (ss[i := s])) = wall (hd ss)"
proof -
  obtain w where w: "\<forall>x \<in> set ss. wall x = w" "ss \<noteq> []" using assms(1) by (auto simp: one_wall_def list_all_iff)
  then have s: "wall s = w" using assms(2,3) by simp
  have all: "\<forall>x \<in> set (ss[i := s]). wall x = w" using w(1) s set_update_subset_insert [of ss i s] by blast
  then show "one_wall (ss[i := s])" using w(2) by (auto simp: one_wall_def list_all_iff)
  have ne: "ss[i := s] \<noteq> []" using w(2) by simp
  have "wall (hd ss) = w" "wall (hd (ss[i := s])) = w" using w(1) all hd_in_set [OF w(2)] hd_in_set [OF ne] by blast+
  then show "wall (hd (ss[i := s])) = wall (hd ss)" by simp
qed

lemma at_shard_eq: "ss \<noteq> [] \<Longrightarrow> at_shard h g ss = (fst (g (ss ! shard h ss)), ss[shard h ss := snd (g (ss ! shard h ss))])"
  by (simp add: at_shard_def shard_index_eq Let_def split_beta)

lemma routes_ptr:
  fixes p :: 'p and g :: "('p, 'v) store \<Rightarrow> (store_error + 'r) \<times> ('p, 'v) store"
  assumes "local_ptr p g"
  shows "routes hp ht (hp p) g"
  unfolding routes_def
proof (intro allI impI)
  fix ss :: "('p, 'v) store list"
  assume w: "one_wall ss"
  then have ne: "ss \<noteq> []" by (simp add: one_wall_def)
  obtain i where sh: "shard (hp p) ss = i" by blast
  have i: "i < length ss" using ne shard_bound sh by blast
  obtain F where F: "\<And>s. fst (g s) = fst (F (ptrs s p) (cold s p) (wall s))"
    "\<And>s. \<exists>fq. snd (g s) = s\<lparr>ptrs := (ptrs s)(p := snd (F (ptrs s p) (cold s p) (wall s))), freezeQueue := fq\<rparr>"
    using assms unfolding local_ptr_def by blast
  define X where "X = F (ptrs (ss ! i) p) (cold (ss ! i) p) (wall (ss ! i))"
  obtain f1 where f1: "snd (g (ss ! i)) = (ss ! i)\<lparr>ptrs := (ptrs (ss ! i))(p := snd X), freezeQueue := f1\<rparr>"
    using F(2) X_def by blast
  have X: "X = F (ptrs (merge hp ht ss) p) (cold (merge hp ht ss) p) (wall (merge hp ht ss))"
    using wall_nth [OF w i] by (simp add: X_def merge_def sh)
  obtain f2 where f2: "snd (g (merge hp ht ss)) = (merge hp ht ss)\<lparr>ptrs := (ptrs (merge hp ht ss))(p := snd X), freezeQueue := f2\<rparr>"
    using F(2) X by blast
  let ?ss = "ss[i := snd (g (ss ! i))]"
  have ws: "one_wall ?ss" "wall (hd ?ss) = wall (hd ss)" using one_wall_update [OF w i] f1 by simp_all
  have "merge hp ht ?ss = forget (snd (g (merge hp ht ss)))"
    unfolding merge_update [OF i ws(2)] f2 by (auto simp: f1 merge_def forget_def sh fun_eq_iff)
  then show "one_wall (snd (at_shard (hp p) g ss)) \<and> fst (at_shard (hp p) g ss) = fst (g (merge hp ht ss))
      \<and> merge hp ht (snd (at_shard (hp p) g ss)) = forget (snd (g (merge hp ht ss)))"
    using ws(1) F(1) X_def X by (simp add: at_shard_eq [OF ne] sh)
qed

lemma routes_txn:
  fixes g :: "('p, 'v) store \<Rightarrow> (store_error + 'r) \<times> ('p, 'v) store"
  assumes "local_txn t g"
  shows "routes hp ht (ht t) g"
  unfolding routes_def
proof (intro allI impI)
  fix ss :: "('p, 'v) store list"
  assume w: "one_wall ss"
  then have ne: "ss \<noteq> []" by (simp add: one_wall_def)
  obtain i where sh: "shard (ht t) ss = i" by blast
  have i: "i < length ss" using ne shard_bound sh by blast
  obtain F where F: "\<And>s. g s = (fst (F (txns s t)), s\<lparr>txns := (txns s)(t := snd (F (txns s t)))\<rparr>)"
    using assms unfolding local_txn_def by blast
  let ?ss = "ss[i := snd (g (ss ! i))]"
  have ws: "one_wall ?ss" "wall (hd ?ss) = wall (hd ss)" using one_wall_update [OF w i] F by simp_all
  have "txns (merge hp ht ss) t = txns (ss ! i) t" by (simp add: merge_def sh)
  moreover have "merge hp ht ?ss = forget (snd (g (merge hp ht ss)))"
    unfolding merge_update [OF i ws(2)] by (auto simp: F merge_def forget_def sh fun_eq_iff)
  ultimately show "one_wall (snd (at_shard (ht t) g ss)) \<and> fst (at_shard (ht t) g ss) = fst (g (merge hp ht ss))
      \<and> merge hp ht (snd (at_shard (ht t) g ss)) = forget (snd (g (merge hp ht ss)))"
    using ws(1) F by (simp add: at_shard_eq [OF ne] sh)
qed

text \<open>The operations of a node are local: the actor a message runs in depends on its pointer only.\<close>

definition loaded :: "txn_time option \<Rightarrow> 'v mem_actor option \<Rightarrow> (txn_time \<times> 'v option) list \<Rightarrow> exact_time \<Rightarrow> 'v mem_actor" where
  "loaded t a c w = (case a of Some x \<Rightarrow> x
     | None \<Rightarrow> (new_mem_actor t)\<lparr>history := sort_key (\<lambda>r. tkey (hr_time r))
         (map (\<lambda>(u, v). \<lparr>hr_time = u, hr_value = v, coldStorageTs = Some (duration w div 1000000)\<rparr>) c)\<rparr>)"

lemma actor_at_parts: "actor_at p t s = loaded t (ptrs s p) (cold s p) (wall s)"
  by (simp add: actor_at_def getPtrActor_def loaded_def restored_actor_def cold_read_def wall_ms_def Let_def split: option.split)

lemma local_with_ptr: "local_ptr p (with_ptr p t f)"
  unfolding local_ptr_def
proof (intro exI allI conjI)
  fix s
  let ?F = "\<lambda>a c w. (fst (f (loaded t a c w)), Some (snd (f (loaded t a c w))))"
  show "fst (with_ptr p t f s) = fst (?F (ptrs s p) (cold s p) (wall s))" by (simp add: with_ptr_eq actor_at_parts)
  show "snd (with_ptr p t f s) =
      s\<lparr>ptrs := (ptrs s)(p := snd (?F (ptrs s p) (cold s p) (wall s))), freezeQueue := freezeQueue s\<rparr>"
    by (simp add: with_ptr_eq actor_at_parts)
qed

text \<open>An answer may be read off the result, and the pointer put in the queue to freeze.\<close>

lemma local_ptr_post:
  assumes "local_ptr p g" "\<And>s. fst (g' s) = h (fst (g s))" "\<And>s. snd (g' s) = snd (g s) \<or> snd (g' s) = queueStorage q (snd (g s))"
  shows "local_ptr p g'"
proof -
  obtain F where F: "\<And>s. fst (g s) = fst (F (ptrs s p) (cold s p) (wall s))"
    "\<And>s. \<exists>fq. snd (g s) = s\<lparr>ptrs := (ptrs s)(p := snd (F (ptrs s p) (cold s p) (wall s))), freezeQueue := fq\<rparr>"
    using assms(1) unfolding local_ptr_def by blast
  let ?F = "\<lambda>a c w. (h (fst (F a c w)), snd (F a c w))"
  have "\<exists>fq. snd (g' s) = s\<lparr>ptrs := (ptrs s)(p := snd (?F (ptrs s p) (cold s p) (wall s))), freezeQueue := fq\<rparr>" for s
    using F(2) [of s] assms(3) [of s] by (auto simp: queueStorage_def)
  moreover have "fst (g' s) = fst (?F (ptrs s p) (cold s p) (wall s))" for s using F(1) assms(2) by simp
  ultimately show ?thesis unfolding local_ptr_def by (intro exI [of _ ?F]) blast
qed

lemma local_ops:
  "local_ptr p (resetValue p t)" "local_ptr p (lockValue p t)" "local_ptr p (getValueAt p t)"
  "local_ptr p (queueValue p t v)" "local_ptr p (deleteValue p t)"
  unfolding resetValue_def lockValue_def getValueAt_def queueValue_def deleteValue_def by (rule local_with_ptr)+

lemma local_commit: "local_ptr p (commitValue p t)"
  by (rule local_ptr_post [OF local_with_ptr, where h = id]) (auto simp: commitValue_def Let_def split_beta)

lemma local_init: "local_ptr p (initValue t v p)"
  by (rule local_ptr_post [OF local_with_ptr, where h = id]) (auto simp: initValue_def Let_def split_beta)

lemma local_now: "local_ptr p (getValueNow p)"
  by (rule local_ptr_post [OF local_with_ptr,
        where h = "\<lambda>r. case r of Inl e \<Rightarrow> Inl e | Inr None \<Rightarrow> Inr None | Inr (Some (t, v)) \<Rightarrow> Inr v"])
     (auto simp: getValueNow_def Let_def split_beta)

lemma local_with_txn: "local_txn t (with_txn t f)"
  unfolding local_txn_def with_txn_eq getTxnActor_def
  by (rule exI [of _ "\<lambda>a. (fst (f (case a of Some x \<Rightarrow> x | None \<Rightarrow> new_txn_actor)),
        Some (snd (f (case a of Some x \<Rightarrow> x | None \<Rightarrow> new_txn_actor))))"]) simp

lemma local_answers: "local_txn t g \<Longrightarrow> local_txn t (answers g)"
proof -
  assume "local_txn t g"
  then obtain F where F: "\<And>s. g s = (fst (F (txns s t)), s\<lparr>txns := (txns s)(t := snd (F (txns s t)))\<rparr>)"
    unfolding local_txn_def by blast
  show ?thesis unfolding local_txn_def
    by (rule exI [of _ "\<lambda>a. (Inr (fst (F a)), snd (F a))"]) (simp add: answers_def F)
qed

lemma local_txn_ops:
  "local_txn t (resetTxn t)" "local_txn t (commitTxn t)" "local_txn t (answers (txnState t))" "local_txn t (answers (addTxnLock p t))"
  unfolding resetTxn_def commitTxn_def txnState_def addTxnLock_def by (intro local_with_txn local_answers)+

lemmas local_routes = local_ops [THEN routes_ptr] local_commit [THEN routes_ptr] local_init [THEN routes_ptr]
  local_now [THEN routes_ptr] local_txn_ops [THEN routes_txn]

lemma routesD:
  "routes hp ht h g \<Longrightarrow> one_wall ss \<Longrightarrow> one_wall (snd (at_shard h g ss)) \<and> fst (at_shard h g ss) = fst (g (merge hp ht ss))
     \<and> merge hp ht (snd (at_shard h g ss)) = forget (snd (g (merge hp ht ss)))"
  by (simp add: routes_def)

lemma reply_fst_snd [simp]: "fst (reply g x) = map_sum id g (fst x)" "snd (reply g x) = snd x"
  by (simp_all add: reply_def)

lemma serve_routed:
  assumes "one_wall ss"
  shows "one_wall (snd (serve (router hp ht node_internal) q ss))
    \<and> fst (serve (router hp ht node_internal) q ss) = fst (serve node_internal q (merge hp ht ss))
    \<and> merge hp ht (snd (serve (router hp ht node_internal) q ss)) = forget (snd (serve node_internal q (merge hp ht ss)))"
  by (cases q) (simp_all add: router_def node_internal_def local_routes [of hp ht, THEN routesD, OF assms])

lemma serve_forget:
  assumes "forget s = forget s'"
  shows "fst (serve node_internal q s) = fst (serve node_internal q s')
    \<and> forget (snd (serve node_internal q s)) = forget (snd (serve node_internal q s'))"
proof -
  have f: "ptrs s = ptrs s'" "cold s = cold s'" "wall s = wall s'" "txns s = txns s'"
    using assms by (cases s; cases s'; simp add: forget_def)+
  note p = local_ptr_cong [OF _ f] and t = local_txn_cong [OF _ f]
  show ?thesis
    by (cases q) (simp_all add: node_internal_def p [OF local_ops(1)] p [OF local_ops(2)] p [OF local_ops(3)] p [OF local_ops(4)]
        p [OF local_ops(5)] p [OF local_commit] p [OF local_init] p [OF local_now] t [OF local_txn_ops(1)] t [OF local_txn_ops(2)]
        t [OF local_txn_ops(3)] t [OF local_txn_ops(4)])
qed

lemma forget_twice [simp]: "forget (forget s) = forget s"
  by (simp add: forget_def)

lemma serve_all_Cons:
  "serve_all n (q # qs) s = (fst (serve n q s) # fst (serve_all n qs (snd (serve n q s))), snd (serve_all n qs (snd (serve n q s))))"
  by (simp add: Let_def split_beta)

lemma serve_all_forget:
  "forget s = forget s' \<Longrightarrow> fst (serve_all node_internal qs s) = fst (serve_all node_internal qs s')
    \<and> forget (snd (serve_all node_internal qs s)) = forget (snd (serve_all node_internal qs s'))"
proof (induction qs arbitrary: s s')
  case (Cons q qs)
  then show ?case using serve_forget [OF Cons.prems, of q] Cons.IH [OF conjunct2 [OF serve_forget [OF Cons.prems, of q]]]
    unfolding serve_all_Cons fst_conv snd_conv by argo
qed simp

text \<open>C10. A routed cluster answers as one node: for any shards whose clocks agree, any hash codes, negative
  ones too, and any sequence of requests, the answers are those of a single node that holds all
  pointers and transactions, and the shards together hold what that node holds then.\<close>

theorem routed_cluster_is_one_node:
  assumes "one_wall ss"
  shows "fst (serve_all (router hp ht node_internal) qs ss) = fst (serve_all node_internal qs (merge hp ht ss))
    \<and> merge hp ht (snd (serve_all (router hp ht node_internal) qs ss)) = forget (snd (serve_all node_internal qs (merge hp ht ss)))"
  using assms
proof (induction qs arbitrary: ss)
  case Nil
  then show ?case by (simp add: merge_def forget_def)
next
  case (Cons q qs)
  let ?ss = "snd (serve (router hp ht node_internal) q ss)"
  note r = serve_routed [OF Cons.prems, of hp ht q]
  have "fst (serve_all node_internal qs (merge hp ht ?ss)) = fst (serve_all node_internal qs (snd (serve node_internal q (merge hp ht ss))))
    \<and> forget (snd (serve_all node_internal qs (merge hp ht ?ss))) = forget (snd (serve_all node_internal qs (snd (serve node_internal q (merge hp ht ss)))))"
    using r by (intro serve_all_forget) simp
  moreover note Cons.IH [of ?ss]
  ultimately show ?case unfolding serve_all_Cons fst_conv snd_conv using r by argo
qed

section \<open>Replicas\<close>

lemma ask_all_same: "ask_all f (replicate n s) = (replicate n (fst (f s)), replicate n (snd (f s)))"
  by (induction n) (simp_all add: Let_def split_beta)

lemma gather_same: "gather (replicate (Suc n) r) = map_sum id (replicate (Suc n)) r"
  by (induction n) (cases r; simp)+

lemma sequence_same:
  "sequence f (replicate (Suc n) s) = (map_sum id (replicate (Suc n)) (fst (f s)), replicate (Suc n) (snd (f s)))"
  by (simp only: sequence_def ask_all_same Let_def prod.case gather_same)

lemma find_same: "find P (replicate (Suc n) x) = (if P x then Some x else None)"
  by (induction n) auto

lemma first_some_same: "first_some (replicate (Suc n) x) = x"
  by (induction n) (auto split: option.split)

lemma not_open_same: "not_open (replicate (Suc n) r) = r"
  by (simp add: not_open_def find_same del: replicate.simps)

lemma find_defined_same:
  assumes "arrival \<noteq> []" "set arrival \<subseteq> {..n}"
  shows "find_defined arrival f (replicate (Suc n) s) =
    (Inr (case fst (f s) of Inr x \<Rightarrow> x | Inl e \<Rightarrow> None), replicate (Suc n) (snd (f s)))"
proof -
  have "replicate (Suc n) (fst (f s)) ! i = fst (f s)" if "i \<in> set arrival" for i
    using that assms(2) by (intro nth_replicate) auto
  then have m: "map (\<lambda>i. replicate (Suc n) (fst (f s)) ! i) arrival = replicate (length arrival) (fst (f s))"
    by (simp add: map_replicate_const [symmetric] cong: map_cong)
  obtain k where k: "length arrival = Suc k" using assms(1) by (cases arrival) auto
  show ?thesis
    by (simp only: find_defined_def ask_all_same Let_def prod.case m k find_same) (auto split: sum.split option.split)
qed

text \<open>The answers on which a replicator follows its replicas.\<close>

definition followed :: "('p, 'v) request \<Rightarrow> store_error + ('p, 'v) reply \<Rightarrow> bool" where
  "followed q a = (case a of
     Inl e \<Rightarrow> (case q of QGet p t \<Rightarrow> False | QGetNow p \<Rightarrow> False | _ \<Rightarrow> True)
   | Inr (ATime x) \<Rightarrow> x = None
   | Inr (ABool b) \<Rightarrow> b
   | Inr _ \<Rightarrow> True)"

lemma set_union_same: "set (remdups (concat (replicate (Suc n) ls))) = set ls"
  by (simp del: replicate.simps add: set_replicate_conv_if)

lemma unit_of_same: "unit_of (map_sum id (replicate n) r, ss) = (map_sum id (\<lambda>_. ()) r, ss)"
  by (cases r) (simp_all add: unit_of_def)

lemma unit_twice: "map_sum id g (map_sum id (\<lambda>_. ()) r) = map_sum id (\<lambda>_. g ()) r"
  by (cases r) simp_all

lemma serve_replicas:
  assumes "arrival \<noteq> []" "set arrival \<subseteq> {..n}" "followed q (fst (serve nd q s))"
  shows "serve (replicator arrival nd) q (replicate (Suc n) s) = (fst (serve nd q s), replicate (Suc n) (snd (serve nd q s)))"
proof -
  note same = sequence_same find_defined_same [OF assms(1,2)] unit_of_same first_some_same
  show ?thesis
  proof (cases q)
    case (QLock p t)
    then show ?thesis using assms(3)
      by (cases "fst (i_lockValue nd p t s)")
         (auto simp: replicator_def rep_lock_def same reply_def followed_def simp del: replicate.simps)
  next
    case (QInit t v p)
    then show ?thesis using assms(3)
      by (cases "fst (i_initValue nd t v p s)")
         (auto simp: replicator_def rep_init_def same reply_def followed_def list_all_iff simp del: replicate.simps)
  next
    case (QGetNow p)
    then show ?thesis using assms(3)
      by (cases "fst (i_getNow nd p s)") (auto simp: replicator_def same reply_def followed_def simp del: replicate.simps)
  next
    case (QGet p t)
    then show ?thesis using assms(3)
      by (cases "fst (i_getAt nd p t s)") (auto simp: replicator_def same reply_def followed_def simp del: replicate.simps)
  next
    case (QAddLock p t)
    then show ?thesis
      by (cases "fst (i_addLock nd p t s)") (auto simp: replicator_def same reply_def not_open_same simp del: replicate.simps)
  next
    case (QTxnState t)
    then show ?thesis
      by (cases "fst (i_txnState nd t s)") (auto simp: replicator_def same reply_def not_open_same simp del: replicate.simps)
  next
    case (QResetTxn t)
    then show ?thesis
      by (cases "fst (i_resetTxn nd t s)") (simp_all add: replicator_def same reply_def set_union_same del: replicate.simps set_remdups)
  next
    case (QCommitTxn t)
    then show ?thesis
      by (cases "fst (i_commitTxn nd t s)") (simp_all add: replicator_def same reply_def set_union_same del: replicate.simps set_remdups)
  qed (auto simp: replicator_def rep_reset_def same reply_def unit_twice simp del: replicate.simps)
qed

text \<open>C12. Replicas that agree answer as one of them would and still agree afterwards, for any sequence of
  requests that one node serves without refusing a lock, finding a value in the way of a new
  pointer, or failing a read; the order in which the replicas answer does not matter.\<close>

theorem replicas_answer_as_one:
  assumes "arrival \<noteq> []" "set arrival \<subseteq> {..n}"
    and "list_all2 followed qs (fst (serve_all nd qs s))"
  shows "serve_all (replicator arrival nd) qs (replicate (Suc n) s) =
    (fst (serve_all nd qs s), replicate (Suc n) (snd (serve_all nd qs s)))"
  using assms(3)
proof (induction qs arbitrary: s)
  case (Cons q qs)
  then have "followed q (fst (serve nd q s))" "list_all2 followed qs (fst (serve_all nd qs (snd (serve nd q s))))"
    unfolding serve_all_Cons by simp_all
  then show ?case
    unfolding serve_all_Cons serve_replicas [OF assms(1,2) \<open>followed q (fst (serve nd q s))\<close>] fst_conv snd_conv
    using Cons.IH by simp
qed simp

lemma refused_reset_fails:
  assumes "lockValue p t s = (Inr (Some w), s')"
  shows "fst (resetValue p t s') = Inl RequirementFailed"
proof -
  let ?a = "actor_at p (Some t) s"
  have l: "take_writeLock t ?a = (Inr (Some w), snd (take_writeLock t ?a))" and s': "s' = s\<lparr>ptrs := (ptrs s)(p \<mapsto> snd (take_writeLock t ?a))\<rparr>"
    using assms by (auto simp: lockValue_def with_ptr_eq prod_eq_iff)
  then have "snd (take_writeLock t ?a) = ?a" "\<not> closed ?a" "writeLock ?a \<noteq> Some t"
    by (auto simp: take_writeLock_def withActor_def split: if_splits option.splits)
  then show ?thesis by (simp add: resetValue_def with_ptr_eq s' writeReset_def withActor_def)
qed

text \<open>C14. Replicas hide conflicts.  A read that conflicts on every replica answers that there is no value;
  and a lock that is refused is no answer with the conflicting time either: the reset sent to the
  replicas that refused fails there, and so does the lock.\<close>

theorem replicas_hide_conflicts:
  assumes "arrival \<noteq> []" "set arrival \<subseteq> {..n}" "getValueAt p t s = (Inl e, s1)" "lockValue p u s = (Inr (Some w), s2)"
  shows "i_getAt (replicator arrival node_internal) p t (replicate (Suc n) s) = (Inr None, replicate (Suc n) s1)
    \<and> fst (i_lockValue (replicator arrival node_internal) p u (replicate (Suc n) s)) = Inl RequirementFailed"
  using assms(3,4) refused_reset_fails [OF assms(4)]
  by (simp add: replicator_def node_internal_def find_defined_same [OF assms(1,2)] rep_lock_def rep_reset_def sequence_same
      first_some_same unit_of_def del: replicate.simps)

section \<open>Witnesses\<close>

definition two_shards :: "(nat, nat) store list" where
  "two_shards = [demo_locked, new_store (ExactTime 100 0)]"

theorem routed_cluster_is_one_node_witness:
  "fst (serve_all (router (\<lambda>p. - int p) (\<lambda>t. 7) node_internal) [QGet 1 (at_sec 95), QLock 2 (at_sec 95), QTxnState (at_sec 90)] two_shards)
     = fst (serve_all node_internal [QGet 1 (at_sec 95), QLock 2 (at_sec 95), QTxnState (at_sec 90)] (merge (\<lambda>p. - int p) (\<lambda>t. 7) two_shards))"
proof -
  have "one_wall two_shards" by (simp add: one_wall_def two_shards_def demo_locked_eq new_store_def)
  from routed_cluster_is_one_node [OF this] show ?thesis by blast
qed

theorem replicas_answer_as_one_witness:
  "fst (serve_all (replicator [1, 0] node_internal) [QInit (at_sec 80) 5 1, QGet (1 :: nat) (at_sec 95)]
      (replicate 2 (new_store (ExactTime 100 0)))) = [Inr (ABool True), Inr (AValue (Some (5 :: nat)))]"
proof -
  let ?qs = "[QInit (at_sec 80) 5 1, QGet 1 (at_sec 95)] :: (nat, nat) request list"
  have a: "fst (serve_all node_internal ?qs (new_store (ExactTime 100 0))) = [Inr (ABool True), Inr (AValue (Some 5))]"
    by code_simp
  then have f: "list_all2 followed ?qs (fst (serve_all node_internal ?qs (new_store (ExactTime 100 0))))"
    by (simp add: followed_def del: serve_all.simps)
  have "fst (serve_all (replicator [1, 0] node_internal) ?qs (replicate (Suc 1) (new_store (ExactTime 100 0)))) = [Inr (ABool True), Inr (AValue (Some 5))]"
    using replicas_answer_as_one [OF _ _ f, of "[1, 0]" 1] a by simp
  then show ?thesis by (simp add: numeral_2_eq_2 del: serve_all.simps)
qed

theorem replicas_hide_conflicts_witness:
  "fst (i_getAt (replicator [0, 1] node_internal) 1 (at_sec 95) (replicate (Suc 1) demo_locked)) = Inr None
    \<and> fst (i_lockValue (replicator [0, 1] node_internal) 1 (at_sec 95) (replicate (Suc 1) demo_locked)) = Inl RequirementFailed"
proof -
  have "fst (getValueAt 1 (at_sec 95) demo_locked) = Inl (TransactionConflict (Some (at_sec 90)))"
    "fst (lockValue 1 (at_sec 95) demo_locked) = Inr (Some (at_sec 90))"
    by code_simp+
  then obtain s1 s2 where "getValueAt 1 (at_sec 95) demo_locked = (Inl (TransactionConflict (Some (at_sec 90))), s1)"
    "lockValue 1 (at_sec 95) demo_locked = (Inr (Some (at_sec 90)), s2)"
    by (metis prod.collapse)
  from replicas_hide_conflicts [OF _ _ this, of "[0, 1]" 1] show ?thesis by simp
qed

end
