(* ===== verification/IndexUrl.thy ===== *)
theory IndexUrl
  imports Prelude
begin

text \<open>
  The navigation of the documentation index (\<open>lib/index.js\<close>, lines 57-131): the fragment of the
  page's URL names the entity shown in the frame \<open>template\<close>, and each side is updated from the
  other.  The browser's part is written out: assigning the frame a relative reference keeps the
  directory of the page and splits off the hash, and a hash that is only "#" reads as empty.  The
  \<open>location.protocol\<close> that the script puts before the reference changes nothing: a reference with the
  scheme of the page and no slashes after it is resolved as the reference alone.
\<close>

record url_page =
  page_path :: string
  hash :: string
  lastFragment :: string
  frame_path :: string
  frame_hash :: string

definition dir_of :: "string \<Rightarrow> string" where
  "dir_of p = take (nat (js_last_index_of_char p (CHR ''/'') + 1)) p"

definition read_hash :: "string \<Rightarrow> string" where
  "read_hash h = (if h = ''#'' then '''' else h)"

text \<open>The frame follows a relative reference.\<close>

definition navigate :: "string \<Rightarrow> url_page \<Rightarrow> url_page" where
  "navigate r s = s\<lparr>frame_path := dir_of (page_path s) @ takeWhile (\<lambda>c. c \<noteq> CHR ''#'') r,
     frame_hash := read_hash (dropWhile (\<lambda>c. c \<noteq> CHR ''#'') r)\<rparr>"

definition extractLoc :: "string \<Rightarrow> string" where
  "extractLoc fragment =
     (let loc = js_replace_char (CHR ''.'') ''/'' (hd (js_split (CHR ''@'') fragment))
      in if js_index_of loc ''.html'' < 0 then loc @ ''.html'' else loc)"

definition extractMemberSig :: "string \<Rightarrow> string option" where
  "extractMemberSig fragment =
     (let splitIdx = js_index_of fragment ''@''
      in if splitIdx < 0 then None else Some (js_slice_from fragment (splitIdx + 1)))"

definition setFrameSrcFromUrlFragment :: "url_page \<Rightarrow> url_page" where
  "setFrameSrcFromUrlFragment s =
     (let fragment = js_slice_from (hash s) 1
      in if fragment \<noteq> ''''
         then navigate (extractLoc fragment @
                (case extractMemberSig fragment of
                   Some sig \<Rightarrow> if sig \<noteq> '''' then ''#'' @ sig else ''''
                 | None \<Rightarrow> '''')) s
         else navigate ''package.html'' s)"

text \<open>\<open>replace(/\.html$/, "")\<close>.\<close>

definition strip_html :: "string \<Rightarrow> string" where
  "strip_html s = (if suffix ''.html'' s then take (length s - 5) s else s)"

definition frame_fragment :: "url_page \<Rightarrow> string option" where
  "frame_fragment s =
     (let commonLength = js_last_index_of_char (page_path s) (CHR ''/'');
          relativePath = js_slice_from (frame_path s) (commonLength + 1)
      in if relativePath = '''' \<or> js_index_of (frame_path s) ''/'' < 0 then None
         else Some (''#'' @ js_replace_char (CHR ''/'') ''.'' (strip_html relativePath)
                @ (if frame_hash s \<noteq> '''' then ''@'' @ js_slice_from (frame_hash s) 1 else '''')))"

definition setUrlFragmentFromFrameSrc :: "url_page \<Rightarrow> url_page" where
  "setUrlFragmentFromFrameSrc s =
     (case frame_fragment s of None \<Rightarrow> s
      | Some fragment \<Rightarrow> s\<lparr>lastFragment := fragment, hash := read_hash fragment\<rparr>)"

definition on_hashchange :: "url_page \<Rightarrow> url_page" where
  "on_hashchange s =
     (if lastFragment s \<noteq> hash s then setFrameSrcFromUrlFragment (s\<lparr>lastFragment := hash s\<rparr>) else s)"

section \<open>Facts\<close>

lemma slice_one [simp]: "js_slice_from (c # s) 1 = s"
  using js_slice_from_nonneg [of "c # s" 1] by simp

lemma takeWhile_all: "c \<notin> set a \<Longrightarrow> takeWhile (\<lambda>x. x \<noteq> c) (a @ c # b) = a"
  by (induction a) auto

lemma dropWhile_all: "c \<notin> set a \<Longrightarrow> dropWhile (\<lambda>x. x \<noteq> c) (a @ c # b) = c # b"
  by (induction a) auto

lemma no_html: "CHR ''.'' \<notin> set s \<Longrightarrow> js_index_of s ''.html'' < 0"
  by (auto simp: js_index_of_neg_iff sublist_def)

lemma strip_html_append [simp]: "strip_html (s @ ''.html'') = s"
  by (simp add: strip_html_def suffix_def)

definition fragment_text :: "string \<Rightarrow> string option \<Rightarrow> string" where
  "fragment_text name sig = name @ (case sig of None \<Rightarrow> '''' | Some g \<Rightarrow> CHR ''@'' # g)"

lemma extractLoc_text:
  assumes "CHR ''@'' \<notin> set name"
  shows "extractLoc (fragment_text name sig) = js_replace_char (CHR ''.'') ''/'' name @ ''.html''"
proof -
  have "hd (js_split (CHR ''@'') (fragment_text name sig)) = name"
    using assms by (cases sig) (simp_all add: fragment_text_def js_split_single js_split_append)
  then show ?thesis using no_html [of "js_replace_char (CHR ''.'') ''/'' name"]
    by (simp add: extractLoc_def js_replace_char_set)
qed

lemma extractMemberSig_text:
  assumes "CHR ''@'' \<notin> set name"
  shows "extractMemberSig (fragment_text name sig) = sig"
proof (cases sig)
  case None
  then show ?thesis using assms by (simp add: extractMemberSig_def fragment_text_def js_index_of_char)
next
  case (Some g)
  have "js_index_of (name @ CHR ''@'' # g) ''@'' = int (length name)"
    using takeWhile_all [OF assms] by (simp add: js_index_of_char)
  moreover have "js_slice_from (name @ CHR ''@'' # g) (int (length name) + 1) = g"
    using js_slice_from_nonneg [of "name @ CHR ''@'' # g" "Suc (length name)"] by (simp add: add.commute)
  ultimately show ?thesis using Some by (simp add: extractMemberSig_def fragment_text_def)
qed

lemma navigate_loc:
  assumes "CHR ''#'' \<notin> set loc" "sig \<noteq> Some ''''"
  shows "navigate (loc @ (case sig of Some g \<Rightarrow> if g \<noteq> '''' then ''#'' @ g else '''' | None \<Rightarrow> '''')) s
    = s\<lparr>frame_path := dir_of (page_path s) @ loc,
        frame_hash := (case sig of None \<Rightarrow> '''' | Some g \<Rightarrow> CHR ''#'' # g)\<rparr>"
proof (cases sig)
  case None
  have "takeWhile (\<lambda>c. c \<noteq> CHR ''#'') loc = loc" "dropWhile (\<lambda>c. c \<noteq> CHR ''#'') loc = []"
    using assms(1) by (auto simp: takeWhile_eq_all_conv dropWhile_eq_Nil_conv)
  then show ?thesis using None by (simp add: navigate_def read_hash_def)
next
  case (Some g)
  then show ?thesis using assms takeWhile_all [OF assms(1), of g] dropWhile_all [OF assms(1), of g]
    by (simp add: navigate_def read_hash_def)
qed

lemma last_index_char_bound: "js_last_index_of_char p c + 1 = int (length p - length (takeWhile (\<lambda>x. x \<noteq> c) (rev p)))"
  using length_takeWhile_le [of "\<lambda>x. x \<noteq> c" "rev p"] by (simp add: js_last_index_of_char_def of_nat_diff)

lemma length_dir_of: "int (length (dir_of p)) = js_last_index_of_char p (CHR ''/'') + 1"
  by (simp add: dir_of_def last_index_char_bound)

lemma relative_path: "js_slice_from (dir_of p @ r) (js_last_index_of_char p (CHR ''/'') + 1) = r"
  using js_slice_from_nonneg [of "dir_of p @ r" "length (dir_of p)"] by (simp add: length_dir_of)

lemma dir_of_slash: "CHR ''/'' \<in> set p \<Longrightarrow> CHR ''/'' \<in> set (dir_of p)"
proof -
  assume "CHR ''/'' \<in> set p"
  then obtain a b where p: "p = a @ CHR ''/'' # b" "CHR ''/'' \<notin> set b" by (meson split_list_last)
  have "takeWhile (\<lambda>x. x \<noteq> CHR ''/'') (rev p) = rev b" using takeWhile_all [of "CHR ''/''" "rev b" "rev a"] p by simp
  then have "nat (js_last_index_of_char p (CHR ''/'') + 1) = Suc (length a)" by (simp add: last_index_char_bound p(1))
  then show ?thesis by (simp add: dir_of_def p(1))
qed

text \<open>The names and member signatures a fragment can carry.\<close>

definition good_name :: "string \<Rightarrow> bool" where
  "good_name n \<longleftrightarrow> n \<noteq> '''' \<and> CHR ''@'' \<notin> set n \<and> CHR ''/'' \<notin> set n \<and> CHR ''#'' \<notin> set n"

lemma setFrame_good:
  assumes "good_name n" "sig \<noteq> Some ''''" "hash s = CHR ''#'' # fragment_text n sig"
  shows "setFrameSrcFromUrlFragment s =
    s\<lparr>frame_path := dir_of (page_path s) @ js_replace_char (CHR ''.'') ''/'' n @ ''.html'',
      frame_hash := (case sig of None \<Rightarrow> '''' | Some g \<Rightarrow> CHR ''#'' # g)\<rparr>"
proof -
  have ne: "fragment_text n sig \<noteq> ''''" using assms(1) by (simp add: fragment_text_def good_name_def)
  have n: "CHR ''@'' \<notin> set n" "CHR ''#'' \<notin> set (js_replace_char (CHR ''.'') ''/'' n @ ''.html'')"
    using assms(1) by (auto simp: good_name_def js_replace_char_def split: if_splits)
  show ?thesis
    unfolding setFrameSrcFromUrlFragment_def assms(3) slice_one Let_def extractLoc_text [OF n(1)]
      extractMemberSig_text [OF n(1)]
    using navigate_loc [OF n(2) assms(2), of s] ne by simp
qed

lemma frame_fragment_good:
  assumes "good_name n" "CHR ''/'' \<in> set (page_path s)"
    and "frame_path s = dir_of (page_path s) @ js_replace_char (CHR ''.'') ''/'' n @ ''.html''"
    and "frame_hash s = (case sig of None \<Rightarrow> '''' | Some g \<Rightarrow> CHR ''#'' # g)"
  shows "frame_fragment s = Some (CHR ''#'' # fragment_text n sig)"
proof -
  have slash: "\<not> js_index_of (frame_path s) ''/'' < 0"
    using dir_of_slash [OF assms(2)] assms(3) by (simp add: js_index_of_char)
  have undo: "js_replace_char (CHR ''/'') ''.'' (js_replace_char (CHR ''.'') ''/'' n) = n"
    using assms(1) js_replace_char_inverse [of "CHR ''/''" n "CHR ''.''"] by (simp add: good_name_def)
  have "js_slice_from (frame_path s) (js_last_index_of_char (page_path s) (CHR ''/'') + 1)
      = js_replace_char (CHR ''.'') ''/'' n @ ''.html''"
    unfolding assms(3) by (rule relative_path)
  then show ?thesis using slash undo assms(4)
    by (cases sig) (simp_all add: frame_fragment_def Let_def fragment_text_def)
qed

text \<open>C28. The fragment and the frame agree after one round: a change of the fragment to one that names an
  entity, with or without a member, sends the frame there; when the frame has loaded, the
  fragment written back is the one the user gave, and the change it causes moves the frame no more.\<close>

theorem fragment_navigation_settles:
  assumes "good_name n" "sig \<noteq> Some ''''" "CHR ''/'' \<in> set (page_path s)"
    and "hash s = ''#'' @ fragment_text n sig" "lastFragment s \<noteq> hash s"
  shows "let s1 = on_hashchange s; s2 = setUrlFragmentFromFrameSrc s1 in
    frame_path s1 = dir_of (page_path s) @ js_replace_char (CHR ''.'') ''/'' n @ ''.html''
    \<and> hash s2 = hash s \<and> on_hashchange s2 = s2 \<and> frame_path s2 = frame_path s1 \<and> frame_hash s2 = frame_hash s1"
proof -
  let ?s0 = "s\<lparr>lastFragment := hash s\<rparr>"
  have h: "hash ?s0 = CHR ''#'' # fragment_text n sig" using assms(4) by simp
  have s1: "on_hashchange s = ?s0\<lparr>frame_path := dir_of (page_path s) @ js_replace_char (CHR ''.'') ''/'' n @ ''.html'',
      frame_hash := (case sig of None \<Rightarrow> '''' | Some g \<Rightarrow> CHR ''#'' # g)\<rparr>"
    using setFrame_good [OF assms(1,2) h] assms(5) by (simp add: on_hashchange_def)
  have "frame_fragment (on_hashchange s) = Some (CHR ''#'' # fragment_text n sig)"
    by (rule frame_fragment_good [OF assms(1)]) (simp_all add: s1 assms(3))
  moreover have "fragment_text n sig \<noteq> ''''" using assms(1) by (simp add: good_name_def fragment_text_def)
  ultimately have "setUrlFragmentFromFrameSrc (on_hashchange s) = on_hashchange s"
    by (simp add: setUrlFragmentFromFrameSrc_def read_hash_def s1 assms(4))
  then show ?thesis using assms(4) by (simp add: Let_def) (simp add: s1 on_hashchange_def [of "_\<lparr>frame_hash := _\<rparr>"])
qed

theorem fragment_navigation_settles_witness:
  "hash (setUrlFragmentFromFrameSrc (on_hashchange \<lparr>page_path = ''/api/index.html'', hash = ''#stm.STMPtr@read'',
     lastFragment = '''', frame_path = '''', frame_hash = ''''\<rparr>)) = ''#stm.STMPtr@read''"
  using fragment_navigation_settles [of "''stm.STMPtr''" "Some ''read''"
      "\<lparr>page_path = ''/api/index.html'', hash = ''#stm.STMPtr@read'', lastFragment = '''', frame_path = '''', frame_hash = ''''\<rparr>"]
  by (simp add: good_name_def fragment_text_def Let_def)

text \<open>Whatever page the frame has loaded, the fragment written from it does not load the frame again,
  as long as the fragment is more than its mark.\<close>

theorem frame_load_causes_no_reload:
  assumes "frame_fragment s \<noteq> Some ''#''" "lastFragment s = hash s"
  shows "on_hashchange (setUrlFragmentFromFrameSrc s) = setUrlFragmentFromFrameSrc s"
  using assms by (auto simp: on_hashchange_def setUrlFragmentFromFrameSrc_def read_hash_def split: option.splits)

theorem frame_load_causes_no_reload_witness:
  "on_hashchange (setUrlFragmentFromFrameSrc \<lparr>page_path = ''/api/index.html'', hash = '''', lastFragment = '''',
     frame_path = ''/api/package.html'', frame_hash = ''''\<rparr>)
   = setUrlFragmentFromFrameSrc \<lparr>page_path = ''/api/index.html'', hash = '''', lastFragment = '''',
     frame_path = ''/api/package.html'', frame_hash = ''''\<rparr>"
  by (rule frame_load_causes_no_reload)
     (simp_all add: frame_fragment_def Let_def js_last_index_of_char_def js_slice_from_def js_clamp_def
       strip_html_def suffix_def js_replace_char_def)

end
