(* ===== verification/IndexPattern.thy ===== *)
theory IndexPattern
  imports Prelude
begin

text \<open>
  The search patterns of the documentation index (\<open>compilePattern\<close> of \<open>lib/index.js\<close>): the
  source text of the regular expression it builds, and the part of \<open>RegExp\<close> such a text uses
  (escaped and plain characters, \<open>[a-z]*\<close>, the two anchors).  An open brace before a digit
  would be a quantifier; that is the one text the reader refuses, and it then matches nothing.
\<close>

section \<open>The compiled text\<close>

definition is_special :: "char \<Rightarrow> bool" where
  "is_special c \<longleftrightarrow> c \<in> set ''.*+?|()[]'' \<or> c = CHR 0x5C"

definition escape_query :: "string \<Rightarrow> string" where
  "escape_query q = concat (map (\<lambda>c. if is_special c then [CHR 0x5C, c] else [c]) q)"

definition camel_humps :: "string \<Rightarrow> string" where
  "camel_humps e = concat (map (\<lambda>c. if is_upper c then ''[a-z]*'' @ [c] else [c]) e)"

definition compilePattern :: "string \<Rightarrow> string \<times> bool" where
  "compilePattern query =
     (let escaped = escape_query query
      in if js_lower query \<noteq> query then (camel_humps escaped, False) else (escaped, True))"

section \<open>The regular expressions\<close>

datatype atom = Lit char | Lowers | Start | End

definition is_digit :: "char \<Rightarrow> bool" where
  "is_digit c = (let n = (of_char c :: nat) in 48 \<le> n \<and> n \<le> 57)"

fun read_regex :: "string \<Rightarrow> atom list option" where
  "read_regex [] = Some []"
| "read_regex (c # s) =
     (if c = CHR 0x5C then
        (case s of [] \<Rightarrow> None | d # t \<Rightarrow> map_option ((#) (Lit d)) (read_regex t))
      else if c = CHR ''['' then
        (if take 5 s = ''a-z]*'' then map_option ((#) Lowers) (read_regex (drop 5 s)) else None)
      else if c = CHR ''^'' then map_option ((#) Start) (read_regex s)
      else if c = CHR ''$'' then map_option ((#) End) (read_regex s)
      else if c = CHR ''{'' \<and> s \<noteq> [] \<and> is_digit (hd s) then None
      else map_option ((#) (Lit c)) (read_regex s))"

definition same_char :: "bool \<Rightarrow> char \<Rightarrow> char \<Rightarrow> bool" where
  "same_char ic a b = (if ic then to_lower a = to_lower b else a = b)"

text \<open>A match of the atoms at the front of a string, which is the whole text when \<open>st\<close>.\<close>

function matches_at :: "bool \<Rightarrow> bool \<Rightarrow> atom list \<Rightarrow> string \<Rightarrow> bool" where
  "matches_at ic st [] s = True"
| "matches_at ic st (Lit c # as) [] = False"
| "matches_at ic st (Lit c # as) (x # s) = (same_char ic c x \<and> matches_at ic False as s)"
| "matches_at ic st (Lowers # as) [] = matches_at ic st as []"
| "matches_at ic st (Lowers # as) (x # s) =
     (matches_at ic st as (x # s) \<or>
      ((if ic then is_lower (to_lower x) else is_lower x) \<and> matches_at ic False (Lowers # as) s))"
| "matches_at ic st (Start # as) s = (st \<and> matches_at ic st as s)"
| "matches_at ic st (End # as) s = (s = [] \<and> matches_at ic st as s)"
  by pat_completeness auto
termination by (relation "measure (\<lambda>(ic, st, as, s). length as + length s)") auto

fun search_regex :: "bool \<Rightarrow> bool \<Rightarrow> atom list \<Rightarrow> string \<Rightarrow> bool" where
  "search_regex ic st as [] = matches_at ic st as []"
| "search_regex ic st as (x # s) = (matches_at ic st as (x # s) \<or> search_regex ic False as s)"

definition regex_test :: "string \<times> bool \<Rightarrow> string \<Rightarrow> bool" where
  "regex_test re s = (case read_regex (fst re) of Some as \<Rightarrow> search_regex (snd re) True as s | None \<Rightarrow> False)"

section \<open>What the compiled text reads as\<close>

definition plain_query :: "string \<Rightarrow> bool" where
  "plain_query q \<longleftrightarrow> (\<forall>c \<in> set q. c \<noteq> CHR ''^'' \<and> c \<noteq> CHR ''$'' \<and> c \<noteq> CHR ''{'')"

definition camel_atoms :: "char \<Rightarrow> atom list" where
  "camel_atoms c = (if is_upper c then [Lowers, Lit c] else [Lit c])"

lemma camel_atoms_cases [simp]:
  "is_upper c \<Longrightarrow> camel_atoms c = [Lowers, Lit c]" "\<not> is_upper c \<Longrightarrow> camel_atoms c = [Lit c]"
  by (simp_all add: camel_atoms_def)

lemma special_not_upper: "is_special c \<Longrightarrow> \<not> is_upper c"
  by (auto simp: is_special_def is_upper_def)

lemma upper_plain: "is_upper c \<Longrightarrow> c \<noteq> CHR 0x5C \<and> c \<noteq> CHR ''['' \<and> c \<noteq> CHR ''^'' \<and> c \<noteq> CHR ''$'' \<and> c \<noteq> CHR ''{''"
  by (auto simp: is_upper_def)

lemma escape_Cons [simp]:
  "escape_query [] = []"
  "escape_query (c # q) = (if is_special c then [CHR 0x5C, c] else [c]) @ escape_query q"
  by (simp_all add: escape_query_def)

lemma camel_append [simp]:
  "camel_humps [] = []" "camel_humps (c # e) = (if is_upper c then ''[a-z]*'' @ [c] else [c]) @ camel_humps e"
  by (simp_all add: camel_humps_def)

lemma read_escape: "plain_query q \<Longrightarrow> read_regex (escape_query q) = Some (map Lit q)"
proof (induction q)
  case (Cons c q)
  then have IH: "read_regex (escape_query q) = Some (map Lit q)" by (simp add: plain_query_def)
  show ?case using Cons.prems IH by (auto simp: plain_query_def is_special_def)
qed simp

lemma read_camel: "plain_query q \<Longrightarrow> read_regex (camel_humps (escape_query q)) = Some (concat (map camel_atoms q))"
proof (induction q)
  case (Cons c q)
  then have IH: "read_regex (camel_humps (escape_query q)) = Some (concat (map camel_atoms q))"
    by (simp add: plain_query_def)
  consider "is_special c" "\<not> is_upper c" | "\<not> is_special c" "is_upper c" | "\<not> is_special c" "\<not> is_upper c"
    using special_not_upper by blast
  then show ?case
  proof cases
    case 1
    moreover have "\<not> is_upper (CHR 0x5C)" by (simp add: is_upper_def)
    ultimately show ?thesis using IH by simp
  next
    case 2
    then show ?thesis using IH upper_plain [of c] by simp
  next
    case 3
    then show ?thesis using IH Cons.prems by (simp add: plain_query_def is_special_def)
  qed
qed simp

section \<open>What it matches\<close>

lemma lits_match: "matches_at ic st (map Lit q) s \<longleftrightarrow> (\<exists>a b. s = a @ b \<and> list_all2 (same_char ic) q a)"
proof (induction q arbitrary: st s)
  case (Cons c q)
  show ?case using Cons.IH by (cases s) (auto simp: list_all2_Cons1 Cons_eq_append_conv)
qed simp

lemma search_spec: "search_regex ic st (map Lit q) s \<longleftrightarrow> (\<exists>a b c. s = a @ b @ c \<and> list_all2 (same_char ic) q b)"
proof (induction s arbitrary: st)
  case Nil
  then show ?case by (auto simp: lits_match)
next
  case (Cons x s)
  have "(\<exists>a b c. x # s = a @ b @ c \<and> list_all2 (same_char ic) q b) \<longleftrightarrow>
      (\<exists>b c. x # s = b @ c \<and> list_all2 (same_char ic) q b) \<or> (\<exists>a b c. s = a @ b @ c \<and> list_all2 (same_char ic) q b)"
    (is "?L \<longleftrightarrow> ?A \<or> ?B")
  proof
    assume ?L
    then obtain a b c where h: "x # s = a @ b @ c" "list_all2 (same_char ic) q b" by blast
    then show "?A \<or> ?B" by (cases a) auto
  next
    assume "?A \<or> ?B"
    then show ?L
    proof
      assume ?A then show ?L by (metis append_Nil)
    next
      assume ?B then show ?L by (metis append_Cons)
    qed
  qed
  then show ?case using Cons.IH by (simp add: lits_match)
qed

lemma same_char_lower: "list_all2 (same_char True) q b \<longleftrightarrow> js_lower q = js_lower b"
  unfolding js_lower_def list_eq_iff_nth_eq list_all2_conv_all_nth by (auto simp: same_char_def)

lemma js_lower_append: "js_lower s = a @ b \<Longrightarrow> \<exists>u v. s = u @ v \<and> js_lower u = a \<and> js_lower v = b"
  unfolding js_lower_def map_eq_append_conv by blast

lemma lower_sublist: "(\<exists>a b c. s = a @ b @ c \<and> js_lower q = js_lower b) \<longleftrightarrow> sublist (js_lower q) (js_lower s)"
proof
  assume "\<exists>a b c. s = a @ b @ c \<and> js_lower q = js_lower b"
  then show "sublist (js_lower q) (js_lower s)" by (auto simp: js_lower_def)
next
  assume "sublist (js_lower q) (js_lower s)"
  then obtain a c where "js_lower s = a @ js_lower q @ c" by (auto simp: sublist_def)
  then obtain u v where "s = u @ v" "js_lower v = js_lower q @ c" using js_lower_append by blast
  moreover then obtain w z where "v = w @ z" "js_lower w = js_lower q" using js_lower_append by blast
  ultimately show "\<exists>a b c. s = a @ b @ c \<and> js_lower q = js_lower b" by metis
qed

lemma camel_match_self: "matches_at False st (concat (map camel_atoms q)) (q @ s)"
proof (induction q arbitrary: st)
  case (Cons c q)
  show ?case using Cons.IH by (simp add: camel_atoms_def same_char_def)
qed simp

lemma search_front: "matches_at ic st as s \<Longrightarrow> search_regex ic st as s"
  by (cases s) auto

lemma search_suffix: "matches_at ic False as s \<Longrightarrow> a \<noteq> [] \<Longrightarrow> search_regex ic st as (a @ s)"
proof (induction a arbitrary: st)
  case (Cons x a)
  then show ?case by (cases a; cases s) auto
qed simp

lemma camel_match_subseq: "matches_at False st (concat (map camel_atoms q)) s \<Longrightarrow> subseq q s"
proof (induction q arbitrary: st s)
  case (Cons c q)
  have lit: "subseq (c # q) s" if "matches_at False st (Lit c # concat (map camel_atoms q)) s" for st s
    using that Cons.IH by (cases s) (auto simp: same_char_def)
  show ?case
  proof (cases "is_upper c")
    case True
    have "matches_at False st (Lowers # Lit c # concat (map camel_atoms q)) s \<Longrightarrow> subseq (c # q) s" for st
    proof (induction s arbitrary: st)
      case Nil
      then show ?case by simp
    next
      case (Cons x s)
      from Cons.prems have "matches_at False st (Lit c # concat (map camel_atoms q)) (x # s)
          \<or> matches_at False False (Lowers # Lit c # concat (map camel_atoms q)) s"
        by (simp only: matches_at.simps) blast
      then show ?case using lit [of st "x # s"] Cons.IH list_emb_Cons by metis
    qed
    then show ?thesis using Cons.prems True by simp
  next
    case False
    then show ?thesis using Cons.prems lit by simp
  qed
qed simp

lemma camel_search_subseq: "search_regex False st (concat (map camel_atoms q)) s \<Longrightarrow> subseq q s"
  by (induction s arbitrary: st) (auto dest: camel_match_subseq intro: list_emb_Cons)

lemma plain_meaning:
  assumes "plain_query q"
  shows "(js_lower q = q \<longrightarrow> regex_test (compilePattern q) s = sublist q (js_lower s))
    \<and> (js_lower q \<noteq> q \<longrightarrow> (sublist q s \<longrightarrow> regex_test (compilePattern q) s)
         \<and> (regex_test (compilePattern q) s \<longrightarrow> subseq q s))"
proof -
  have "regex_test (compilePattern q) s = sublist q (js_lower s)" if "js_lower q = q"
    using that read_escape [OF assms] lower_sublist [of s q]
    by (simp add: compilePattern_def regex_test_def search_spec same_char_lower)
  moreover have "regex_test (compilePattern q) s" if cq: "js_lower q \<noteq> q" "sublist q s"
  proof -
    obtain a b where s: "s = a @ q @ b" using cq(2) by (auto simp: sublist_def)
    have "search_regex False True (concat (map camel_atoms q)) s"
    proof (cases "a = []")
      case True
      then show ?thesis using search_front [OF camel_match_self [of True q b]] s by simp
    next
      case False
      then show ?thesis using search_suffix camel_match_self s by metis
    qed
    then show ?thesis using cq(1) read_camel [OF assms] by (simp add: compilePattern_def regex_test_def)
  qed
  moreover have "subseq q s" if "js_lower q \<noteq> q" "regex_test (compilePattern q) s"
    using that read_camel [OF assms] camel_search_subseq by (simp add: compilePattern_def regex_test_def)
  ultimately show ?thesis by blast
qed

section \<open>The anchors that are not escaped\<close>

lemma escape_append: "escape_query (a @ b) = escape_query a @ escape_query b"
  by (simp add: escape_query_def)

lemma read_escape_append:
  "plain_query q \<Longrightarrow> read_regex (escape_query q @ t) = map_option (\<lambda>as. map Lit q @ as) (read_regex t)"
proof (induction q)
  case (Cons c q)
  then have IH: "read_regex (escape_query q @ t) = map_option (\<lambda>as. map Lit q @ as) (read_regex t)"
    by (simp add: plain_query_def)
  show ?case using Cons.prems IH by (cases "read_regex t") (auto simp: plain_query_def is_special_def)
qed (cases "read_regex t", simp_all)

lemma no_match_after_start:
  "a \<noteq> [] \<or> \<not> st \<Longrightarrow> \<not> matches_at ic st (map Lit a @ Start # as) s"
proof (induction a arbitrary: st s)
  case (Cons c a)
  then show ?case by (cases s) auto
qed simp

lemma no_match_after_end: "b \<noteq> [] \<Longrightarrow> \<not> matches_at ic st (map Lit a @ End # map Lit b) s"
proof (induction a arbitrary: st s)
  case Nil
  then show ?case by (cases b) auto
next
  case (Cons c a)
  then show ?case by (cases s) auto
qed

lemma no_search_after_start: "a \<noteq> [] \<Longrightarrow> \<not> search_regex ic st (map Lit a @ Start # as) s"
  by (induction s arbitrary: st) (simp_all add: no_match_after_start)

lemma no_search_after_end: "b \<noteq> [] \<Longrightarrow> \<not> search_regex ic st (map Lit a @ End # map Lit b) s"
  by (induction s arbitrary: st) (simp_all add: no_match_after_end)

lemma read_anchors:
  assumes "plain_query a" "plain_query b"
  shows "read_regex (escape_query (a @ CHR ''^'' # b)) = Some (map Lit a @ Start # map Lit b)"
    "read_regex (escape_query (a @ CHR ''$'' # b)) = Some (map Lit a @ End # map Lit b)"
  using read_escape [OF assms(2)]
  by (simp_all add: escape_append read_escape_append [OF assms(1)] is_special_def)

text \<open>C30. What the compiled pattern finds, and where that is not what the comments say.  For a query
  without \<open>^\<close>, \<open>$\<close> and \<open>{\<close> it is: a query in lower case finds the names that contain it, whatever
  their case; a query with capitals finds every name that contains it as it is and only names
  that contain its characters in order.  The two anchors are not escaped: a lower-case query
  with a \<open>^\<close> after its first character or with a \<open>$\<close> before its last one (and none of the three elsewhere) finds
  no name at all, not even the name it was copied from.  (An open brace may start a quantifier;
  such queries are not covered.)\<close>

theorem compilePattern_meaning:
  "(plain_query q \<longrightarrow>
      (js_lower q = q \<longrightarrow> regex_test (compilePattern q) s = sublist q (js_lower s))
      \<and> (js_lower q \<noteq> q \<longrightarrow> (sublist q s \<longrightarrow> regex_test (compilePattern q) s)
           \<and> (regex_test (compilePattern q) s \<longrightarrow> subseq q s)))
   \<and> (js_lower q = q \<longrightarrow> (\<forall>a b. plain_query a \<and> plain_query b \<longrightarrow>
        (q = a @ CHR ''^'' # b \<and> a \<noteq> [] \<longrightarrow> \<not> regex_test (compilePattern q) s)
        \<and> (q = a @ CHR ''$'' # b \<and> b \<noteq> [] \<longrightarrow> \<not> regex_test (compilePattern q) s)))"
proof -
  have "\<not> regex_test (compilePattern q) s"
    if "js_lower q = q" "plain_query a" "plain_query b" "q = a @ CHR ''^'' # b" "a \<noteq> []" for a b
    using that(1,5) read_anchors(1) [OF that(2,3)] that(4) no_search_after_start
    by (simp add: compilePattern_def regex_test_def)
  moreover have "\<not> regex_test (compilePattern q) s"
    if "js_lower q = q" "plain_query a" "plain_query b" "q = a @ CHR ''$'' # b" "b \<noteq> []" for a b
    using that(1,5) read_anchors(2) [OF that(2,3)] that(4) no_search_after_end
    by (simp add: compilePattern_def regex_test_def)
  ultimately show ?thesis using plain_meaning by blast
qed

theorem compilePattern_meaning_witness:
  "regex_test (compilePattern ''ptr'') ''STMPtr'' \<and> \<not> regex_test (compilePattern ''Zz'') ''BitSet''
   \<and> regex_test (compilePattern ''BiSe'') ''ABitSet'' \<and> \<not> regex_test (compilePattern ''x$y'') ''x$y''"
proof -
  have "regex_test (compilePattern ''ptr'') ''STMPtr''"
  proof -
    have "sublist ''ptr'' (js_lower ''STMPtr'')" "js_lower ''ptr'' = ''ptr''" "plain_query ''ptr''" by code_simp+
    then show ?thesis using compilePattern_meaning [of "''ptr''" "''STMPtr''"] by simp
  qed
  moreover have "\<not> regex_test (compilePattern ''Zz'') ''BitSet''"
  proof -
    have "\<not> subseq ''Zz'' ''BitSet''" "js_lower ''Zz'' \<noteq> ''Zz''" "plain_query ''Zz''" by code_simp+
    then show ?thesis using compilePattern_meaning [of "''Zz''" "''BitSet''"] by simp
  qed
  moreover have "regex_test (compilePattern ''BiSe'') ''ABitSet''" by code_simp
  moreover have "\<not> regex_test (compilePattern ''x$y'') ''x$y''"
  proof -
    have "js_lower ''x$y'' = ''x$y''" "plain_query ''x''" "plain_query ''y''" by code_simp+
    then show ?thesis using compilePattern_meaning [of "''x$y''" "''x$y''"]
      by (metis append_Cons append_Nil list.discI)
  qed
  ultimately show ?thesis by blast
qed

end
