(* ===== verification/IndexPage.thy ===== *)
theory IndexPage
  imports Scheduler IndexPattern "HOL-Library.List_Lexorder" "HOL-Library.Char_ord"
begin

text \<open>
  The entity list of the documentation index (\<open>lib/index.js\<close>, lines 133-573): the HTML of a
  package, hiding and showing a package, the kind and focus filters, and the text filter, which
  rebuilds the list one package per scheduled search step.  A rendered package is its HTML with
  the state the scripts change: whether its templates show and the text of its hide link.  A
  search step is a package of work of the scheduler that carries its pattern and position.
\<close>

section \<open>Rendering\<close>

record template =
  tname :: string
  t_object :: "string option"
  t_class :: "string option"
  t_trait :: "string option"
  t_case_class :: "string option"
  t_type :: "string option"

definition truthy :: "string option \<Rightarrow> bool" where
  "truthy x = (x \<noteq> None \<and> x \<noteq> Some '''')"

definition js_or :: "string option \<Rightarrow> string option \<Rightarrow> string option" where
  "js_or a b = (if truthy a then a else b)"

definition text_of :: "string option \<Rightarrow> string" where
  "text_of x = (case x of None \<Rightarrow> '''' | Some s \<Rightarrow> s)"

definition openLink :: "template \<Rightarrow> string \<Rightarrow> string" where
  "openLink t type =
     (let href = (if type = ''object'' then t_object t
                  else js_or (t_class t) (js_or (t_trait t) (js_or (t_case_class t) (t_type t))))
      in concat [''<a class=\"tplshow\" target=\"template\" href=\"'', text_of href,
           ''\"><img width=\"13\" height=\"13\" class=\"'', type, '' icon\" src=\"lib/'', type, ''.png\" />''])"

definition createPackageHeader :: "string \<Rightarrow> string" where
  "createPackageHeader pack =
     concat [''<li class=\"pack\">'', ''<a class=\"packfocus\">focus</a><a class=\"packhide\">hide</a>'',
       ''<a class=\"tplshow\" target=\"template\" href=\"'', js_replace_char (CHR ''.'') ''/'' pack,
       ''/package.html\">'', pack, ''</a></li>'']"

text \<open>\<open>name.replace(/^.*\./, '')\<close>.\<close>

definition after_last_dot :: "string \<Rightarrow> string" where
  "after_last_dot s = (if CHR ''.'' \<in> set s then rev (takeWhile (\<lambda>c. c \<noteq> CHR ''.'') (rev s)) else s)"

definition createListItem :: "template \<Rightarrow> string" where
  "createListItem t =
     (let inner0 = (if truthy (t_object t) then openLink t ''object'' else '''');
          inner =
            (if truthy (t_class t) \<or> truthy (t_trait t) \<or> truthy (t_case_class t) \<or> truthy (t_type t)
             then inner0 @ (if inner0 = '''' then ''<div class=\"placeholder\" />'' else ''</a>'')
                  @ openLink t (if truthy (t_trait t) then ''trait'' else if truthy (t_type t) then ''type'' else ''class'')
             else inner0 @ ''<div class=\"placeholder\"/>'')
      in concat [''<li>'', inner, ''<span class=\"tplLink\">'', after_last_dot (tname t), ''</span></a></li>''])"

record pack_tree =
  header_name :: string
  entries :: "template list"
  html :: string
  hide_text :: string
  templates_shown :: bool
  tree_shown :: bool

text \<open>Focused on the package itself, the tree has no header, so the text of its header link is empty.\<close>

definition createPackageTree :: "string \<Rightarrow> template list \<Rightarrow> string option \<Rightarrow> pack_tree" where
  "createPackageTree pack matched focused =
     (let items = concat (map createListItem matched);
          header = (if truthy focused \<and> focused = Some pack then '''' else createPackageHeader pack)
      in \<lparr>header_name = (if header = '''' then '''' else pack), entries = matched,
          html = concat [''<ol class=\"packages\">'', header, ''<ol class=\"templates\">'', items, ''</ol></ol>''],
          hide_text = ''hide'', templates_shown = True, tree_shown = True\<rparr>)"

section \<open>The page\<close>

datatype work = SearchLoop "string \<times> bool" nat

record index_page =
  PACKAGES :: "(string \<times> template list) list"
  kindFilterState :: "string option"
  focusFilterState :: "string option"
  lastQuery :: "string option"
  input_text :: string
  tpl :: "pack_tree list"
  hiddenPackages :: "string list"
  kind_link :: string
  focus_bar :: "string option"
  kind_bar_shown :: bool

definition keys :: "(string \<times> 'a) list \<Rightarrow> string list" where
  "keys obj = map fst obj"

text \<open>
  \<open>subPackages\<close> declares a local \<open>pack\<close> in its callback, which hides the parameter: it asks
  whether a package's name starts with itself and a dot.
\<close>

definition subPackages :: "string \<Rightarrow> pack_tree list \<Rightarrow> nat list" where
  "subPackages pack ts = filter
     (\<lambda>i. let pack = header_name (ts ! i) in js_index_of pack (pack @ ''.'') = 0) [0..<length ts]"

definition update_trees :: "nat list \<Rightarrow> (pack_tree \<Rightarrow> pack_tree) \<Rightarrow> pack_tree list \<Rightarrow> pack_tree list" where
  "update_trees is f ts = fold (\<lambda>i ts. ts[i := f (ts ! i)]) is ts"

definition hidePackage :: "nat \<Rightarrow> index_page \<Rightarrow> index_page" where
  "hidePackage i g =
     (let selected = header_name (tpl g ! i);
          ts = (tpl g)[i := (tpl g ! i)\<lparr>templates_shown := False\<rparr>]
      in g\<lparr>hiddenPackages := List.insert selected (hiddenPackages g),
           tpl := update_trees (subPackages selected ts) (\<lambda>t. t\<lparr>tree_shown := False\<rparr>) ts\<rparr>)"

definition showPackage :: "nat \<Rightarrow> string option \<Rightarrow> index_page \<Rightarrow> index_page" where
  "showPackage i st g =
     (let selected = header_name (tpl g ! i);
          hidden = removeAll selected (hiddenPackages g);
          ts = (tpl g)[i := (tpl g ! i)\<lparr>templates_shown := True\<rparr>]
      in g\<lparr>hiddenPackages := hidden,
           tpl := update_trees (subPackages selected ts)
             (\<lambda>t. let t' = t\<lparr>tree_shown := True\<rparr> in
                  if header_name t' \<in> set hidden \<or> st = Some ''packs'' then t'\<lparr>templates_shown := False\<rparr> else t') ts\<rparr>)"

definition packhide_click :: "nat \<Rightarrow> index_page \<Rightarrow> index_page" where
  "packhide_click i g =
     (if hide_text (tpl g ! i) = ''hide''
      then (let g' = hidePackage i g in g'\<lparr>tpl := (tpl g')[i := (tpl g' ! i)\<lparr>hide_text := ''show''\<rparr>]\<rparr>)
      else (let g' = showPackage i (kindFilterState g) g
            in g'\<lparr>tpl := (tpl g')[i := (tpl g' ! i)\<lparr>hide_text := ''hide''\<rparr>]\<rparr>))"

definition kindFilterSync :: "index_page \<Rightarrow> index_page" where
  "kindFilterSync g =
     (if kindFilterState g = Some ''all'' \<or> focusFilterState g \<noteq> None
      then g\<lparr>tpl := map (\<lambda>t. t\<lparr>hide_text := ''hide'', templates_shown := True\<rparr>) (tpl g)\<rparr>
      else g\<lparr>tpl := map (\<lambda>t. t\<lparr>hide_text := ''show'', templates_shown := False\<rparr>) (tpl g)\<rparr>)"

definition kindFilter :: "string \<Rightarrow> index_page \<Rightarrow> index_page" where
  "kindFilter kind g =
     (if kind = ''packs''
      then (kindFilterSync (g\<lparr>kindFilterState := Some ''packs''\<rparr>))\<lparr>kind_link := ''all''\<rparr>
      else (kindFilterSync (g\<lparr>kindFilterState := Some ''all''\<rparr>))\<lparr>kind_link := ''packs''\<rparr>)"

section \<open>The text filter\<close>

definition in_focus :: "string option \<Rightarrow> string \<Rightarrow> bool" where
  "in_focus focus pack =
     (case focus of None \<Rightarrow> True
      | Some f \<Rightarrow> f = '''' \<or> pack = f \<or> js_index_of pack (f @ ''.'') = 0)"

definition matching :: "string \<times> bool \<Rightarrow> template list \<Rightarrow> template list" where
  "matching re children = filter (\<lambda>c. regex_test re (tname c)) children"

text \<open>The loop of one search step: up to the next package in focus with a match.\<close>

fun next_match ::
  "(string \<times> template list) list \<Rightarrow> string option \<Rightarrow> string \<times> bool \<Rightarrow> string list \<Rightarrow> nat \<Rightarrow>
    nat \<times> (string \<times> template list) option" where
  "next_match pks focus re [] i = (i, None)"
| "next_match pks focus re (p # ps) i =
     (if p = '''' then (i, None)
      else if \<not> in_focus focus p then next_match pks focus re ps (Suc i)
      else (let m = matching re (the (map_of pks p))
            in if m \<noteq> [] then (Suc i, Some (p, m)) else next_match pks focus re ps (Suc i)))"

text \<open>One step appends the package it found and queues the rest; the result tells whether it threw.\<close>

definition searchLoop :: "string \<times> bool \<Rightarrow> nat \<Rightarrow> index_page \<times> work scheduler \<Rightarrow>
    bool \<times> index_page \<times> work scheduler" where
  "searchLoop re index gs =
     (case gs of (g, s) \<Rightarrow>
        (case next_match (PACKAGES g) (focusFilterState g) re (drop index (sort (keys (PACKAGES g)))) index of
           (index', Some (pack, matched)) \<Rightarrow>
             (let g' = g\<lparr>tpl := tpl g @ [createPackageTree pack matched (focusFilterState g)]\<rparr>
              in (case add s ''filter'' (SearchLoop re index') of
                    Inl e \<Rightarrow> (True, g', s)
                  | Inr s' \<Rightarrow> (False, g', s')))
         | (index', None) \<Rightarrow> (False, g, s)))"

definition exec_work :: "work \<Rightarrow> index_page \<times> work scheduler \<Rightarrow> bool \<times> index_page \<times> work scheduler" where
  "exec_work w gs = (case w of SearchLoop re i \<Rightarrow> searchLoop re i gs)"

definition textFilter :: "index_page \<times> work scheduler \<Rightarrow> sched_error + index_page \<times> work scheduler" where
  "textFilter gs =
     (case gs of (g, s) \<Rightarrow>
        (let query = input_text g;
             re = compilePattern query;
             g1 = (if query \<noteq> '''' then kindFilter ''all'' g else g)
         in if lastQuery g1 = None \<or> lastQuery g1 \<noteq> Some query \<or> focusFilterState g1 \<noteq> None
            then (case clear s ''filter'' of
                    Inl e \<Rightarrow> Inl e
                  | Inr s1 \<Rightarrow>
                      (case add s1 ''filter'' (SearchLoop re 0) of
                         Inl e \<Rightarrow> Inl e
                       | Inr s2 \<Rightarrow> Inr (g1\<lparr>lastQuery := Some query, tpl := []\<rparr>, s2)))
            else Inr (g1, s)))"

definition focusFilter :: "nat \<Rightarrow> index_page \<times> work scheduler \<Rightarrow> sched_error + index_page \<times> work scheduler" where
  "focusFilter i gs =
     (case gs of (g, s) \<Rightarrow>
        (case clear s ''filter'' of
           Inl e \<Rightarrow> Inl e
         | Inr s1 \<Rightarrow>
             (let currentFocus = header_name (tpl g ! i)
              in textFilter (kindFilterSync (g\<lparr>focus_bar := Some currentFocus, kind_bar_shown := False,
                   focusFilterState := Some currentFocus\<rparr>), s1))))"

definition focusremove_click :: "index_page \<times> work scheduler \<Rightarrow> sched_error + index_page \<times> work scheduler" where
  "focusremove_click gs =
     (case textFilter gs of
        Inl e \<Rightarrow> Inl e
      | Inr (g, s) \<Rightarrow> Inr (g\<lparr>focus_bar := None, kind_bar_shown := True, focusFilterState := None\<rparr>, s))"

text \<open>The key handlers of the text field; the result tells whether the event goes on.\<close>

definition input_keyup :: "nat \<Rightarrow> index_page \<times> work scheduler \<Rightarrow> sched_error + index_page \<times> work scheduler" where
  "input_keyup key gs =
     (let gs1 = (if key = 27 then ((fst gs)\<lparr>input_text := ''''\<rparr>, snd gs) else gs)
      in if key = 40 then Inr gs1 else textFilter gs1)"

definition input_keydown :: "nat \<Rightarrow> index_page \<times> work scheduler \<Rightarrow> sched_error + index_page \<times> work scheduler" where
  "input_keydown key gs =
     (if key = 9 then Inr ((fst gs)\<lparr>input_text := ''''\<rparr>, snd gs) else textFilter gs)"

definition post_click :: "index_page \<times> work scheduler \<Rightarrow> sched_error + index_page \<times> work scheduler" where
  "post_click gs = textFilter ((fst gs)\<lparr>input_text := ''''\<rparr>, snd gs)"

section \<open>Hiding packages\<close>

lemma dot_not_prefix: "js_index_of p (p @ ''.'') \<noteq> 0"
proof
  assume "js_index_of p (p @ ''.'') = 0"
  then have "prefix (p @ ''.'') p" by (simp only: js_index_of_0_iff)
  then have "length (p @ ''.'') \<le> length p" by (rule prefix_length_le)
  then show False by simp
qed

lemma subPackages_empty: "subPackages pack ts = []"
  by (simp add: subPackages_def dot_not_prefix Let_def)

lemma update_trees_Nil [simp]: "update_trees [] f ts = ts"
  by (simp add: update_trees_def)

text \<open>Hiding a package hides the templates of that package and nothing else: no sub-package is ever
  found, whatever the names of the packages are.\<close>

theorem hidePackage_spares_subpackages:
  "subPackages pack ts = [] \<and> tpl (hidePackage i g) = (tpl g)[i := (tpl g ! i)\<lparr>templates_shown := False\<rparr>]"
  by (simp add: subPackages_empty hidePackage_def Let_def)

lemma list_update_undo: "xs ! i = y \<Longrightarrow> (xs[i := z])[i := y] = xs"
  by (metis list_update_id list_update_overwrite)

text \<open>The hide link is a toggle: on a package that shows its templates two clicks restore the list, and
  one click hides exactly the templates of the package and turns its link into "show".\<close>

theorem packhide_toggles:
  assumes "i < length (tpl g)" "hide_text (tpl g ! i) = ''hide''" "templates_shown (tpl g ! i)"
  shows "tpl (packhide_click i (packhide_click i g)) = tpl g
    \<and> tpl (packhide_click i g) = (tpl g)[i := (tpl g ! i)\<lparr>templates_shown := False, hide_text := ''show''\<rparr>]"
proof -
  let ?t = "tpl g ! i"
  have one: "tpl (packhide_click i g) = (tpl g)[i := ?t\<lparr>templates_shown := False, hide_text := ''show''\<rparr>]"
    using assms by (simp add: packhide_click_def hidePackage_def subPackages_empty Let_def)
  have "tpl (packhide_click i (packhide_click i g)) = (tpl g)[i := ?t\<lparr>templates_shown := True, hide_text := ''hide''\<rparr>]"
    unfolding packhide_click_def [of i "packhide_click i g"] using one assms(1)
    by (simp add: showPackage_def subPackages_empty Let_def)
  also have "?t\<lparr>templates_shown := True, hide_text := ''hide''\<rparr> = ?t" using assms(2,3) by simp
  finally show ?thesis using one by simp
qed

section \<open>The search\<close>

definition expected_trees ::
  "(string \<times> template list) list \<Rightarrow> string option \<Rightarrow> string \<times> bool \<Rightarrow> string list \<Rightarrow> pack_tree list" where
  "expected_trees pks focus re ps =
     map (\<lambda>p. createPackageTree p (matching re (the (map_of pks p))) focus)
       (filter (\<lambda>p. in_focus focus p \<and> matching re (the (map_of pks p)) \<noteq> []) ps)"

lemma expected_trees_simps [simp]:
  "expected_trees pks focus re [] = []"
  "expected_trees pks focus re (p # ps) =
     (if in_focus focus p \<and> matching re (the (map_of pks p)) \<noteq> []
      then [createPackageTree p (matching re (the (map_of pks p))) focus] else []) @ expected_trees pks focus re ps"
  by (simp_all add: expected_trees_def)

lemma next_match_none:
  "'''' \<notin> set ps \<Longrightarrow> next_match pks focus re ps i = (i', None) \<Longrightarrow> expected_trees pks focus re ps = []"
  by (induction ps arbitrary: i) (auto simp: Let_def split: if_splits)

lemma next_match_some:
  "'''' \<notin> set ps \<Longrightarrow> next_match pks focus re ps i = (i', Some (p, m)) \<Longrightarrow>
    i < i' \<and> i' \<le> i + length ps \<and>
    expected_trees pks focus re ps = createPackageTree p m focus # expected_trees pks focus re (drop (i' - i) ps)"
proof (induction ps arbitrary: i)
  case (Cons q ps)
  show ?case
  proof (cases "in_focus focus q \<and> matching re (the (map_of pks q)) \<noteq> []")
    case True
    then show ?thesis using Cons.prems by (auto simp: Let_def)
  next
    case False
    then have nm: "next_match pks focus re ps (Suc i) = (i', Some (p, m))"
      using Cons.prems by (auto simp: Let_def split: if_splits)
    have ih: "Suc i < i'" "i' \<le> Suc i + length ps"
      "expected_trees pks focus re ps = createPackageTree p m focus # expected_trees pks focus re (drop (i' - Suc i) ps)"
      using Cons.IH [OF _ nm] Cons.prems(1) by auto
    have "i' - i = Suc (i' - Suc i)" using ih(1) by simp
    then show ?thesis using ih False by auto
  qed
qed simp

lemma next_match_shape: "\<exists>i'. next_match pks focus re ps i = (i', None) \<or> (\<exists>p m. next_match pks focus re ps i = (i', Some (p, m)))"
  by (metis prod.collapse option.exhaust)

text \<open>The scheduler while a search is running.\<close>

definition searching :: "work scheduler \<Rightarrow> work \<Rightarrow> bool" where
  "searching s w \<longleftrightarrow> sched_wf s \<and> has_label s ''filter'' \<and> timeout_set s \<and> armed s = 1 \<and> pending s = [w]"

lemma run_timer_idle: "armed (snd gs) = 0 \<Longrightarrow> run_timer k exec gs = gs"
  by (cases k) simp_all

lemma nextWork_searching:
  assumes "searching s w"
  obtains s' where "nextWork (s\<lparr>armed := armed s - 1\<rparr>) = (Some w, s')" "sched_wf s'" "has_label s' ''filter''"
    "timeout_set s'" "armed s' = 0" "pending s' = []"
proof (cases rule: nextWork_cases [of "s\<lparr>armed := armed s - 1\<rparr>"])
  case empty
  then show ?thesis using assms by (simp add: searching_def)
next
  case (pop v s')
  let ?s = "s\<lparr>armed := armed s - 1\<rparr>"
  have "v = w" "pending s' = []" using pop assms by (simp_all add: searching_def)
  then show ?thesis using that [of s'] pop nextWork_frame [of ?s] nextWork_wf [of ?s] assms
    by (simp add: searching_def has_label_def sched_wf_def)
qed

lemma pending_single: "mset (pending s) = mset [] + {#w#} \<Longrightarrow> pending s = [w]"
  by (cases "pending s") auto

lemma search_step:
  assumes "searching s (SearchLoop re i)"
    and "next_match (PACKAGES g) (focusFilterState g) re (drop i (sort (keys (PACKAGES g)))) i = (i', Some (p, m))"
  shows "\<exists>s'. on_timer exec_work (g, s) =
      (g\<lparr>tpl := tpl g @ [createPackageTree p m (focusFilterState g)]\<rparr>, s') \<and> searching s' (SearchLoop re i')"
proof -
  obtain s1 where s1: "nextWork (s\<lparr>armed := armed s - 1\<rparr>) = (Some (SearchLoop re i), s1)" "sched_wf s1"
    "has_label s1 ''filter''" "timeout_set s1" "armed s1 = 0" "pending s1 = []"
    using nextWork_searching [OF assms(1)] .
  obtain s2 where s2: "add s1 ''filter'' (SearchLoop re i') = Inr s2" "sched_wf s2" "labels s2 = labels s1"
    "timeout_set s2" "armed s2 = 0" "mset (pending s2) = mset (pending s1) + {#SearchLoop re i'#}"
    using add_known [OF s1(2,3), of "SearchLoop re i'"] s1(4,5) by auto
  have "pending s2 = [SearchLoop re i']" using s2(6) s1(6) pending_single by simp
  then have "searching (doWork s2) (SearchLoop re i')"
    using s2 s1(3) by (simp add: searching_def doWork_def has_label_def sched_wf_def pending_def)
  then show ?thesis using s1(1) s2(1) assms(2) by (simp add: on_timer_def exec_work_def searchLoop_def Let_def)
qed

lemma search_end:
  assumes "searching s (SearchLoop re i)"
    and "next_match (PACKAGES g) (focusFilterState g) re (drop i (sort (keys (PACKAGES g)))) i = (i', None)"
  shows "\<exists>s'. \<forall>k \<ge> 2. run_timer k exec_work (g, s) = (g, s') \<and> pending s' = []"
proof -
  obtain s1 where s1: "nextWork (s\<lparr>armed := armed s - 1\<rparr>) = (Some (SearchLoop re i), s1)" "sched_wf s1"
    "has_label s1 ''filter''" "timeout_set s1" "armed s1 = 0" "pending s1 = []"
    using nextWork_searching [OF assms(1)] .
  have o1: "on_timer exec_work (g, s) = (g, doWork s1)"
    using s1(1) assms(2) by (simp add: on_timer_def exec_work_def searchLoop_def)
  have "nextWork ((doWork s1)\<lparr>armed := armed (doWork s1) - 1\<rparr>) = (None, (doWork s1)\<lparr>armed := armed (doWork s1) - 1\<rparr>)"
    using s1(6) by (cases rule: nextWork_cases [of "(doWork s1)\<lparr>armed := armed (doWork s1) - 1\<rparr>"])
      (simp_all add: doWork_def pending_def del: concat_eq_Nil_conv)
  then have o2: "on_timer exec_work (g, doWork s1) = (g, (doWork s1)\<lparr>armed := 0, timeout_set := False\<rparr>)"
    using s1(5) by (simp add: on_timer_def doWork_def)
  let ?s = "(doWork s1)\<lparr>armed := 0, timeout_set := False\<rparr>"
  have "run_timer k exec_work (g, s) = (g, ?s)" if "k \<ge> 2" for k
  proof -
    obtain j where k: "k = Suc (Suc j)" using \<open>k \<ge> 2\<close> by (metis add_2_eq_Suc le_Suc_ex)
    have "armed s \<noteq> 0" "armed (doWork s1) \<noteq> 0" using assms(1) by (simp_all add: searching_def doWork_def)
    then have "run_timer k exec_work (g, s) = run_timer j exec_work (g, ?s)" by (simp add: k o1 o2)
    then show ?thesis by (simp add: run_timer_idle)
  qed
  moreover have "pending ?s = []" using s1(6) by (simp add: pending_def doWork_def)
  ultimately show ?thesis by blast
qed

lemma search_run:
  assumes "'''' \<notin> set (keys (PACKAGES g))" "searching s (SearchLoop re i)"
  shows "\<exists>s'. \<forall>k \<ge> length (keys (PACKAGES g)) - i + 2. run_timer k exec_work (g, s) =
      (g\<lparr>tpl := tpl g @ expected_trees (PACKAGES g) (focusFilterState g) re (drop i (sort (keys (PACKAGES g))))\<rparr>, s')
      \<and> pending s' = []"
  using assms
proof (induction "length (keys (PACKAGES g)) - i" arbitrary: i g s rule: less_induct)
  case less
  let ?ps = "drop i (sort (keys (PACKAGES g)))" and ?E = "expected_trees (PACKAGES g) (focusFilterState g) re"
  have ne: "'''' \<notin> set ?ps" using less.prems(1) set_drop_subset [of i "sort (keys (PACKAGES g))"] by auto
  obtain i' where "next_match (PACKAGES g) (focusFilterState g) re ?ps i = (i', None) \<or>
      (\<exists>p m. next_match (PACKAGES g) (focusFilterState g) re ?ps i = (i', Some (p, m)))"
    using next_match_shape by blast
  then show ?case
  proof
    assume nm: "next_match (PACKAGES g) (focusFilterState g) re ?ps i = (i', None)"
    show ?thesis using search_end [OF less.prems(2) nm] next_match_none [OF ne nm] by auto
  next
    assume "\<exists>p m. next_match (PACKAGES g) (focusFilterState g) re ?ps i = (i', Some (p, m))"
    then obtain p m where nm: "next_match (PACKAGES g) (focusFilterState g) re ?ps i = (i', Some (p, m))" by blast
    let ?g = "g\<lparr>tpl := tpl g @ [createPackageTree p m (focusFilterState g)]\<rparr>"
    have i': "i < i'" "i' \<le> i + length ?ps" "?E ?ps = createPackageTree p m (focusFilterState g) # ?E (drop (i' - i) ?ps)"
      using next_match_some [OF ne nm] by auto
    have rest: "drop (i' - i) ?ps = drop i' (sort (keys (PACKAGES g)))" using i'(1) by (simp add: add.commute)
    have lt: "length (keys (PACKAGES ?g)) - i' < length (keys (PACKAGES g)) - i" using i'(1,2) by simp
    obtain s1 where s1: "on_timer exec_work (g, s) = (?g, s1)" "searching s1 (SearchLoop re i')"
      using search_step [OF less.prems(2) nm] by blast
    have ne': "'''' \<notin> set (keys (PACKAGES ?g))" using less.prems(1) by simp
    obtain s2 where s2: "\<And>k. k \<ge> length (keys (PACKAGES ?g)) - i' + 2 \<Longrightarrow> run_timer k exec_work (?g, s1) =
      (?g\<lparr>tpl := tpl ?g @ expected_trees (PACKAGES ?g) (focusFilterState ?g) re (drop i' (sort (keys (PACKAGES ?g))))\<rparr>, s2)
      \<and> pending s2 = []"
      using less.hyps [OF lt ne' s1(2)] by blast
    have "run_timer k exec_work (g, s) = (g\<lparr>tpl := tpl g @ ?E ?ps\<rparr>, s2) \<and> pending s2 = []"
      if big: "k \<ge> length (keys (PACKAGES g)) - i + 2" for k
    proof -
      obtain j where j: "k = Suc j" "j \<ge> length (keys (PACKAGES ?g)) - i' + 2"
        using big lt by (cases k) auto
      have "armed s \<noteq> 0" using less.prems(2) by (simp add: searching_def)
      then have "run_timer k exec_work (g, s) = run_timer j exec_work (?g, s1)" by (simp add: j(1) s1(1))
      then show ?thesis using s2 [OF j(2)] i'(3) rest by simp
    qed
    then show ?thesis by blast
  qed
qed

text \<open>Distinct labels whose queues are all empty hold no work at all.\<close>

lemma name_index_distinct: "distinct (map lname ls) \<Longrightarrow> i < length ls \<Longrightarrow> name_index ls (lname (ls ! i)) = i"
proof (induction ls arbitrary: i)
  case (Cons l ls)
  show ?case
  proof (cases i)
    case (Suc j)
    then have "lname (ls ! j) \<in> set (map lname ls)" using Cons.prems by simp
    then have "lname l \<noteq> lname (ls ! j)" using Cons.prems(1) by auto
    then show ?thesis using Cons Suc by simp
  qed simp
qed simp

lemma pending_empty:
  assumes "sched_wf s" "distinct (map lname (labels s))" "\<forall>n. queue_of s n = []"
  shows "pending s = []"
proof -
  have "q = []" if mem: "q \<in> set (queues s)" for q
  proof -
    obtain i where i: "i < length (queues s)" "q = queues s ! i" using mem by (auto simp: in_set_conv_nth)
    have "queue_of s (lname (labels s ! i)) = q"
      using i assms(1) name_index_distinct [OF assms(2), of i] by (simp add: queue_of_def sched_wf_def)
    then show ?thesis using assms(3) by simp
  qed
  then show ?thesis by (simp add: pending_def)
qed

text \<open>The scheduler as the page uses it: live, with distinct labels, and work of the filter only.\<close>

definition filter_only :: "work scheduler \<Rightarrow> bool" where
  "filter_only s \<longleftrightarrow> live_inv s \<and> has_label s ''filter'' \<and> distinct (map lname (labels s))
     \<and> (\<forall>n. n \<noteq> ''filter'' \<longrightarrow> queue_of s n = [])"

lemma restart_search:
  assumes "filter_only s"
  shows "\<exists>s1 s2. clear s ''filter'' = Inr s1 \<and> add s1 ''filter'' w = Inr s2 \<and> searching s2 w"
proof -
  have inv: "sched_wf s" "has_label s ''filter''" "live_inv s" using assms by (auto simp: filter_only_def live_inv_def)
  obtain s1 s2 where r: "clear s ''filter'' = Inr s1" "add s1 ''filter'' w = Inr s2" "sched_wf s2"
    "queue_of s2 ''filter'' = [w]" "\<forall>m. m \<noteq> ''filter'' \<longrightarrow> queue_of s2 m = queue_of s m"
    "\<forall>m. has_label s2 m = has_label s m"
    using sq.restart [OF inv(1,2), of w] by blast
  have s1: "sched_wf s1" "labels s1 = labels s" "queue_of s1 ''filter'' = []"
    "\<forall>m. m \<noteq> ''filter'' \<longrightarrow> queue_of s1 m = queue_of s m"
    using clear_known [OF inv(1), of "''filter''"] r(1) by auto
  have "pending s1 = []"
  proof (rule pending_empty [OF s1(1)])
    show "distinct (map lname (labels s1))" using assms s1(2) by (simp add: filter_only_def)
    show "\<forall>n. queue_of s1 n = []" using assms s1(3,4) by (metis filter_only_def)
  qed
  moreover have "mset (pending s2) = mset (pending s1) + {#w#}"
    using add_known [OF s1(1), of "''filter''" w] r(2) inv(2) s1(2) by (auto simp: has_label_def)
  ultimately have "pending s2 = [w]" using pending_single by simp
  moreover have "live_inv s2" using sched_ops_live inv(3) r(1,2) by (meson ops_refl ops_clear ops_add)
  ultimately have "searching s2 w" using r(3,6) inv(2) by (auto simp: searching_def live_inv_def)
  then show ?thesis using r(1,2) by blast
qed

lemma search_settles:
  assumes "'''' \<notin> set (keys (PACKAGES g))" "searching s (SearchLoop re 0)" "tpl g = []"
  shows "\<exists>g' s'. (\<forall>k \<ge> length (PACKAGES g) + 2. run_timer k exec_work (g, s) = (g', s')) \<and> pending s' = []
    \<and> focusFilterState g' = focusFilterState g
    \<and> tpl g' = expected_trees (PACKAGES g) (focusFilterState g) re (sort (keys (PACKAGES g)))"
proof -
  let ?g = "g\<lparr>tpl := expected_trees (PACKAGES g) (focusFilterState g) re (sort (keys (PACKAGES g)))\<rparr>"
  have len: "length (keys (PACKAGES g)) - 0 + 2 = length (PACKAGES g) + 2" by (simp add: keys_def)
  obtain s' where r: "\<And>k. k \<ge> length (PACKAGES g) + 2 \<Longrightarrow> run_timer k exec_work (g, s) = (?g, s') \<and> pending s' = []"
    using search_run [OF assms(1,2)] assms(3) unfolding len by auto
  have "pending s' = []" using r [OF order_refl] by blast
  moreover have "\<forall>k \<ge> length (PACKAGES g) + 2. run_timer k exec_work (g, s) = (?g, s')" using r by blast
  moreover have "focusFilterState ?g = focusFilterState g" by simp
  ultimately show ?thesis by (intro exI [of _ ?g] exI [of _ s']) simp
qed

lemma kindFilter_frame [simp]:
  "PACKAGES (kindFilter k g) = PACKAGES g" "focusFilterState (kindFilter k g) = focusFilterState g"
  "lastQuery (kindFilter k g) = lastQuery g" "input_text (kindFilter k g) = input_text g"
  by (simp_all add: kindFilter_def kindFilterSync_def)

text \<open>C27. The text filter shows what it says: when the query has changed or a package is focused, a call
  starts one search, every search that was still running is dropped, and after as many timer
  callbacks as there are packages and two more the list holds, in order, exactly the packages in
  focus that have a match, each with its matching templates, and no work is left.\<close>

theorem text_filter_shows_matches:
  assumes "filter_only s" "'''' \<notin> set (keys (PACKAGES g))"
    and "lastQuery g \<noteq> Some (input_text g) \<or> focusFilterState g \<noteq> None"
  shows "\<exists>g1 s1 g2 s2. textFilter (g, s) = Inr (g1, s1) \<and>
    (\<forall>k \<ge> length (PACKAGES g) + 2. run_timer k exec_work (g1, s1) = (g2, s2)) \<and> pending s2 = [] \<and>
    tpl g2 = expected_trees (PACKAGES g) (focusFilterState g) (compilePattern (input_text g)) (sort (keys (PACKAGES g)))"
proof -
  let ?re = "compilePattern (input_text g)"
  obtain s1 s2 where r: "clear s ''filter'' = Inr s1" "add s1 ''filter'' (SearchLoop ?re 0) = Inr s2"
    "searching s2 (SearchLoop ?re 0)"
    using restart_search [OF assms(1)] by blast
  let ?g = "(if input_text g \<noteq> '''' then kindFilter ''all'' g else g)\<lparr>lastQuery := Some (input_text g), tpl := []\<rparr>"
  have tf: "textFilter (g, s) = Inr (?g, s2)" using r(1,2) assms(3) by (auto simp: textFilter_def Let_def)
  have f: "PACKAGES ?g = PACKAGES g" "focusFilterState ?g = focusFilterState g" "tpl ?g = []" by simp_all
  have "'''' \<notin> set (keys (PACKAGES ?g))" using assms(2) f by simp
  from search_settles [OF this r(3) f(3)] show ?thesis using tf unfolding f by blast
qed

text \<open>Leaving the focus shows every package again: the click restarts the search while the focus is still
  set and then drops the focus, and the search reads the focus when it runs.\<close>

theorem focusremove_shows_all:
  assumes "filter_only s" "'''' \<notin> set (keys (PACKAGES g))" "focusFilterState g \<noteq> None"
  shows "\<exists>g1 s1 g2 s2. focusremove_click (g, s) = Inr (g1, s1) \<and>
    (\<forall>k \<ge> length (PACKAGES g) + 2. run_timer k exec_work (g1, s1) = (g2, s2)) \<and> focusFilterState g2 = None \<and>
    tpl g2 = expected_trees (PACKAGES g) None (compilePattern (input_text g)) (sort (keys (PACKAGES g)))"
proof -
  let ?re = "compilePattern (input_text g)"
  obtain s1 s2 where r: "clear s ''filter'' = Inr s1" "add s1 ''filter'' (SearchLoop ?re 0) = Inr s2"
    "searching s2 (SearchLoop ?re 0)"
    using restart_search [OF assms(1)] by blast
  let ?g = "(if input_text g \<noteq> '''' then kindFilter ''all'' g else g)\<lparr>lastQuery := Some (input_text g), tpl := [],
    focus_bar := None, kind_bar_shown := True, focusFilterState := None\<rparr>"
  have tf: "focusremove_click (g, s) = Inr (?g, s2)"
    using r(1,2) assms(3) by (auto simp: focusremove_click_def textFilter_def Let_def)
  have f: "PACKAGES ?g = PACKAGES g" "focusFilterState ?g = None" "tpl ?g = []" by simp_all
  have "'''' \<notin> set (keys (PACKAGES ?g))" using assms(2) f by simp
  from search_settles [OF this r(3) f(3)] show ?thesis using tf unfolding f by blast
qed

section \<open>Witnesses\<close>

definition demo_page :: index_page where
  "demo_page = \<lparr>PACKAGES = [(''stm'', [\<lparr>tname = ''stm.STMPtr'', t_object = None, t_class = Some ''stm/STMPtr.html'',
       t_trait = None, t_case_class = None, t_type = None\<rparr>])],
     kindFilterState = Some ''all'', focusFilterState = Some ''stm'', lastQuery = None, input_text = ''ptr'', tpl = [],
     hiddenPackages = [], kind_link = ''packs'', focus_bar = None, kind_bar_shown = True\<rparr>"

definition filter_sched :: "work scheduler" where
  "filter_sched = \<lparr>labels = [\<lparr>lname = ''filter'', lprio = 4\<rparr>], queues = [[]], timeout_set = False, armed = 0\<rparr>"

lemma filter_sched_ok: "filter_only filter_sched"
  by (simp add: filter_only_def filter_sched_def live_inv_def sched_wf_def pending_def has_label_def queue_of_def)

theorem text_filter_shows_matches_witness:
  "\<exists>g1 s1. textFilter (demo_page, filter_sched) = Inr (g1, s1)"
  using text_filter_shows_matches [OF filter_sched_ok, of demo_page] by (auto simp: demo_page_def keys_def)

theorem focusremove_shows_all_witness:
  "\<exists>g1 s1. focusremove_click (demo_page, filter_sched) = Inr (g1, s1)"
  using focusremove_shows_all [OF filter_sched_ok, of demo_page] by (auto simp: demo_page_def keys_def)

theorem packhide_toggles_witness:
  "tpl (packhide_click 0 (packhide_click 0 (demo_page\<lparr>tpl := [createPackageTree ''stm'' [] None]\<rparr>)))
     = [createPackageTree ''stm'' [] None]"
  using packhide_toggles [of 0 "demo_page\<lparr>tpl := [createPackageTree ''stm'' [] None]\<rparr>"]
  by (simp add: createPackageTree_def Let_def)

end
