(* ===== verification/IndexKeys.thy ===== *)
theory IndexKeys
  imports Prelude
begin

text \<open>
  The keyboard navigation of the entity list (\<open>keyboardScrolldownLeftPane\<close> of \<open>lib/index.js\<close>).
  The list is an \<open>ol\<close> per package with an optional header \<open>li\<close> and an inner \<open>ol\<close> of template
  \<open>li\<close>s; a set of nodes with at most one element is a node or \<open>NoNode\<close>.  A handler that reads
  a method of the undefined \<open>$new\<close> throws after what it did before.
\<close>

datatype li = Header nat | Item nat nat

datatype node = NoNode | Li li | PackOl nat | TemplOl nat

text \<open>Per package: whether it has a header, and how many templates it lists.\<close>

type_synonym trees = "(bool \<times> nat) list"

definition has_header :: "trees \<Rightarrow> nat \<Rightarrow> bool" where
  "has_header ts i = fst (ts ! i)"

definition item_count :: "trees \<Rightarrow> nat \<Rightarrow> nat" where
  "item_count ts i = snd (ts ! i)"

fun dom_prev :: "trees \<Rightarrow> node \<Rightarrow> node" where
  "dom_prev ts (Li (Item i (Suc j))) = Li (Item i j)"
| "dom_prev ts (PackOl (Suc i)) = PackOl i"
| "dom_prev ts (TemplOl i) = (if has_header ts i then Li (Header i) else NoNode)"
| "dom_prev ts _ = NoNode"

fun dom_next :: "trees \<Rightarrow> node \<Rightarrow> node" where
  "dom_next ts (Li (Header i)) = TemplOl i"
| "dom_next ts (Li (Item i j)) = (if Suc j < item_count ts i then Li (Item i (Suc j)) else NoNode)"
| "dom_next ts (PackOl i) = (if Suc i < length ts then PackOl (Suc i) else NoNode)"
| "dom_next ts _ = NoNode"

fun dom_parent :: "node \<Rightarrow> node" where
  "dom_parent (Li (Header i)) = PackOl i"
| "dom_parent (Li (Item i j)) = TemplOl i"
| "dom_parent (TemplOl i) = PackOl i"
| "dom_parent _ = NoNode"

fun is_ol :: "node \<Rightarrow> bool" where
  "is_ol (PackOl _) = True" | "is_ol (TemplOl _) = True" | "is_ol _ = False"

fun first_child :: "trees \<Rightarrow> node \<Rightarrow> node" where
  "first_child ts (PackOl i) = (if has_header ts i then Li (Header i) else TemplOl i)"
| "first_child ts (TemplOl i) = (if 0 < item_count ts i then Li (Item i 0) else NoNode)"
| "first_child ts _ = NoNode"

fun last_child :: "trees \<Rightarrow> node \<Rightarrow> node" where
  "last_child ts (PackOl i) = TemplOl i"
| "last_child ts (TemplOl i) = (if 0 < item_count ts i then Li (Item i (item_count ts i - 1)) else NoNode)"
| "last_child ts _ = NoNode"

text \<open>
  \<open>$new.children().children(':last')\<close>: the last of all grandchildren, which for a package with
  templates is its last template; otherwise it is a link of the header, not an \<open>li\<close>.
\<close>

definition last_grandchild :: "trees \<Rightarrow> node \<Rightarrow> node" where
  "last_grandchild ts n = last_child ts (last_child ts n)"

record key_page =
  items :: trees
  selected :: "li option"
  bound :: bool
  input_focus :: bool
  template_src :: "string option"

definition old_node :: "key_page \<Rightarrow> node" where
  "old_node g = (case selected g of None \<Rightarrow> NoNode | Some l \<Rightarrow> Li l)"

definition key_up :: "trees \<Rightarrow> node \<Rightarrow> node" where
  "key_up ts old =
     (let new = dom_prev ts old;
          new = (if new = NoNode then dom_prev ts (dom_parent old) else new)
      in if is_ol new \<and> is_ol (last_child ts new) then last_grandchild ts new
         else if is_ol new then last_child ts new
         else new)"

definition key_down :: "trees \<Rightarrow> node \<Rightarrow> node" where
  "key_down ts old =
     (let new = dom_next ts old;
          new = (if new = NoNode then dom_next ts (dom_parent (dom_parent old)) else new)
      in if is_ol new then first_child ts new else new)"

text \<open>The start of the navigation: the first \<open>li\<close> is selected and the handler is bound.\<close>

definition start_keys :: "key_page \<Rightarrow> key_page" where
  "start_keys g = g\<lparr>selected := (case items g of [] \<Rightarrow> None
       | (h, n) # _ \<Rightarrow> if h then Some (Header 0) else if 0 < n then Some (Item 0 0) else None),
     bound := True, input_focus := False\<rparr>"

definition arrow_key :: "nat \<Rightarrow> key_page \<Rightarrow> key_page" where
  "arrow_key key g =
     (let new = (if key = 38 then key_up (items g) (old_node g) else key_down (items g) (old_node g))
      in case new of
           Li l \<Rightarrow> g\<lparr>selected := Some l\<rparr>
         | _ \<Rightarrow> if key = 38 then g\<lparr>bound := False, input_focus := True\<rparr> else g)"

text \<open>The handler; the first component tells whether it threw.  \<open>href\<close> is the last link of an entry.\<close>

definition keydown :: "(li \<Rightarrow> string) \<Rightarrow> nat \<Rightarrow> key_page \<Rightarrow> bool \<times> key_page" where
  "keydown href key g =
     (if key = 9 then (True, g\<lparr>selected := None\<rparr>)
      else if key = 13 then (True, g\<lparr>selected := None, template_src := map_option href (selected g)\<rparr>)
      else if key = 27 then (True, g\<lparr>selected := None, bound := False, input_focus := True\<rparr>)
      else if key = 38 \<or> key = 40 then (False, arrow_key key g)
      else (True, g))"

section \<open>Document order\<close>

text \<open>The number of entries before one, and the entries the list has.\<close>

definition off :: "trees \<Rightarrow> nat \<Rightarrow> nat" where
  "off ts i = sum_list (map (\<lambda>(h, n). (if h then 1 else 0) + n) (take i ts))"

fun doc_index :: "trees \<Rightarrow> li \<Rightarrow> nat" where
  "doc_index ts (Header i) = off ts i"
| "doc_index ts (Item i j) = off ts i + (if has_header ts i then 1 else 0) + j"

fun in_list :: "trees \<Rightarrow> li \<Rightarrow> bool" where
  "in_list ts (Header i) = (i < length ts \<and> has_header ts i)"
| "in_list ts (Item i j) = (i < length ts \<and> j < item_count ts i)"

text \<open>The lists that the search builds: every package has a header and a template.\<close>

definition full_trees :: "trees \<Rightarrow> bool" where
  "full_trees ts \<longleftrightarrow> (\<forall>i < length ts. has_header ts i \<and> 0 < item_count ts i)"

lemma off_Suc: "i < length ts \<Longrightarrow> off ts (Suc i) = off ts i + (if has_header ts i then 1 else 0) + item_count ts i"
  by (simp add: off_def take_Suc_conv_app_nth has_header_def item_count_def split_beta)

lemma off_total_pos: "full_trees ts \<Longrightarrow> i < length ts \<Longrightarrow> off ts (Suc i) \<le> off ts (length ts)"
proof (rule lift_Suc_mono_le [of "\<lambda>k. off ts (min k (length ts))" "Suc i" "length ts", simplified])
  show "off ts (min n (length ts)) \<le> off ts (min (Suc n) (length ts))" for n
    by (cases "n < length ts") (simp_all add: off_Suc min_def)
qed auto

text \<open>The two arrow keys on a full list.\<close>

lemma key_down_step:
  assumes "full_trees ts" "in_list ts l"
  shows "(\<exists>l'. key_down ts (Li l) = Li l' \<and> in_list ts l' \<and> doc_index ts l' = Suc (doc_index ts l))
    \<or> (key_down ts (Li l) = NoNode \<and> Suc (doc_index ts l) = off ts (length ts))"
proof (cases l)
  case (Header i)
  then show ?thesis using assms by (simp add: key_down_def Let_def full_trees_def)
next
  case (Item i j)
  have i: "i < length ts" "j < item_count ts i" "has_header ts i" using assms Item by (auto simp: full_trees_def)
  show ?thesis
  proof (cases "Suc j < item_count ts i")
    case True
    then show ?thesis using Item i by (simp add: key_down_def Let_def)
  next
    case False
    then have j: "Suc j = item_count ts i" using i(2) by simp
    show ?thesis
    proof (cases "Suc i < length ts")
      case True
      then show ?thesis using Item i j assms(1) by (simp add: key_down_def Let_def full_trees_def off_Suc)
    next
      case last: False
      then have len: "length ts = Suc i" using i(1) by simp
      have "off ts (length ts) = off ts i + 1 + item_count ts i" unfolding len using off_Suc [OF i(1)] i(3) by simp
      then show ?thesis using Item i j last by (simp add: key_down_def Let_def)
    qed
  qed
qed

lemma key_up_step:
  assumes "full_trees ts" "in_list ts l"
  shows "(\<exists>l'. key_up ts (Li l) = Li l' \<and> in_list ts l' \<and> Suc (doc_index ts l') = doc_index ts l)
    \<or> (key_up ts (Li l) = NoNode \<and> doc_index ts l = 0)"
proof (cases l)
  case (Header i)
  show ?thesis
  proof (cases i)
    case 0
    then show ?thesis using Header by (simp add: key_up_def off_def)
  next
    case (Suc k)
    then have "k < length ts" "has_header ts k" "0 < item_count ts k" using assms Header by (auto simp: full_trees_def)
    then show ?thesis using Header Suc by (simp add: key_up_def last_grandchild_def off_Suc)
  qed
next
  case (Item i j)
  have "has_header ts i" "i < length ts" using assms Item by (auto simp: full_trees_def)
  then show ?thesis using Item assms(2) by (cases j) (simp_all add: key_up_def)
qed

text \<open>C31. The arrow keys walk the list in document order, across package boundaries and headers: down moves
  to the next entry and stays at the last one; up moves to the previous one, and at the first one
  gives the keyboard back to the text field.\<close>

theorem arrow_keys_walk_list:
  assumes "full_trees (items g)" "selected g = Some l" "in_list (items g) l"
  shows "(let d = arrow_key 40 g in
      if Suc (doc_index (items g) l) < off (items g) (length (items g))
      then (\<exists>l'. selected d = Some l' \<and> in_list (items g) l' \<and> doc_index (items g) l' = Suc (doc_index (items g) l))
      else d = g)
    \<and> (let u = arrow_key 38 g in
      if 0 < doc_index (items g) l
      then (\<exists>l'. selected u = Some l' \<and> in_list (items g) l' \<and> Suc (doc_index (items g) l') = doc_index (items g) l)
      else u = g\<lparr>bound := False, input_focus := True\<rparr>)"
proof
  let ?ts = "items g"
  have bound: "doc_index ?ts m < off ?ts (length ?ts)" if m: "in_list ?ts m" for m
  proof -
    obtain i where i: "i < length ?ts" "doc_index ?ts m < off ?ts (Suc i)"
      using m assms(1) by (cases m) (auto simp: off_Suc full_trees_def)
    then show ?thesis using off_total_pos [OF assms(1) i(1)] by simp
  qed
  show "let d = arrow_key 40 g in
      if Suc (doc_index ?ts l) < off ?ts (length ?ts)
      then (\<exists>l'. selected d = Some l' \<and> in_list ?ts l' \<and> doc_index ?ts l' = Suc (doc_index ?ts l)) else d = g"
    using key_down_step [OF assms(1,3)]
  proof
    assume "\<exists>l'. key_down ?ts (Li l) = Li l' \<and> in_list ?ts l' \<and> doc_index ?ts l' = Suc (doc_index ?ts l)"
    then obtain l' where l': "key_down ?ts (Li l) = Li l'" "in_list ?ts l'" "doc_index ?ts l' = Suc (doc_index ?ts l)" by blast
    then show ?thesis using bound [OF l'(2)] assms(2) by (simp add: arrow_key_def old_node_def)
  next
    assume "key_down ?ts (Li l) = NoNode \<and> Suc (doc_index ?ts l) = off ?ts (length ?ts)"
    then show ?thesis using assms(2) by (simp add: arrow_key_def old_node_def)
  qed
  show "let u = arrow_key 38 g in
      if 0 < doc_index ?ts l
      then (\<exists>l'. selected u = Some l' \<and> in_list ?ts l' \<and> Suc (doc_index ?ts l') = doc_index ?ts l)
      else u = g\<lparr>bound := False, input_focus := True\<rparr>"
    using key_up_step [OF assms(1,3)] assms(2) by (auto simp: arrow_key_def old_node_def)
qed

definition demo_keys :: key_page where
  "demo_keys = \<lparr>items = [(True, 2), (True, 1)], selected = Some (Item 0 1), bound = True, input_focus = False,
     template_src = None\<rparr>"

theorem arrow_keys_walk_list_witness:
  "\<exists>l'. selected (arrow_key 40 demo_keys) = Some l' \<and> doc_index (items demo_keys) l' = 3"
  using arrow_keys_walk_list [of demo_keys "Item 0 1"]
  by (auto simp: demo_keys_def full_trees_def has_header_def item_count_def off_def less_Suc_eq)

text \<open>Every key but the two vertical arrows makes the handler throw, since no new entry is defined then;
  what the handler did before the throw stays, so enter still opens the selected entry.\<close>

theorem other_keys_throw:
  "fst (keydown href key g) = (key \<noteq> 38 \<and> key \<noteq> 40)
    \<and> (key = 13 \<longrightarrow> template_src (snd (keydown href key g)) = map_option href (selected g)
         \<and> selected (snd (keydown href key g)) = None)"
  by (simp add: keydown_def)

theorem other_keys_throw_witness: "template_src (snd (keydown (\<lambda>_. ''a.html'') 13 demo_keys)) = Some ''a.html''"
  using other_keys_throw [of "\<lambda>_. ''a.html''" 13 demo_keys] by (simp add: demo_keys_def)

end
