(* ===== verification/Diagrams.thy ===== *)
theory Diagrams
  imports Prelude Complex_Main
begin

text \<open>
  The class diagrams of a documentation page (\<open>lib/diagrams.js\<close>): the two helpers that edit the
  class attribute of an SVG element, the highlighting of nodes and edges under the mouse, the
  scaling of a diagram to the window, showing and hiding it, and its popup window.  The page is
  the list of SVG elements with their ids; a jQuery set is a predicate on elements, and reading
  the class of an empty set makes the helpers throw.  Lengths are rationals.
\<close>

section \<open>Class attributes\<close>

text \<open>\<open>split(/\s+/)\<close>.\<close>

function split_ws :: "string \<Rightarrow> string list" where
  "split_ws s =
     (let rest = dropWhile (\<lambda>c. \<not> is_space c) s
      in if rest = [] then [takeWhile (\<lambda>c. \<not> is_space c) s]
         else takeWhile (\<lambda>c. \<not> is_space c) s # split_ws (dropWhile is_space rest))"
  by pat_completeness auto
termination
proof (relation "measure length")
  fix s rest assume r: "rest = dropWhile (\<lambda>c. \<not> is_space c) s" "rest \<noteq> []"
  then have "is_space (hd rest)" using hd_dropWhile [of "\<lambda>c. \<not> is_space c" s] by simp
  then have "length (dropWhile is_space rest) < length rest"
    using r(2) length_dropWhile_le [of is_space "tl rest"] by (cases rest) auto
  also have "\<dots> \<le> length s" unfolding r(1) by (rule length_dropWhile_le)
  finally show "(dropWhile is_space rest, s) \<in> measure length" by simp
qed simp

declare split_ws.simps [simp del]

definition addClass :: "string \<Rightarrow> string \<Rightarrow> string" where
  "addClass newClass classes =
     (if newClass \<notin> set (split_ws classes)
      then classes @ (if classes \<noteq> '''' then '' '' else '''') @ newClass else classes)"

definition removeClass :: "string \<Rightarrow> string \<Rightarrow> string" where
  "removeClass oldClass classes = js_join '' '' (filter (\<lambda>n. n \<noteq> oldClass) (split_ws classes))"

section \<open>Highlighting\<close>

record elem =
  eid :: string
  eclass :: string
  svg :: string

datatype hover = MouseOver | MouseOut

definition by_id :: "string \<Rightarrow> elem \<Rightarrow> bool" where
  "by_id i e = (eid e = i)"

definition with_classes :: "string list \<Rightarrow> elem \<Rightarrow> bool" where
  "with_classes cs e = (set cs \<subseteq> set (split_ws (eclass e)))"

text \<open>
  A helper on a jQuery set reads the class of the first element and writes the result to all;
  \<open>addClass\<close> writes only when the first element lacks the class.
\<close>

definition toggle_set :: "hover \<Rightarrow> (elem \<Rightarrow> bool) \<Rightarrow> elem list \<Rightarrow> elem list option" where
  "toggle_set ev sel page =
     (case filter sel page of
        [] \<Rightarrow> None
      | e # _ \<Rightarrow>
          (case ev of
             MouseOut \<Rightarrow> Some (map (\<lambda>x. if sel x then x\<lparr>eclass := removeClass ''over'' (eclass e)\<rparr> else x) page)
           | MouseOver \<Rightarrow>
               if ''over'' \<in> set (split_ws (eclass e)) then Some page
               else Some (map (\<lambda>x. if sel x then x\<lparr>eclass := addClass ''over'' (eclass e)\<rparr> else x) page)))"

fun toggle_all :: "hover \<Rightarrow> (elem \<Rightarrow> bool) list \<Rightarrow> elem list \<Rightarrow> elem list option" where
  "toggle_all ev [] page = Some page"
| "toggle_all ev (sel # sels) page =
     (case toggle_set ev sel page of None \<Rightarrow> None | Some page' \<Rightarrow> toggle_all ev sels page')"

definition id_part :: "string \<Rightarrow> nat \<Rightarrow> string" where
  "id_part i k = (let parts = js_split (CHR ''_'') i in if k < length parts then parts ! k else ''undefined'')"

definition edge_targets :: "elem \<Rightarrow> (elem \<Rightarrow> bool) list" where
  "edge_targets e = [by_id (id_part (eid e) 0 @ ''_'' @ id_part (eid e) 1),
     by_id (id_part (eid e) 0 @ ''_'' @ id_part (eid e) 2), by_id (eid e)]"

definition node_targets :: "elem list \<Rightarrow> elem \<Rightarrow> (elem \<Rightarrow> bool) list" where
  "node_targets page n =
     (let p = id_part (eid n) 0; index = id_part (eid n) 1
      in by_id (eid n) # concat (map (\<lambda>e.
           if id_part (eid e) 1 = index then [by_id (id_part (eid e) 0 @ ''_'' @ id_part (eid e) 2), by_id (eid e)]
           else if id_part (eid e) 2 = index then [by_id (id_part (eid e) 0 @ ''_'' @ id_part (eid e) 1), by_id (eid e)]
           else [])
         (filter (\<lambda>e. svg e = p \<and> with_classes [''edge'', ''inheritance''] e) page)))"

definition implicit_node_targets :: "string \<Rightarrow> elem \<Rightarrow> (elem \<Rightarrow> bool) list" where
  "implicit_node_targets kind n = [by_id (eid n), with_classes [''edge'', kind], with_classes [''node'', ''this'']]"

text \<open>An incoming edge touches its nodes one by one, an outgoing one the set of edges of its kind.\<close>

definition incoming_edge_targets :: "elem list \<Rightarrow> elem \<Rightarrow> (elem \<Rightarrow> bool) list" where
  "incoming_edge_targets page e = by_id (eid e) # with_classes [''node'', ''this''] #
     map (\<lambda>n. by_id (eid n)) (filter (with_classes [''node'', ''implicit-incoming'']) page)"

definition outgoing_edge_targets :: "elem list \<Rightarrow> elem \<Rightarrow> (elem \<Rightarrow> bool) list" where
  "outgoing_edge_targets page e = by_id (eid e) # with_classes [''node'', ''this''] #
     map (\<lambda>n. by_id (eid n)) (filter (with_classes [''node'', ''implicit-outgoing'']) page)"

section \<open>Scaling, showing and the popup\<close>

record diagram =
  dwidth :: rat
  dheight :: rat
  svg_width :: rat
  svg_height :: rat
  magnifying :: bool
  clickable :: bool
  dvisible :: bool
  help_shown :: bool
  link_open :: bool

definition resize_diagram :: "rat \<Rightarrow> diagram \<Rightarrow> diagram" where
  "resize_diagram bodyWidth d =
     (let availableWidth = bodyWidth - 20
      in if dwidth d > availableWidth
         then d\<lparr>svg_width := availableWidth, svg_height := dheight d / dwidth d * availableWidth,
                clickable := True, magnifying := True\<rparr>
         else d\<lparr>svg_width := dwidth d, svg_height := dheight d, clickable := False, magnifying := False\<rparr>)"

definition resize_all :: "rat \<Rightarrow> diagram list \<Rightarrow> diagram list" where
  "resize_all bodyWidth ds = map (resize_diagram bodyWidth) ds"

definition toggle_diagram :: "rat \<Rightarrow> nat \<Rightarrow> diagram list \<Rightarrow> diagram list" where
  "toggle_diagram bodyWidth i ds =
     (let ds = ds[i := (ds ! i)\<lparr>link_open := \<not> link_open (ds ! i)\<rparr>]
      in if dvisible (ds ! i)
         then ds[i := (ds ! i)\<lparr>help_shown := False, clickable := False, magnifying := False, dvisible := False\<rparr>]
         else (let ds = resize_all bodyWidth ds in ds[i := (ds ! i)\<lparr>dvisible := True, help_shown := True\<rparr>]))"

definition popup_size :: "rat \<Rightarrow> rat \<Rightarrow> diagram \<Rightarrow> rat \<times> rat \<times> rat \<times> rat" where
  "popup_size screenWidth screenHeight d =
     (let w = min screenWidth (dwidth d + 2 * 30); h = min screenHeight (dheight d + 2 * 30)
      in (w, h, (screenWidth - w) / 2, (screenHeight - h) / 2))"

text \<open>
  The open windows by diagram id, each with whether it has been closed.  The variable \<open>win\<close> is
  assigned only where a window is opened, so focusing it throws when one is already open.
\<close>

definition popup :: "string \<Rightarrow> (string \<rightharpoonup> bool) \<Rightarrow> bool \<times> (string \<rightharpoonup> bool)" where
  "popup i windows =
     (if windows i = None \<or> windows i = Some True then (False, windows(i \<mapsto> False)) else (True, windows))"

definition popup_position :: "rat \<Rightarrow> rat \<Rightarrow> rat \<Rightarrow> rat \<Rightarrow> rat \<times> rat" where
  "popup_position win_w win_h svg_w svg_h =
     (let x = win_w / 2 - svg_w / 2; y = win_h / 2 - svg_h / 2
      in (if x < 0 then 0 else x, if y < 0 then 0 else y))"

section \<open>Class attribute facts\<close>

definition class_list :: "string list \<Rightarrow> bool" where
  "class_list ws \<longleftrightarrow> (\<forall>w \<in> set ws. w \<noteq> '''' \<and> (\<forall>c \<in> set w. \<not> is_space c))"

lemma split_ws_word: "\<forall>c \<in> set w. \<not> is_space c \<Longrightarrow> split_ws w = [w]"
  by (subst split_ws.simps) (simp add: takeWhile_eq_all_conv [THEN iffD2] dropWhile_eq_Nil_conv [THEN iffD2] Let_def)

lemma dropWhile_word: "\<forall>c \<in> set w. \<not> is_space c \<Longrightarrow> is_space x \<Longrightarrow>
    dropWhile (\<lambda>c. \<not> is_space c) (w @ x # s) = x # s \<and> takeWhile (\<lambda>c. \<not> is_space c) (w @ x # s) = w"
  by (induction w) auto

lemma split_ws_cons:
  assumes "\<forall>c \<in> set w. \<not> is_space c" "s = '''' \<or> \<not> is_space (hd s)"
  shows "split_ws (w @ '' '' @ s) = w # split_ws s"
proof -
  have sp: "is_space (CHR '' '')" by (simp add: is_space_def)
  have "dropWhile is_space s = s" using assms(2) by (cases s) auto
  then show ?thesis using dropWhile_word [OF assms(1) sp, of s] sp
    by (subst split_ws.simps) (simp add: Let_def)
qed

lemma class_list_Cons [simp]:
  "class_list (w # ws) \<longleftrightarrow> w \<noteq> '''' \<and> (\<forall>c \<in> set w. \<not> is_space c) \<and> class_list ws" "class_list []"
  by (auto simp: class_list_def)

lemma hd_join: "class_list ws \<Longrightarrow> ws \<noteq> [] \<Longrightarrow> js_join '' '' ws \<noteq> '''' \<and> \<not> is_space (hd (js_join '' '' ws))"
  by (cases ws; cases "tl ws") auto

lemma split_join: "class_list ws \<Longrightarrow> ws \<noteq> [] \<Longrightarrow> split_ws (js_join '' '' ws) = ws"
proof (induction ws)
  case (Cons w ws)
  show ?case
  proof (cases ws)
    case Nil
    then show ?thesis using Cons.prems split_ws_word by simp
  next
    case (Cons v vs)
    then show ?thesis using Cons.prems Cons.IH hd_join [of ws] split_ws_cons [of w "js_join '' '' ws"] by simp
  qed
qed simp

lemma join_snoc: "ws \<noteq> [] \<Longrightarrow> js_join sep (ws @ [w]) = js_join sep ws @ sep @ w"
proof (induction ws)
  case (Cons v ws)
  then show ?case by (cases ws) auto
qed simp

text \<open>The class attributes of a page: single spaces between words, none of them \<open>over\<close>.\<close>

definition plain_class :: "string \<Rightarrow> bool" where
  "plain_class s \<longleftrightarrow> (\<exists>ws. s = js_join '' '' ws \<and> class_list ws \<and> ''over'' \<notin> set ws)"

lemma plain_class_split: "plain_class s \<Longrightarrow> ''over'' \<notin> set (split_ws s)"
proof -
  assume "plain_class s"
  then obtain ws where ws: "s = js_join '' '' ws" "class_list ws" "''over'' \<notin> set ws" by (auto simp: plain_class_def)
  show ?thesis
  proof (cases "ws = []")
    case True
    then show ?thesis using ws(1) split_ws_word [of "''''"] by simp
  next
    case False
    then show ?thesis using ws split_join by simp
  qed
qed

text \<open>Adding a class and removing it again restores the attribute, and adding it makes it a class of the
  element: for every attribute of single-spaced words that does not have the class.\<close>

theorem add_remove_class:
  assumes "plain_class s"
  shows "removeClass ''over'' (addClass ''over'' s) = s \<and> ''over'' \<in> set (split_ws (addClass ''over'' s))"
proof -
  obtain ws where ws: "s = js_join '' '' ws" "class_list ws" "''over'' \<notin> set ws" using assms by (auto simp: plain_class_def)
  have over: "class_list (ws @ [''over''])" using ws(2) by (auto simp: class_list_def is_space_def)
  have add: "addClass ''over'' s = js_join '' '' (ws @ [''over''])"
  proof (cases "ws = []")
    case True
    then show ?thesis using ws(1) split_ws_word [of "''''"] by (simp add: addClass_def)
  next
    case False
    then show ?thesis using plain_class_split [OF assms] hd_join [OF ws(2) False] ws(1)
      by (simp add: addClass_def join_snoc)
  qed
  have sp: "split_ws (addClass ''over'' s) = ws @ [''over'']" unfolding add by (rule split_join [OF over]) simp
  have "filter (\<lambda>n. n \<noteq> ''over'') ws = ws" using ws(3) by (auto simp: filter_id_conv)
  then show ?thesis using sp ws(1) by (simp add: removeClass_def)
qed

theorem add_remove_class_witness: "removeClass ''over'' (addClass ''over'' ''node this'') = ''node this''"
proof -
  have "plain_class ''node this''"
    unfolding plain_class_def by (rule exI [of _ "[''node'', ''this'']"]) (simp add: is_space_def)
  from add_remove_class [OF this] show ?thesis by simp
qed

section \<open>Highlighting facts\<close>

definition lit :: "(elem \<Rightarrow> bool) \<Rightarrow> elem list \<Rightarrow> elem list" where
  "lit P page = map (\<lambda>x. if P x then x\<lparr>eclass := addClass ''over'' (eclass x)\<rparr> else x) page"

text \<open>
  A set that the helpers treat as one: it is not empty, its elements have the same class, and
  the class \<open>over\<close> does not change what belongs to it.
\<close>

definition uniform :: "elem list \<Rightarrow> (elem \<Rightarrow> bool) \<Rightarrow> bool" where
  "uniform page sel \<longleftrightarrow> (\<exists>x \<in> set page. sel x)
     \<and> (\<forall>x \<in> set page. \<forall>y \<in> set page. sel x \<longrightarrow> sel y \<longrightarrow> eclass x = eclass y)
     \<and> (\<forall>x \<in> set page. sel (x\<lparr>eclass := addClass ''over'' (eclass x)\<rparr>) = sel x)"

lemma remove_plain: "plain_class s \<Longrightarrow> removeClass ''over'' s = s"
proof -
  assume "plain_class s"
  then obtain ws where ws: "s = js_join '' '' ws" "class_list ws" "''over'' \<notin> set ws" by (auto simp: plain_class_def)
  have "filter (\<lambda>n. n \<noteq> ''over'') ws = ws" using ws(3) by (auto simp: filter_id_conv)
  then show ?thesis using ws split_join [OF ws(2)] split_ws_word [of "''''"]
    by (cases "ws = []") (simp_all add: removeClass_def)
qed

lemma toggle_set_lit:
  assumes "uniform page sel" "\<forall>x \<in> set page. plain_class (eclass x)"
    and "\<forall>x \<in> set page. \<forall>y \<in> set page. sel x \<longrightarrow> sel y \<longrightarrow> P x = P y"
  shows "toggle_set MouseOver sel (lit P page) = Some (lit (\<lambda>x. P x \<or> sel x) page)"
    "toggle_set MouseOut sel (lit P page) = Some (lit (\<lambda>x. P x \<and> \<not> sel x) page)"
proof -
  let ?f = "\<lambda>x. if P x then x\<lparr>eclass := addClass ''over'' (eclass x)\<rparr> else x"
  have selF: "sel (?f x) = sel x" if "x \<in> set page" for x using assms(1) that by (simp add: uniform_def)
  have flt: "filter sel (lit P page) = map ?f (filter sel page)"
    unfolding lit_def filter_map comp_def using selF by (intro arg_cong [where f = "map ?f"] filter_cong) auto
  obtain e es where e: "filter sel page = e # es"
    using assms(1) by (cases "filter sel page") (auto simp: uniform_def filter_empty_conv)
  then have "e \<in> set (filter sel page)" by simp
  then have mem: "e \<in> set page" "sel e" by auto
  have same: "eclass x = eclass e \<and> P x = P e" if x: "x \<in> set page" "sel x" for x
  proof
    show "eclass x = eclass e" using assms(1) x mem unfolding uniform_def by blast
    show "P x = P e" using assms(3) x mem by blast
  qed
  have head: "\<exists>es'. filter sel (lit P page) = ?f e # es'" using flt e by simp
  have plain: "plain_class (eclass e)" using assms(2) mem(1) by blast
  show "toggle_set MouseOver sel (lit P page) = Some (lit (\<lambda>x. P x \<or> sel x) page)"
  proof (cases "P e")
    case True
    have "lit (\<lambda>x. P x \<or> sel x) page = lit P page"
      unfolding lit_def using same True by (intro map_cong) auto
    then show ?thesis using head True add_remove_class [OF plain] by (auto simp: toggle_set_def)
  next
    case False
    have "map (\<lambda>x. if sel x then x\<lparr>eclass := addClass ''over'' (eclass e)\<rparr> else x) (lit P page)
        = lit (\<lambda>x. P x \<or> sel x) page"
      unfolding lit_def map_map comp_def using same selF False by (intro map_cong) auto
    then show ?thesis using head False plain_class_split [OF plain] by (auto simp: toggle_set_def)
  qed
  have "removeClass ''over'' (eclass (?f e)) = eclass e"
    using add_remove_class [OF plain] remove_plain [OF plain] by simp
  then obtain z es' where z: "filter sel (lit P page) = z # es'" "removeClass ''over'' (eclass z) = eclass e"
    using head by blast
  have "map (\<lambda>x. if sel x then x\<lparr>eclass := eclass e\<rparr> else x) (lit P page)
      = lit (\<lambda>x. P x \<and> \<not> sel x) page"
    unfolding lit_def map_map comp_def using same selF by (intro map_cong) auto
  then show "toggle_set MouseOut sel (lit P page) = Some (lit (\<lambda>x. P x \<and> \<not> sel x) page)"
    unfolding toggle_set_def z(1) list.case hover.case z(2) by simp
qed

definition separated :: "elem list \<Rightarrow> (elem \<Rightarrow> bool) list \<Rightarrow> bool" where
  "separated page sels \<longleftrightarrow> (\<forall>sel \<in> set sels. uniform page sel) \<and>
     (\<forall>a \<in> set sels. \<forall>b \<in> set sels. (\<forall>x \<in> set page. a x = b x) \<or> (\<forall>x \<in> set page. \<not> (a x \<and> b x)))"

lemma separate_const:
  assumes "(\<forall>x \<in> A. a x = b x) \<or> (\<forall>x \<in> A. \<not> (a x \<and> b x))" "x \<in> A" "y \<in> A" "b x" "b y"
  shows "a x = a y"
  using assms by blast

lemma toggle_all_lit:
  assumes "\<forall>x \<in> set page. plain_class (eclass x)" "\<forall>sel \<in> set sels. uniform page sel"
    and "\<forall>sel \<in> set sels. \<forall>x \<in> set page. \<forall>y \<in> set page. sel x \<longrightarrow> sel y \<longrightarrow> P x = P y"
    and "\<forall>a \<in> set sels. \<forall>b \<in> set sels. (\<forall>x \<in> set page. a x = b x) \<or> (\<forall>x \<in> set page. \<not> (a x \<and> b x))"
  shows "toggle_all MouseOver sels (lit P page) = Some (lit (\<lambda>x. P x \<or> (\<exists>sel \<in> set sels. sel x)) page)"
    "toggle_all MouseOut sels (lit P page) = Some (lit (\<lambda>x. P x \<and> \<not> (\<exists>sel \<in> set sels. sel x)) page)"
proof -
  show "toggle_all MouseOver sels (lit P page) = Some (lit (\<lambda>x. P x \<or> (\<exists>sel \<in> set sels. sel x)) page)"
    using assms
  proof (induction sels arbitrary: P)
    case (Cons sel sels)
    have keep: "sel x = sel y \<and> P x = P y" if mem: "s \<in> set sels" "x \<in> set page" "y \<in> set page" "s x" "s y" for s x y
    proof
      have "(\<forall>x \<in> set page. sel x = s x) \<or> (\<forall>x \<in> set page. \<not> (sel x \<and> s x))"
        by (rule bspec [OF bspec [OF Cons.prems(4)]]) (simp_all add: mem(1))
      from separate_const [OF this mem(2-5)] show "sel x = sel y" .
      have "s \<in> set (sel # sels)" using mem(1) by simp
      then show "P x = P y" using Cons.prems(3) mem by blast
    qed
    have "toggle_set MouseOver sel (lit P page) = Some (lit (\<lambda>x. P x \<or> sel x) page)"
      by (rule toggle_set_lit(1) [OF bspec [OF Cons.prems(2), of sel] Cons.prems(1) bspec [OF Cons.prems(3), of sel]]) simp_all
    moreover have "toggle_all MouseOver sels (lit (\<lambda>x. P x \<or> sel x) page) =
        Some (lit (\<lambda>x. (P x \<or> sel x) \<or> (\<exists>sel \<in> set sels. sel x)) page)"
    proof (rule Cons.IH)
      show "\<forall>s \<in> set sels. \<forall>x \<in> set page. \<forall>y \<in> set page. s x \<longrightarrow> s y \<longrightarrow> (P x \<or> sel x) = (P y \<or> sel y)"
      proof (intro ballI impI)
        fix s x y assume "s \<in> set sels" "x \<in> set page" "y \<in> set page" "s x" "s y"
        from keep [OF this] show "(P x \<or> sel x) = (P y \<or> sel y)" by simp
      qed
      show "\<forall>x \<in> set page. plain_class (eclass x)" by (rule Cons.prems(1))
      show "\<forall>sel \<in> set sels. uniform page sel" using Cons.prems(2) by simp
      show "\<forall>a \<in> set sels. \<forall>b \<in> set sels. (\<forall>x \<in> set page. a x = b x) \<or> (\<forall>x \<in> set page. \<not> (a x \<and> b x))"
      proof (intro ballI)
        fix a b assume "a \<in> set sels" "b \<in> set sels"
        then have "a \<in> set (sel # sels)" "b \<in> set (sel # sels)" by simp_all
        from bspec [OF bspec [OF Cons.prems(4) this(1)] this(2)]
        show "(\<forall>x \<in> set page. a x = b x) \<or> (\<forall>x \<in> set page. \<not> (a x \<and> b x))" .
      qed
    qed
    ultimately show ?case by (simp add: disj_assoc)
  qed simp
  show "toggle_all MouseOut sels (lit P page) = Some (lit (\<lambda>x. P x \<and> \<not> (\<exists>sel \<in> set sels. sel x)) page)"
    using assms
  proof (induction sels arbitrary: P)
    case (Cons sel sels)
    have keep: "sel x = sel y \<and> P x = P y" if mem: "s \<in> set sels" "x \<in> set page" "y \<in> set page" "s x" "s y" for s x y
    proof
      have "(\<forall>x \<in> set page. sel x = s x) \<or> (\<forall>x \<in> set page. \<not> (sel x \<and> s x))"
        by (rule bspec [OF bspec [OF Cons.prems(4)]]) (simp_all add: mem(1))
      from separate_const [OF this mem(2-5)] show "sel x = sel y" .
      have "s \<in> set (sel # sels)" using mem(1) by simp
      then show "P x = P y" using Cons.prems(3) mem by blast
    qed
    have "toggle_set MouseOut sel (lit P page) = Some (lit (\<lambda>x. P x \<and> \<not> sel x) page)"
      by (rule toggle_set_lit(2) [OF bspec [OF Cons.prems(2), of sel] Cons.prems(1) bspec [OF Cons.prems(3), of sel]]) simp_all
    moreover have "toggle_all MouseOut sels (lit (\<lambda>x. P x \<and> \<not> sel x) page) =
        Some (lit (\<lambda>x. (P x \<and> \<not> sel x) \<and> \<not> (\<exists>sel \<in> set sels. sel x)) page)"
    proof (rule Cons.IH)
      show "\<forall>s \<in> set sels. \<forall>x \<in> set page. \<forall>y \<in> set page. s x \<longrightarrow> s y \<longrightarrow> (P x \<and> \<not> sel x) = (P y \<and> \<not> sel y)"
      proof (intro ballI impI)
        fix s x y assume "s \<in> set sels" "x \<in> set page" "y \<in> set page" "s x" "s y"
        from keep [OF this] show "(P x \<and> \<not> sel x) = (P y \<and> \<not> sel y)" by simp
      qed
      show "\<forall>x \<in> set page. plain_class (eclass x)" by (rule Cons.prems(1))
      show "\<forall>sel \<in> set sels. uniform page sel" using Cons.prems(2) by simp
      show "\<forall>a \<in> set sels. \<forall>b \<in> set sels. (\<forall>x \<in> set page. a x = b x) \<or> (\<forall>x \<in> set page. \<not> (a x \<and> b x))"
      proof (intro ballI)
        fix a b assume "a \<in> set sels" "b \<in> set sels"
        then have "a \<in> set (sel # sels)" "b \<in> set (sel # sels)" by simp_all
        from bspec [OF bspec [OF Cons.prems(4) this(1)] this(2)]
        show "(\<forall>x \<in> set page. a x = b x) \<or> (\<forall>x \<in> set page. \<not> (a x \<and> b x))" .
      qed
    qed
    ultimately show ?case by (simp add: conj_assoc)
  qed simp
qed

lemma lit_none: "lit (\<lambda>x. False) page = page"
  by (simp add: lit_def)

text \<open>Moving the mouse over an element and out again leaves no trace: when the sets a handler touches are
  not empty, uniform, and pairwise equal or disjoint, moving over marks exactly the elements of
  these sets, and moving out restores the class of every element of the page.\<close>

theorem highlight_restores:
  assumes "\<forall>x \<in> set page. plain_class (eclass x)" "separated page sels"
  shows "toggle_all MouseOver sels page = Some (lit (\<lambda>x. \<exists>sel \<in> set sels. sel x) page)
    \<and> toggle_all MouseOut sels (lit (\<lambda>x. \<exists>sel \<in> set sels. sel x) page) = Some page"
proof -
  have un: "\<forall>sel \<in> set sels. uniform page sel"
    and sep: "\<forall>a \<in> set sels. \<forall>b \<in> set sels. (\<forall>x \<in> set page. a x = b x) \<or> (\<forall>x \<in> set page. \<not> (a x \<and> b x))"
    using assms(2) by (auto simp: separated_def)
  have "toggle_all MouseOver sels (lit (\<lambda>x. False) page) = Some (lit (\<lambda>x. False \<or> (\<exists>sel \<in> set sels. sel x)) page)"
    by (rule toggle_all_lit(1) [OF assms(1) un _ sep]) simp
  moreover have "toggle_all MouseOut sels (lit (\<lambda>x. \<exists>sel \<in> set sels. sel x) page) =
      Some (lit (\<lambda>x. (\<exists>sel \<in> set sels. sel x) \<and> \<not> (\<exists>sel \<in> set sels. sel x)) page)"
  proof (rule toggle_all_lit(2) [OF assms(1) un _ sep])
    show "\<forall>sel \<in> set sels. \<forall>x \<in> set page. \<forall>y \<in> set page. sel x \<longrightarrow> sel y \<longrightarrow>
        (\<exists>sel \<in> set sels. sel x) = (\<exists>sel \<in> set sels. sel y)" by blast
  qed
  moreover have "(\<lambda>x. (\<exists>sel \<in> set sels. sel x) \<and> \<not> (\<exists>sel \<in> set sels. sel x)) = (\<lambda>x. False)" by (intro ext) blast
  ultimately show ?thesis by (simp only: lit_none simp_thms)
qed

text \<open>An inheritance edge between two nodes with distinct ids satisfies the hypotheses.\<close>

definition demo_svg :: "elem list" where
  "demo_svg = [\<lparr>eid = ''g_0'', eclass = ''node this'', svg = ''g''\<rparr>, \<lparr>eid = ''g_1'', eclass = ''node'', svg = ''g''\<rparr>,
     \<lparr>eid = ''g_0_1'', eclass = ''edge inheritance'', svg = ''g''\<rparr>]"

lemma plain_one: "class_list [w] \<Longrightarrow> w \<noteq> ''over'' \<Longrightarrow> plain_class w"
  unfolding plain_class_def by (rule exI [of _ "[w]"]) simp

lemma plain_two: "class_list [v, w] \<Longrightarrow> v \<noteq> ''over'' \<Longrightarrow> w \<noteq> ''over'' \<Longrightarrow> plain_class (v @ '' '' @ w)"
  unfolding plain_class_def by (rule exI [of _ "[v, w]"]) simp

lemma demo_svg_plain: "\<forall>x \<in> set demo_svg. plain_class (eclass x)"
  using plain_one [of "''node''"] plain_two [of "''node''" "''this''"] plain_two [of "''edge''" "''inheritance''"]
  by (simp add: demo_svg_def is_space_def)

lemma demo_svg_separated: "separated demo_svg (edge_targets (demo_svg ! 2))"
  by (simp add: separated_def edge_targets_def demo_svg_def by_id_def uniform_def id_part_def)

theorem highlight_restores_witness:
  "toggle_all MouseOver (edge_targets (demo_svg ! 2)) demo_svg =
     Some (lit (\<lambda>x. \<exists>sel \<in> set (edge_targets (demo_svg ! 2)). sel x) demo_svg)"
  using highlight_restores [OF demo_svg_plain demo_svg_separated] by blast

section \<open>Scaling and windows\<close>

text \<open>Scaling fits and keeps the shape: a diagram of positive width in a window wide enough for its margin is
  never wider than the room nor than its own size, keeps its proportions, can be enlarged exactly
  when it was shrunk, and a second resize at the same width, or one that follows other widths,
  gives the same result.\<close>

theorem resize_fits_and_keeps_shape:
  assumes "0 < dwidth d" "20 \<le> w"
  shows "let r = resize_diagram w d in svg_width r = min (dwidth d) (w - 20)
    \<and> svg_width r * dheight d = svg_height r * dwidth d
    \<and> magnifying r = (w - 20 < dwidth d) \<and> clickable r = magnifying r
    \<and> resize_diagram w (resize_diagram v d) = r"
  using assms by (simp add: resize_diagram_def Let_def min_def)

definition demo_diagram :: diagram where
  "demo_diagram = \<lparr>dwidth = 400, dheight = 300, svg_width = 400, svg_height = 300, magnifying = False,
     clickable = False, dvisible = False, help_shown = False, link_open = False\<rparr>"

theorem resize_fits_and_keeps_shape_witness: "svg_height (resize_diagram 220 demo_diagram) = 150"
  using resize_fits_and_keeps_shape [of demo_diagram 220 100] by (simp add: demo_diagram_def Let_def)

text \<open>The window of a diagram can be opened but not raised: clicking a diagram whose window is still open
  throws, because the window to focus is never assigned, and opens nothing; any other click opens
  one window, after which the next click throws.\<close>

theorem popup_of_open_window_throws:
  "fst (popup i windows) = (windows i = Some False)
    \<and> (windows i = Some False \<longrightarrow> snd (popup i windows) = windows)
    \<and> fst (popup i (snd (popup i windows)))"
  by (auto simp: popup_def)

theorem popup_of_open_window_throws_witness: "fst (popup ''d'' [''d'' \<mapsto> False])"
  using popup_of_open_window_throws [of "''d''" "[''d'' \<mapsto> False]"] by simp

end
