(* ===== verification/TemplatePage.thy ===== *)
theory TemplatePage
  imports Diagrams
begin

text \<open>
  The page of one entity (\<open>lib/template.js\<close>): the controls (visibility, ordering, linearization,
  implicits, hide all and show all), the member lists that the inheritance view and the groups
  get as copies of the members, and the filter that decides which members show.  A control or
  list entry carries one of the classes \<open>in\<close> and \<open>out\<close>, as the page is generated.  The search
  expression is kept as the text the script builds, and read back as its alternatives.
\<close>

section \<open>Selectors and search text\<close>

definition jquery_special :: "char \<Rightarrow> bool" where
  "jquery_special c \<longleftrightarrow> c \<in> set '';&,.+*~:!^#$%@[]()=<>|'' \<or> c = CHR 0x27 \<or> c = CHR 0x22"

definition escapeJquery :: "string \<Rightarrow> string" where
  "escapeJquery str = concat (map (\<lambda>c. if jquery_special c then [CHR 0x5C, c] else [c]) str)"

text \<open>How a selector engine reads an escaped identifier.\<close>

fun css_unescape :: "string \<Rightarrow> string" where
  "css_unescape [] = []"
| "css_unescape (c # s) = (if c = CHR 0x5C then (case s of [] \<Rightarrow> [] | d # t \<Rightarrow> d # css_unescape t) else c # css_unescape s)"

definition findElementByHash :: "string \<Rightarrow> string" where
  "findElementByHash h =
     (let temp = (if CHR ''#'' \<in> set h
                  then takeWhile (\<lambda>c. c \<noteq> CHR ''#'') h @ tl (dropWhile (\<lambda>c. c \<noteq> CHR ''#'') h) else h)
      in ''#'' @ escapeJquery temp)"

definition regex_special :: "char \<Rightarrow> bool" where
  "regex_special c \<longleftrightarrow> c \<in> set ''-[]{}()*+?.,^$|#'' \<or> c = CHR 0x5C"

definition escape_member :: "string \<Rightarrow> string" where
  "escape_member q = concat (map (\<lambda>c. if regex_special c then [CHR 0x5C, c] else [c]) q)"

text \<open>\<open>replace(/\s+/g, "|")\<close>.\<close>

definition bars :: "string \<Rightarrow> string" where
  "bars s = js_join ''|'' (split_ws s)"

definition member_query :: "string \<Rightarrow> string" where
  "member_query val = bars (escape_member (js_lower (js_trim val)))"

text \<open>The alternatives of such an expression: characters, escaped or not, between bars.\<close>

fun read_alts :: "string \<Rightarrow> string list" where
  "read_alts [] = [[]]"
| "read_alts (c # s) =
     (if c = CHR 0x5C then
        (case s of [] \<Rightarrow> [[]]
         | d # t \<Rightarrow> (case read_alts t of [] \<Rightarrow> [[d]] | a # as \<Rightarrow> (d # a) # as))
      else if c = CHR ''|'' then [] # read_alts s
      else (case read_alts s of [] \<Rightarrow> [[c]] | a # as \<Rightarrow> (c # a) # as))"

definition member_test :: "string \<Rightarrow> string \<Rightarrow> bool" where
  "member_test re s = (\<exists>a \<in> set (read_alts re). sublist (js_lower a) (js_lower s))"

section \<open>The page\<close>

datatype io = In | Out

definition flip :: "io \<Rightarrow> io" where
  "flip x = (case x of In \<Rightarrow> Out | Out \<Rightarrow> In)"

record super =
  sname :: string
  data_hidden :: bool
  on :: io

record member =
  mname :: string
  protected :: bool
  mbrText :: string
  mgroup :: "string option"
  mshown :: bool

record member_list =
  members :: "member list"
  list_shown :: bool

text \<open>A heading with its name and the lists of type and value members below it, once it has any.\<close>

record parent_block =
  pname :: string
  conversion :: bool
  ptypes :: "member_list option"
  pvalues :: "member_list option"
  block_shown :: bool

datatype ordering = Alpha | Inherit | Group

record page =
  publicOnly :: io
  all_vis :: io
  o_alpha :: io
  o_inherit :: io
  o_group :: "io option"
  linearization :: "super list"
  implicits :: "super list"
  hideall :: io
  showall :: io
  input_val :: string
  types :: member_list
  vals :: member_list
  inherited :: "parent_block list"
  groups :: "parent_block list"
  all_shown :: bool
  inherited_shown :: bool
  grouped_shown :: bool
  headings_shown :: bool
  ancestors_shown :: bool

section \<open>The filter\<close>

definition owner_of :: "string \<Rightarrow> string" where
  "owner_of name =
     (let i = js_index_of name ''#'';
          ownerIndex = (if i < 0 then js_last_index_of_char name (CHR ''.'') else i)
      in js_slice name 0 ownerIndex)"

record filter_env =
  f_query :: string
  f_private :: bool
  f_lin :: "string list"
  f_imp :: "string list"
  f_owner :: bool

definition hidden_supers :: "bool \<Rightarrow> super list \<Rightarrow> super list \<Rightarrow> string list" where
  "hidden_supers inheriting everything out = map sname (if inheriting then everything else out)"

definition env_of :: "page \<Rightarrow> filter_env" where
  "env_of g =
     (let inh = (o_inherit g = In)
      in \<lparr>f_query = member_query (input_val g), f_private = (publicOnly g = In),
          f_lin = hidden_supers inh (tl (linearization g)) (filter (\<lambda>s. on s = Out) (linearization g)),
          f_imp = hidden_supers inh (implicits g) (filter (\<lambda>s. on s = Out) (implicits g)),
          f_owner = (o_alpha g = In \<or> (o_alpha g = Out \<and> o_group g = Some In))\<rparr>)"

text \<open>Whether the callback of \<open>filterFunc\<close> shows a member: the tests in their order.\<close>

definition member_visible :: "filter_env \<Rightarrow> member \<Rightarrow> bool" where
  "member_visible e m =
     (if f_private e \<and> protected m then False
      else if f_owner e \<and> (owner_of (mname m) \<in> set (f_lin e) \<or> owner_of (mname m) \<in> set (f_imp e)) then False
      else if f_query e \<noteq> '''' \<and> \<not> (member_test (f_query e) (mname m) \<or> member_test (f_query e) (mbrText m)) then False
      else True)"

definition filterFunc :: "filter_env \<Rightarrow> member_list \<Rightarrow> member_list" where
  "filterFunc e l =
     (let ms = map (\<lambda>m. m\<lparr>mshown := member_visible e m\<rparr>) (members l)
      in \<lparr>members = ms, list_shown = (\<exists>m \<in> set ms. mshown m)\<rparr>)"

definition filter_block :: "filter_env \<Rightarrow> parent_block \<Rightarrow> parent_block" where
  "filter_block e b = b\<lparr>ptypes := map_option (filterFunc e) (ptypes b), pvalues := map_option (filterFunc e) (pvalues b)\<rparr>"

definition some_list_shown :: "parent_block \<Rightarrow> bool" where
  "some_list_shown b = (\<exists>l \<in> set_option (ptypes b) \<union> set_option (pvalues b). list_shown l)"

definition filter_page :: "page \<Rightarrow> page" where
  "filter_page g =
     (let e = env_of g
      in if o_alpha g = In
         then g\<lparr>all_shown := True, inherited_shown := False, grouped_shown := False,
                types := filterFunc e (types g), vals := filterFunc e (vals g)\<rparr>
         else if o_group g = Some In
         then g\<lparr>grouped_shown := True, inherited_shown := False, all_shown := False,
                groups := map (\<lambda>b. let b' = filter_block e b in b'\<lparr>block_shown := some_list_shown b'\<rparr>) (groups g)\<rparr>
         else if o_inherit g = In
         then g\<lparr>inherited_shown := True, grouped_shown := False, all_shown := False,
                inherited := map (filter_block e) (inherited g)\<rparr>
         else g)"

section \<open>The controls\<close>

definition click_publicOnly :: "page \<Rightarrow> page" where
  "click_publicOnly g =
     (if publicOnly g = Out then filter_page (g\<lparr>publicOnly := In, all_vis := Out\<rparr>) else g)"

definition click_all_vis :: "page \<Rightarrow> page" where
  "click_all_vis g = (if all_vis g = Out then filter_page (g\<lparr>all_vis := In, publicOnly := Out\<rparr>) else g)"

definition flip_nth :: "nat \<Rightarrow> super list \<Rightarrow> super list" where
  "flip_nth i ss = ss[i := (ss ! i)\<lparr>on := flip (on (ss ! i))\<rparr>]"

definition click_linearization :: "nat \<Rightarrow> page \<Rightarrow> page" where
  "click_linearization i g = filter_page (g\<lparr>linearization := flip_nth i (linearization g)\<rparr>)"

definition click_implicit :: "nat \<Rightarrow> page \<Rightarrow> page" where
  "click_implicit i g = filter_page (g\<lparr>implicits := flip_nth i (implicits g)\<rparr>)"

definition set_all :: "io \<Rightarrow> super list \<Rightarrow> super list" where
  "set_all x ss = map (\<lambda>s. s\<lparr>on := x\<rparr>) ss"

definition isHiddenClass :: "string \<Rightarrow> bool" where
  "isHiddenClass n = (n = ''scala.Any'' \<or> n = ''scala.AnyRef'')"

definition first_in :: "super list \<Rightarrow> super list" where
  "first_in ss = (case ss of [] \<Rightarrow> [] | s # rest \<Rightarrow> s\<lparr>on := In\<rparr> # rest)"

definition click_hideall :: "page \<Rightarrow> page" where
  "click_hideall g =
     (let g1 = g\<lparr>linearization := first_in (set_all Out (linearization g)), implicits := set_all Out (implicits g)\<rparr>;
          g2 = (if hideall g1 = Out \<and> showall g1 = In then g1\<lparr>hideall := In, showall := Out\<rparr> else g1)
      in filter_page g2)"

definition click_showall :: "page \<Rightarrow> page" where
  "click_showall g =
     (let g1 = g\<lparr>linearization := map (\<lambda>s. if on s = Out \<and> \<not> isHiddenClass (sname s) then s\<lparr>on := In\<rparr> else s) (linearization g),
                 implicits := map (\<lambda>s. if on s = Out \<and> \<not> data_hidden s then s\<lparr>on := In\<rparr> else s) (implicits g)\<rparr>;
          g2 = (if showall g1 = Out \<and> hideall g1 = In then g1\<lparr>showall := In, hideall := Out\<rparr> else g1)
      in filter_page g2)"

definition orderAlpha :: "page \<Rightarrow> page" where
  "orderAlpha g = filter_page (g\<lparr>o_alpha := In, o_inherit := Out, o_group := map_option (\<lambda>_. Out) (o_group g),
     headings_shown := False, ancestors_shown := True\<rparr>)"

definition orderInherit :: "page \<Rightarrow> page" where
  "orderInherit g = filter_page (g\<lparr>o_inherit := In, o_alpha := Out, o_group := map_option (\<lambda>_. Out) (o_group g),
     headings_shown := True, ancestors_shown := False\<rparr>)"

definition orderGroup :: "page \<Rightarrow> page" where
  "orderGroup g = filter_page (g\<lparr>o_group := map_option (\<lambda>_. In) (o_group g), o_alpha := Out, o_inherit := Out,
     headings_shown := False, ancestors_shown := True\<rparr>)"

definition click_order :: "ordering \<Rightarrow> page \<Rightarrow> page" where
  "click_order x g = (case x of
       Alpha \<Rightarrow> if o_alpha g = Out then orderAlpha g else g
     | Inherit \<Rightarrow> if o_inherit g = Out then orderInherit g else g
     | Group \<Rightarrow> if o_group g = Some Out then orderGroup g else g)"

definition input_key :: "nat \<Rightarrow> page \<Rightarrow> page" where
  "input_key key g =
     (if key = 27 \<or> key = 38 \<or> key = 33 \<or> key = 34 then filter_page (g\<lparr>input_val := ''''\<rparr>) else filter_page g)"

definition exposeMember :: "bool \<Rightarrow> string \<Rightarrow> page \<Rightarrow> page" where
  "exposeMember prt parentName g =
     (let linearizationName = takeWhile (\<lambda>c. c \<noteq> CHR ''#'') parentName;
          g1 = (if prt then click_all_vis g else g);
          g2 = (if linearizationName \<noteq> ''''
                then g1\<lparr>linearization := map (\<lambda>s. if on s = Out \<and> sname s = linearizationName then s\<lparr>on := In\<rparr> else s)
                       (linearization g1)\<rparr> else g1)
      in filter_page g2)"

section \<open>The inheritance lists\<close>

definition append_member :: "member \<Rightarrow> member_list option \<Rightarrow> member_list option" where
  "append_member m l = Some (case l of
       None \<Rightarrow> \<lparr>members = [m], list_shown = True\<rparr>
     | Some l \<Rightarrow> l\<lparr>members := members l @ [m]\<rparr>)"

text \<open>The blocks are kept by name, and a later block of a name replaces the entry of an earlier one.\<close>

definition block_index :: "string \<Rightarrow> parent_block list \<Rightarrow> nat option" where
  "block_index n bs = (case filter (\<lambda>i. pname (bs ! i) = n) (rev [0..<length bs]) of [] \<Rightarrow> None | i # _ \<Rightarrow> Some i)"

definition inherit_owner :: "string \<Rightarrow> string" where
  "inherit_owner qualName = js_slice qualName 0 (js_index_of qualName ''#'')"

definition put_type :: "string \<Rightarrow> member \<Rightarrow> parent_block list \<Rightarrow> parent_block list" where
  "put_type n m bs = (case block_index n bs of None \<Rightarrow> bs
     | Some i \<Rightarrow> bs[i := (bs ! i)\<lparr>ptypes := append_member m (ptypes (bs ! i))\<rparr>])"

definition put_value :: "string \<Rightarrow> member \<Rightarrow> parent_block list \<Rightarrow> parent_block list" where
  "put_value n m bs = (case block_index n bs of None \<Rightarrow> bs
     | Some i \<Rightarrow> bs[i := (bs ! i)\<lparr>pvalues := append_member m (pvalues (bs ! i))\<rparr>])"

definition has_members :: "parent_block \<Rightarrow> bool" where
  "has_members b = (ptypes b \<noteq> None \<or> pvalues b \<noteq> None)"

text \<open>An absent group attribute reads as \<open>undefined\<close>, the name of no block.\<close>

definition initInherit :: "page \<Rightarrow> page" where
  "initInherit g =
     (let inh1 = fold (\<lambda>m. put_type (inherit_owner (mname m)) m) (members (types g)) (inherited g);
          inh2 = fold (\<lambda>m. put_value (inherit_owner (mname m)) m) (members (vals g)) inh1;
          grp1 = fold (\<lambda>m. case mgroup m of None \<Rightarrow> id | Some n \<Rightarrow> put_type n m) (members (types g)) (groups g);
          grp2 = fold (\<lambda>m. case mgroup m of None \<Rightarrow> id | Some n \<Rightarrow> put_value n m) (members (vals g)) grp1
      in g\<lparr>inherited := filter has_members inh2, groups := filter has_members grp2\<rparr>)"

text \<open>The defaults applied on load: hidden classes behind the first are out, and hidden implicits.\<close>

definition load_defaults :: "page \<Rightarrow> page" where
  "load_defaults g = filter_page (g\<lparr>
     linearization := (case linearization g of [] \<Rightarrow> []
        | s # rest \<Rightarrow> s # map (\<lambda>s. if isHiddenClass (sname s) then s\<lparr>on := Out\<rparr> else s) rest),
     implicits := map (\<lambda>s. if data_hidden s then s\<lparr>on := Out\<rparr> else s) (implicits g)\<rparr>)"

end
