(* ===== verification/TemplateProps.thy ===== *)
theory TemplateProps
  imports TemplatePage
begin

text \<open>
  Properties of the entity page: the selector built from a URL hash, the meaning of the search
  expression, which members the filter shows, the exclusiveness of the controls over every
  sequence of events, and the lists of the inheritance view.
\<close>

section \<open>Selectors\<close>

lemma css_unescape_escape: "CHR 0x5C \<notin> set s \<Longrightarrow> css_unescape (escapeJquery s) = s"
  by (induction s) (auto simp: escapeJquery_def)

text \<open>The member a URL names is found: for an identifier without a backslash the selector built from the
  hash is a mark followed by text that a selector engine reads back as that identifier, also when
  the identifier contains marks of its own.\<close>

theorem findElementByHash_selects:
  assumes "CHR 0x5C \<notin> set i"
  shows "\<exists>t. findElementByHash (''#'' @ i) = ''#'' @ t \<and> css_unescape t = i"
  using css_unescape_escape [OF assms] by (simp add: findElementByHash_def)

theorem findElementByHash_selects_witness:
  "\<exists>t. findElementByHash ''#read:Option[T]'' = ''#'' @ t \<and> css_unescape t = ''read:Option[T]''"
  using findElementByHash_selects [of "''read:Option[T]''"] by simp

section \<open>The search expression\<close>

lemma special_not_space: "regex_special c \<Longrightarrow> \<not> is_space c"
  by (auto simp: regex_special_def is_space_def)

lemma backslash_not_space [simp]: "\<not> is_space (CHR 0x5C)"
  by (simp add: is_space_def)

lemma escape_member_Cons [simp]:
  "escape_member [] = []"
  "escape_member (c # s) = (if regex_special c then [CHR 0x5C, c] else [c]) @ escape_member s"
  by (simp_all add: escape_member_def)

lemma escape_word: "\<forall>c \<in> set w. \<not> is_space c \<Longrightarrow> \<forall>c \<in> set (escape_member w). \<not> is_space c"
  by (induction w) auto

lemma escape_takeWhile:
  "takeWhile (\<lambda>c. \<not> is_space c) (escape_member s) = escape_member (takeWhile (\<lambda>c. \<not> is_space c) s)"
  "dropWhile (\<lambda>c. \<not> is_space c) (escape_member s) = escape_member (dropWhile (\<lambda>c. \<not> is_space c) s)"
  "dropWhile is_space (escape_member s) = escape_member (dropWhile is_space s)"
  using special_not_space by (induction s) auto

lemma escape_empty: "escape_member s = [] \<longleftrightarrow> s = []"
  by (cases s) auto

lemma split_escape: "split_ws (escape_member s) = map escape_member (split_ws s)"
proof (induction s rule: split_ws.induct)
  case (1 s)
  then show ?case
    by (subst (1 2) split_ws.simps) (simp add: Let_def escape_takeWhile escape_empty)
qed

lemma read_alts_escape: "read_alts (escape_member w) = [w]"
  by (induction w) (auto simp: regex_special_def)

lemma read_alts_bar: "read_alts (escape_member w @ CHR ''|'' # s) = w # read_alts s"
  by (induction w) (auto simp: regex_special_def)

lemma read_alts_join: "ws \<noteq> [] \<Longrightarrow> read_alts (js_join ''|'' (map escape_member ws)) = ws"
proof (induction ws)
  case (Cons w ws)
  then show ?case by (cases "ws = []") (simp_all add: read_alts_escape read_alts_bar)
qed simp

lemma split_ws_nonempty [simp]: "split_ws s \<noteq> []"
  by (subst split_ws.simps) (simp add: Let_def)

lemma split_ws_chars: "w \<in> set (split_ws s) \<Longrightarrow> set w \<subseteq> set s"
proof (induction s rule: split_ws.induct)
  case (1 s)
  let ?r = "dropWhile is_space (dropWhile (\<lambda>c. \<not> is_space c) s)"
  have r: "set ?r \<subseteq> set s" by (meson set_dropWhileD subsetI)
  have t: "set (takeWhile (\<lambda>c. \<not> is_space c) s) \<subseteq> set s" by (meson set_takeWhileD subsetI)
  have "w = takeWhile (\<lambda>c. \<not> is_space c) s \<or> (dropWhile (\<lambda>c. \<not> is_space c) s \<noteq> [] \<and> w \<in> set (split_ws ?r))"
    using 1(2) by (subst (asm) split_ws.simps) (simp add: Let_def split: if_splits)
  then show ?case using 1(1) [OF refl] r t by blast
qed

lemma to_lower_idem [simp]: "to_lower (to_lower c) = to_lower c"
  by (simp add: to_lower_def Let_def)

lemma lower_word: "w \<in> set (split_ws (js_lower s)) \<Longrightarrow> js_lower w = w"
proof -
  assume "w \<in> set (split_ws (js_lower s))"
  then have "set w \<subseteq> to_lower ` set s" using split_ws_chars by (fastforce simp: js_lower_def)
  then have "\<forall>c \<in> set w. to_lower c = c" by auto
  then show ?thesis by (simp add: js_lower_def map_idI)
qed

lemma member_test_words:
  "member_test (member_query val) s = (\<exists>w \<in> set (split_ws (js_lower (js_trim val))). sublist w (js_lower s))"
  using lower_word by (simp add: member_test_def member_query_def bars_def split_escape read_alts_join)

section \<open>What the filter shows\<close>

lemma js_trim_no_space: "js_trim s = '''' \<or> \<not> is_space (hd (js_trim s))"
proof -
  let ?t = "dropWhile is_space s"
  have "js_trim s = '''' \<or> prefix (js_trim s) ?t"
    unfolding js_trim_def using suffix_dropWhile [of is_space "rev ?t"] by (simp add: suffix_to_prefix)
  moreover have "?t = '''' \<or> \<not> is_space (hd ?t)" using hd_dropWhile by blast
  ultimately show ?thesis by (cases "js_trim s"; cases ?t) auto
qed

lemma member_query_empty: "member_query val = '''' \<longleftrightarrow> js_trim val = ''''"
proof -
  let ?q = "js_lower (js_trim val)"
  have "js_join ''|'' (map escape_member (split_ws ?q)) = '''' \<Longrightarrow> split_ws ?q = ['''']"
    by (cases "split_ws ?q"; cases "tl (split_ws ?q)") (auto simp: escape_empty)
  moreover have "split_ws ?q \<noteq> ['''']" if ne: "js_trim val \<noteq> ''''"
  proof
    assume "split_ws ?q = ['''']"
    then have "dropWhile (\<lambda>c. \<not> is_space c) ?q = '''' \<and> takeWhile (\<lambda>c. \<not> is_space c) ?q = ''''"
      by (subst (asm) split_ws.simps) (simp add: Let_def split: if_splits)
    then have "?q = ''''" by (metis takeWhile_dropWhile_id append_Nil)
    then show False using ne by (simp add: js_lower_def)
  qed
  moreover have "member_query val = ''''" if "js_trim val = ''''"
    using that split_ws_word [of "''''"] by (simp add: member_query_def bars_def js_lower_def)
  ultimately show ?thesis by (auto simp: member_query_def bars_def split_escape)
qed

lemma not_out_names: "n \<in> sname ` {s \<in> A. on s = Out} \<longleftrightarrow> (\<exists>s \<in> A. on s = Out \<and> sname s = n)"
  by auto

text \<open>
  What the page promises of a member, without the regular expression: it is not a protected
  member under "public only", its owner is neither a superclass nor an implicit that is switched
  off, and the search box is blank or one of its words occurs, whatever the case, in the name or
  the comment.
\<close>

definition allowed :: "page \<Rightarrow> member \<Rightarrow> bool" where
  "allowed g m \<longleftrightarrow>
     \<not> (publicOnly g = In \<and> protected m)
     \<and> (\<forall>s \<in> set (linearization g) \<union> set (implicits g). on s = Out \<longrightarrow> sname s \<noteq> owner_of (mname m))
     \<and> (js_trim (input_val g) = '''' \<or> (\<exists>w \<in> set (split_ws (js_lower (js_trim (input_val g)))).
            sublist w (js_lower (mname m)) \<or> sublist w (js_lower (mbrText m))))"

definition shows_allowed :: "page \<Rightarrow> member_list \<Rightarrow> member_list \<Rightarrow> bool" where
  "shows_allowed g l l' \<longleftrightarrow>
     members l' = map (\<lambda>m. m\<lparr>mshown := allowed g m\<rparr>) (members l)
     \<and> list_shown l' = (\<exists>m \<in> set (members l). allowed g m)"

lemma member_visible_allowed:
  assumes "o_alpha g = In" "o_inherit g = Out"
  shows "member_visible (env_of g) m = allowed g m"
proof -
  let ?e = "env_of g"
  have e: "f_query ?e = member_query (input_val g)" "f_private ?e = (publicOnly g = In)" "f_owner ?e"
    "set (f_lin ?e) = sname ` {s \<in> set (linearization g). on s = Out}"
    "set (f_imp ?e) = sname ` {s \<in> set (implicits g). on s = Out}"
    using assms by (simp_all add: env_of_def hidden_supers_def Let_def)
  show ?thesis
    unfolding member_visible_def allowed_def e member_query_empty member_test_words not_out_names using e(3) by auto
qed

text \<open>C35. What the filter shows when the page is ordered by name (the control "Alphabetic" is in and "By
  inheritance" is out): of the type members and of the value members alike, exactly those the page
  promises, each keeping its place in its list; each of the two lists shows exactly when one of
  its members does; and the section of all members is shown, the inherited and the grouped one
  hidden.\<close>

theorem filter_shows_members:
  assumes "o_alpha g = In" "o_inherit g = Out"
  shows "shows_allowed g (types g) (types (filter_page g)) \<and> shows_allowed g (vals g) (vals (filter_page g))
    \<and> all_shown (filter_page g) \<and> \<not> inherited_shown (filter_page g) \<and> \<not> grouped_shown (filter_page g)"
  using assms member_visible_allowed [OF assms]
  by (simp add: shows_allowed_def filter_page_def filterFunc_def Let_def)

section \<open>The controls\<close>

datatype event =
    ClickPublic | ClickAll | ClickLin nat | ClickImplicit nat | ClickHideAll | ClickShowAll
  | ClickOrder ordering | Key nat | Expose bool string

fun handle :: "event \<Rightarrow> page \<Rightarrow> page" where
  "handle ClickPublic g = click_publicOnly g"
| "handle ClickAll g = click_all_vis g"
| "handle (ClickLin i) g = click_linearization i g"
| "handle (ClickImplicit i) g = click_implicit i g"
| "handle ClickHideAll g = click_hideall g"
| "handle ClickShowAll g = click_showall g"
| "handle (ClickOrder x) g = click_order x g"
| "handle (Key k) g = input_key k g"
| "handle (Expose b n) g = exposeMember b n g"

definition controls_ok :: "page \<Rightarrow> bool" where
  "controls_ok g \<longleftrightarrow> publicOnly g \<noteq> all_vis g \<and> hideall g \<noteq> showall g
     \<and> length (filter (\<lambda>x. x = Some In) [Some (o_alpha g), Some (o_inherit g), o_group g]) = 1"

definition sections_ok :: "page \<Rightarrow> bool" where
  "sections_ok g \<longleftrightarrow> all_shown g = (o_alpha g = In) \<and> inherited_shown g = (o_inherit g = In)
     \<and> grouped_shown g = (o_group g = Some In)"

lemma filter_page_controls [simp]:
  "publicOnly (filter_page g) = publicOnly g" "all_vis (filter_page g) = all_vis g" "o_alpha (filter_page g) = o_alpha g"
  "o_inherit (filter_page g) = o_inherit g" "o_group (filter_page g) = o_group g" "hideall (filter_page g) = hideall g"
  "showall (filter_page g) = showall g" "linearization (filter_page g) = linearization g"
  "implicits (filter_page g) = implicits g" "input_val (filter_page g) = input_val g"
  by (simp_all add: filter_page_def Let_def)

lemma controls_filter [simp]: "controls_ok (filter_page g) = controls_ok g"
  by (simp add: controls_ok_def)

lemma controls_other [simp]:
  "controls_ok (g\<lparr>linearization := l\<rparr>) = controls_ok g" "controls_ok (g\<lparr>implicits := i\<rparr>) = controls_ok g"
  "controls_ok (g\<lparr>input_val := v\<rparr>) = controls_ok g"
  by (simp_all add: controls_ok_def)

lemma io_cases: "x = In \<or> x = Out" for x :: io
  by (cases x) simp_all

lemma sections_filter: "controls_ok g \<Longrightarrow> sections_ok (filter_page g)"
  using io_cases [of "o_alpha g"] io_cases [of "o_inherit g"]
  by (cases "o_group g = Some In") (auto simp: controls_ok_def sections_ok_def filter_page_def Let_def)

lemma order_ok:
  assumes "controls_ok g"
  shows "controls_ok (orderAlpha g) \<and> sections_ok (orderAlpha g)" "controls_ok (orderInherit g) \<and> sections_ok (orderInherit g)"
    "o_group g = Some Out \<Longrightarrow> controls_ok (orderGroup g) \<and> sections_ok (orderGroup g)"
proof -
  have step: "controls_ok (filter_page h) \<and> sections_ok (filter_page h)" if "controls_ok h" for h
    using that sections_filter by simp
  have grp: "map_option (\<lambda>_. Out) (o_group g) \<noteq> Some In" by (cases "o_group g") simp_all
  show "controls_ok (orderAlpha g) \<and> sections_ok (orderAlpha g)"
    unfolding orderAlpha_def by (rule step) (use assms grp in \<open>simp add: controls_ok_def\<close>)
  show "controls_ok (orderInherit g) \<and> sections_ok (orderInherit g)"
    unfolding orderInherit_def by (rule step) (use assms grp in \<open>simp add: controls_ok_def\<close>)
  show "controls_ok (orderGroup g) \<and> sections_ok (orderGroup g)" if "o_group g = Some Out"
    unfolding orderGroup_def by (rule step) (use assms that in \<open>simp add: controls_ok_def\<close>)
qed

lemma handle_ok: "controls_ok g \<Longrightarrow> sections_ok g \<Longrightarrow> controls_ok (handle e g) \<and> sections_ok (handle e g)"
proof -
  assume ok: "controls_ok g" "sections_ok g"
  have step: "controls_ok (filter_page h) \<and> sections_ok (filter_page h)" if "controls_ok h" for h
    using that sections_filter by simp
  have ctl: "controls_ok (g\<lparr>publicOnly := In, all_vis := Out\<rparr>)" "controls_ok (g\<lparr>all_vis := In, publicOnly := Out\<rparr>)"
    "controls_ok (g\<lparr>linearization := l\<rparr>)" "controls_ok (g\<lparr>implicits := i\<rparr>)" "controls_ok (g\<lparr>input_val := v\<rparr>)"
    "controls_ok (g\<lparr>linearization := l, implicits := i\<rparr>)"
    "controls_ok (g\<lparr>linearization := l, implicits := i, hideall := In, showall := Out\<rparr>)"
    "controls_ok (g\<lparr>linearization := l, implicits := i, showall := In, hideall := Out\<rparr>)" for l i v
    using ok(1) by (simp_all add: controls_ok_def)
  show ?thesis
  proof (cases e)
    case (ClickOrder x)
    then show ?thesis using ok order_ok [OF ok(1)] by (cases x) (simp_all add: click_order_def)
  next
    case (Expose b n)
    have "controls_ok (click_all_vis g)" using ok(1) ctl(2) step by (simp add: click_all_vis_def)
    then show ?thesis using ok(1) Expose by (simp add: exposeMember_def Let_def sections_filter)
  qed (use ok ctl step in \<open>simp_all add: click_publicOnly_def click_all_vis_def click_linearization_def
      click_implicit_def click_hideall_def click_showall_def input_key_def Let_def sections_filter\<close>)
qed

text \<open>The controls stay exclusive: from a page whose controls are, after any sequence of clicks, keys and
  jumps to a member, exactly one of the two visibility choices and one of hide all and show all is
  in, exactly one ordering is in, and exactly the section of that ordering is displayed.\<close>

theorem controls_stay_exclusive:
  assumes "controls_ok g" "sections_ok g"
  shows "controls_ok (fold handle es g) \<and> sections_ok (fold handle es g)"
  using assms by (induction es arbitrary: g) (simp_all add: handle_ok)

text \<open>Show all and hide all mean it: after show all every superclass but the two hidden ones and every
  implicit that is not hidden is on; after hide all the first of the linearization alone is on;
  neither changes names or order, and show all after hide all gives what show all gives at once
  when the hidden ones were off.\<close>

theorem showall_hideall:
  assumes "\<forall>s \<in> set (tl (linearization g)). isHiddenClass (sname s) \<longrightarrow> on s = Out"
    and "\<forall>s \<in> set (implicits g). data_hidden s \<longrightarrow> on s = Out"
    and "linearization g \<noteq> []" "on (hd (linearization g)) = In"
  shows "linearization (click_showall (click_hideall g)) = linearization (click_showall g)
    \<and> implicits (click_showall (click_hideall g)) = implicits (click_showall g)
    \<and> (\<forall>s \<in> set (linearization (click_showall g)). \<not> isHiddenClass (sname s) \<longrightarrow> on s = In)
    \<and> (\<forall>s \<in> set (tl (linearization (click_hideall g))). on s = Out)"
proof -
  obtain s rest where l: "linearization g = s # rest" using assms(3) by (cases "linearization g") auto
  have out: "on x = Out" if "on x \<noteq> In" for x :: super using that io_cases by blast
  have lin: "linearization (click_showall g) = s # map (\<lambda>s. if on s = Out \<and> \<not> isHiddenClass (sname s) then s\<lparr>on := In\<rparr> else s) rest"
    "linearization (click_hideall g) = s\<lparr>on := In\<rparr> # map (\<lambda>s. s\<lparr>on := Out\<rparr>) rest"
    "linearization (click_showall (click_hideall g)) =
      s\<lparr>on := In\<rparr> # map (\<lambda>s. if \<not> isHiddenClass (sname s) then s\<lparr>on := In\<rparr> else s\<lparr>on := Out\<rparr>) rest"
    using l assms(4) by (simp_all add: click_showall_def click_hideall_def Let_def set_all_def first_in_def)
  have imp: "implicits (click_showall (click_hideall g)) =
      map (\<lambda>s. if \<not> data_hidden s then s\<lparr>on := In\<rparr> else s\<lparr>on := Out\<rparr>) (implicits g)"
    "implicits (click_showall g) = map (\<lambda>s. if on s = Out \<and> \<not> data_hidden s then s\<lparr>on := In\<rparr> else s) (implicits g)"
    by (simp_all add: click_showall_def click_hideall_def Let_def set_all_def)
  have s: "s\<lparr>on := In\<rparr> = s" using assms(4) l by simp
  have mlin: "map (\<lambda>s. if \<not> isHiddenClass (sname s) then s\<lparr>on := In\<rparr> else s\<lparr>on := Out\<rparr>) rest
      = map (\<lambda>s. if on s = Out \<and> \<not> isHiddenClass (sname s) then s\<lparr>on := In\<rparr> else s) rest"
  proof (rule map_cong [OF refl])
    fix x assume "x \<in> set rest"
    then have h: "isHiddenClass (sname x) \<Longrightarrow> on x = Out" using assms(1) l by simp
    show "(if \<not> isHiddenClass (sname x) then x\<lparr>on := In\<rparr> else x\<lparr>on := Out\<rparr>)
        = (if on x = Out \<and> \<not> isHiddenClass (sname x) then x\<lparr>on := In\<rparr> else x)"
      using h out [of x] by (cases "isHiddenClass (sname x)"; cases "on x = In") simp_all
  qed
  have mimp: "map (\<lambda>s. if \<not> data_hidden s then s\<lparr>on := In\<rparr> else s\<lparr>on := Out\<rparr>) (implicits g)
      = map (\<lambda>s. if on s = Out \<and> \<not> data_hidden s then s\<lparr>on := In\<rparr> else s) (implicits g)"
  proof (rule map_cong [OF refl])
    fix x assume "x \<in> set (implicits g)"
    then have h: "data_hidden x \<Longrightarrow> on x = Out" using assms(2) by simp
    show "(if \<not> data_hidden x then x\<lparr>on := In\<rparr> else x\<lparr>on := Out\<rparr>)
        = (if on x = Out \<and> \<not> data_hidden x then x\<lparr>on := In\<rparr> else x)"
      using h out [of x] by (cases "data_hidden x"; cases "on x = In") simp_all
  qed
  have all_in: "\<forall>x \<in> set (linearization (click_showall g)). \<not> isHiddenClass (sname x) \<longrightarrow> on x = In"
  proof
    fix x assume "x \<in> set (linearization (click_showall g))"
    then have "x = s \<or> (\<exists>y. x = (if on y = Out \<and> \<not> isHiddenClass (sname y) then y\<lparr>on := In\<rparr> else y))"
      unfolding lin(1) set_simps set_map by blast
    then consider "x = s" | y where "x = (if on y = Out \<and> \<not> isHiddenClass (sname y) then y\<lparr>on := In\<rparr> else y)"
      by blast
    then show "\<not> isHiddenClass (sname x) \<longrightarrow> on x = In"
    proof cases
      case 1
      then show ?thesis using assms(4) l by simp
    next
      case (2 y)
      then show ?thesis using out [of y] by (cases "on y = In") simp_all
    qed
  qed
  have "\<forall>x \<in> set (tl (linearization (click_hideall g))). on x = Out" unfolding lin(2) by simp
  moreover have "linearization (click_showall (click_hideall g)) = linearization (click_showall g)"
    unfolding lin(3) lin(1) mlin s by (rule refl)
  moreover have "implicits (click_showall (click_hideall g)) = implicits (click_showall g)"
    unfolding imp mimp by (rule refl)
  ultimately show ?thesis using all_in by blast
qed

section \<open>The inheritance lists\<close>

lemma filter_upt_single: "i < n \<Longrightarrow> filter (\<lambda>j. j = i) [0..<n] = [i]"
  by (induction n) (auto simp: less_Suc_eq)

lemma block_index_distinct:
  assumes "distinct (map pname bs)" "i < length bs"
  shows "block_index (pname (bs ! i)) bs = Some i"
proof -
  have "pname (bs ! j) = pname (bs ! i) \<longleftrightarrow> j = i" if "j \<in> set [0..<length bs]" for j
    using assms that nth_eq_iff_index_eq [of "map pname bs" j i] by auto
  then have "filter (\<lambda>j. pname (bs ! j) = pname (bs ! i)) [0..<length bs] = filter (\<lambda>j. j = i) [0..<length bs]"
    by (rule filter_cong [OF refl])
  then show ?thesis using filter_upt_single [OF assms(2)] by (simp add: block_index_def rev_filter [symmetric])
qed

lemma block_index_none: "n \<notin> pname ` set bs \<Longrightarrow> block_index n bs = None"
proof -
  assume n: "n \<notin> pname ` set bs"
  have "pname (bs ! i) \<noteq> n" if "i < length bs" for i using n nth_mem [OF that] by blast
  then have "filter (\<lambda>i. pname (bs ! i) = n) (rev [0..<length bs]) = []" by (simp add: filter_empty_conv)
  then show ?thesis by (simp add: block_index_def)
qed

lemma put_map:
  assumes "distinct (map pname bs)" "\<And>b. pname (f b) = pname b"
  shows "(case block_index n bs of None \<Rightarrow> bs | Some i \<Rightarrow> bs[i := f (bs ! i)])
    = map (\<lambda>b. if pname b = n then f b else b) bs"
proof (cases "n \<in> pname ` set bs")
  case True
  then obtain i where i: "i < length bs" "pname (bs ! i) = n" by (auto simp: in_set_conv_nth)
  have "pname (bs ! j) = n \<longleftrightarrow> j = i" if "j < length bs" for j
    using assms(1) that i nth_eq_iff_index_eq [of "map pname bs" j i] by auto
  then have "bs[i := f (bs ! i)] = map (\<lambda>b. if pname b = n then f b else b) bs"
    using i(1) by (intro nth_equalityI) (auto simp: nth_list_update)
  then show ?thesis using block_index_distinct [OF assms(1) i(1)] i(2) by simp
next
  case False
  then have "map (\<lambda>b. if pname b = n then f b else b) bs = bs" by (intro map_idI) auto
  then show ?thesis using block_index_none [OF False] by simp
qed

lemma put_type_map: "distinct (map pname bs) \<Longrightarrow> put_type n m bs =
    map (\<lambda>b. if pname b = n then b\<lparr>ptypes := append_member m (ptypes b)\<rparr> else b) bs"
  unfolding put_type_def using put_map [of bs "\<lambda>b. b\<lparr>ptypes := append_member m (ptypes b)\<rparr>" n] by simp

lemma put_value_map: "distinct (map pname bs) \<Longrightarrow> put_value n m bs =
    map (\<lambda>b. if pname b = n then b\<lparr>pvalues := append_member m (pvalues b)\<rparr> else b) bs"
  unfolding put_value_def using put_map [of bs "\<lambda>b. b\<lparr>pvalues := append_member m (pvalues b)\<rparr>" n] by simp

definition under :: "('m \<Rightarrow> string) \<Rightarrow> 'm list \<Rightarrow> string \<Rightarrow> 'm list" where
  "under owner ms n = filter (\<lambda>m. owner m = n) ms"

lemma fold_put_type:
  "distinct (map pname bs) \<Longrightarrow> fold (\<lambda>m. put_type (owner m) m) ms bs =
    map (\<lambda>b. b\<lparr>ptypes := fold append_member (under owner ms (pname b)) (ptypes b)\<rparr>) bs"
proof (induction ms arbitrary: bs)
  case (Cons m ms)
  let ?bs = "map (\<lambda>b. if pname b = owner m then b\<lparr>ptypes := append_member m (ptypes b)\<rparr> else b) bs"
  have "map pname ?bs = map pname bs" by (auto intro: map_cong)
  then have "distinct (map pname ?bs)" using Cons.prems by (simp only:)
  from Cons.IH [OF this] show ?case
    unfolding fold_Cons comp_apply put_type_map [OF Cons.prems] by (simp add: under_def cong: map_cong)
qed (simp add: under_def)

lemma fold_put_value:
  "distinct (map pname bs) \<Longrightarrow> fold (\<lambda>m. put_value (owner m) m) ms bs =
    map (\<lambda>b. b\<lparr>pvalues := fold append_member (under owner ms (pname b)) (pvalues b)\<rparr>) bs"
proof (induction ms arbitrary: bs)
  case (Cons m ms)
  let ?bs = "map (\<lambda>b. if pname b = owner m then b\<lparr>pvalues := append_member m (pvalues b)\<rparr> else b) bs"
  have "map pname ?bs = map pname bs" by (auto intro: map_cong)
  then have "distinct (map pname ?bs)" using Cons.prems by (simp only:)
  from Cons.IH [OF this] show ?case
    unfolding fold_Cons comp_apply put_value_map [OF Cons.prems] by (simp add: under_def cong: map_cong)
qed (simp add: under_def)

definition as_list :: "member list \<Rightarrow> member_list option" where
  "as_list ms = (if ms = [] then None else Some \<lparr>members = ms, list_shown = True\<rparr>)"

lemma fold_append_some:
  "fold append_member ms (Some l) = Some (l\<lparr>members := members l @ ms\<rparr>)"
  by (induction ms arbitrary: l) (simp_all add: append_member_def)

lemma fold_append_none: "fold append_member ms None = as_list ms"
  by (cases ms) (simp_all add: append_member_def as_list_def fold_append_some)

text \<open>The inheritance view holds every member once, under its owner: a heading gets, in order, exactly the
  type members and the value members whose qualified name has the heading's name before its mark,
  and the headings left are those that got a member.\<close>

theorem initInherit_groups_by_owner:
  assumes "distinct (map pname (inherited g))" "\<forall>b \<in> set (inherited g). ptypes b = None \<and> pvalues b = None"
  shows "inherited (initInherit g) = filter has_members (map (\<lambda>b. b\<lparr>
      ptypes := as_list (under (\<lambda>m. inherit_owner (mname m)) (members (types g)) (pname b)),
      pvalues := as_list (under (\<lambda>m. inherit_owner (mname m)) (members (vals g)) (pname b))\<rparr>) (inherited g))"
proof -
  let ?own = "\<lambda>m. inherit_owner (mname m)"
  let ?t = "fold (\<lambda>m. put_type (?own m) m) (members (types g)) (inherited g)"
  have t: "?t = map (\<lambda>b. b\<lparr>ptypes := fold append_member (under ?own (members (types g)) (pname b)) (ptypes b)\<rparr>) (inherited g)"
    by (rule fold_put_type [OF assms(1)])
  then have "map pname ?t = map pname (inherited g)" by simp
  then have d: "distinct (map pname ?t)" using assms(1) by simp
  have "fold (\<lambda>m. put_value (?own m) m) (members (vals g)) ?t = map (\<lambda>b. b\<lparr>
      ptypes := as_list (under ?own (members (types g)) (pname b)),
      pvalues := as_list (under ?own (members (vals g)) (pname b))\<rparr>) (inherited g)"
    unfolding fold_put_value [OF d] unfolding t map_map comp_def
    using assms(2) by (intro map_cong [OF refl]) (simp add: fold_append_none)
  then show ?thesis by (simp add: initInherit_def Let_def)
qed

section \<open>Witnesses\<close>

definition demo_member :: "string \<Rightarrow> bool \<Rightarrow> member" where
  "demo_member n p = \<lparr>mname = n, protected = p, mbrText = '''', mgroup = None, mshown = True\<rparr>"

definition demo_block :: "string \<Rightarrow> parent_block" where
  "demo_block n = \<lparr>pname = n, conversion = False, ptypes = None, pvalues = None, block_shown = True\<rparr>"

definition demo_template :: page where
  "demo_template = \<lparr>publicOnly = In, all_vis = Out, o_alpha = In, o_inherit = Out, o_group = None,
     linearization = [\<lparr>sname = ''stm.STMPtr'', data_hidden = False, on = In\<rparr>, \<lparr>sname = ''scala.Any'', data_hidden = False, on = Out\<rparr>],
     implicits = [], hideall = Out, showall = In, input_val = ''rea'',
     types = \<lparr>members = [demo_member ''stm.STMPtr#read'' False, demo_member ''stm.STMPtr#init'' True], list_shown = True\<rparr>,
     vals = \<lparr>members = [], list_shown = True\<rparr>, inherited = [demo_block ''stm.STMPtr'', demo_block ''scala.Any''],
     groups = [], all_shown = True, inherited_shown = False, grouped_shown = False, headings_shown = False,
     ancestors_shown = True\<rparr>"

definition demo_valued :: page where
  "demo_valued = demo_template\<lparr>vals := \<lparr>members = [demo_member ''scala.Any#hash'' False], list_shown = True\<rparr>\<rparr>"

theorem filter_shows_members_witness:
  "all_shown (filter_page demo_valued) \<and> map mshown (members (types (filter_page demo_valued))) = [True, False]
   \<and> map mshown (members (vals (filter_page demo_valued))) = [False] \<and> \<not> list_shown (vals (filter_page demo_valued))"
proof -
  have q: "split_ws (js_lower (js_trim ''rea'')) = [''rea'']" "sublist ''rea'' (js_lower ''stm.STMPtr#read'')"
    "owner_of ''stm.STMPtr#read'' = ''stm.STMPtr''" "owner_of ''scala.Any#hash'' = ''scala.Any''" by code_simp+
  show ?thesis
    using filter_shows_members [of demo_valued] q
    by (simp add: shows_allowed_def allowed_def demo_valued_def demo_template_def demo_member_def)
qed

theorem controls_stay_exclusive_witness:
  "controls_ok (fold handle [ClickAll, ClickHideAll, ClickOrder Inherit] demo_template)"
  using controls_stay_exclusive [of demo_template "[ClickAll, ClickHideAll, ClickOrder Inherit]"]
  by (simp add: controls_ok_def sections_ok_def demo_template_def)

theorem showall_hideall_witness:
  "linearization (click_showall (click_hideall demo_template)) = linearization (click_showall demo_template)"
  using showall_hideall [of demo_template] by (simp add: demo_template_def)

theorem initInherit_groups_by_owner_witness:
  "map pname (inherited (initInherit demo_template)) = [''stm.STMPtr'']"
proof -
  have o: "inherit_owner ''stm.STMPtr#read'' = ''stm.STMPtr''" "inherit_owner ''stm.STMPtr#init'' = ''stm.STMPtr''" by code_simp+
  show ?thesis using initInherit_groups_by_owner [of demo_template]
    by (simp add: demo_template_def demo_block_def demo_member_def under_def as_list_def has_members_def o)
qed

end
