(* ===== verification/LayoutOptions.thy ===== *)
theory LayoutOptions
  imports Prelude "HOL-Library.AList"
begin

text \<open>
  The options of \<open>lib/jquery.layout.js\<close> before they reach the panes: JavaScript objects as ordered
  association lists, \<open>transformData\<close>, which turns flat keys such as \<open>west__size\<close> into nested objects,
  and the renaming of the options of older versions.  Arrays and functions are not among the values.
\<close>

section \<open>Objects\<close>

datatype jsval = JNull | JBool bool | JNum int | JStr string | JObj "(string \<times> jsval) list"

type_synonym jsobj = "(string \<times> jsval) list"

datatype js_error = JsTypeError

fun truthy :: "jsval \<Rightarrow> bool" where
  "truthy JNull = False"
| "truthy (JBool b) = b"
| "truthy (JNum n) = (n \<noteq> 0)"
| "truthy (JStr s) = (s \<noteq> [])"
| "truthy (JObj ob) = True"

fun is_obj :: "jsval \<Rightarrow> bool" where
  "is_obj (JObj ob) = True"
| "is_obj v = False"

text \<open>What the path of keys reads; a property of a value that is no object is undefined.\<close>

fun get_path :: "string list \<Rightarrow> jsobj \<Rightarrow> jsval option" where
  "get_path [] ob = Some (JObj ob)"
| "get_path (k # ks) ob =
     (case map_of ob k of
        None \<Rightarrow> None
      | Some (JObj b) \<Rightarrow> get_path ks b
      | Some v \<Rightarrow> if ks = [] then Some v else None)"

section \<open>Flat keys\<close>

fun split_dunder :: "string \<Rightarrow> string list" where
  "split_dunder [] = [[]]"
| "split_dunder [c] = [[c]]"
| "split_dunder (c # d # s) =
     (if c = CHR ''_'' \<and> d = CHR ''_'' then [] # split_dunder s
      else (case split_dunder (d # s) of [] \<Rightarrow> [[c]] | y # ys \<Rightarrow> (c # y) # ys))"

text \<open>
  One flat key.  Assigning to a property of a value that is no object is ignored; going on from the
  undefined property it has instead fails.
\<close>

fun put_path :: "string list \<Rightarrow> jsval \<Rightarrow> jsobj \<Rightarrow> js_error + jsobj" where
  "put_path [] v ob = Inr ob"
| "put_path [k] v ob = Inr (AList.update k v ob)"
| "put_path (k # k2 # ks) v ob =
     (case map_of ob k of
        Some (JObj b) \<Rightarrow> map_sum id (\<lambda>b'. AList.update k (JObj b') ob) (put_path (k2 # ks) v b)
      | Some x \<Rightarrow> if truthy x then (if ks = [] then Inr ob else Inl JsTypeError)
                  else map_sum id (\<lambda>b'. AList.update k (JObj b') ob) (put_path (k2 # ks) v [])
      | None \<Rightarrow> map_sum id (\<lambda>b'. AList.update k (JObj b') ob) (put_path (k2 # ks) v []))"

definition empty_json :: jsobj where
  "empty_json = [(''panes'', JObj []), (''center'', JObj [])]"

fun put_all :: "jsobj \<Rightarrow> jsobj \<Rightarrow> js_error + jsobj" where
  "put_all [] json = Inr json"
| "put_all ((k, v) # hash) json = (case put_path (split_dunder k) v json of Inl e \<Rightarrow> Inl e | Inr j \<Rightarrow> put_all hash j)"

definition transformData :: "jsval \<Rightarrow> js_error + jsobj" where
  "transformData hash = (case hash of JObj kvs \<Rightarrow> put_all kvs empty_json | _ \<Rightarrow> Inr empty_json)"

section \<open>Old option names\<close>

text \<open>\<open>getBranch\<close> with \<open>create\<close>, and the assignment to the branch it answers.\<close>

fun put_create :: "string list \<Rightarrow> jsval \<Rightarrow> jsobj \<Rightarrow> jsobj" where
  "put_create [] v ob = ob"
| "put_create [k] v ob = AList.update k v ob"
| "put_create (k # k2 # ks) v ob =
     (case map_of ob k of
        Some (JObj b) \<Rightarrow> AList.update k (JObj (put_create (k2 # ks) v b)) ob
      | None \<Rightarrow> AList.update k (JObj (put_create (k2 # ks) v [])) ob
      | Some JNull \<Rightarrow> AList.update k (JObj (put_create (k2 # ks) v [])) ob
      | Some _ \<Rightarrow> ob)"

fun delete_path :: "string list \<Rightarrow> jsobj \<Rightarrow> jsobj" where
  "delete_path [] ob = ob"
| "delete_path [k] ob = AList.delete k ob"
| "delete_path (k # k2 # ks) ob =
     (case map_of ob k of Some (JObj b) \<Rightarrow> AList.update k (JObj (delete_path (k2 # ks) b)) ob | _ \<Rightarrow> ob)"

definition rename_map :: "(string \<times> string) list" where
  "rename_map =
     [(''applyDefaultStyles'', ''applyDemoStyles''),
      (''resizeNestedLayout'', ''resizeChildLayout''),
      (''resizeWhileDragging'', ''livePaneResizing''),
      (''resizeContentWhileDragging'', ''liveContentResizing''),
      (''triggerEventsWhileDragging'', ''triggerEventsDuringLiveResize''),
      (''maskIframesOnResize'', ''maskContents''),
      (''useStateCookie'', ''stateManagement.enabled''),
      (''cookie.autoLoad'', ''stateManagement.autoLoad''),
      (''cookie.autoSave'', ''stateManagement.autoSave''),
      (''cookie.keys'', ''stateManagement.stateKeys''),
      (''cookie.name'', ''stateManagement.cookie.name''),
      (''cookie.domain'', ''stateManagement.cookie.domain''),
      (''cookie.path'', ''stateManagement.cookie.path''),
      (''cookie.expires'', ''stateManagement.cookie.expires''),
      (''cookie.secure'', ''stateManagement.cookie.secure''),
      (''noRoomToOpenTip'', ''tips.noRoomToOpen''),
      (''togglerTip_open'', ''tips.Close''),
      (''togglerTip_closed'', ''tips.Open''),
      (''resizerTip'', ''tips.Resize''),
      (''sliderTip'', ''tips.Slide'')]"

definition rename_one :: "string list \<Rightarrow> string list \<Rightarrow> jsobj \<Rightarrow> jsobj" where
  "rename_one old new ob =
     (case get_path old ob of None \<Rightarrow> ob | Some v \<Rightarrow> delete_path old (put_create new v ob))"

fun rename_paths :: "(string list \<times> string list) list \<Rightarrow> jsobj \<Rightarrow> jsobj" where
  "rename_paths [] ob = ob"
| "rename_paths ((old, new) # m) ob = rename_paths m (rename_one old new ob)"

definition path_map :: "(string list \<times> string list) list" where
  "path_map = map (\<lambda>(a, b). (js_split (CHR ''.'') a, js_split (CHR ''.'') b)) rename_map"

definition renameOptions :: "jsobj \<Rightarrow> jsobj" where
  "renameOptions = rename_paths path_map"

text \<open>\<open>$.extend(true, target, source)\<close>.\<close>

fun deep_extend :: "jsobj \<Rightarrow> jsobj \<Rightarrow> jsobj" where
  "deep_extend t [] = t"
| "deep_extend t ((k, JObj b) # xs) =
     deep_extend (AList.update k (JObj (deep_extend (case map_of t k of Some (JObj a) \<Rightarrow> a | _ \<Rightarrow> []) b)) t) xs"
| "deep_extend t ((k, v) # xs) = deep_extend (AList.update k v t) xs"

text \<open>\<open>renameAllOptions\<close>: the root, \<open>defaults\<close> into \<open>panes\<close>, \<open>panes\<close>, and each pane.\<close>

definition rename_branch :: "string \<Rightarrow> jsobj \<Rightarrow> jsobj" where
  "rename_branch k ob = (case map_of ob k of Some (JObj b) \<Rightarrow> AList.update k (JObj (renameOptions b)) ob | _ \<Rightarrow> ob)"

definition merge_defaults :: "jsobj \<Rightarrow> jsobj" where
  "merge_defaults ob =
     (case map_of ob ''defaults'' of
        None \<Rightarrow> ob
      | Some d \<Rightarrow>
          (if \<not> truthy d then ob
           else (let p = (case map_of ob ''panes'' of Some (JObj p) \<Rightarrow> p | _ \<Rightarrow> []);
                     e = (case d of JObj b \<Rightarrow> b | _ \<Rightarrow> [])
                 in AList.delete ''defaults''
                      (if map_of ob ''panes'' = Some JNull then ob
                       else AList.update ''panes'' (JObj (deep_extend p e)) ob))))"

definition allPanes :: "string list" where
  "allPanes = [''north'', ''south'', ''west'', ''east'', ''center'']"

definition borderPanes :: "string list" where
  "borderPanes = [''north'', ''south'', ''west'', ''east'']"

definition renameAllOptions :: "jsobj \<Rightarrow> jsobj" where
  "renameAllOptions ob = fold rename_branch allPanes (rename_branch ''panes'' (merge_defaults (renameOptions ob)))"

section \<open>Paths\<close>

lemmas al_simps [simp] = update_conv delete_conv

text \<open>No value on the way of a path is anything but an object.\<close>

fun fits :: "string list \<Rightarrow> jsobj \<Rightarrow> bool" where
  "fits [] ob = True"
| "fits [k] ob = True"
| "fits (k # k2 # ks) ob = (case map_of ob k of None \<Rightarrow> True | Some (JObj b) \<Rightarrow> fits (k2 # ks) b | Some _ \<Rightarrow> False)"

text \<open>The same, with null allowed on the way.\<close>

fun creatable :: "string list \<Rightarrow> jsobj \<Rightarrow> bool" where
  "creatable [] ob = True"
| "creatable [k] ob = True"
| "creatable (k # k2 # ks) ob =
     (case map_of ob k of None \<Rightarrow> True | Some JNull \<Rightarrow> True | Some (JObj b) \<Rightarrow> creatable (k2 # ks) b | Some _ \<Rightarrow> False)"

definition apart :: "string list \<Rightarrow> string list \<Rightarrow> bool" where
  "apart p q = (\<not> prefix p q \<and> \<not> prefix q p)"

lemma apart_Cons [simp]: "apart (a # p) (b # q) = (a \<noteq> b \<or> apart p q)" "\<not> apart [] q" "\<not> apart p []"
  by (auto simp: apart_def)

lemma apart_sym: "apart p q = apart q p"
  by (auto simp: apart_def)

lemma fits_Nil [simp]: "fits p []"
  by (induction p "[] :: jsobj" rule: fits.induct) simp_all

lemma creatable_Nil [simp]: "creatable p []"
  by (induction p "[] :: jsobj" rule: creatable.induct) simp_all

lemma get_path_Nil [simp]: "p \<noteq> [] \<Longrightarrow> get_path p [] = None"
  by (cases p) simp_all

text \<open>The object at a key, empty if there is none; every function of a path goes on from it.\<close>

definition sub :: "string \<Rightarrow> jsobj \<Rightarrow> jsobj" where
  "sub k ob = (case map_of ob k of Some (JObj b) \<Rightarrow> b | _ \<Rightarrow> [])"

lemma sub_update [simp]: "sub k (AList.update k (JObj b) ob) = b" "a \<noteq> k \<Longrightarrow> sub a (AList.update k v ob) = sub a ob"
  "sub k [] = []"
  by (simp_all add: sub_def)

lemma get_path_sub: "get_path (k # k2 # ks) ob = get_path (k2 # ks) (sub k ob)"
  by (auto simp: sub_def split: option.splits jsval.splits)

lemma fits_sub: "fits (k # k2 # ks) ob \<Longrightarrow> fits (k2 # ks) (sub k ob)"
  by (auto simp: sub_def split: option.splits jsval.splits)

lemma creatable_sub: "creatable (k # k2 # ks) ob \<Longrightarrow> creatable (k2 # ks) (sub k ob)"
  by (auto simp: sub_def split: option.splits jsval.splits)

lemma put_path_sub:
  "fits (k # k2 # ks) ob \<Longrightarrow>
     put_path (k # k2 # ks) v ob = map_sum id (\<lambda>b. AList.update k (JObj b) ob) (put_path (k2 # ks) v (sub k ob))"
  by (auto simp: sub_def split: option.splits jsval.splits)

lemma put_create_sub:
  "creatable (k # k2 # ks) ob \<Longrightarrow> put_create (k # k2 # ks) v ob = AList.update k (JObj (put_create (k2 # ks) v (sub k ob))) ob"
  by (auto simp: sub_def split: option.splits jsval.splits)

lemma fits_other: "a \<noteq> k \<Longrightarrow> fits (a # q) (AList.update k v ob) = fits (a # q) ob"
  by (cases q) simp_all

lemma creatable_other: "a \<noteq> k \<Longrightarrow> creatable (a # q) (AList.update k v ob) = creatable (a # q) ob"
  by (cases q) simp_all

lemma get_path_other: "a \<noteq> k \<Longrightarrow> get_path (a # q) (AList.update k v ob) = get_path (a # q) ob"
  by simp

text \<open>Both ways of writing agree where both work.\<close>

lemma put_path_create: "fits p ob \<Longrightarrow> creatable p ob \<and> put_path p v ob = Inr (put_create p v ob)"
proof (induction p arbitrary: ob)
  case (Cons k p)
  show ?case
  proof (cases p)
    case (Cons k2 ks)
    have f: "fits (k2 # ks) (sub k ob)" using Cons.prems fits_sub unfolding Cons by blast
    have c: "creatable (k # k2 # ks) ob" using Cons.prems Cons.IH [of "sub k ob"] f unfolding Cons
      by (auto simp: sub_def split: option.splits jsval.splits)
    show ?thesis using Cons.IH [of "sub k ob"] f Cons.prems put_path_sub put_create_sub [OF c] c unfolding Cons by simp
  qed simp
qed simp

lemma get_put: "creatable p ob \<Longrightarrow> p \<noteq> [] \<Longrightarrow> get_path p (put_create p v ob) = Some v"
proof (induction p arbitrary: ob)
  case (Cons k p)
  show ?case
  proof (cases p)
    case Nil
    then show ?thesis by (cases v) simp_all
  next
    case (Cons k2 ks)
    have "creatable (k2 # ks) (sub k ob)" using Cons.prems creatable_sub unfolding Cons by blast
    then show ?thesis using Cons.IH Cons.prems put_create_sub get_path_sub unfolding Cons by simp
  qed
qed simp

lemma get_put_other: "creatable p ob \<Longrightarrow> apart p q \<Longrightarrow> get_path q (put_create p v ob) = get_path q ob"
proof (induction p arbitrary: ob q)
  case (Cons k p)
  then obtain a q' where q: "q = a # q'" by (cases q) simp_all
  show ?case
  proof (cases "a = k")
    case True
    then have ap: "apart p q'" using Cons.prems q by simp
    then obtain k2 ks b r where p: "p = k2 # ks" "q' = b # r" by (cases p; cases q') simp_all
    have "creatable (k2 # ks) (sub k ob)" using Cons.prems creatable_sub unfolding p by blast
    then have "get_path q' (put_create p v (sub k ob)) = get_path q' (sub k ob)" using Cons.IH ap p by blast
    then show ?thesis using put_create_sub [of k k2 ks ob v] Cons.prems(1) get_path_sub unfolding q True p by simp
  next
    case False
    have "put_create (k # p) v ob = ob \<or> (\<exists>w. put_create (k # p) v ob = AList.update k w ob)"
      using put_create_sub Cons.prems(1) by (cases p) auto
    then show ?thesis using False get_path_other unfolding q by metis
  qed
qed simp

lemma fits_put: "creatable p ob \<Longrightarrow> \<not> prefix p q \<Longrightarrow> fits q ob \<Longrightarrow> fits q (put_create p v ob)"
proof (induction p arbitrary: ob q)
  case (Cons k p)
  show ?case
  proof (cases q)
    case (Cons a q')
    show ?thesis
    proof (cases "a = k")
      case True
      then have np: "\<not> prefix p q'" using Cons.prems Cons by simp
      then obtain k2 ks where p: "p = k2 # ks" by (cases p) simp_all
      have c: "creatable (k2 # ks) (sub k ob)" using Cons.prems creatable_sub unfolding p by blast
      show ?thesis
      proof (cases q')
        case q2: (Cons b r)
        have "fits q' (sub k ob)" using Cons.prems(3) fits_sub unfolding Cons True q2 by blast
        then have "fits q' (put_create p v (sub k ob))" using Cons.IH np c p by blast
        then show ?thesis using put_create_sub [of k k2 ks ob v] Cons.prems(1) unfolding Cons True p q2 by simp
      qed (simp add: Cons)
    next
      case False
      have "put_create (k # p) v ob = ob \<or> (\<exists>w. put_create (k # p) v ob = AList.update k w ob)"
        using put_create_sub Cons.prems(1) by (cases p) auto
      then show ?thesis using False fits_other Cons.prems(3) unfolding Cons by metis
    qed
  qed simp
qed simp

lemma put_create_shape:
  "creatable (k # p) ob \<Longrightarrow> \<exists>w. put_create (k # p) v ob = AList.update k w ob"
  using put_create_sub by (cases p) auto

lemma creatable_put: "creatable p ob \<Longrightarrow> \<not> prefix p q \<Longrightarrow> creatable q ob \<Longrightarrow> creatable q (put_create p v ob)"
proof (induction p arbitrary: ob q)
  case (Cons k p)
  show ?case
  proof (cases q)
    case (Cons a q')
    show ?thesis
    proof (cases "a = k")
      case True
      then have np: "\<not> prefix p q'" using Cons.prems Cons by simp
      then obtain k2 ks where p: "p = k2 # ks" by (cases p) simp_all
      have c: "creatable (k2 # ks) (sub k ob)" using Cons.prems creatable_sub unfolding p by blast
      show ?thesis
      proof (cases q')
        case q2: (Cons b r)
        have "creatable q' (sub k ob)" using Cons.prems(3) creatable_sub unfolding Cons True q2 by blast
        then have "creatable q' (put_create p v (sub k ob))" using Cons.IH np c p by blast
        then show ?thesis using put_create_sub [of k k2 ks ob v] Cons.prems(1) unfolding Cons True p q2 by simp
      qed (simp add: Cons)
    next
      case False
      then show ?thesis using put_create_shape [OF Cons.prems(1)] creatable_other Cons.prems(3) unfolding Cons by metis
    qed
  qed simp
qed simp

lemma delete_path_sub: "delete_path (k # k2 # ks) ob = ob \<and> sub k ob = [] \<or>
    delete_path (k # k2 # ks) ob = AList.update k (JObj (delete_path (k2 # ks) (sub k ob))) ob"
  by (auto simp: sub_def split: option.splits jsval.splits)

lemma get_delete: "p \<noteq> [] \<Longrightarrow> get_path p (delete_path p ob) = None"
proof (induction p arbitrary: ob)
  case (Cons k p)
  show ?case
  proof (cases p)
    case (Cons k2 ks)
    show ?thesis using delete_path_sub [of k k2 ks ob] Cons.IH [of "sub k ob"] get_path_sub [of k k2 ks] unfolding Cons
      by (metis get_path_Nil list.discI sub_update(1))
  qed (simp add: delete_conv')
qed simp

lemma get_delete_other: "apart p q \<Longrightarrow> get_path q (delete_path p ob) = get_path q ob"
proof (induction p arbitrary: ob q)
  case (Cons k p)
  then obtain a q' where q: "q = a # q'" by (cases q) simp_all
  show ?case
  proof (cases p)
    case Nil
    then show ?thesis using Cons.prems q by (cases q') (simp_all add: delete_conv')
  next
    case p: (Cons k2 ks)
    show ?thesis
    proof (cases "a = k")
      case True
      then have ap: "apart p q'" using Cons.prems q by simp
      then obtain b r where q2: "q' = b # r" by (cases q') simp_all
      have "get_path q' (delete_path p (sub k ob)) = get_path q' (sub k ob)" using Cons.IH ap by blast
      then show ?thesis using delete_path_sub [of k k2 ks ob] get_path_sub unfolding q True p q2 by (metis sub_update(1))
    next
      case False
      then show ?thesis using delete_path_sub [of k k2 ks ob] get_path_other unfolding q p by metis
    qed
  qed
qed simp

lemma creatable_delete: "apart p q \<Longrightarrow> creatable q ob \<Longrightarrow> creatable q (delete_path p ob)"
proof (induction p arbitrary: ob q)
  case (Cons k p)
  then obtain a q' where q: "q = a # q'" by (cases q) simp_all
  show ?case
  proof (cases p)
    case Nil
    then show ?thesis using Cons.prems q by (cases q') (simp_all add: delete_conv')
  next
    case p: (Cons k2 ks)
    show ?thesis
    proof (cases "a = k")
      case True
      then have ap: "apart p q'" using Cons.prems q by simp
      then obtain b r where q2: "q' = b # r" by (cases q') simp_all
      have "creatable q' (sub k ob)" using Cons.prems(2) creatable_sub unfolding q True q2 by blast
      then have "creatable q' (delete_path p (sub k ob))" using Cons.IH ap by blast
      then show ?thesis using delete_path_sub [of k k2 ks ob] Cons.prems(2) unfolding q True p q2 by auto
    next
      case False
      then show ?thesis using delete_path_sub [of k k2 ks ob] creatable_other Cons.prems(2) unfolding q p by metis
    qed
  qed
qed simp

section \<open>Flat keys become nested objects\<close>

lemma split_dunder_nonempty [simp]: "split_dunder s \<noteq> []"
  by (induction s rule: split_dunder.induct) (auto split: list.splits)

lemma put_all_nests:
  assumes "\<forall>(k, v) \<in> set hash. fits (split_dunder k) json" "distinct (map fst hash)"
    and "\<forall>a \<in> fst ` set hash. \<forall>b \<in> fst ` set hash. a \<noteq> b \<longrightarrow> apart (split_dunder a) (split_dunder b)"
  shows "\<exists>j. put_all hash json = Inr j \<and> (\<forall>(k, v) \<in> set hash. get_path (split_dunder k) j = Some v)
    \<and> (\<forall>q. (\<forall>k \<in> fst ` set hash. apart (split_dunder k) q) \<longrightarrow> get_path q j = get_path q json)"
  using assms
proof (induction hash arbitrary: json)
  case (Cons kv hash)
  obtain k v where kv: "kv = (k, v)" by (cases kv)
  have f: "fits (split_dunder k) json" using Cons.prems(1) kv by simp
  then have pc: "creatable (split_dunder k) json" "put_path (split_dunder k) v json = Inr (put_create (split_dunder k) v json)"
    using put_path_create by blast+
  define m where "m = put_create (split_dunder k) v json"
  have ap: "apart (split_dunder k) (split_dunder a)" if "a \<in> fst ` set hash" for a
    using Cons.prems(2,3) kv that by force
  have 1: "\<forall>(a, w) \<in> set hash. fits (split_dunder a) m"
  proof clarify
    fix a w assume a: "(a, w) \<in> set hash"
    then have "apart (split_dunder k) (split_dunder a)" using ap by force
    moreover have "fits (split_dunder a) json" using Cons.prems(1) a by auto
    ultimately show "fits (split_dunder a) m" unfolding m_def using fits_put [OF pc(1)] by (simp add: apart_def)
  qed
  have 2: "distinct (map fst hash)" using Cons.prems(2) by simp
  have 3: "\<forall>a \<in> fst ` set hash. \<forall>b \<in> fst ` set hash. a \<noteq> b \<longrightarrow> apart (split_dunder a) (split_dunder b)"
    using Cons.prems(3) by simp
  obtain j where j: "put_all hash m = Inr j" "\<forall>(a, w) \<in> set hash. get_path (split_dunder a) j = Some w"
    "\<forall>q. (\<forall>a \<in> fst ` set hash. apart (split_dunder a) q) \<longrightarrow> get_path q j = get_path q m"
    using Cons.IH [OF 1 2 3] by blast
  have "\<forall>a \<in> fst ` set hash. apart (split_dunder a) (split_dunder k)" using ap apart_sym by blast
  then have "get_path (split_dunder k) j = get_path (split_dunder k) m" using j(3) by blast
  then have "get_path (split_dunder k) j = Some v" using get_put [OF pc(1)] by (simp add: m_def)
  moreover have "get_path q j = get_path q json" if "\<forall>a \<in> fst ` set (kv # hash). apart (split_dunder a) q" for q
    using j(3) that get_put_other [OF pc(1)] kv by (simp add: m_def)
  ultimately show ?case using j(1,2) pc(2) kv by (auto simp: m_def)
qed simp

text \<open>Flat options become nested ones: keys none of which goes through another are all found again under
  the path they name, with their values, and the defaults that no key touches stay.\<close>

theorem transformData_nests:
  assumes "distinct (map fst hash)"
    and "\<And>a b. a \<in> fst ` set hash \<Longrightarrow> b \<in> fst ` set hash \<Longrightarrow> a \<noteq> b \<Longrightarrow> \<not> prefix (split_dunder a) (split_dunder b)"
  shows "\<exists>j. transformData (JObj hash) = Inr j \<and> (\<forall>(k, v) \<in> set hash. get_path (split_dunder k) j = Some v)
    \<and> (\<forall>q. (\<forall>k \<in> fst ` set hash. apart (split_dunder k) q) \<longrightarrow> get_path q j = get_path q empty_json)"
proof -
  have "fits p empty_json" for p
    by (cases p; cases "tl p") (auto simp: empty_json_def)
  then show ?thesis
    unfolding transformData_def jsval.case using assms by (intro put_all_nests) (auto simp: apart_def)
qed

theorem transformData_nests_witness:
  "\<exists>j. transformData (JObj [(''west__size'', JNum 300), (''west__fxSettings__duration'', JNum 500), (''name'', JStr ''x'')]) = Inr j
     \<and> get_path [''west'', ''fxSettings'', ''duration''] j = Some (JNum 500) \<and> get_path [''center''] j = Some (JObj [])"
proof -
  let ?h = "[(''west__size'', JNum 300), (''west__fxSettings__duration'', JNum 500), (''name'', JStr ''x'')]"
  have d: "distinct (map fst ?h)" by simp
  have p: "\<not> prefix (split_dunder a) (split_dunder b)" if "a \<in> fst ` set ?h" "b \<in> fst ` set ?h" "a \<noteq> b" for a b
    using that by auto
  obtain j where j: "transformData (JObj ?h) = Inr j" "\<forall>(k, v) \<in> set ?h. get_path (split_dunder k) j = Some v"
    "\<forall>q. (\<forall>k \<in> fst ` set ?h. apart (split_dunder k) q) \<longrightarrow> get_path q j = get_path q empty_json"
    using transformData_nests [OF d p] by blast
  have "\<forall>k \<in> fst ` set ?h. apart (split_dunder k) [''center'']" by simp
  then have "get_path [''center''] j = get_path [''center''] empty_json" using j(3) by blast
  then show ?thesis using j(1,2) by (simp add: empty_json_def)
qed

section \<open>Old names become new ones\<close>

fun all_apart :: "(string list \<times> string list) list \<Rightarrow> bool" where
  "all_apart [] = True"
| "all_apart ((a, b) # m) = (a \<noteq> [] \<and> b \<noteq> [] \<and> apart a b
     \<and> list_all (\<lambda>(c, d). apart a c \<and> apart a d \<and> apart b c \<and> apart b d) m \<and> all_apart m)"

lemma path_map_apart: "all_apart path_map"
  unfolding path_map_def rename_map_def by simp

lemma rename_one_moves:
  assumes "old \<noteq> []" "new \<noteq> []" "apart old new" "creatable new ob"
  shows "get_path old (rename_one old new ob) = None"
    "get_path new (rename_one old new ob) = (case get_path old ob of Some v \<Rightarrow> Some v | None \<Rightarrow> get_path new ob)"
    "apart old q \<Longrightarrow> apart new q \<Longrightarrow> get_path q (rename_one old new ob) = get_path q ob"
    "apart old q \<Longrightarrow> apart new q \<Longrightarrow> creatable q ob \<Longrightarrow> creatable q (rename_one old new ob)"
  using assms get_put [OF assms(4,2)] get_delete_other creatable_put [OF assms(4)] creatable_delete get_put_other [OF assms(4)]
  by (auto simp: rename_one_def get_delete apart_def [of new q] split: option.splits)

lemma rename_paths_moves:
  assumes "all_apart m" "\<forall>(a, b) \<in> set m. creatable b ob"
  shows "(\<forall>(a, b) \<in> set m. get_path a (rename_paths m ob) = None
      \<and> get_path b (rename_paths m ob) = (case get_path a ob of Some v \<Rightarrow> Some v | None \<Rightarrow> get_path b ob))
    \<and> (\<forall>q. (\<forall>(a, b) \<in> set m. apart a q \<and> apart b q) \<longrightarrow> get_path q (rename_paths m ob) = get_path q ob)"
  using assms
proof (induction m arbitrary: ob)
  case (Cons ab m)
  obtain a b where ab: "ab = (a, b)" by (cases ab)
  define r where "r = rename_one a b ob"
  have h: "a \<noteq> []" "b \<noteq> []" "apart a b" "creatable b ob"
    and ap: "\<forall>(c, d) \<in> set m. apart a c \<and> apart a d \<and> apart b c \<and> apart b d"
    using Cons.prems ab by (auto simp: list_all_iff)
  note one = rename_one_moves [OF h, folded r_def]
  have "\<forall>(c, d) \<in> set m. creatable d r" using Cons.prems(2) ap one(4) by fastforce
  then have IH: "\<forall>(c, d) \<in> set m. get_path c (rename_paths m r) = None
      \<and> get_path d (rename_paths m r) = (case get_path c r of Some v \<Rightarrow> Some v | None \<Rightarrow> get_path d r)"
    "\<And>q. (\<forall>(c, d) \<in> set m. apart c q \<and> apart d q) \<Longrightarrow> get_path q (rename_paths m r) = get_path q r"
    using Cons.IH [of r] Cons.prems(1) ab by auto
  have same: "get_path c r = get_path c ob \<and> get_path d r = get_path d ob" if "(c, d) \<in> set m" for c d
    using one(3) ap that by fastforce
  have ba: "get_path a (rename_paths m r) = get_path a r" "get_path b (rename_paths m r) = get_path b r"
    using ap apart_sym by (intro IH(2); fastforce)+
  show ?case
  proof (intro conjI ballI allI impI)
    fix x assume x: "x \<in> set (ab # m)"
    show "case x of (c, d) \<Rightarrow> get_path c (rename_paths (ab # m) ob) = None
      \<and> get_path d (rename_paths (ab # m) ob) = (case get_path c ob of Some v \<Rightarrow> Some v | None \<Rightarrow> get_path d ob)"
    proof (cases "x = ab")
      case True
      then show ?thesis using ba one(1,2) by (simp add: ab r_def [symmetric])
    next
      case False
      then obtain c d where cd: "x = (c, d)" "(c, d) \<in> set m" using x by (cases x) auto
      have "get_path c (rename_paths m r) = None"
        "get_path d (rename_paths m r) = (case get_path c r of Some v \<Rightarrow> Some v | None \<Rightarrow> get_path d r)"
        using IH(1) cd(2) by blast+
      then show ?thesis using same [OF cd(2)] cd(1) by (simp add: ab r_def [symmetric] split: option.split)
    qed
  next
    fix q assume "\<forall>(c, d) \<in> set (ab # m). apart c q \<and> apart d q"
    then show "get_path q (rename_paths (ab # m) ob) = get_path q ob"
      using IH(2) [of q] one(3) ab by (simp add: r_def [symmetric])
  qed
qed simp

lemma rename_paths_none: "\<forall>(a, b) \<in> set m. get_path a ob = None \<Longrightarrow> rename_paths m ob = ob"
  by (induction m) (auto simp: rename_one_def)

text \<open>Options under the name of an older version move to their new name, over a value that stands there, and
  the old name is gone; an option without an old value keeps the value it has, other options are not
  touched, and a second pass changes nothing.  The objects the new names go through must not be in use
  for other values.\<close>

theorem renameOptions_moves:
  assumes "\<And>old new. (old, new) \<in> set path_map \<Longrightarrow> creatable new opts"
  shows "(\<forall>(old, new) \<in> set path_map. get_path old (renameOptions opts) = None
      \<and> get_path new (renameOptions opts) = (case get_path old opts of Some v \<Rightarrow> Some v | None \<Rightarrow> get_path new opts))
    \<and> (\<forall>q. (\<forall>(old, new) \<in> set path_map. apart old q \<and> apart new q) \<longrightarrow> get_path q (renameOptions opts) = get_path q opts)
    \<and> renameOptions (renameOptions opts) = renameOptions opts"
proof -
  have c: "\<forall>(a, b) \<in> set path_map. creatable b opts" using assms by auto
  note m = rename_paths_moves [OF path_map_apart c, folded renameOptions_def]
  have "\<forall>(a, b) \<in> set path_map. get_path a (renameOptions opts) = None" using m by fastforce
  from rename_paths_none [OF this, folded renameOptions_def]
  have "renameOptions (renameOptions opts) = renameOptions opts" .
  then show ?thesis using m by blast
qed

theorem renameOptions_moves_witness:
  "get_path [''tips'', ''Close''] (renameOptions [(''togglerTip_open'', JStr ''shut''), (''size'', JNum 3)]) = Some (JStr ''shut'')"
proof -
  let ?o = "[(''togglerTip_open'', JStr ''shut''), (''size'', JNum 3)]"
  have c: "creatable new ?o" if "(old, new) \<in> set path_map" for old new
    using that unfolding path_map_def rename_map_def by auto
  have "([''togglerTip_open''], [''tips'', ''Close'']) \<in> set path_map"
    unfolding path_map_def rename_map_def by simp
  then show ?thesis using renameOptions_moves [OF c] by fastforce
qed

end
