(* ===== verification/LayoutInit.thy ===== *)
theory LayoutInit
  imports LayoutOptions
begin

text \<open>
  \<open>initOptions\<close> of \<open>lib/jquery.layout.js\<close>: the options of the user are transformed and renamed, cleaned and
  moved under \<open>panes\<close>, laid over the defaults, and given to each pane, with the animation options
  derived last; the panes key of the user is taken to be an object.  \<open>effect_loaded\<close> says which effects jQuery UI has; the zIndex options and the
  configuration of a pane's CSS are left out.
\<close>

section \<open>The option lists\<close>

definition layout_options :: "string list" where
  "layout_options = [''stateManagement'', ''effects'', ''zIndexes'', ''errors'',
     ''name'', ''zIndex'', ''scrollToBookmarkOnLoad'', ''showErrorMessages'',
     ''resizeWithWindow'', ''resizeWithWindowDelay'', ''resizeWithWindowMaxDelay'',
     ''onresizeall'', ''onresizeall_start'', ''onresizeall_end'', ''onload'', ''onunload'',
     ''stateManagement'', ''autoBindCustomButtons'', ''browserZoomCheckInterval'']"

definition center_options :: "string list" where
  "center_options = [''paneClass'', ''contentSelector'', ''contentIgnoreSelector'', ''findNestedContent'', ''applyDemoStyles'',
     ''triggerEventsOnLoad'', ''showOverflowOnHover'', ''maskContents'', ''maskObjects'', ''liveContentResizing'',
     ''childOptions'', ''initChildLayout'', ''resizeChildLayout'', ''destroyChildLayout'',
     ''onresize'', ''onresize_start'', ''onresize_end'', ''onsizecontent'', ''onsizecontent_start'', ''onsizecontent_end'']"

definition noDefault :: "string list" where
  "noDefault = [''paneSelector'', ''resizerCursor'', ''customHotkey'']"

definition optionRootKeys :: "string list" where
  "optionRootKeys = [''effects'', ''panes'', ''north'', ''south'', ''west'', ''east'', ''center'', ''stateManagement'']"

section \<open>The steps\<close>

definition obj_at :: "string \<Rightarrow> jsobj \<Rightarrow> jsobj" where
  "obj_at k ob = (case map_of ob k of Some (JObj b) \<Rightarrow> b | _ \<Rightarrow> [])"

definition js_true_at :: "string \<Rightarrow> jsobj \<Rightarrow> bool" where
  "js_true_at k ob = (case map_of ob k of None \<Rightarrow> False | Some v \<Rightarrow> truthy v)"

text \<open>Pane defaults that must be set for each pane, or that belong to the layout, are dropped.\<close>

definition clean_panes :: "jsobj \<Rightarrow> jsobj" where
  "clean_panes opts =
     (case map_of opts ''panes'' of
        Some (JObj p) \<Rightarrow> AList.update ''panes'' (JObj (fold AList.delete (noDefault @ layout_options) p)) opts
      | _ \<Rightarrow> opts)"

text \<open>Root options that are not options of the layout become pane defaults, unless the default is set.\<close>

definition move_root :: "jsobj \<Rightarrow> jsobj" where
  "move_root opts =
     fold (\<lambda>(key, val) acc.
             if key \<in> set optionRootKeys \<or> key \<in> set layout_options then acc
             else (let p = obj_at ''panes'' acc;
                       p' = (if js_true_at key p then p
                             else AList.update key (case val of JObj b \<Rightarrow> JObj (deep_extend [] b) | _ \<Rightarrow> val) p)
                   in AList.delete key (AList.update ''panes'' (JObj p') acc)))
       opts opts"

definition user_options :: "jsval \<Rightarrow> js_error + jsobj" where
  "user_options hash = map_sum id (\<lambda>j. move_root (clean_panes (renameAllOptions j))) (transformData hash)"

text \<open>A chain of alternatives: the first that is true, or the last.\<close>

fun js_or :: "jsval option list \<Rightarrow> jsval \<Rightarrow> jsval" where
  "js_or [] z = z"
| "js_or (v # vs) z = (case v of Some x \<Rightarrow> if truthy x then x else js_or vs z | None \<Rightarrow> js_or vs z)"

definition fx_name :: "(string \<Rightarrow> bool) \<Rightarrow> jsobj \<Rightarrow> string \<Rightarrow> jsobj \<Rightarrow> jsobj \<Rightarrow> jsval" where
  "fx_name effect_loaded effects n d ob =
     (let v = js_or [map_of ob (''fxName'' @ n), map_of d (''fxName'' @ n), map_of ob ''fxName'', map_of d ''fxName''] (JStr ''none'')
      in case v of JStr s \<Rightarrow> if s = ''none'' \<or> \<not> effect_loaded s \<or> \<not> js_true_at s effects then JStr ''none'' else v
         | _ \<Rightarrow> JStr ''none'')"

definition fx_settings :: "jsobj \<Rightarrow> string \<Rightarrow> jsval \<Rightarrow> string \<Rightarrow> jsobj \<Rightarrow> jsobj \<Rightarrow> jsobj" where
  "fx_settings effects pane name n d ob =
     (let fx = (case name of JStr s \<Rightarrow> obj_at s effects | _ \<Rightarrow> [])
      in fold (\<lambda>x t. deep_extend t x)
           [obj_at ''all'' fx, obj_at pane fx, obj_at ''fxSettings'' d, obj_at ''fxSettings'' ob,
            obj_at (''fxSettings'' @ n) d, obj_at (''fxSettings'' @ n) ob] [])"

definition fx_one :: "(string \<Rightarrow> bool) \<Rightarrow> jsobj \<Rightarrow> string \<Rightarrow> jsobj \<Rightarrow> string \<Rightarrow> jsobj \<Rightarrow> jsobj" where
  "fx_one effect_loaded effects pane d n ob =
     (let name = fx_name effect_loaded effects n d ob;
          o1 = AList.update (''fxName'' @ n) name ob;
          o2 = AList.update (''fxSpeed'' @ n)
                 (js_or [map_of o1 (''fxSpeed'' @ n), map_of d (''fxSpeed'' @ n), map_of o1 ''fxSpeed'', map_of d ''fxSpeed''] JNull) o1
      in AList.update (''fxSettings'' @ n) (JObj (fx_settings effects pane name n d o2)) o2)"

definition createFxOptions :: "(string \<Rightarrow> bool) \<Rightarrow> jsobj \<Rightarrow> string \<Rightarrow> jsobj \<Rightarrow> jsobj \<Rightarrow> jsobj" where
  "createFxOptions effect_loaded effects pane d ob =
     (let o1 = fold (fx_one effect_loaded effects pane d) [''_open'', ''_close'', ''_size'']
                 (if js_true_at ''fxSettings'' ob then ob else AList.update ''fxSettings'' (JObj []) ob)
      in AList.delete ''fxName'' (AList.delete ''fxSpeed'' (AList.delete ''fxSettings'' o1)))"

definition default_class :: "string \<Rightarrow> string \<Rightarrow> jsobj \<Rightarrow> jsobj" where
  "default_class k c ob = (if js_true_at k ob then ob else AList.update k (JStr c) ob)"

text \<open>The options of a border pane lie over the pane defaults; the center copies some of those.\<close>

definition border_options :: "(string \<Rightarrow> bool) \<Rightarrow> jsobj \<Rightarrow> string \<Rightarrow> jsobj" where
  "border_options effect_loaded options pane =
     (let d = obj_at ''panes'' options;
          o1 = deep_extend (deep_extend [] d) (obj_at pane options);
          o2 = createFxOptions effect_loaded (obj_at ''effects'' options) pane d o1
      in default_class ''paneClass'' ''ui-layout-pane''
           (default_class ''togglerClass'' ''ui-layout-toggler'' (default_class ''resizerClass'' ''ui-layout-resizer'' o2)))"

definition center_pane_options :: "jsobj \<Rightarrow> jsobj \<Rightarrow> jsobj" where
  "center_pane_options opts options =
     (let d = obj_at ''panes'' options
      in default_class ''paneClass'' ''ui-layout-pane''
           (fold (\<lambda>key ob. if \<not> js_true_at key (obj_at ''center'' opts) \<and> (js_true_at key (obj_at ''panes'' opts) \<or> \<not> js_true_at key ob)
                           then (case map_of d key of Some v \<Rightarrow> AList.update key v ob | None \<Rightarrow> AList.delete key ob) else ob)
              center_options (obj_at ''center'' options)))"

definition initOptions :: "(string \<Rightarrow> bool) \<Rightarrow> jsobj \<Rightarrow> jsval \<Rightarrow> js_error + jsobj" where
  "initOptions effect_loaded defaults hash =
     (case user_options hash of
        Inl e \<Rightarrow> Inl e
      | Inr opts \<Rightarrow>
          (let options = deep_extend defaults opts
           in Inr (AList.delete ''panes''
                (AList.update ''center'' (JObj (center_pane_options opts options))
                  (fold (\<lambda>pane ob. AList.update pane (JObj (border_options effect_loaded options pane)) ob) borderPanes options)))))"

section \<open>Precedence\<close>

definition scalar :: "jsval option \<Rightarrow> bool" where
  "scalar v = (case v of Some (JObj b) \<Rightarrow> False | _ \<Rightarrow> True)"

lemma map_of_upd: "map_of (AList.update k v ob) a = (if a = k then Some v else map_of ob a)"
  by (simp add: update_conv')

lemma map_of_del: "map_of (AList.delete k ob) a = (if a = k then None else map_of ob a)"
  by (simp add: delete_conv')

lemma deep_extend_absent: "k \<notin> fst ` set xs \<Longrightarrow> map_of (deep_extend t xs) k = map_of t k"
proof (induction xs arbitrary: t)
  case (Cons x xs)
  obtain a v where "x = (a, v)" by (cases x)
  then show ?case using Cons by (cases v) (simp_all add: map_of_upd)
qed simp

lemma deep_extend_get:
  assumes "distinct (map fst xs)"
  shows "map_of (deep_extend t xs) k =
     (case map_of xs k of
        None \<Rightarrow> map_of t k
      | Some (JObj b) \<Rightarrow> Some (JObj (deep_extend (obj_at k t) b))
      | Some v \<Rightarrow> Some v)"
  using assms
proof (induction xs arbitrary: t)
  case (Cons x xs)
  obtain a v where x: "x = (a, v)" by (cases x)
  show ?case
  proof (cases "a = k")
    case True
    then have "k \<notin> fst ` set xs" using Cons.prems x by simp
    then have d: "map_of (deep_extend u xs) k = map_of u k" for u by (rule deep_extend_absent)
    show ?thesis using x True by (cases v) (simp_all add: d map_of_upd obj_at_def)
  next
    case False
    have o: "obj_at k (AList.update a w t) = obj_at k t" for w using False by (simp add: obj_at_def map_of_upd)
    show ?thesis using x False Cons by (cases v) (simp_all add: map_of_upd o split: option.split jsval.split)
  qed
qed simp

lemma deep_extend_scalar:
  "distinct (map fst xs) \<Longrightarrow> scalar (map_of xs k) \<Longrightarrow>
     map_of (deep_extend t xs) k = (case map_of xs k of None \<Rightarrow> map_of t k | Some v \<Rightarrow> Some v)"
  by (auto simp: deep_extend_get scalar_def split: option.split jsval.split)

lemma deep_extend_branch:
  assumes "distinct (map fst xs)" "map_of xs k = None \<or> map_of xs k = Some (JObj (obj_at k xs))"
  shows "obj_at k (deep_extend t xs) = deep_extend (obj_at k t) (obj_at k xs)"
proof (cases "map_of xs k")
  case None
  then show ?thesis using deep_extend_get [OF assms(1), of t k] by (simp add: obj_at_def)
next
  case (Some v)
  then obtain b where b: "map_of xs k = Some (JObj b)" using assms(2) by auto
  then have "obj_at k xs = b" by (simp add: obj_at_def)
  then show ?thesis using deep_extend_get [OF assms(1), of t k] b by (simp add: obj_at_def [of k "deep_extend t xs"])
qed

definition fx_keys :: "string list" where
  "fx_keys = [''fxName'', ''fxSpeed'', ''fxSettings'', ''fxName_open'', ''fxSpeed_open'', ''fxSettings_open'',
     ''fxName_close'', ''fxSpeed_close'', ''fxSettings_close'', ''fxName_size'', ''fxSpeed_size'', ''fxSettings_size'']"

lemma fx_one_other:
  "k \<noteq> ''fxName'' @ n \<Longrightarrow> k \<noteq> ''fxSpeed'' @ n \<Longrightarrow> k \<noteq> ''fxSettings'' @ n \<Longrightarrow>
     map_of (fx_one el effects pane d n ob) k = map_of ob k"
  unfolding fx_one_def Let_def map_of_upd by (simp only: if_False)

lemma createFxOptions_other:
  assumes "k \<notin> set fx_keys"
  shows "map_of (createFxOptions el effects pane d ob) k = map_of ob k"
proof -
  have k: "k \<noteq> ''fxName'' @ n \<and> k \<noteq> ''fxSpeed'' @ n \<and> k \<noteq> ''fxSettings'' @ n" if "n \<in> {[], ''_open'', ''_close'', ''_size''}" for n
    using assms that unfolding fx_keys_def by auto
  have "map_of (fold (fx_one el effects pane d) ns ob) k = map_of ob k" if "set ns \<subseteq> {''_open'', ''_close'', ''_size''}" for ns ob
    using that k by (induction ns arbitrary: ob) (simp_all add: fx_one_other)
  then show ?thesis using k [of "[]"] unfolding createFxOptions_def Let_def map_of_del
    by (simp add: map_of_upd del: fold.simps fold_simps)
qed

lemma default_class_other: "k \<noteq> a \<Longrightarrow> map_of (default_class a c ob) k = map_of ob k"
  by (simp add: default_class_def map_of_upd)

fun first_set :: "jsval option list \<Rightarrow> jsval option" where
  "first_set [] = None"
| "first_set (v # vs) = (case v of Some x \<Rightarrow> Some x | None \<Rightarrow> first_set vs)"

text \<open>C29. Where the options of a border pane come from: a plain option has the value the user gave for the
  pane, else the default of that pane, else what the user gave for all panes, else the default for
  all panes.  So a default of the pane itself wins over the user's setting for all panes.\<close>

theorem border_option_precedence:
  assumes "distinct (map fst opts)" "distinct (map fst (obj_at pane opts))" "distinct (map fst (obj_at ''panes'' opts))"
    and "distinct (map fst (obj_at pane (deep_extend defaults opts)))" "distinct (map fst (obj_at ''panes'' (deep_extend defaults opts)))"
    and "map_of opts pane = None \<or> map_of opts pane = Some (JObj (obj_at pane opts))"
    and "map_of opts ''panes'' = None \<or> map_of opts ''panes'' = Some (JObj (obj_at ''panes'' opts))"
    and "scalar (map_of (obj_at pane opts) k)" "scalar (map_of (obj_at pane defaults) k)"
    and "scalar (map_of (obj_at ''panes'' opts) k)" "scalar (map_of (obj_at ''panes'' defaults) k)"
    and "k \<notin> set fx_keys" "k \<notin> {''paneClass'', ''resizerClass'', ''togglerClass''}"
  shows "map_of (border_options el (deep_extend defaults opts) pane) k =
     first_set [map_of (obj_at pane opts) k, map_of (obj_at pane defaults) k,
       map_of (obj_at ''panes'' opts) k, map_of (obj_at ''panes'' defaults) k]"
proof -
  define E where "E = deep_extend defaults opts"
  have p: "map_of (obj_at pane E) k = first_set [map_of (obj_at pane opts) k, map_of (obj_at pane defaults) k]"
    unfolding E_def deep_extend_branch [OF assms(1,6)] using deep_extend_scalar [OF assms(2,8)] by (simp split: option.split)
  have d: "map_of (obj_at ''panes'' E) k = first_set [map_of (obj_at ''panes'' opts) k, map_of (obj_at ''panes'' defaults) k]"
    unfolding E_def deep_extend_branch [OF assms(1,7)] using deep_extend_scalar [OF assms(3,10)] by (simp split: option.split)
  have sp: "scalar (map_of (obj_at pane E) k)" "scalar (map_of (obj_at ''panes'' E) k)"
    using assms(8-11) unfolding p d by (auto simp: scalar_def split: option.splits)
  have "map_of (deep_extend (deep_extend [] (obj_at ''panes'' E)) (obj_at pane E)) k
      = first_set [map_of (obj_at pane E) k, map_of (obj_at ''panes'' E) k]"
    using deep_extend_scalar [OF assms(4) [folded E_def] sp(1)] deep_extend_scalar [OF assms(5) [folded E_def] sp(2)]
    by (simp split: option.split)
  then show ?thesis
    using assms(12,13) p d
    by (simp add: border_options_def Let_def default_class_other createFxOptions_other E_def [symmetric] split: option.split)
qed

theorem border_option_precedence_witness:
  "map_of (border_options (\<lambda>_. True) (deep_extend [(''panes'', JObj [(''minSize'', JNum 0)]), (''west'', JObj [(''size'', JNum 200)])]
      [(''panes'', JObj [(''size'', JNum 300)])]) ''west'') ''size'' = Some (JNum 200)"
  using border_option_precedence [of "[(''panes'', JObj [(''size'', JNum 300)])]" "''west''"
      "[(''panes'', JObj [(''minSize'', JNum 0)]), (''west'', JObj [(''size'', JNum 200)])]" "''size''" "\<lambda>_. True"]
  by (simp add: obj_at_def scalar_def fx_keys_def)

end
