(* ===== verification/LayoutGeom.thy ===== *)
theory LayoutGeom
  imports Prelude Complex_Main
begin

text \<open>
  The panes of \<open>lib/jquery.layout.js\<close> and their geometry: the options and the state of a pane,
  the size of an element with and without its borders and padding, the parsing of a size, the
  limits of a pane, the room left for the center and the size correction of a resized pane.
  Pixels are integers; fractions of the container are rationals.  An element is as wide as its
  CSS width and its frame (borders and padding), as in a browser with the standard box model.
\<close>

section \<open>Panes\<close>

datatype pane = North | South | West | East | Center

datatype dir = Horz | Vert | Mid

fun dir_of_pane :: "pane \<Rightarrow> dir" where
  "dir_of_pane North = Horz" | "dir_of_pane South = Horz"
| "dir_of_pane West = Vert" | "dir_of_pane East = Vert"
| "dir_of_pane Center = Mid"

fun oppositeEdge :: "pane \<Rightarrow> pane" where
  "oppositeEdge North = South" | "oppositeEdge South = North"
| "oppositeEdge East = West" | "oppositeEdge West = East"
| "oppositeEdge Center = Center"

text \<open>A size option: a number (a fraction below 1), a percentage, or \<open>auto\<close>.\<close>

datatype psize = Num rat | Percent nat | AutoSize

text \<open>A toggler length is a number or \<open>100%\<close>; its alignment a name or an offset.\<close>

datatype align = AlignStart | AlignEnd | AlignMid | AlignPx int

text \<open>The names, tips and keys of a pane; \<open>KeyChar\<close> is a key given as a character, \<open>KeyCode\<close> as a number.\<close>

datatype hotkey = NoKey | KeyChar char | KeyCode int

record pane_ui =
  paneClass :: string
  resizerClass :: string
  togglerClass :: string
  buttonClass :: string
  resizerCursor :: string
  sliderCursor :: string
  tipOpen :: string
  tipClose :: string
  tipResize :: string
  tipSlide :: string
  tipPin :: string
  tipUnpin :: string
  resizerDblClickToggle :: bool
  enableCursorHotkey :: bool
  customHotkey :: hotkey
  customHotkeyModifier :: string

text \<open>
  The pin buttons of a pane, the hover classes of its resizer and its toggler, and the double-click
  handlers of its resizer.
\<close>

record pin_btn =
  pin_attr :: "bool option"
  pin_title :: string
  pin_classes :: "string list"

record pane_ctl =
  pins :: "pin_btn list"
  r_hovers :: "string list"
  t_hovers :: "string list"
  dbl_handlers :: nat

definition no_ctl :: pane_ctl where
  "no_ctl = \<lparr>pins = [], r_hovers = [], t_hovers = [], dbl_handlers = 0\<rparr>"

record pane_opts =
  closable :: bool
  resizable :: bool
  slidable :: bool
  o_size :: psize
  o_minSize :: psize
  o_maxSize :: "psize option"
  spacing_open :: int
  spacing_closed :: int
  minWidth :: int
  minHeight :: int
  autoResize :: bool
  autoReopen :: bool
  fx_open :: bool
  fx_close :: bool
  animatePaneSizing :: bool
  livePaneResizing :: bool
  triggerEventsDuringLiveResize :: bool
  triggerEventsOnLoad :: bool
  slide_close_on_click :: bool
  preventQuickSlideClose :: bool
  slide_open_delay :: bool
  togglerLength_open :: "int option"
  togglerLength_closed :: "int option"
  togglerAlign_open :: align
  togglerAlign_closed :: align
  hideTogglerOnSlide :: bool
  initClosed :: bool
  initHidden :: bool
  ui :: pane_ui

record pane_state =
  present :: bool
  css_w :: int
  css_h :: int
  frame_w :: int
  frame_h :: int
  auto_w :: int
  auto_h :: int
  shown :: bool
  isClosed :: bool
  isHidden :: bool
  isVisible :: bool
  isSliding :: bool
  isMoving :: bool
  isResizing :: bool
  isShowing :: bool
  isHiding :: bool
  noRoom :: bool
  wasOpen :: bool
  noVerticalRoom :: bool
  p_size :: int
  s_minSize :: int
  s_maxSize :: int
  s_maxWidth :: int
  s_maxHeight :: int
  s_outerWidth :: int
  s_outerHeight :: int
  r_min :: int
  r_max :: int
  r_pos :: int
  r_shown :: bool
  r_open :: bool
  r_closed :: bool
  r_sliding :: bool
  r_len :: int
  r_top :: int
  has_toggler :: bool
  t_open :: bool
  t_shown :: bool
  t_len :: int
  t_off :: int
  ctl :: pane_ctl
  start_bound :: bool
  stop_bound :: bool
  open_timer :: bool
  close_timer :: bool
  fx_locked :: bool

record container =
  innerWidth :: int
  innerHeight :: int
  insetTop :: int
  insetBottom :: int
  insetLeft :: int
  insetRight :: int

record geom =
  pn :: "pane \<Rightarrow> pane_state"
  op :: "pane \<Rightarrow> pane_opts"
  sC :: container
  initialized :: bool

definition upd :: "pane \<Rightarrow> (pane_state \<Rightarrow> pane_state) \<Rightarrow> ('a geom_scheme) \<Rightarrow> ('a geom_scheme)" where
  "upd p f l = l\<lparr>pn := (pn l)(p := f (pn l p))\<rparr>"

definition inset :: "container \<Rightarrow> pane \<Rightarrow> int" where
  "inset c p = (case p of North \<Rightarrow> insetTop c | South \<Rightarrow> insetBottom c | West \<Rightarrow> insetLeft c
     | East \<Rightarrow> insetRight c | Center \<Rightarrow> 0)"

section \<open>Element sizes\<close>

definition cssW :: "pane_state \<Rightarrow> int \<Rightarrow> int" where
  "cssW s outerWidth = (if outerWidth \<le> 0 then 0 else max 0 (outerWidth - frame_w s))"

definition cssH :: "pane_state \<Rightarrow> int \<Rightarrow> int" where
  "cssH s outerHeight = (if outerHeight \<le> 0 then 0 else max 0 (outerHeight - frame_h s))"

definition outerWidth :: "pane_state \<Rightarrow> int" where
  "outerWidth s = css_w s + frame_w s"

definition outerHeight :: "pane_state \<Rightarrow> int" where
  "outerHeight s = css_h s + frame_h s"

text \<open>The size of a border pane in its own direction.\<close>

definition outer_in :: "pane \<Rightarrow> pane_state \<Rightarrow> int" where
  "outer_in p s = (if dir_of_pane p = Horz then outerHeight s else outerWidth s)"

definition cssSize :: "pane \<Rightarrow> pane_state \<Rightarrow> int \<Rightarrow> int" where
  "cssSize p s outerSize = (if dir_of_pane p = Horz then cssH s outerSize else cssW s outerSize)"

definition set_css :: "pane \<Rightarrow> int \<Rightarrow> pane_state \<Rightarrow> pane_state" where
  "set_css p v s = (if dir_of_pane p = Horz then s\<lparr>css_h := v\<rparr> else s\<lparr>css_w := v\<rparr>)"

definition min_dim_w :: "pane_state \<Rightarrow> int" where
  "min_dim_w s = 1001 - cssW s 1000"

definition min_dim_h :: "pane_state \<Rightarrow> int" where
  "min_dim_h s = 1001 - cssH s 1000"

definition cssMinSize :: "pane \<Rightarrow> pane_state \<Rightarrow> int" where
  "cssMinSize p s = (if dir_of_pane p = Horz then min_dim_h s else min_dim_w s)"

text \<open>\<open>$.extend(s, elDims($P))\<close>.\<close>

definition elDims :: "pane_state \<Rightarrow> pane_state" where
  "elDims s = s\<lparr>s_outerWidth := outerWidth s, s_outerHeight := outerHeight s\<rparr>"

section \<open>Sizes and limits\<close>

definition js_round :: "rat \<Rightarrow> int" where
  "js_round x = \<lfloor>x + 1 / 2\<rfloor>"

definition avail_space :: "'a geom_scheme \<Rightarrow> dir \<Rightarrow> int" where
  "avail_space l d =
     (case d of
        Horz \<Rightarrow> innerHeight (sC l) - (if present (pn l North) then spacing_open (op l North) else 0)
                 - (if present (pn l South) then spacing_open (op l South) else 0)
      | Vert \<Rightarrow> innerWidth (sC l) - (if present (pn l West) then spacing_open (op l West) else 0)
                 - (if present (pn l East) then spacing_open (op l East) else 0)
      | Mid \<Rightarrow> 0)"

definition percent_value :: "nat \<Rightarrow> rat" where
  "percent_value n = (if n = 100 then -1 else of_nat n / 100)"

definition parse_num :: "'a geom_scheme \<Rightarrow> pane \<Rightarrow> dir \<Rightarrow> rat \<Rightarrow> int" where
  "parse_num l p d x =
     (if x = 0 then 0
      else if x \<ge> 1 then \<lfloor>x\<rfloor>
      else if x = -1 then avail_space l d
      else if x > 0 then js_round (of_int (avail_space l d) * x)
      else if p = Center then 0
      else (if d = Horz then auto_h (pn l p) else auto_w (pn l p)))"

definition parseSize :: "'a geom_scheme \<Rightarrow> pane \<Rightarrow> psize \<Rightarrow> dir \<Rightarrow> int" where
  "parseSize l p sz d =
     (case sz of
        Num x \<Rightarrow> parse_num l p d x
      | Percent n \<Rightarrow> parse_num l p d (percent_value n)
      | AutoSize \<Rightarrow> (if p = Center then 0 else if d = Horz then auto_h (pn l p) else auto_w (pn l p)))"

definition getPaneSize :: "'a geom_scheme \<Rightarrow> pane \<Rightarrow> bool \<Rightarrow> int" where
  "getPaneSize l p inclSpace =
     (let s = pn l p; o' = op l p;
          oSp = (if inclSpace then spacing_open o' else 0);
          cSp = (if inclSpace then spacing_closed o' else 0)
      in if \<not> present s \<or> isHidden s then 0
         else if isClosed s \<or> (isSliding s \<and> inclSpace) then cSp
         else outer_in p s + oSp)"

definition altPaneSize :: "'a geom_scheme \<Rightarrow> pane \<Rightarrow> int" where
  "altPaneSize l p =
     (let a = oppositeEdge p; s = pn l a
      in if \<not> present s \<or> \<not> isVisible s \<or> isSliding s then 0 else outer_in p s)"

definition altPaneSpacing :: "'a geom_scheme \<Rightarrow> pane \<Rightarrow> int" where
  "altPaneSpacing l p =
     (let a = oppositeEdge p; s = pn l a
      in if \<not> present s \<or> isHidden s then 0
         else if isClosed s then spacing_closed (op l a) else spacing_open (op l a))"

definition minCenterSize :: "'a geom_scheme \<Rightarrow> pane \<Rightarrow> int" where
  "minCenterSize l p =
     (if dir_of_pane p = Horz then max (minHeight (op l Center)) (min_dim_h (pn l Center))
      else max (minWidth (op l Center)) (min_dim_w (pn l Center)))"

definition containerSize :: "'a geom_scheme \<Rightarrow> pane \<Rightarrow> int" where
  "containerSize l p = (if dir_of_pane p = Horz then innerHeight (sC l) else innerWidth (sC l))"

definition limitSize :: "'a geom_scheme \<Rightarrow> pane \<Rightarrow> bool \<Rightarrow> int" where
  "limitSize l p sliding =
     containerSize l p - spacing_open (op l p)
     - (if sliding then 0
        else parseSize l Center (Num (of_int (minCenterSize l p))) (dir_of_pane p)
             + altPaneSize l p + altPaneSpacing l p)"

definition setSizeLimits :: "pane \<Rightarrow> bool option \<Rightarrow> 'a geom_scheme \<Rightarrow> 'a geom_scheme" where
  "setSizeLimits p slide l =
     (let s = pn l p; o' = op l p; d = dir_of_pane p; c = sC l;
          sliding = (case slide of Some b \<Rightarrow> b | None \<Rightarrow> isSliding s);
          lo = max (parseSize l p (o_minSize o') d) (cssMinSize p s);
          hi = min (case o_maxSize o' of Some m \<Rightarrow> parseSize l p m d | None \<Rightarrow> 100000) (limitSize l p sliding);
          rW = spacing_open o'
      in upd p (\<lambda>s. s\<lparr>s_minSize := lo, s_maxSize := hi,
           r_min := (case p of North \<Rightarrow> insetTop c + lo | West \<Rightarrow> insetLeft c + lo
              | South \<Rightarrow> insetTop c + innerHeight c - hi - rW | East \<Rightarrow> insetLeft c + innerWidth c - hi - rW | Center \<Rightarrow> r_min s),
           r_max := (case p of North \<Rightarrow> insetTop c + hi | West \<Rightarrow> insetLeft c + hi
              | South \<Rightarrow> insetTop c + innerHeight c - lo - rW | East \<Rightarrow> insetLeft c + innerWidth c - lo - rW | Center \<Rightarrow> r_max s)\<rparr>) l)"

record center_dims =
  c_top :: int
  c_bottom :: int
  c_left :: int
  c_right :: int
  c_width :: int
  c_height :: int

definition calcNewCenterPaneDims :: "'a geom_scheme \<Rightarrow> center_dims" where
  "calcNewCenterPaneDims l =
     (let t = getPaneSize l North True; b = getPaneSize l South True;
          w = getPaneSize l West True; e = getPaneSize l East True
      in \<lparr>c_top = t + insetTop (sC l), c_bottom = b + insetBottom (sC l),
          c_left = w + insetLeft (sC l), c_right = e + insetRight (sC l),
          c_width = innerWidth (sC l) - w - e, c_height = innerHeight (sC l) - b - t\<rparr>)"

section \<open>Resizers and togglers\<close>

definition toggler_offset :: "align \<Rightarrow> int \<Rightarrow> int \<Rightarrow> int" where
  "toggler_offset a paneLen togLen =
     (case a of
        AlignStart \<Rightarrow> 0
      | AlignEnd \<Rightarrow> paneLen - togLen
      | AlignMid \<Rightarrow> js_round (of_int (paneLen - togLen) / 2)
      | AlignPx x \<Rightarrow> if x \<ge> 0 then x else paneLen - togLen + x)"

text \<open>The length and offset of a toggler; a length that is not positive, \<open>100%\<close> or too long fills the resizer.\<close>

definition toggler_place :: "int option \<Rightarrow> align \<Rightarrow> int \<Rightarrow> int \<times> int" where
  "toggler_place len a paneLen =
     (case len of
        None \<Rightarrow> (paneLen, 0)
      | Some n \<Rightarrow> if n \<le> 0 \<or> n > paneLen then (paneLen, 0) else (n, toggler_offset a paneLen n))"

definition sizeHandle :: "pane \<Rightarrow> 'a geom_scheme \<Rightarrow> 'a geom_scheme" where
  "sizeHandle p l =
     (let s = pn l p; o' = op l p;
          spacing = (if isClosed s then spacing_closed o' else spacing_open o');
          togLen = (if isClosed s then togglerLength_closed o' else togglerLength_open o');
          togAlign = (if isClosed s then togglerAlign_closed o' else togglerAlign_open o');
          paneLen = (if dir_of_pane p = Horz then innerWidth (sC l) else outerHeight s)
      in if \<not> present s \<or> p = Center then l
         else if spacing = 0 then upd p (\<lambda>s. s\<lparr>r_shown := False\<rparr>) l
         else (let rs = (if \<not> noRoom s \<and> \<not> isHidden s then True else r_shown s);
                   rt = (if dir_of_pane p = Horz then r_top s else insetTop (sC l) + getPaneSize l North True);
                   l1 = upd p (\<lambda>s. s\<lparr>r_shown := rs, r_len := paneLen, r_top := rt\<rparr>) l
               in if has_toggler s \<and> (togLen = Some 0 \<or> (isSliding s \<and> hideTogglerOnSlide o'))
                  then upd p (\<lambda>s. s\<lparr>t_shown := False\<rparr>) l1
                  else (let l2 = (if has_toggler s
                                  then (let (n, off) = toggler_place togLen togAlign paneLen
                                        in upd p (\<lambda>s. s\<lparr>t_shown := True, t_len := n, t_off := off\<rparr>) l1) else l1)
                        in if \<not> initialized l \<and> (initHidden o' \<or> noRoom s)
                           then upd p (\<lambda>s. s\<lparr>r_shown := False, t_shown := (if has_toggler s then False else t_shown s)\<rparr>) l2
                           else l2)))"

definition sizeHandles :: "pane list \<Rightarrow> 'a geom_scheme \<Rightarrow> 'a geom_scheme" where
  "sizeHandles ps l = fold sizeHandle (if ps = [] then [North, South, West, East] else ps) l"

section \<open>The size correction of a resized pane\<close>

text \<open>
  \<open>meas\<close> is the outer size the browser gives the pane for a CSS size.  One try is the attempted
  size with what was measured.  The loop gives the pane every CSS size it tries before it asks
  whether to go on: the result lists them in their order, with the number of tries that were
  recorded, the first of which is the resize itself.
\<close>

fun nudge :: "nat \<Rightarrow> (int \<Rightarrow> int) \<Rightarrow> (int \<Rightarrow> int) \<Rightarrow> int \<Rightarrow> nat \<Rightarrow> int \<Rightarrow> int \<Rightarrow> int list \<times> nat" where
  "nudge 0 css meas sz tries attempt actual = ([], tries)"
| "nudge (Suc k) css meas sz tries attempt actual =
     (if actual = sz then ([], tries)
      else (let attempt' = (if actual > sz then max 0 (attempt - (actual - sz)) else max 0 (attempt + (sz - actual)));
                applied = css attempt'; actual' = meas applied
            in if tries > 3 then ([applied], tries)
               else (let (as, n) = nudge k css meas sz (Suc tries) attempt' actual' in (applied # as, n))))"

definition nudge_loop :: "(int \<Rightarrow> int) \<Rightarrow> (int \<Rightarrow> int) \<Rightarrow> int \<Rightarrow> int list \<times> nat" where
  "nudge_loop css meas sz = nudge 5 css meas sz 1 sz (meas (css sz))"

text \<open>The CSS sizes the pane is given, the resize itself first, and the size it is left with.\<close>

definition sizes_applied :: "(int \<Rightarrow> int) \<Rightarrow> (int \<Rightarrow> int) \<Rightarrow> int \<Rightarrow> int list" where
  "sizes_applied css meas sz = css sz # fst (nudge_loop css meas sz)"

definition correct_size :: "(int \<Rightarrow> int) \<Rightarrow> (int \<Rightarrow> int) \<Rightarrow> int \<Rightarrow> int \<times> nat" where
  "correct_size css meas sz = (last (sizes_applied css meas sz), snd (nudge_loop css meas sz))"

section \<open>Facts\<close>

lemma upd_simps [simp]:
  "op (upd p f l) = op l" "sC (upd p f l) = sC l" "initialized (upd p f l) = initialized l"
  "pn (upd p f l) q = (if q = p then f (pn l p) else pn l q)"
  by (simp_all add: upd_def)

lemma outer_of_cssW: "frame_w s \<le> v \<Longrightarrow> 0 < v \<Longrightarrow> cssW s v + frame_w s = v"
  by (simp add: cssW_def)

lemma outer_of_cssH: "frame_h s \<le> v \<Longrightarrow> 0 < v \<Longrightarrow> cssH s v + frame_h s = v"
  by (simp add: cssH_def)

lemma min_dim_w_frame: "0 \<le> frame_w s \<Longrightarrow> frame_w s \<le> 1000 \<Longrightarrow> min_dim_w s = frame_w s + 1"
  by (simp add: min_dim_w_def cssW_def)

lemma min_dim_h_frame: "0 \<le> frame_h s \<Longrightarrow> frame_h s \<le> 1000 \<Longrightarrow> min_dim_h s = frame_h s + 1"
  by (simp add: min_dim_h_def cssH_def)

lemma cssMinSize_fits:
  assumes "0 \<le> frame_w s" "frame_w s \<le> 1000" "0 \<le> frame_h s" "frame_h s \<le> 1000" "cssMinSize p s \<le> v"
  shows "outer_in p (set_css p (cssSize p s v) s) = v"
  using assms by (simp add: cssMinSize_def cssSize_def set_css_def outer_in_def outerWidth_def outerHeight_def
      min_dim_w_frame min_dim_h_frame outer_of_cssW outer_of_cssH split: if_splits)

lemmas size_loop = correct_size_def sizes_applied_def nudge_loop_def

lemma nudge_exact: "meas (css sz) = sz \<Longrightarrow> correct_size css meas sz = (css sz, 1) \<and> sizes_applied css meas sz = [css sz]"
  by (simp add: size_loop numeral_eq_Suc)

lemma nudge_bounds:
  "n \<le> 4 \<Longrightarrow> snd (nudge k css meas sz n attempt actual) \<le> 4
    \<and> length (fst (nudge k css meas sz n attempt actual)) + n \<le> 5"
proof (induction k arbitrary: n attempt actual)
  case (Suc k)
  have IH: "n \<noteq> 4 \<Longrightarrow> snd (nudge k css meas sz (Suc n) x y) \<le> 4
      \<and> length (fst (nudge k css meas sz (Suc n) x y)) + Suc n \<le> 5" for x y
    using Suc.IH [of "Suc n"] Suc.prems by simp
  show ?case using IH Suc.prems by (cases "n = 4") (auto simp: Let_def split_beta)
qed simp

text \<open>The loop never asks for more than its fuel, and a size that is never met is tried to the end.\<close>

lemma nudge_fuel:
  "n \<le> 4 \<Longrightarrow> 5 \<le> k + n \<Longrightarrow> nudge (k + j) css meas sz n attempt actual = nudge k css meas sz n attempt actual"
proof (induction k arbitrary: n attempt actual)
  case (Suc k)
  show ?case
  proof (cases "n = 4")
    case True
    then show ?thesis by (simp add: Let_def)
  next
    case False
    then show ?thesis using Suc by (simp add: Let_def)
  qed
qed simp

lemma nudge_missed:
  "\<forall>c. meas c \<noteq> sz \<Longrightarrow> actual \<noteq> sz \<Longrightarrow> n \<le> 4 \<Longrightarrow> 5 \<le> k + n \<Longrightarrow>
    length (fst (nudge k css meas sz n attempt actual)) + n = 5"
proof (induction k arbitrary: n attempt actual)
  case (Suc k)
  have IH: "n \<noteq> 4 \<Longrightarrow> y \<noteq> sz \<Longrightarrow> length (fst (nudge k css meas sz (Suc n) x y)) + Suc n = 5" for x y
    using Suc.IH [of y "Suc n"] Suc.prems by simp
  show ?case using IH Suc.prems by (cases "n = 4") (auto simp: Let_def split_beta)
qed simp

text \<open>C39. The size correction ends whatever the browser measures: at most four tries are recorded and the
  pane is given at most five CSS sizes, the resize itself and four corrections, the fuel of the
  model being enough; a browser that never measures the size that was asked gets all five,
  although the comment of the loop promises at most three corrections.  A browser that measures what was
  asked gets one; and one that is off by a constant that leaves room gets two and then has the
  pane at exactly the size that was asked for.\<close>

theorem size_correction_bounded:
  assumes "\<And>v. frame \<le> v \<Longrightarrow> css v = v - frame" "\<And>c. meas c = c + frame + err" "frame \<le> sz" "frame + err \<le> sz" "0 \<le> frame"
  shows "snd (correct_size css any sz) \<le> 4 \<and> length (sizes_applied css any sz) \<le> 5
    \<and> nudge (5 + j) css any sz 1 sz (any (css sz)) = nudge_loop css any sz
    \<and> ((\<forall>c. any c \<noteq> sz) \<longrightarrow> length (sizes_applied css any sz) = 5)
    \<and> meas (fst (correct_size css meas sz)) = sz
    \<and> snd (correct_size css meas sz) = (if err = 0 then 1 else 2)
    \<and> length (sizes_applied css meas sz) = (if err = 0 then 1 else 2)"
proof (intro conjI impI)
  show "snd (correct_size css any sz) \<le> 4" "length (sizes_applied css any sz) \<le> 5"
    using nudge_bounds [of 1 5 css any sz sz "any (css sz)"] by (simp_all add: size_loop)
  show "nudge (5 + j) css any sz 1 sz (any (css sz)) = nudge_loop css any sz"
    unfolding nudge_loop_def by (rule nudge_fuel) simp_all
  show "length (sizes_applied css any sz) = 5" if "\<forall>c. any c \<noteq> sz"
    using nudge_missed [of any sz "any (css sz)" 1 5 css sz] that by (simp add: size_loop)
  have m: "meas (css sz) = sz + err" "meas (css (sz - err)) = sz" using assms by simp_all
  have a: "(if sz + err > sz then max 0 (sz - (sz + err - sz)) else max 0 (sz + (sz - (sz + err)))) = sz - err"
    using assms(4,5) by simp
  have "sizes_applied css meas sz = (if err = 0 then [css sz] else [css sz, css (sz - err)])
      \<and> snd (nudge_loop css meas sz) = (if err = 0 then 1 else 2)"
    using m a by (simp add: size_loop numeral_eq_Suc Let_def)
  then show "meas (fst (correct_size css meas sz)) = sz"
    "snd (correct_size css meas sz) = (if err = 0 then 1 else 2)"
    "length (sizes_applied css meas sz) = (if err = 0 then 1 else 2)"
    using m by (simp_all add: correct_size_def)
qed

theorem size_correction_bounded_witness:
  "correct_size (\<lambda>v. v - 10) (\<lambda>c. c + 10 + 2) 200 = (188, 2)
   \<and> length (sizes_applied (\<lambda>v. v - 10) (\<lambda>c. 0) 200) = 5"
proof -
  have "snd (correct_size (\<lambda>v. v - 10) (\<lambda>c. c + 10 + 2) 200) = 2
    \<and> fst (correct_size (\<lambda>v. v - 10) (\<lambda>c. c + 10 + 2) 200) + 10 + 2 = (200 :: int)
    \<and> length (sizes_applied (\<lambda>v. v - 10) (\<lambda>c. 0) 200) = 5"
    using size_correction_bounded [of 10 "\<lambda>v. v - 10" "\<lambda>c. c + 10 + 2" 2 200 "\<lambda>c. 0"] by simp
  then show ?thesis by (simp add: prod_eq_iff)
qed

lemma center_tiles_container:
  "let d = calcNewCenterPaneDims l in
     c_width d + getPaneSize l West True + getPaneSize l East True = innerWidth (sC l)
   \<and> c_height d + getPaneSize l North True + getPaneSize l South True = innerHeight (sC l)
   \<and> c_left d + c_width d + c_right d = insetLeft (sC l) + innerWidth (sC l) + insetRight (sC l)
   \<and> c_top d + c_height d + c_bottom d = insetTop (sC l) + innerHeight (sC l) + insetBottom (sC l)"
  by (simp add: calcNewCenterPaneDims_def Let_def)

lemma toggler_offset_mid: "0 \<le> n \<Longrightarrow> 0 \<le> js_round (of_int n / 2) \<and> js_round (of_int n / 2) \<le> n"
  unfolding js_round_def by (auto simp: le_floor_iff floor_le_iff field_simps)

text \<open>A toggler never leaves its resizer: whatever length is asked for, it is at most as long as the
  resizer, and placed by name, or by an offset that leaves room for it on its side, it lies inside.\<close>

theorem toggler_inside_resizer:
  assumes "toggler_place len a paneLen = (n, off)" "0 \<le> paneLen" "\<And>x. a = AlignPx x \<Longrightarrow> \<bar>x\<bar> + n \<le> paneLen"
  shows "0 \<le> n \<and> n \<le> paneLen \<and> 0 \<le> off \<and> off + n \<le> paneLen"
proof -
  consider "n = paneLen" "off = 0" | "0 < n" "n \<le> paneLen" "off = toggler_offset a paneLen n"
    using assms(1) by (auto simp: toggler_place_def split: option.splits if_splits)
  then show ?thesis
  proof cases
    case 2
    then show ?thesis using assms(3) toggler_offset_mid [of "paneLen - n"]
      by (cases a) (auto simp: toggler_offset_def)
  qed (use assms(2) in simp)
qed

theorem toggler_inside_resizer_witness: "snd (toggler_place (Some 50) AlignMid 301) + 50 \<le> 301"
  using toggler_inside_resizer [of "Some 50" AlignMid 301 50 "snd (toggler_place (Some 50) AlignMid 301)"]
  by (simp add: toggler_place_def)

end
