(* ===== verification/LayoutActions.thy ===== *)
theory LayoutActions
  imports LayoutGeom
begin

text \<open>
  The actions of \<open>lib/jquery.layout.js\<close> on an initialised or initialising layout: close, open, show,
  hide, toggle, slide, resize, and the fitting of panes to the container.  The bodies of close,
  open and sizePane run as jobs of the container's queue, one at a time: what a job starts while
  it runs waits behind it, and a job that animates holds the queue until the animation ends.  A
  callback is a function of its event and pane; what it answers matters, what else it does is not
  modelled.  Offscreen closing, masks, cursors, titles and nested layouts are left out, and
  so is a \<open>resizeAll\<close> that finds the layout not initialised.
\<close>

section \<open>State\<close>

datatype cbret = NC | CbFalse | CbAbort | CbOther

datatype job =
    JClose pane bool bool bool
  | JOpen pane bool bool bool
  | JSize pane psize bool bool bool

datatype anim =
    AClose pane bool bool bool
  | AOpen pane
  | ASize pane int int int bool bool

datatype outcome = Done | DoneFit pane bool | DoneShow pane | Waiting

record layout = geom +
  queue :: "job list"
  busy :: bool
  anim :: "anim option"
  cb :: "string \<Rightarrow> pane \<Rightarrow> cbret"
  events :: "(string \<times> pane) list"

text \<open>\<open>_runCallbacks\<close> for a pane: the callback of the options is called, then bound events are triggered.\<close>

definition runCallbacks :: "string \<Rightarrow> pane \<Rightarrow> layout \<Rightarrow> cbret \<times> layout" where
  "runCallbacks e p l = (cb l e p, l\<lparr>events := events l @ [(e, p)]\<rparr>)"

definition fire :: "string \<Rightarrow> pane \<Rightarrow> layout \<Rightarrow> layout" where
  "fire e p l = snd (runCallbacks e p l)"

definition hidePane_now :: "pane \<Rightarrow> layout \<Rightarrow> layout" where
  "hidePane_now p = upd p (\<lambda>s. s\<lparr>shown := False\<rparr>)"

definition showPane_now :: "pane \<Rightarrow> layout \<Rightarrow> layout" where
  "showPane_now p = upd p (\<lambda>s. s\<lparr>shown := True\<rparr>)"

definition has_resizer :: "pane \<Rightarrow> layout \<Rightarrow> bool" where
  "has_resizer p l = (present (pn l p) \<and> p \<noteq> Center)"

section \<open>Sliding triggers\<close>

definition bindStartSlidingEvent :: "pane \<Rightarrow> bool \<Rightarrow> layout \<Rightarrow> layout" where
  "bindStartSlidingEvent p enable l =
     (if \<not> has_resizer p l \<or> (enable \<and> \<not> slidable (op l p)) then l
      else upd p (\<lambda>s. s\<lparr>start_bound := enable\<rparr>) l)"

definition bindStopSlidingEvents :: "pane \<Rightarrow> bool \<Rightarrow> layout \<Rightarrow> layout" where
  "bindStopSlidingEvents p enable l =
     (let l1 = upd p (\<lambda>s. s\<lparr>isSliding := enable, close_timer := False\<rparr>) l;
          l2 = (if enable then bindStartSlidingEvent p False l1 else l1)
      in upd p (\<lambda>s. s\<lparr>stop_bound := enable\<rparr>) l2)"

section \<open>Fitting a pane\<close>

definition show_pane :: "(job \<Rightarrow> layout \<Rightarrow> layout) \<Rightarrow> pane \<Rightarrow> bool \<Rightarrow> bool \<Rightarrow> bool \<Rightarrow> layout \<Rightarrow> layout" where
  "show_pane sub p openPane noAnim noAlert l =
     (if \<not> present (pn l p) \<or> \<not> isHidden (pn l p) then l
      else (case runCallbacks ''onshow_start'' p l of
              (CbFalse, l1) \<Rightarrow> l1
            | (_, l1) \<Rightarrow>
                (let l2 = upd p (\<lambda>s. s\<lparr>isSliding := False, isShowing := True\<rparr>) l1
                 in if openPane then sub (JOpen p False noAnim noAlert) l2
                    else sub (JClose p True False False) l2)))"

text \<open>
  \<open>makePaneFit\<close>: \<open>sub\<close> queues a job and \<open>hide\<close> hides the pane.  The center and a side pane that had
  no vertical room are shown or hidden by their height; a border pane that fits is resized into
  its limits and comes back if it was closed for lack of room; one that does not is closed or hidden.
\<close>

definition fit_height :: "pane \<Rightarrow> layout \<Rightarrow> layout" where
  "fit_height p l =
     (if p = Center \<or> (dir_of_pane p = Vert \<and> noVerticalRoom (pn l p))
      then (let hasRoom = (s_maxHeight (pn l p) \<ge> 0)
            in if hasRoom \<and> noRoom (pn l p)
               then upd p (\<lambda>s. s\<lparr>shown := True, r_shown := (if p = Center then r_shown s else True), isVisible := True,
                      noRoom := False, noVerticalRoom := (if p = Center then noVerticalRoom s else False)\<rparr>) l
               else if \<not> hasRoom \<and> \<not> noRoom (pn l p)
               then upd p (\<lambda>s. s\<lparr>shown := False, r_shown := (if p = Center then r_shown s else False),
                      isVisible := False, noRoom := True\<rparr>) l
               else l)
      else l)"

definition makePaneFit ::
  "(job \<Rightarrow> layout \<Rightarrow> layout) \<Rightarrow> (pane \<Rightarrow> layout \<Rightarrow> layout) \<Rightarrow> pane \<Rightarrow> bool \<Rightarrow> bool \<Rightarrow> layout \<Rightarrow> layout" where
  "makePaneFit sub hide p skipCallback force l0 =
     (let l = fit_height p l0; s = pn l p
      in if p = Center then l
         else if s_minSize s \<le> s_maxSize s then
           (let l1 = (if p_size s > s_maxSize s
                      then sub (JSize p (Num (of_int (s_maxSize s))) skipCallback force True) l
                      else if p_size s < s_minSize s
                      then sub (JSize p (Num (of_int (s_minSize s))) skipCallback force True) l
                      else if has_resizer p l \<and> isVisible s \<and> shown s
                      then upd p (\<lambda>s. s\<lparr>r_pos := p_size s + inset (sC l) p\<rparr>) l
                      else l)
            in if noRoom (pn l1 p)
               then (if wasOpen (pn l1 p) \<and> closable (op l1 p)
                     then (if autoReopen (op l1 p) then sub (JOpen p False True True) l1
                           else upd p (\<lambda>s. s\<lparr>noRoom := False\<rparr>) l1)
                     else show_pane sub p (wasOpen (pn l1 p)) True True l1)
               else l1)
         else if \<not> noRoom s then
           (let l1 = upd p (\<lambda>s. s\<lparr>noRoom := True, wasOpen := (\<not> isClosed s \<and> \<not> isSliding s)\<rparr>) l
            in if isClosed s then l1
               else if closable (op l p) then sub (JClose p True True False) l1
               else hide p l1)
         else l)"

section \<open>Sizing the middle panes\<close>

text \<open>
  The center and the side panes take the room the others leave.  A pane that is fitted here has
  no room yet (its recorded minimum is set to what its frame needs, not to its option), and \<open>makePaneFit\<close> then never hides it, so no hiding is passed on.  The loop that
  shrinks the side panes for a wide center runs only while the layout initialises.
\<close>

definition midPane_css :: "pane \<Rightarrow> center_dims \<Rightarrow> pane_state \<Rightarrow> pane_state" where
  "midPane_css p d s =
     (if p = Center
      then s\<lparr>s_maxWidth := c_width d, s_maxHeight := c_height d, css_w := cssW s (c_width d), css_h := cssH s (c_height d)\<rparr>
      else s\<lparr>s_maxHeight := cssH s (c_height d), css_h := cssH s (c_height d)\<rparr>)"

definition midPane_dims :: "pane \<Rightarrow> pane_state \<Rightarrow> pane_state" where
  "midPane_dims p s = (if p \<noteq> Center \<and> isVisible s \<and> \<not> noVerticalRoom s
     then (elDims s)\<lparr>s_minSize := cssMinSize p s\<rparr> else elDims s)"

definition midPane_skips :: "pane \<Rightarrow> bool \<Rightarrow> center_dims \<Rightarrow> pane_state \<Rightarrow> bool" where
  "midPane_skips p force d s =
     (if p = Center then \<not> force \<and> isVisible s \<and> c_width d = s_outerWidth s \<and> c_height d = s_outerHeight s
      else \<not> force \<and> \<not> noVerticalRoom s \<and> c_height d = s_outerHeight s)"

definition sizeMidPane :: "(job \<Rightarrow> layout \<Rightarrow> layout) \<Rightarrow> bool \<Rightarrow> bool \<Rightarrow> pane \<Rightarrow> layout \<Rightarrow> layout" where
  "sizeMidPane sub skipCallback force p l0 =
     (if \<not> present (pn l0 p) then l0
      else (let d = calcNewCenterPaneDims l0; l = upd p (midPane_dims p) l0
            in if midPane_skips p force d (pn l p) then l
               else (let l1 = (if \<not> skipCallback \<and> initialized l then fire ''onresize_start'' p l else l);
                         l2 = upd p (midPane_css p d) l1;
                         l3 = (if p \<noteq> Center then sizeHandles [p] l2 else l2);
                         l4 = (if noRoom (pn l3 p) \<and> \<not> isClosed (pn l3 p) \<and> \<not> isHidden (pn l3 p)
                               then makePaneFit sub (\<lambda>_ l. l) p False False l3 else l3);
                         l5 = (if isVisible (pn l4 p) then upd p elDims l4 else l4)
                     in if isVisible (pn l5 p) \<and> \<not> skipCallback \<and> initialized l5
                        then fire ''onresize_end'' p l5 else l5)))"

definition sizeMidPanes :: "(job \<Rightarrow> layout \<Rightarrow> layout) \<Rightarrow> pane list \<Rightarrow> bool \<Rightarrow> bool \<Rightarrow> layout \<Rightarrow> layout" where
  "sizeMidPanes sub ps skipCallback force l =
     fold (sizeMidPane sub skipCallback force) (if ps = [] then [East, West, Center] else ps) l"

text \<open>The panes beside one that opens, closes or resizes.\<close>

definition adjacent :: "pane \<Rightarrow> pane list" where
  "adjacent p = (if dir_of_pane p = Horz then [] else [Center])"

section \<open>Hiding and showing\<close>

definition hide_pane :: "(job \<Rightarrow> layout \<Rightarrow> layout) \<Rightarrow> bool \<Rightarrow> pane \<Rightarrow> layout \<Rightarrow> layout" where
  "hide_pane sub noAnim p l =
     (if \<not> present (pn l p) \<or> isHidden (pn l p) then l
      else (let (r, l1) = (if initialized l then runCallbacks ''onhide_start'' p l else (NC, l))
            in if r = CbFalse then l1
               else (let l2 = upd p (\<lambda>s. s\<lparr>isSliding := False, r_shown := False\<rparr>) l1
                     in if \<not> initialized l2 \<or> isClosed (pn l2 p)
                        then (let l3 = upd p (\<lambda>s. s\<lparr>isClosed := True, isHidden := True, isVisible := False\<rparr>) l2;
                                  l4 = (if \<not> initialized l3 then hidePane_now p l3 else l3);
                                  l5 = sizeMidPanes sub (adjacent p) False False l4
                              in if initialized l5 \<or> triggerEventsOnLoad (op l5 p) then fire ''onhide_end'' p l5 else l5)
                        else sub (JClose p False noAnim False) (upd p (\<lambda>s. s\<lparr>isHiding := True\<rparr>) l2))))"

definition fit_pane :: "(job \<Rightarrow> layout \<Rightarrow> layout) \<Rightarrow> pane \<Rightarrow> bool \<Rightarrow> bool \<Rightarrow> layout \<Rightarrow> layout" where
  "fit_pane sub = makePaneFit sub (hide_pane sub True)"

text \<open>The opposite pane, when it was closed for lack of room, may fit now.\<close>

definition refit_opposite :: "(job \<Rightarrow> layout \<Rightarrow> layout) \<Rightarrow> pane \<Rightarrow> bool \<Rightarrow> layout \<Rightarrow> layout" where
  "refit_opposite sub p skipCallback l =
     (if p \<noteq> Center \<and> noRoom (pn l (oppositeEdge p))
      then fit_pane sub (oppositeEdge p) skipCallback False (setSizeLimits (oppositeEdge p) None l) else l)"

section \<open>Pin buttons and hover classes\<close>

fun pane_name :: "pane \<Rightarrow> string" where
  "pane_name North = ''north''" | "pane_name South = ''south''" | "pane_name West = ''west''"
| "pane_name East = ''east''" | "pane_name Center = ''center''"

definition addClasses :: "string list \<Rightarrow> string list \<Rightarrow> string list" where
  "addClasses new cs = cs @ filter (\<lambda>c. c \<notin> set cs) new"

definition removeClasses :: "string list \<Rightarrow> string list \<Rightarrow> string list" where
  "removeClasses old cs = filter (\<lambda>c. c \<notin> set old) cs"

definition pin_state_classes :: "pane_ui \<Rightarrow> pane \<Rightarrow> bool \<Rightarrow> string list" where
  "pin_state_classes u p down =
     (let pin = buttonClass u @ ''-pin''; side = pin @ ''-'' @ pane_name p; updown = (if down then ''-down'' else ''-up'')
      in [pin @ updown, side @ updown])"

definition setPinState :: "pane_ui \<Rightarrow> pane \<Rightarrow> bool \<Rightarrow> pin_btn \<Rightarrow> pin_btn" where
  "setPinState u p doPin b =
     (if pin_attr b = Some doPin then b
      else b\<lparr>pin_attr := Some doPin, pin_title := (if doPin then tipUnpin u else tipPin u),
             pin_classes := addClasses (pin_state_classes u p doPin) (removeClasses (pin_state_classes u p (\<not> doPin)) (pin_classes b))\<rparr>)"

definition syncPinBtns :: "pane_ui \<Rightarrow> pane \<Rightarrow> bool \<Rightarrow> pane_ctl \<Rightarrow> pane_ctl" where
  "syncPinBtns u p doPin c = c\<lparr>pins := map (setPinState u p doPin) (pins c)\<rparr>"

text \<open>The hover classes of a resizer or a toggler, by the state classes it has now.\<close>

definition getHoverClasses :: "string \<Rightarrow> pane \<Rightarrow> bool \<Rightarrow> bool \<Rightarrow> bool \<Rightarrow> string list" where
  "getHoverClasses base p shut sliding allStates =
     (let side = base @ ''-'' @ pane_name p; now = (if shut then ''-closed'' else ''-open''); alt = (if shut then ''-open'' else ''-closed'')
      in map (\<lambda>c. c @ ''-hover'')
           ([base, side, base @ now, side @ now] @ (if allStates then [base @ alt, side @ alt] else [])
            @ (if sliding then [base @ ''-sliding'', side @ ''-sliding''] else [])))"

text \<open>
  What opening and closing do to them.  The double-click handler is bound without the name space
  under which closing unbinds it, so it stays.
\<close>

definition ctl_open :: "pane_ui \<Rightarrow> pane \<Rightarrow> bool \<Rightarrow> pane_ctl \<Rightarrow> pane_ctl" where
  "ctl_open u p sliding c =
     (let c1 = c\<lparr>r_hovers := removeClasses (getHoverClasses (resizerClass u) p False sliding True) (r_hovers c),
            t_hovers := removeClasses (getHoverClasses (togglerClass u) p False False True) (t_hovers c),
            dbl_handlers := dbl_handlers c + (if resizerDblClickToggle u then 1 else 0)\<rparr>
      in syncPinBtns u p (\<not> sliding) c1)"

section \<open>Closing\<close>

definition setAsClosed :: "pane \<Rightarrow> layout \<Rightarrow> layout" where
  "setAsClosed p l =
     (let l1 = upd p (\<lambda>s. s\<lparr>r_pos := inset (sC l) p, r_open := False, r_sliding := False, r_closed := True,
                 t_open := False, ctl := syncPinBtns (ui (op l p)) p False (ctl s)\<rparr>) l
      in if initialized l then sizeHandles [] l1 else l1)"

definition close_2 :: "(job \<Rightarrow> layout \<Rightarrow> layout) \<Rightarrow> pane \<Rightarrow> bool \<Rightarrow> bool \<Rightarrow> bool \<Rightarrow> layout \<Rightarrow> layout" where
  "close_2 sub p skipCallback wasShowing wasHiding l =
     (let l1 = bindStartSlidingEvent p True (upd p (\<lambda>s. s\<lparr>isMoving := False\<rparr>) l);
          l2 = refit_opposite sub p False l1
      in if \<not> skipCallback \<and> (initialized l2 \<or> triggerEventsOnLoad (op l2 p))
         then (let l3 = (if \<not> wasShowing then fire ''onclose_end'' p l2 else l2);
                   l4 = (if wasShowing then fire ''onshow_end'' p l3 else l3)
               in if wasHiding then fire ''onhide_end'' p l4 else l4)
         else l2)"

definition run_close :: "(job \<Rightarrow> layout \<Rightarrow> layout) \<Rightarrow> pane \<Rightarrow> bool \<Rightarrow> bool \<Rightarrow> bool \<Rightarrow> layout \<Rightarrow> outcome \<times> layout" where
  "run_close sub p force noAnim skipCallback l =
     (let s = pn l p
      in if \<not> present s \<or> (\<not> closable (op l p) \<and> \<not> isShowing s \<and> \<not> isHiding s) \<or> (\<not> force \<and> isClosed s \<and> \<not> isShowing s)
         then (Done, l)
         else (let (r, l1) = (if isShowing s then (NC, l) else runCallbacks ''onclose_start'' p l);
                   l2 = upd p (\<lambda>s. s\<lparr>isShowing := False, isHiding := False\<rparr>) l1
               in if r = CbFalse then (Done, l2)
                  else (let doFX = (\<not> noAnim \<and> \<not> isClosed s \<and> fx_close (op l p));
                            l3 = upd p (\<lambda>t. t\<lparr>isMoving := True, isClosed := True, isVisible := False,
                                   isHidden := (if isHiding s then True else if isShowing s then False else isHidden t)\<rparr>) l2;
                            l4 = (if isSliding (pn l3 p) then bindStopSlidingEvents p False l3
                                  else sizeMidPanes sub (adjacent p) False False l3);
                            l5 = setAsClosed p l4
                        in if doFX
                           then (Waiting, (upd p (\<lambda>s. s\<lparr>fx_locked := True\<rparr>) l5)
                                   \<lparr>anim := Some (AClose p skipCallback (isShowing s) (isHiding s))\<rparr>)
                           else (Done, close_2 sub p skipCallback (isShowing s) (isHiding s) (hidePane_now p l5)))))"

section \<open>Opening\<close>

definition setAsOpen :: "pane \<Rightarrow> bool \<Rightarrow> layout \<Rightarrow> layout" where
  "setAsOpen p skipCallback l =
     (let l1 = upd p (\<lambda>s. elDims (s\<lparr>r_pos := inset (sC l) p + getPaneSize l p False, r_closed := False, r_open := True,
                 r_sliding := isSliding s, t_open := True, ctl := ctl_open (ui (op l p)) p (isSliding s) (ctl s)\<rparr>)) l;
          l2 = (if initialized l1 then sizeHandles [] l1 else l1)
      in if \<not> skipCallback \<and> (initialized l2 \<or> triggerEventsOnLoad (op l2 p)) \<and> shown (pn l2 p)
         then (let l3 = fire ''onopen_end'' p l2;
                   l4 = (if isShowing (pn l3 p) then fire ''onshow_end'' p l3 else l3)
               in if initialized l4 then fire ''onresize_end'' p l4 else l4)
         else l2)"

definition open_2 :: "(job \<Rightarrow> layout \<Rightarrow> layout) \<Rightarrow> pane \<Rightarrow> layout \<Rightarrow> layout" where
  "open_2 sub p l =
     (let l1 = upd p (\<lambda>s. s\<lparr>isMoving := False\<rparr>) l;
          l2 = (if \<not> isSliding (pn l1 p)
                then sizeMidPanes sub (if dir_of_pane p = Vert then [Center] else []) False False l1 else l1)
      in setAsOpen p False l2)"

definition run_open :: "(job \<Rightarrow> layout \<Rightarrow> layout) \<Rightarrow> pane \<Rightarrow> bool \<Rightarrow> bool \<Rightarrow> bool \<Rightarrow> layout \<Rightarrow> outcome \<times> layout" where
  "run_open sub p slide noAnim noAlert l =
     (let s = pn l p
      in if \<not> present s \<or> (\<not> resizable (op l p) \<and> \<not> closable (op l p) \<and> \<not> isShowing s) \<or> (isVisible s \<and> \<not> isSliding s)
         then (Done, l)
         else if isHidden s \<and> \<not> isShowing s then (DoneShow p, l)
         else (let l1 = (if autoResize (op l p) \<and> o_size (op l p) \<noteq> Num (of_int (p_size s))
                         then sub (JSize p (o_size (op l p)) True True True) l
                         else setSizeLimits p (Some slide) l);
                   (r, l2) = runCallbacks ''onopen_start'' p l1
               in if r = CbAbort then (Done, l2)
                  else (let l3 = (if r \<noteq> NC then setSizeLimits p (Some slide) l2 else l2)
                        in if s_minSize (pn l3 p) > s_maxSize (pn l3 p)
                           then (Done, upd p (\<lambda>s. s\<lparr>ctl := syncPinBtns (ui (op l3 p)) p False (ctl s)\<rparr>) l3)
                           else (let l4 = (if slide then bindStopSlidingEvents p True l3
                                           else if isSliding (pn l3 p) then bindStopSlidingEvents p False l3
                                           else if slidable (op l3 p) then bindStartSlidingEvent p False l3
                                           else l3);
                                     l5 = fit_pane sub p False False (upd p (\<lambda>s. s\<lparr>noRoom := False\<rparr>) l4);
                                     t = pn l5 p;
                                     doFX = (\<not> noAnim \<and> isClosed t \<and> fx_open (op l5 p));
                                     l6 = upd p (\<lambda>s. s\<lparr>isShowing := False, isMoving := True, isVisible := True,
                                            isClosed := False, isHidden := (if isShowing t then False else isHidden s)\<rparr>) l5
                                 in if doFX
                                    then (Waiting, (upd p (\<lambda>s. s\<lparr>fx_locked := True\<rparr>) l6)\<lparr>anim := Some (AOpen p)\<rparr>)
                                    else (Done, open_2 sub p (showPane_now p l6))))))"

section \<open>Resizing\<close>

definition sizePane_2 :: "(job \<Rightarrow> layout \<Rightarrow> layout) \<Rightarrow> pane \<Rightarrow> int \<Rightarrow> int \<Rightarrow> bool \<Rightarrow> bool \<Rightarrow> layout \<Rightarrow> layout" where
  "sizePane_2 sub p sz oldSize skipCallback force l =
     (let skipWhileDragging = (isResizing (pn l p) \<and> \<not> triggerEventsDuringLiveResize (op l p));
          meas = (\<lambda>c. outer_in p (set_css p c (pn l p)));
          applied = fst (correct_size (cssSize p (pn l p)) meas sz);
          l1 = upd p (\<lambda>s. elDims (set_css p applied s\<lparr>p_size := sz\<rparr>)) l;
          l2 = (if isVisible (pn l1 p) \<and> shown (pn l1 p) \<and> has_resizer p l1
                then upd p (\<lambda>s. s\<lparr>r_pos := sz + inset (sC l1) p\<rparr>) l1 else l1);
          l3 = (if \<not> skipCallback \<and> \<not> skipWhileDragging \<and> initialized l2 \<and> isVisible (pn l2 p)
                then fire ''onresize_end'' p l2 else l2);
          l4 = (if \<not> skipCallback
                then sizeHandles [] (if \<not> isSliding (pn l3 p) then sizeMidPanes sub (adjacent p) skipWhileDragging force l3 else l3)
                else l3)
      in if sz < oldSize then refit_opposite sub p skipCallback l4 else l4)"

definition run_size :: "(job \<Rightarrow> layout \<Rightarrow> layout) \<Rightarrow> pane \<Rightarrow> psize \<Rightarrow> bool \<Rightarrow> bool \<Rightarrow> bool \<Rightarrow> layout \<Rightarrow> outcome \<times> layout" where
  "run_size sub p size0 skipCallback force noAnim l0 =
     (let l = setSizeLimits p None l0; s = pn l p; d = dir_of_pane p;
          sz = min (max (parseSize l p size0 d) (parseSize l p (o_minSize (op l p)) d)) (s_maxSize s)
      in if sz < s_minSize s then (DoneFit p skipCallback, l)
         else if \<not> force \<and> sz = p_size s then (Done, l)
         else (let l1 = (if \<not> skipCallback \<and> initialized l \<and> isVisible s then fire ''onresize_start'' p l else l);
                   newSize = cssSize p s sz
               in if \<not> noAnim \<and> animatePaneSizing (op l p) \<and> shown s
                  then (Waiting, (upd p (\<lambda>s. s\<lparr>isMoving := True\<rparr>) l1)\<lparr>anim := Some (ASize p sz newSize (p_size s) skipCallback force)\<rparr>)
                  else (let l2 = upd p (set_css p newSize) l1
                        in (Done, if shown (pn l2 p) then sizePane_2 sub p sz (p_size s) skipCallback force l2
                                  else upd p (\<lambda>s. elDims (s\<lparr>p_size := sz\<rparr>)) l2))))"

section \<open>The queue\<close>

definition enqueue :: "job \<Rightarrow> layout \<Rightarrow> layout" where
  "enqueue j l = l\<lparr>queue := queue l @ [j]\<rparr>"

fun run_job :: "job \<Rightarrow> layout \<Rightarrow> outcome \<times> layout" where
  "run_job (JClose p f n k) l = run_close enqueue p f n k l"
| "run_job (JOpen p s n a) l = run_open enqueue p s n a l"
| "run_job (JSize p z k f n) l = run_size enqueue p z k f n l"

text \<open>
  The queue runs its jobs one after another; a job that calls the next one before it ends goes on
  afterwards, and what it then starts runs at once if the queue is idle.  The fuel bounds the
  number of jobs run; running out leaves jobs in a queue that is not busy.
\<close>

fun run_queue :: "nat \<Rightarrow> layout \<Rightarrow> layout" where
  "run_queue 0 l = l"
| "run_queue (Suc n) l =
     (if busy l then l
      else (case queue l of
              [] \<Rightarrow> l
            | j # js \<Rightarrow>
                (case run_job j (l\<lparr>queue := js, busy := True\<rparr>) of
                   (Waiting, l1) \<Rightarrow> l1
                 | (Done, l1) \<Rightarrow> run_queue n (l1\<lparr>busy := False\<rparr>)
                 | (DoneFit p skip, l1) \<Rightarrow>
                     fit_pane (\<lambda>j l. run_queue n (enqueue j l)) p skip False (run_queue n (l1\<lparr>busy := False\<rparr>))
                 | (DoneShow p, l1) \<Rightarrow>
                     show_pane (\<lambda>j l. run_queue n (enqueue j l)) p True False False (run_queue n (l1\<lparr>busy := False\<rparr>)))))"

definition submit :: "nat \<Rightarrow> job \<Rightarrow> layout \<Rightarrow> layout" where
  "submit n j l = run_queue n (enqueue j l)"

text \<open>The end of the running animation.\<close>

definition animation_done :: "nat \<Rightarrow> layout \<Rightarrow> layout" where
  "animation_done n l =
     (case anim l of
        None \<Rightarrow> l
      | Some a \<Rightarrow>
          (let l1 = l\<lparr>anim := None\<rparr>;
               l2 = (case a of
                       AClose p skip sh hi \<Rightarrow>
                         (let l' = upd p (\<lambda>s. s\<lparr>fx_locked := False, shown := False\<rparr>) l1
                          in if isClosed (pn l' p) then close_2 enqueue p skip sh hi l' else l')
                     | AOpen p \<Rightarrow>
                         (let l' = upd p (\<lambda>s. s\<lparr>fx_locked := False, shown := True\<rparr>) l1
                          in if isVisible (pn l' p) then open_2 enqueue p l' else l')
                     | ASize p sz newSize oldSize skip force \<Rightarrow>
                         sizePane_2 enqueue p sz oldSize skip force
                           (upd p (\<lambda>s. set_css p newSize (s\<lparr>isMoving := False\<rparr>)) l1))
           in run_queue n (l2\<lparr>busy := False\<rparr>)))"

section \<open>The public actions\<close>

text \<open>While the layout initialises a pane is closed at once.\<close>

definition closePane_now :: "pane \<Rightarrow> layout \<Rightarrow> layout" where
  "closePane_now p l = upd p (\<lambda>s. s\<lparr>isClosed := True, isVisible := False\<rparr>) (hidePane_now p l)"

definition close_pane :: "nat \<Rightarrow> pane \<Rightarrow> bool \<Rightarrow> bool \<Rightarrow> bool \<Rightarrow> layout \<Rightarrow> layout" where
  "close_pane n p force noAnim skip l =
     (if \<not> initialized l \<and> present (pn l p) then closePane_now p l else submit n (JClose p force noAnim skip) l)"

definition open_pane :: "nat \<Rightarrow> pane \<Rightarrow> bool \<Rightarrow> bool \<Rightarrow> bool \<Rightarrow> layout \<Rightarrow> layout" where
  "open_pane n p slide noAnim noAlert l = submit n (JOpen p slide noAnim noAlert) l"

definition toggle_pane :: "nat \<Rightarrow> pane \<Rightarrow> bool \<Rightarrow> layout \<Rightarrow> layout" where
  "toggle_pane n p slide l =
     (if isHidden (pn l p) then show_pane (submit n) p True False False l
      else if isClosed (pn l p) then open_pane n p slide False False l
      else close_pane n p False False False l)"

definition manualSizePane :: "nat \<Rightarrow> pane \<Rightarrow> psize \<Rightarrow> bool \<Rightarrow> bool \<Rightarrow> layout \<Rightarrow> layout" where
  "manualSizePane n p sz skip noAnim l =
     (let forceResize = (livePaneResizing (op l p) \<and> \<not> isResizing (pn l p));
          l1 = l\<lparr>op := (op l)(p := (op l p)\<lparr>autoResize := False\<rparr>)\<rparr>
      in submit n (JSize p sz skip forceResize noAnim) l1)"

text \<open>Sliding open and closed; the mouse events start a timer, whose end is a step of its own.\<close>

definition slideOpen_now :: "nat \<Rightarrow> pane \<Rightarrow> layout \<Rightarrow> layout" where
  "slideOpen_now n p l =
     (if \<not> isClosed (pn l p) then bindStopSlidingEvents p True l
      else if \<not> isMoving (pn l p) then open_pane n p True False False l
      else l)"

definition slideOpen :: "nat \<Rightarrow> bool \<Rightarrow> pane \<Rightarrow> layout \<Rightarrow> layout" where
  "slideOpen n mouse p l =
     (if isClosed (pn l p) \<and> mouse \<and> slide_open_delay (op l p)
      then upd p (\<lambda>s. s\<lparr>open_timer := True\<rparr>) l else slideOpen_now n p l)"

definition slideClose_now :: "nat \<Rightarrow> pane \<Rightarrow> layout \<Rightarrow> layout" where
  "slideClose_now n p l =
     (if isClosed (pn l p) then bindStopSlidingEvents p False l
      else if \<not> isMoving (pn l p) then close_pane n p False False False l
      else l)"

definition slideClose :: "nat \<Rightarrow> bool \<Rightarrow> bool \<Rightarrow> pane \<Rightarrow> layout \<Rightarrow> layout" where
  "slideClose n mouse over p l =
     (if isClosed (pn l p) \<or> isResizing (pn l p) then l
      else if slide_close_on_click (op l p) then slideClose_now n p l
      else if preventQuickSlideClose (op l p) \<and> isMoving (pn l p) then l
      else if over then l
      else if mouse then upd p (\<lambda>s. s\<lparr>close_timer := True\<rparr>) l
      else slideClose_now n p l)"

text \<open>A change of the container: every pane is fitted in the order of the source, then the middle panes.\<close>

definition refit_pane :: "nat \<Rightarrow> pane \<Rightarrow> layout \<Rightarrow> layout" where
  "refit_pane n p l =
     (if \<not> present (pn l p) then l
      else if autoResize (op l p) \<and> o_size (op l p) \<noteq> Num (of_int (p_size (pn l p)))
      then submit n (JSize p (o_size (op l p)) True True True) l
      else fit_pane (submit n) p True True (setSizeLimits p None l))"

text \<open>\<open>vis\<close>, \<open>c\<close> and \<open>outerH\<close> are what the browser reports of the container, \<open>answer\<close> what \<open>onresizeall_start\<close> returns.\<close>

definition resizeAll :: "nat \<Rightarrow> bool \<Rightarrow> container \<Rightarrow> int \<Rightarrow> cbret \<Rightarrow> layout \<Rightarrow> layout" where
  "resizeAll n vis c outerH answer l =
     (if \<not> vis then l
      else (let l1 = l\<lparr>sC := c\<rparr>
            in if outerH = 0 \<or> answer = CbFalse then l1
               else (let l2 = fold (refit_pane n) [South, North, East, West] l1;
                         l3 = sizeHandles [] (sizeMidPanes (submit n) [] True True l2)
                     in fold (\<lambda>p l. if present (pn l p) \<and> isVisible (pn l p) then fire ''onresize_end'' p l else l)
                          [North, South, West, East, Center] l3)))"

definition slideToggle :: "nat \<Rightarrow> pane \<Rightarrow> layout \<Rightarrow> layout" where
  "slideToggle n p l = toggle_pane n p True l"

end
