(* ===== verification/LayoutState.thy ===== *)
theory LayoutState
  imports LayoutInit LayoutActions
begin

text \<open>
  The state management of \<open>lib/jquery.layout.js\<close>: the state of the panes as data, its JSON text, the cookie
  it is kept in, and its return into the layout.  JSON texts have no arrays, fractions or code points
  above 255 here.  The browser's clock is a parameter of \<open>cookie_write\<close>, and \<open>document.cookie\<close> is the
  text that \<open>cookie_read\<close> is given.
\<close>

section \<open>JSON\<close>

definition digit :: "nat \<Rightarrow> char" where
  "digit n = char_of (48 + n)"

fun nat_str :: "nat \<Rightarrow> string" where
  "nat_str n = (if n < 10 then [digit n] else nat_str (n div 10) @ [digit (n mod 10)])"

declare nat_str.simps [simp del]

definition int_str :: "int \<Rightarrow> string" where
  "int_str i = (if i < 0 then CHR ''-'' # nat_str (nat (- i)) else nat_str (nat i))"

definition quoted :: "string \<Rightarrow> string" where
  "quoted s = CHR 0x22 # s @ [CHR 0x22]"

text \<open>A string is put between quotes as it is; null is an object without keys to this loop.\<close>

fun enc :: "jsval \<Rightarrow> string"
and enc_pairs :: "jsobj \<Rightarrow> string list" where
  "enc JNull = ''{}''"
| "enc (JBool b) = (if b then ''true'' else ''false'')"
| "enc (JNum n) = int_str n"
| "enc (JStr s) = quoted s"
| "enc (JObj ob) = ''{'' @ js_join '','' (enc_pairs ob) @ ''}''"
| "enc_pairs [] = []"
| "enc_pairs ((k, v) # ob) = (quoted k @ '':'' @ enc v) # enc_pairs ob"

definition encodeJSON :: "jsobj \<Rightarrow> string" where
  "encodeJSON ob = enc (JObj ob)"

definition is_ws :: "char \<Rightarrow> bool" where
  "is_ws c = (c = CHR '' '' \<or> c = CHR 0x09 \<or> c = CHR 0x0A \<or> c = CHR 0x0D)"

definition skip_ws :: "string \<Rightarrow> string" where
  "skip_ws = dropWhile is_ws"

definition code :: "char \<Rightarrow> nat" where
  "code c = of_char c"

definition is_digit :: "char \<Rightarrow> bool" where
  "is_digit c = (48 \<le> code c \<and> code c \<le> 57)"

definition hex_val :: "char \<Rightarrow> nat option" where
  "hex_val c = (let n = code c in
     if 48 \<le> n \<and> n \<le> 57 then Some (n - 48) else if 65 \<le> n \<and> n \<le> 70 then Some (n - 55)
     else if 97 \<le> n \<and> n \<le> 102 then Some (n - 87) else None)"

definition hex_byte :: "char \<Rightarrow> char \<Rightarrow> nat option" where
  "hex_byte a b = (case (hex_val a, hex_val b) of (Some x, Some y) \<Rightarrow> Some (16 * x + y) | _ \<Rightarrow> None)"

definition escape_char :: "char \<Rightarrow> char option" where
  "escape_char c = map_of [(CHR 0x22, CHR 0x22), (CHR 0x5C, CHR 0x5C), (CHR ''/'', CHR ''/''), (CHR ''b'', CHR 0x08),
     (CHR ''f'', CHR 0x0C), (CHR ''n'', CHR 0x0A), (CHR ''r'', CHR 0x0D), (CHR ''t'', CHR 0x09)] c"

fun p_string :: "string \<Rightarrow> (string \<times> string) option" where
  "p_string [] = None"
| "p_string (c # s) =
     (if c = CHR 0x22 then Some ([], s)
      else if c = CHR 0x5C then
        (case s of
           [] \<Rightarrow> None
         | e # s' \<Rightarrow>
             if e = CHR ''u'' then
               (case s' of
                  a # b # c # d # s'' \<Rightarrow>
                    (case (hex_byte a b, hex_byte c d) of
                       (Some 0, Some n) \<Rightarrow> map_option (\<lambda>(t, r). (char_of n # t, r)) (p_string s'')
                     | _ \<Rightarrow> None)
                | _ \<Rightarrow> None)
             else (case escape_char e of None \<Rightarrow> None | Some x \<Rightarrow> map_option (\<lambda>(t, r). (x # t, r)) (p_string s')))
      else if code c < 32 then None
      else map_option (\<lambda>(t, r). (c # t, r)) (p_string s))"

definition digits_val :: "string \<Rightarrow> nat" where
  "digits_val ds = foldl (\<lambda>n c. 10 * n + (code c - 48)) 0 ds"

definition p_num :: "string \<Rightarrow> (jsval \<times> string) option" where
  "p_num s =
     (let neg = (s \<noteq> [] \<and> hd s = CHR ''-''); t = (if neg then tl s else s);
          ds = takeWhile is_digit t; r = dropWhile is_digit t
      in if ds = [] \<or> (length ds > 1 \<and> hd ds = CHR ''0'') \<or> (r \<noteq> [] \<and> hd r \<in> set ''.eE'') then None
         else Some (JNum (if neg then - int (digits_val ds) else int (digits_val ds)), r))"

fun p_val :: "nat \<Rightarrow> string \<Rightarrow> (jsval \<times> string) option"
and p_members :: "nat \<Rightarrow> string \<Rightarrow> jsobj \<Rightarrow> (jsval \<times> string) option" where
  "p_val 0 s = None"
| "p_val (Suc n) s =
     (case skip_ws s of
        [] \<Rightarrow> None
      | c # r \<Rightarrow>
          if c = CHR ''{'' then
            (case skip_ws r of
               d # r' \<Rightarrow> if d = CHR ''}'' then Some (JObj [], r') else p_members n (d # r') []
             | [] \<Rightarrow> None)
          else if c = CHR 0x22 then map_option (\<lambda>(t, r'). (JStr t, r')) (p_string r)
          else if prefix ''true'' (c # r) then Some (JBool True, drop 3 r)
          else if prefix ''false'' (c # r) then Some (JBool False, drop 4 r)
          else if prefix ''null'' (c # r) then Some (JNull, drop 3 r)
          else p_num (c # r))"
| "p_members 0 s acc = None"
| "p_members (Suc n) s acc =
     (case skip_ws s of
        [] \<Rightarrow> None
      | q # r \<Rightarrow>
          if q \<noteq> CHR 0x22 then None
          else (case p_string r of
                  None \<Rightarrow> None
                | Some (k, r1) \<Rightarrow>
                    (case skip_ws r1 of
                       [] \<Rightarrow> None
                     | d # r2 \<Rightarrow>
                         if d \<noteq> CHR '':'' then None
                         else (case p_val n r2 of
                                 None \<Rightarrow> None
                               | Some (v, r3) \<Rightarrow>
                                   (case skip_ws r3 of
                                      [] \<Rightarrow> None
                                    | e # r4 \<Rightarrow>
                                        if e = CHR '','' then p_members n r4 (AList.update k v acc)
                                        else if e = CHR ''}'' then Some (JObj (AList.update k v acc), r4)
                                        else None)))))"

definition decodeJSON :: "string \<Rightarrow> jsval" where
  "decodeJSON s = (case p_val (Suc (length s)) s of Some (v, r) \<Rightarrow> if skip_ws r = [] then v else JObj [] | None \<Rightarrow> JObj [])"

section \<open>Cookies\<close>

definition hex_digit :: "nat \<Rightarrow> char" where
  "hex_digit n = char_of (if n < 10 then 48 + n else 55 + n)"

definition percent :: "nat \<Rightarrow> string" where
  "percent b = [CHR ''%'', hex_digit (b div 16), hex_digit (b mod 16)]"

definition unreserved :: "char \<Rightarrow> bool" where
  "unreserved c = (is_digit c \<or> is_upper c \<or> is_lower c \<or> c \<in> set ''-_.!~*()'' \<or> c = CHR 0x27)"

definition enc_char :: "char \<Rightarrow> string" where
  "enc_char c = (if unreserved c then [c] else if code c < 128 then percent (code c)
     else percent (192 + code c div 64) @ percent (128 + code c mod 64))"

definition encodeURIComponent :: "string \<Rightarrow> string" where
  "encodeURIComponent s = concat (map enc_char s)"

fun decodeURIComponent :: "string \<Rightarrow> string option" where
  "decodeURIComponent [] = Some []"
| "decodeURIComponent (c # s) =
     (if c \<noteq> CHR ''%'' then map_option ((#) c) (decodeURIComponent s)
      else (case s of
              a # b # s' \<Rightarrow>
                (case hex_byte a b of
                   None \<Rightarrow> None
                 | Some n \<Rightarrow>
                     if n < 128 then map_option ((#) (char_of n)) (decodeURIComponent s')
                     else if n = 194 \<or> n = 195 then
                       (case s' of
                          p # a' # b' # s'' \<Rightarrow>
                            (case hex_byte a' b' of
                               Some m \<Rightarrow> if p = CHR ''%'' \<and> 128 \<le> m \<and> m < 192
                                 then map_option ((#) (char_of (64 * (n - 192) + (m - 128)))) (decodeURIComponent s'')
                                 else None
                             | None \<Rightarrow> None)
                        | _ \<Rightarrow> None)
                     else None)
            | _ \<Rightarrow> None))"

datatype cookie_error = URIError

definition cookie_pair :: "string \<Rightarrow> string list" where
  "cookie_pair c = js_split (CHR ''='') (js_trim c)"

fun find_cookie :: "string \<Rightarrow> string list \<Rightarrow> cookie_error + string option" where
  "find_cookie name [] = Inr None"
| "find_cookie name (c # cs) =
     (let pair = cookie_pair c
      in if hd pair = name
         then (case decodeURIComponent (if tl pair = [] then ''undefined'' else hd (tl pair)) of
                 None \<Rightarrow> Inl URIError
               | Some v \<Rightarrow> Inr (Some v))
         else find_cookie name cs)"

definition cookie_read :: "string \<Rightarrow> string \<Rightarrow> cookie_error + string option" where
  "cookie_read name doc = find_cookie name (if doc = [] then [] else js_split (CHR '';'') doc)"

datatype expires = ExNone | ExDate string | ExNull | ExDays int

record cookie_opts =
  co_expires :: expires
  co_path :: string
  co_domain :: string
  co_secure :: bool

text \<open>What is assigned to \<open>document.cookie\<close>; \<open>utc n\<close> is the date in \<open>n\<close> days, \<open>past\<close> the date in 1970.\<close>

definition cookie_write :: "(int \<Rightarrow> string) \<Rightarrow> string \<Rightarrow> string \<Rightarrow> string \<Rightarrow> cookie_opts \<Rightarrow> string" where
  "cookie_write utc past name val o' =
     (let (date, clear) = (case co_expires o' of
             ExNone \<Rightarrow> ([], False) | ExDate d \<Rightarrow> (d, False) | ExNull \<Rightarrow> (past, True)
           | ExDays n \<Rightarrow> if n > 0 then (utc n, False) else (past, True));
          params = (if date \<noteq> [] then '';expires='' @ date else []) @ (if co_path o' \<noteq> [] then '';path='' @ co_path o' else [])
             @ (if co_domain o' \<noteq> [] then '';domain='' @ co_domain o' else []) @ (if co_secure o' then '';secure'' else [])
      in name @ ''='' @ (if clear then [] else encodeURIComponent val) @ params)"

definition cookie_clear :: "(int \<Rightarrow> string) \<Rightarrow> string \<Rightarrow> string \<Rightarrow> string" where
  "cookie_clear utc past name =
     cookie_write utc past name [] \<lparr>co_expires = ExDays (-1), co_path = [], co_domain = [], co_secure = False\<rparr>"

section \<open>The state as data\<close>

definition alt_key :: "string \<Rightarrow> string" where
  "alt_key k = (if k = ''isClosed'' then ''initClosed'' else if k = ''isHidden'' then ''initHidden'' else k)"

definition read_key :: "(string \<Rightarrow> string \<Rightarrow> jsval option) \<Rightarrow> string \<Rightarrow> jsobj \<Rightarrow> jsobj" where
  "read_key st entry data =
     (let pair = js_split (CHR ''.'') entry; pane = hd pair; key = (if tl pair = [] then ''undefined'' else hd (tl pair))
      in if pane \<notin> set allPanes then data
         else (case st pane key of
                 None \<Rightarrow> data
               | Some JNull \<Rightarrow> data
               | Some v \<Rightarrow>
                   (let val = (if key = ''isClosed'' \<and> (case st pane ''isSliding'' of Some x \<Rightarrow> truthy x | None \<Rightarrow> False)
                               then JBool True else v)
                    in AList.update pane (JObj (AList.update (alt_key key) val (obj_at pane data))) data)))"

definition readState :: "(string \<Rightarrow> string \<Rightarrow> jsval option) \<Rightarrow> string \<Rightarrow> jsobj" where
  "readState st keys = fold (read_key st) (js_split (CHR '','') (js_join ''.'' (split_dunder keys))) []"

definition stateKeys :: string where
  "stateKeys = ''north.size,south.size,east.size,west.size,'' @ ''north.isClosed,south.isClosed,east.isClosed,west.isClosed,''
     @ ''north.isHidden,south.isHidden,east.isHidden,west.isHidden''"

definition pane_named :: "string \<Rightarrow> pane option" where
  "pane_named s = map_of (zip allPanes [North, South, West, East, Center]) s"

text \<open>The keys of a pane that this model keeps as state; any other key reads as undefined here.\<close>

definition state_fields :: "pane_state \<Rightarrow> jsobj" where
  "state_fields s =
     [(''size'', JNum (p_size s)), (''isClosed'', JBool (isClosed s)), (''isHidden'', JBool (isHidden s)),
      (''isVisible'', JBool (isVisible s)), (''isSliding'', JBool (isSliding s)), (''isResizing'', JBool (isResizing s)),
      (''isMoving'', JBool (isMoving s)), (''noRoom'', JBool (noRoom s)), (''minSize'', JNum (s_minSize s)),
      (''maxSize'', JNum (s_maxSize s)), (''outerWidth'', JNum (s_outerWidth s)), (''outerHeight'', JNum (s_outerHeight s))]"

definition pane_value :: "layout \<Rightarrow> string \<Rightarrow> string \<Rightarrow> jsval option" where
  "pane_value l pane key =
     (case pane_named pane of
        None \<Rightarrow> None
      | Some p \<Rightarrow> if \<not> present (pn l p) then None else map_of (state_fields (pn l p)) key)"

definition cookie_name :: "string \<Rightarrow> string \<Rightarrow> string" where
  "cookie_name cookieName layoutName = (if cookieName \<noteq> [] then cookieName else if layoutName \<noteq> [] then layoutName else ''Layout'')"

definition saveCookie :: "(int \<Rightarrow> string) \<Rightarrow> string \<Rightarrow> string \<Rightarrow> cookie_opts \<Rightarrow> string \<Rightarrow> layout \<Rightarrow> jsobj \<times> string" where
  "saveCookie utc past name o' keys l =
     (let data = readState (pane_value l) keys in (data, cookie_write utc past name (encodeJSON data) o'))"

definition readCookie :: "string \<Rightarrow> string \<Rightarrow> cookie_error + jsval" where
  "readCookie name doc = map_sum id (\<lambda>c. case c of None \<Rightarrow> JObj [] | Some s \<Rightarrow> if s = [] then JObj [] else decodeJSON s) (cookie_read name doc)"

section \<open>Loading a state\<close>

text \<open>The state of one pane: a size that is missing is measured, as \<open>auto\<close> is.\<close>

definition load_pane :: "nat \<Rightarrow> bool \<Rightarrow> psize option \<Rightarrow> bool option \<Rightarrow> bool option \<Rightarrow> pane \<Rightarrow> layout \<Rightarrow> layout" where
  "load_pane n noAnim s c h p l =
     (let vis = isVisible (pn l p); sz = (case s of Some z \<Rightarrow> z | None \<Rightarrow> AutoSize);
          l1 = (if \<not> vis then manualSizePane n p sz False False l else l);
          l2 = (if h = Some True then hide_pane (submit n) noAnim p l1
                else if c = Some False then open_pane n p False noAnim False l1
                else if c = Some True then close_pane n p False noAnim False l1
                else if h = Some False then show_pane (submit n) p False noAnim False l1
                else l1)
      in if vis then manualSizePane n p sz False noAnim l2 else l2)"

definition size_of :: "jsobj \<Rightarrow> psize option" where
  "size_of ob = (case map_of ob ''size'' of Some (JNum n) \<Rightarrow> Some (Num (of_int n)) | _ \<Rightarrow> None)"

definition bool_of :: "string \<Rightarrow> jsobj \<Rightarrow> bool option" where
  "bool_of k ob = (case map_of ob k of Some (JBool b) \<Rightarrow> Some b | _ \<Rightarrow> None)"

text \<open>The options of a pane that a saved state may name; they stay in the layout and decide how a pane that is
  made later starts.\<close>

definition num_of :: "string \<Rightarrow> jsobj \<Rightarrow> psize option" where
  "num_of k ob = (case map_of ob k of Some (JNum n) \<Rightarrow> Some (Num (of_int n)) | _ \<Rightarrow> None)"

definition merge_options :: "pane \<Rightarrow> jsobj \<Rightarrow> layout \<Rightarrow> layout" where
  "merge_options p ob l =
     (let o' = op l p
      in l\<lparr>op := (op l)(p := o'\<lparr>
             o_size := (case size_of ob of Some z \<Rightarrow> z | None \<Rightarrow> o_size o'),
             o_minSize := (case num_of ''minSize'' ob of Some z \<Rightarrow> z | None \<Rightarrow> o_minSize o'),
             o_maxSize := (case num_of ''maxSize'' ob of Some z \<Rightarrow> Some z | None \<Rightarrow> o_maxSize o'),
             initClosed := (case bool_of ''initClosed'' ob of Some b \<Rightarrow> b | None \<Rightarrow> initClosed o'),
             initHidden := (case bool_of ''initHidden'' ob of Some b \<Rightarrow> b | None \<Rightarrow> initHidden o')\<rparr>)\<rparr>)"

definition loadState :: "nat \<Rightarrow> jsval \<Rightarrow> bool \<Rightarrow> layout \<Rightarrow> js_error + layout" where
  "loadState n stateData noAnimate l =
     map_sum id (\<lambda>data.
       (let l0 = fold (\<lambda>s l. case (pane_named s, map_of data s) of (Some p, Some (JObj ob)) \<Rightarrow> merge_options p ob l | _ \<Rightarrow> l) allPanes l
        in if \<not> initialized l0 then l0
           else fold (\<lambda>s l. case (pane_named s, map_of data s) of
                  (Some p, Some (JObj ob)) \<Rightarrow> load_pane n noAnimate (size_of ob) (bool_of ''initClosed'' ob) (bool_of ''initHidden'' ob) p l
                | _ \<Rightarrow> l) borderPanes l0))
       (transformData stateData)"

end
