(* ===== verification/LayoutFlags.thy ===== *)
theory LayoutFlags
  imports LayoutActions
begin

text \<open>
  The flags of the panes of \<open>lib/jquery.layout.js\<close> stay consistent: a visible pane is neither closed
  nor hidden, a hidden pane is closed, and the center is never closed or hidden.  Every action takes
  the function that receives the jobs it starts as a parameter; the locale \<open>job_sink\<close> states what
  such a function promises, and \<open>deferred_sink\<close> that it only files the job.
\<close>

section \<open>The invariant\<close>

definition flags_ok :: "pane_state \<Rightarrow> bool" where
  "flags_ok s = ((isVisible s \<longrightarrow> \<not> isClosed s \<and> \<not> isHidden s) \<and> (isHidden s \<longrightarrow> isClosed s) \<and> \<not> noVerticalRoom s)"

fun job_pane :: "job \<Rightarrow> pane" where
  "job_pane (JClose p _ _ _) = p"
| "job_pane (JOpen p _ _ _) = p"
| "job_pane (JSize p _ _ _ _) = p"

fun anim_pane :: "anim \<Rightarrow> pane" where
  "anim_pane (AClose p _ _ _) = p"
| "anim_pane (AOpen p) = p"
| "anim_pane (ASize p _ _ _ _ _) = p"

text \<open>The title and the classes of a pin button say what its attribute says.\<close>

definition pin_ok :: "pane_ui \<Rightarrow> pane \<Rightarrow> pin_btn \<Rightarrow> bool" where
  "pin_ok u p b =
     (case pin_attr b of
        None \<Rightarrow> True
      | Some d \<Rightarrow> pin_title b = (if d then tipUnpin u else tipPin u)
          \<and> set (pin_state_classes u p d) \<subseteq> set (pin_classes b) \<and> set (pin_state_classes u p (\<not> d)) \<inter> set (pin_classes b) = {})"

definition layout_ok :: "layout \<Rightarrow> bool" where
  "layout_ok l = ((\<forall>p. flags_ok (pn l p)) \<and> (\<forall>p. list_all (pin_ok (ui (op l p)) p) (pins (ctl (pn l p)))) \<and> \<not> isClosed (pn l Center)
     \<and> (\<forall>j \<in> set (queue l). job_pane j \<noteq> Center) \<and> (\<forall>a. anim l = Some a \<longrightarrow> anim_pane a \<noteq> Center))"

text \<open>What the invariant reads of a layout.\<close>

definition flg :: "layout \<Rightarrow> (pane \<Rightarrow> bool \<times> bool \<times> bool \<times> bool \<times> pin_btn list \<times> pane_ui) \<times> job list \<times> anim option" where
  "flg l = ((\<lambda>p. (isClosed (pn l p), isHidden (pn l p), isVisible (pn l p), noVerticalRoom (pn l p),
       pins (ctl (pn l p)), ui (op l p))), queue l, anim l)"

lemma layout_ok_flg: "flg l = flg l' \<Longrightarrow> layout_ok l = layout_ok l'"
  by (simp add: flg_def layout_ok_def flags_ok_def fun_eq_iff)

lemma flg_upd:
  assumes "\<And>s. isClosed (f s) = isClosed s \<and> isHidden (f s) = isHidden s \<and> isVisible (f s) = isVisible s
      \<and> noVerticalRoom (f s) = noVerticalRoom s \<and> ctl (f s) = ctl s"
  shows "flg (upd p f l) = flg l"
  using assms by (simp add: flg_def upd_def fun_eq_iff)

lemma upd_layout [simp]:
  "queue (upd p f l) = queue l" "anim (upd p f l) = anim l" "busy (upd p f l) = busy l" "cb (upd p f l) = cb l"
  "events (upd p f l) = events l"
  by (simp_all add: upd_def)

lemma upd_ok:
  assumes "layout_ok l" "flags_ok (f (pn l p))" "p = Center \<Longrightarrow> \<not> isClosed (f (pn l p))" "ctl (f (pn l p)) = ctl (pn l p)"
  shows "layout_ok (upd p f l)"
  using assms by (auto simp: layout_ok_def)

lemma ok_flags: "layout_ok l \<Longrightarrow> flags_ok (pn l p)"
  by (simp add: layout_ok_def)

named_theorems flg_same \<open>operations that leave the flags alone\<close>

lemma flg_fire [flg_same]: "flg (fire e p l) = flg l"
  by (simp add: fire_def runCallbacks_def flg_def)

lemma flg_runCallbacks [flg_same]: "flg (snd (runCallbacks e p l)) = flg l"
  by (simp add: runCallbacks_def flg_def)

lemma flg_hidePane_now [flg_same]: "flg (hidePane_now p l) = flg l"
  unfolding hidePane_now_def by (rule flg_upd) simp

lemma flg_showPane_now [flg_same]: "flg (showPane_now p l) = flg l"
  unfolding showPane_now_def by (rule flg_upd) simp

lemma flg_bindStart [flg_same]: "flg (bindStartSlidingEvent p b l) = flg l"
  unfolding bindStartSlidingEvent_def by (simp add: flg_upd)

lemma flg_bindStop [flg_same]: "flg (bindStopSlidingEvents p b l) = flg l"
  unfolding bindStopSlidingEvents_def Let_def by (simp add: flg_upd flg_same)

lemma flg_setSizeLimits [flg_same]: "flg (setSizeLimits p b l) = flg l"
  unfolding setSizeLimits_def Let_def by (rule flg_upd) simp

lemma flg_sizeHandle [flg_same]: "flg (sizeHandle p l) = flg l"
  unfolding sizeHandle_def Let_def by (simp add: flg_upd split: prod.split)

lemma flg_fold: "(\<And>x l. flg (f x l) = flg l) \<Longrightarrow> flg (fold f xs l) = flg l"
  by (induction xs arbitrary: l) simp_all

lemma flg_sizeHandles [flg_same]: "flg (sizeHandles ps l) = flg l"
  unfolding sizeHandles_def by (rule flg_fold) (rule flg_sizeHandle)

lemma flg_elDims [flg_same]: "flg (upd p elDims l) = flg l"
  by (rule flg_upd) (simp add: elDims_def)

lemma flg_midPane_dims [flg_same]: "flg (upd p (midPane_dims q) l) = flg l"
  by (rule flg_upd) (simp add: midPane_dims_def elDims_def)

lemma flg_set_css [flg_same]: "flg (upd p (set_css q v) l) = flg l"
  by (rule flg_upd) (simp add: set_css_def)

lemma flg_midPane_css [flg_same]: "flg (upd p (midPane_css q d) l) = flg l"
  by (rule flg_upd) (simp add: midPane_css_def)

lemma ok_same: "flg l' = flg l \<Longrightarrow> layout_ok l \<Longrightarrow> layout_ok l'"
  using layout_ok_flg by blast

lemma fold_ok: "(\<And>x l. layout_ok l \<Longrightarrow> layout_ok (f x l)) \<Longrightarrow> layout_ok l \<Longrightarrow> layout_ok (fold f xs l)"
  by (induction xs arbitrary: l) simp_all

lemma fit_height_border: "layout_ok l \<Longrightarrow> p \<noteq> Center \<Longrightarrow> fit_height p l = l"
  by (simp add: fit_height_def layout_ok_def flags_ok_def)

lemma fit_height_ok: "layout_ok l \<Longrightarrow> layout_ok (fit_height p l)"
proof (cases "p = Center")
  case True
  assume ok: "layout_ok l"
  have "\<not> isHidden (pn l Center)" "\<not> isClosed (pn l Center)" "\<not> noVerticalRoom (pn l Center)"
    using ok by (auto simp: layout_ok_def flags_ok_def)
  then have "layout_ok (upd Center f l)"
    if "\<And>s. isClosed (f s) = isClosed s \<and> isHidden (f s) = isHidden s \<and> noVerticalRoom (f s) = noVerticalRoom s \<and> ctl (f s) = ctl s" for f
    using that ok by (intro upd_ok) (simp_all add: flags_ok_def)
  then show ?thesis using True ok by (simp add: fit_height_def Let_def)
qed (simp add: fit_height_border)

section \<open>Pin buttons\<close>

lemma pin_states_differ: "set (pin_state_classes u p d) \<inter> set (pin_state_classes u p (\<not> d)) = {}"
proof -
  have "x @ ''-up'' \<noteq> y @ ''-down''" for x y :: string by (auto dest!: arg_cong [of _ _ last])
  then show ?thesis by (cases d) (auto simp: pin_state_classes_def Let_def dest: not_sym)
qed

lemma setPinState_ok: "pin_ok u p b \<Longrightarrow> pin_ok u p (setPinState u p d b)"
  using pin_states_differ [of u p d] by (auto simp: pin_ok_def setPinState_def addClasses_def removeClasses_def)

lemma setPinState_attr [simp]: "pin_attr (setPinState u p d b) = Some d"
  by (simp add: setPinState_def)

lemma pins_of [simp]:
  "pins (syncPinBtns u p d c) = map (setPinState u p d) (pins c)"
  "pins (ctl_open u p b c) = map (setPinState u p (\<not> b)) (pins c)"
  by (simp_all add: syncPinBtns_def ctl_open_def Let_def)

text \<open>A change of a pane that syncs its pins to a state.\<close>

lemma upd_sync_ok:
  assumes "layout_ok l" "\<And>s. flags_ok (f s) = flags_ok s \<and> isClosed (f s) = isClosed s"
    and "\<And>s. pins (ctl (f s)) = map (setPinState (ui (op l p)) p (d s)) (pins (ctl s))"
  shows "layout_ok (upd p f l)"
  using assms by (auto simp: layout_ok_def list_all_iff setPinState_ok)

lemma setAsClosed_ok: "layout_ok l \<Longrightarrow> layout_ok (setAsClosed p l)"
proof -
  assume ok: "layout_ok l"
  let ?f = "\<lambda>s. s\<lparr>r_pos := inset (sC l) p, r_open := False, r_sliding := False, r_closed := True,
                 t_open := False, ctl := syncPinBtns (ui (op l p)) p False (ctl s)\<rparr>"
  have "layout_ok (upd p ?f l)" by (rule upd_sync_ok [OF ok, of _ _ "\<lambda>_. False"]) (simp_all add: flags_ok_def)
  then show ?thesis unfolding setAsClosed_def Let_def by (simp add: ok_same [OF flg_sizeHandles])
qed

lemma setAsOpen_ok: "layout_ok l \<Longrightarrow> layout_ok (setAsOpen p k l)"
proof -
  assume ok: "layout_ok l"
  let ?f = "\<lambda>s. elDims (s\<lparr>r_pos := inset (sC l) p + getPaneSize l p False, r_closed := False, r_open := True,
                 r_sliding := isSliding s, t_open := True, ctl := ctl_open (ui (op l p)) p (isSliding s) (ctl s)\<rparr>)"
  have S: "layout_ok (if b then x else y)" if "layout_ok x" "layout_ok y" for b x y using that by simp
  have "layout_ok (upd p ?f l)"
    by (rule upd_sync_ok [OF ok, of _ _ "\<lambda>s. \<not> isSliding s"]) (simp_all add: flags_ok_def elDims_def)
  then show ?thesis unfolding setAsOpen_def Let_def by (intro S ok_same [OF flg_sizeHandles] ok_same [OF flg_fire])
qed

section \<open>What the actions ask of the queue\<close>

locale job_sink =
  fixes sub :: "job \<Rightarrow> layout \<Rightarrow> layout"
  assumes sub_ok: "layout_ok l \<Longrightarrow> job_pane j \<noteq> Center \<Longrightarrow> layout_ok (sub j l)"
begin

lemma show_pane_ok:
  assumes "layout_ok l" "p \<noteq> Center"
  shows "layout_ok (show_pane sub p a b c l)"
proof -
  let ?l = "upd p (\<lambda>s. s\<lparr>isSliding := False, isShowing := True\<rparr>) (snd (runCallbacks ''onshow_start'' p l))"
  have 1: "layout_ok (snd (runCallbacks ''onshow_start'' p l))" by (rule ok_same [OF flg_runCallbacks assms(1)])
  have 2: "layout_ok ?l" by (rule ok_same [OF flg_upd 1]) simp
  show ?thesis
    using assms 1 2 sub_ok [OF 2]
    by (simp add: show_pane_def Let_def case_prod_beta split: cbret.split)
qed

lemma makePaneFit_ok:
  assumes ok: "layout_ok l" and hide: "\<And>l. layout_ok l \<Longrightarrow> p \<noteq> Center \<Longrightarrow> layout_ok (hide p l)"
  shows "layout_ok (makePaneFit sub hide p k f l)"
proof (cases "p = Center")
  case True
  then show ?thesis using fit_height_ok [OF ok] by (simp add: makePaneFit_def)
next
  case False
  have U: "layout_ok (upd p f l)" if "layout_ok l"
    "\<And>s. isClosed (f s) = isClosed s \<and> isHidden (f s) = isHidden s \<and> isVisible (f s) = isVisible s \<and> noVerticalRoom (f s) = noVerticalRoom s \<and> ctl (f s) = ctl s"
    for f l using ok_same [OF flg_upd that(1)] that(2) by blast
  define g where "g = (\<lambda>l1. if noRoom (pn l1 p)
               then (if wasOpen (pn l1 p) \<and> closable (op l1 p)
                     then (if autoReopen (op l1 p) then sub (JOpen p False True True) l1
                           else upd p (\<lambda>s. s\<lparr>noRoom := False\<rparr>) l1)
                     else show_pane sub p (wasOpen (pn l1 p)) True True l1)
               else l1)"
  have G: "layout_ok (g l)" if "layout_ok l" for l
    using that False sub_ok show_pane_ok U [OF that] by (simp add: g_def)
  have J: "layout_ok (sub (JSize p z k f True) l)" for z
    using sub_ok [OF ok] False by simp
  have R: "layout_ok (upd p (\<lambda>s. s\<lparr>r_pos := p_size s + v\<rparr>) l)" for v by (rule U [OF ok]) simp
  have N: "layout_ok (upd p (\<lambda>s. s\<lparr>noRoom := True, wasOpen := (\<not> isClosed s \<and> \<not> isSliding s)\<rparr>) l)"
    by (rule U [OF ok]) simp
  show ?thesis
    unfolding makePaneFit_def Let_def fit_height_border [OF ok False] g_def [symmetric]
    using False ok
    by (simp add: J R N G sub_ok hide)
qed

lemma sizeMidPane_ok: "layout_ok l \<Longrightarrow> layout_ok (sizeMidPane sub k f p l)"
proof -
  assume ok: "layout_ok l"
  have S: "layout_ok (if b then x else y)" if "layout_ok x" "layout_ok y" for b x y using that by simp
  have fl: "layout_ok (g l)" if "layout_ok l" "\<And>l. flg (g l) = flg l" for g l
    using ok_same that by blast
  have fit: "layout_ok (makePaneFit sub (\<lambda>_ l. l) p False False l)" if "layout_ok l" for l
    using makePaneFit_ok that by simp
  show ?thesis
    unfolding sizeMidPane_def Let_def
    by (intro S ok fit fl [where g = "fire _ _"] fl [where g = "upd p elDims"] fl [where g = "upd p (midPane_dims p)"] fl [where g = "upd p (midPane_css p _)"]
        fl [where g = "sizeHandles _"] flg_same)
qed

lemma sizeMidPanes_ok: "layout_ok l \<Longrightarrow> layout_ok (sizeMidPanes sub ps k f l)"
  unfolding sizeMidPanes_def by (rule fold_ok [OF sizeMidPane_ok])

lemma hide_pane_ok: "layout_ok l \<Longrightarrow> p \<noteq> Center \<Longrightarrow> layout_ok (hide_pane sub n p l)"
proof -
  assume ok: "layout_ok l" and p: "p \<noteq> Center"
  have S: "layout_ok (if b then x else y)" if "layout_ok x" "layout_ok y" for b x y using that by simp
  define l1 where "l1 = (if initialized l then snd (runCallbacks ''onhide_start'' p l) else l)"
  define r where "r = (if initialized l then fst (runCallbacks ''onhide_start'' p l) else NC)"
  have e: "(if initialized l then runCallbacks ''onhide_start'' p l else (NC, l)) = (r, l1)"
    by (simp add: r_def l1_def)
  have 1: "layout_ok l1" using ok ok_same [OF flg_runCallbacks ok] by (simp add: l1_def)
  have 2: "layout_ok (upd p (\<lambda>s. s\<lparr>isSliding := False, r_shown := False\<rparr>) l1)" (is "layout_ok ?l2")
    by (rule ok_same [OF flg_upd 1]) simp
  have 3: "layout_ok (upd p (\<lambda>s. s\<lparr>isClosed := True, isHidden := True, isVisible := False\<rparr>) ?l2)" (is "layout_ok ?l3")
    using p ok_flags [OF 2, of p] by (intro upd_ok 2) (simp_all add: flags_ok_def)
  have 4: "layout_ok (if \<not> initialized ?l3 then hidePane_now p ?l3 else ?l3)" (is "layout_ok ?l4")
    by (intro S ok_same [OF flg_hidePane_now] 3)
  have 5: "layout_ok (sizeMidPanes sub ps False False ?l4)" for ps by (rule sizeMidPanes_ok [OF 4])
  have 6: "layout_ok (sub (JClose p False n False) (upd p (\<lambda>s. s\<lparr>isHiding := True\<rparr>) ?l2))"
    using p by (intro sub_ok ok_same [OF flg_upd 2]) simp_all
  show ?thesis
    unfolding hide_pane_def Let_def e prod.case
    by (intro S ok 1 6 5 ok_same [OF flg_fire])
qed

lemma fit_pane_ok: "layout_ok l \<Longrightarrow> layout_ok (fit_pane sub p k f l)"
  unfolding fit_pane_def by (intro makePaneFit_ok hide_pane_ok)

lemma refit_opposite_ok: "layout_ok l \<Longrightarrow> layout_ok (refit_opposite sub p k l)"
  unfolding refit_opposite_def by (simp add: fit_pane_ok ok_same [OF flg_setSizeLimits])

lemma close_2_ok: "layout_ok l \<Longrightarrow> layout_ok (close_2 sub p k a b l)"
proof -
  assume ok: "layout_ok l"
  have S: "layout_ok (if b then x else y)" if "layout_ok x" "layout_ok y" for b x y using that by simp
  have 1: "layout_ok (upd p (\<lambda>s. s\<lparr>isMoving := False\<rparr>) l)" by (rule ok_same [OF flg_upd ok]) simp
  have 2: "layout_ok (refit_opposite sub p False (bindStartSlidingEvent p True (upd p (\<lambda>s. s\<lparr>isMoving := False\<rparr>) l)))"
    by (intro refit_opposite_ok ok_same [OF flg_bindStart] 1)
  show ?thesis unfolding close_2_def Let_def by (intro S 2 ok_same [OF flg_fire])
qed

lemma run_close_ok: "layout_ok l \<Longrightarrow> p \<noteq> Center \<Longrightarrow> layout_ok (snd (run_close sub p f n k l))"
proof -
  assume ok: "layout_ok l" and p: "p \<noteq> Center"
  define s where "s = pn l p"
  define l1 where "l1 = (if isShowing s then l else snd (runCallbacks ''onclose_start'' p l))"
  define r where "r = (if isShowing s then NC else fst (runCallbacks ''onclose_start'' p l))"
  have e: "(if isShowing s then (NC, l) else runCallbacks ''onclose_start'' p l) = (r, l1)"
    by (simp add: r_def l1_def)
  define l2 where "l2 = upd p (\<lambda>s. s\<lparr>isShowing := False, isHiding := False\<rparr>) l1"
  define l3 where "l3 = upd p (\<lambda>t. t\<lparr>isMoving := True, isClosed := True, isVisible := False,
       isHidden := (if isHiding s then True else if isShowing s then False else isHidden t)\<rparr>) l2"
  define l4 where "l4 = (if isSliding (pn l3 p) then bindStopSlidingEvents p False l3
       else sizeMidPanes sub (adjacent p) False False l3)"
  define l5 where "l5 = setAsClosed p l4"
  have 1: "layout_ok l1" using ok ok_same [OF flg_runCallbacks ok] by (simp add: l1_def)
  have 2: "layout_ok l2" unfolding l2_def by (rule ok_same [OF flg_upd 1]) simp
  have 3: "layout_ok l3" unfolding l3_def
    using p ok_flags [OF 2, of p] by (intro upd_ok 2) (simp_all add: flags_ok_def)
  have 4: "layout_ok l4" unfolding l4_def using sizeMidPanes_ok [OF 3] ok_same [OF flg_bindStop 3] by simp
  have 5: "layout_ok l5" unfolding l5_def by (rule setAsClosed_ok [OF 4])
  have 6: "layout_ok ((upd p (\<lambda>s. s\<lparr>fx_locked := True\<rparr>) l5)\<lparr>anim := Some (AClose p k a b)\<rparr>)" for a b
    using ok_same [OF flg_upd 5, of "\<lambda>s. s\<lparr>fx_locked := True\<rparr>" p] p by (simp add: layout_ok_def)
  have 7: "layout_ok (close_2 sub p k a b (hidePane_now p l5))" for a b
    by (intro close_2_ok ok_same [OF flg_hidePane_now] 5)
  show ?thesis
    unfolding run_close_def Let_def s_def [symmetric] e prod.case l2_def [symmetric] l3_def [symmetric]
      l4_def [symmetric] l5_def [symmetric]
    by (simp add: ok 2 6 7)
qed

lemma open_2_ok: "layout_ok l \<Longrightarrow> layout_ok (open_2 sub p l)"
proof -
  assume ok: "layout_ok l"
  have 1: "layout_ok (upd p (\<lambda>s. s\<lparr>isMoving := False\<rparr>) l)" by (rule ok_same [OF flg_upd ok]) simp
  show ?thesis unfolding open_2_def Let_def by (simp add: setAsOpen_ok sizeMidPanes_ok 1)
qed

lemma sizePane_2_ok: "layout_ok l \<Longrightarrow> layout_ok (sizePane_2 sub p z old k f l)"
proof -
  assume ok: "layout_ok l"
  have S: "layout_ok (if b then x else y)" if "layout_ok x" "layout_ok y" for b x y using that by simp
  have U: "layout_ok (upd p f l)" if "layout_ok l"
    "\<And>s. isClosed (f s) = isClosed s \<and> isHidden (f s) = isHidden s \<and> isVisible (f s) = isVisible s \<and> noVerticalRoom (f s) = noVerticalRoom s \<and> ctl (f s) = ctl s"
    for f l using ok_same [OF flg_upd that(1)] that(2) by blast
  have 1: "layout_ok (upd p (\<lambda>s. elDims (set_css p v s\<lparr>p_size := z\<rparr>)) l)" for v
    by (rule U [OF ok]) (simp add: elDims_def set_css_def)
  have 2: "layout_ok (upd p (\<lambda>s. s\<lparr>r_pos := w\<rparr>) (upd p (\<lambda>s. elDims (set_css p v s\<lparr>p_size := z\<rparr>)) l))" for v w
    by (rule U [OF 1]) simp
  show ?thesis
    unfolding sizePane_2_def Let_def
    by (intro S refit_opposite_ok 1 2 ok_same [OF flg_fire] ok_same [OF flg_sizeHandles] sizeMidPanes_ok)
qed

lemma run_size_ok: "layout_ok l \<Longrightarrow> p \<noteq> Center \<Longrightarrow> layout_ok (snd (run_size sub p z k f n l))"
proof -
  assume ok0: "layout_ok l" and p: "p \<noteq> Center"
  define l' where "l' = setSizeLimits p None l"
  have ok: "layout_ok l'" unfolding l'_def by (rule ok_same [OF flg_setSizeLimits ok0])
  have U: "layout_ok (upd p f l)" if "layout_ok l"
    "\<And>s. isClosed (f s) = isClosed s \<and> isHidden (f s) = isHidden s \<and> isVisible (f s) = isVisible s \<and> noVerticalRoom (f s) = noVerticalRoom s \<and> ctl (f s) = ctl s"
    for f l using ok_same [OF flg_upd that(1)] that(2) by blast
  define l1 where "l1 = (if \<not> k \<and> initialized l' \<and> isVisible (pn l' p) then fire ''onresize_start'' p l' else l')"
  have 1: "layout_ok l1" unfolding l1_def using ok ok_same [OF flg_fire ok] by simp
  have 2: "layout_ok (upd p (set_css p v) l1)" for v by (rule ok_same [OF flg_set_css 1])
  have 3: "layout_ok (upd p (\<lambda>s. elDims (s\<lparr>p_size := w\<rparr>)) (upd p (set_css p v) l1))" for v w
    by (rule U [OF 2]) (simp add: elDims_def)
  have 4: "layout_ok ((upd p (\<lambda>s. s\<lparr>isMoving := True\<rparr>) l1)\<lparr>anim := Some (ASize p a b c d e)\<rparr>)" for a b c d e
    using U [OF 1, of "\<lambda>s. s\<lparr>isMoving := True\<rparr>"] p by (simp add: layout_ok_def)
  show ?thesis
    unfolding run_size_def Let_def l'_def [symmetric] l1_def [symmetric]
    by (simp add: ok 2 3 4 sizePane_2_ok)
qed

end

text \<open>A sink that only files the job leaves the panes to the action that runs.\<close>

locale deferred_sink = job_sink +
  assumes keeps: "pn (sub j l) = pn l" "op (sub j l) = op l" "sC (sub j l) = sC l" "initialized (sub j l) = initialized l"
    "cb (sub j l) = cb l"
begin

lemma fit_pane_fits:
  assumes "layout_ok l" "p \<noteq> Center" "\<not> noRoom (pn l p)" "s_minSize (pn l p) \<le> s_maxSize (pn l p)"
  shows "isHidden (pn (fit_pane sub p k f l) p) = isHidden (pn l p)
       \<and> isShowing (pn (fit_pane sub p k f l) p) = isShowing (pn l p)"
  using assms by (simp add: fit_pane_def makePaneFit_def Let_def fit_height_border keeps)

lemma run_open_ok:
  assumes ok: "layout_ok l" and p: "p \<noteq> Center"
  shows "layout_ok (snd (run_open sub p slide n a l))"
proof -
  define s where "s = pn l p"
  define l1 where "l1 = (if autoResize (op l p) \<and> o_size (op l p) \<noteq> Num (of_int (p_size s))
                         then sub (JSize p (o_size (op l p)) True True True) l
                         else setSizeLimits p (Some slide) l)"
  define r where "r = fst (runCallbacks ''onopen_start'' p l1)"
  define l2 where "l2 = snd (runCallbacks ''onopen_start'' p l1)"
  have e: "runCallbacks ''onopen_start'' p l1 = (r, l2)" by (simp add: r_def l2_def)
  define l3 where "l3 = (if r \<noteq> NC then setSizeLimits p (Some slide) l2 else l2)"
  define l4 where "l4 = (if slide then bindStopSlidingEvents p True l3
                         else if isSliding (pn l3 p) then bindStopSlidingEvents p False l3
                         else if slidable (op l3 p) then bindStartSlidingEvent p False l3 else l3)"
  define m where "m = upd p (\<lambda>s. s\<lparr>noRoom := False\<rparr>) l4"
  define l5 where "l5 = fit_pane sub p False False m"
  define l6 where "l6 = upd p (\<lambda>s. s\<lparr>isShowing := False, isMoving := True, isVisible := True,
       isClosed := False, isHidden := (if isShowing (pn l5 p) then False else isHidden s)\<rparr>) l5"
  have 1: "layout_ok l1" unfolding l1_def using ok p sub_ok [OF ok] ok_same [OF flg_setSizeLimits ok] by simp
  have 2: "layout_ok l2" unfolding l2_def by (rule ok_same [OF flg_runCallbacks 1])
  have 3: "layout_ok l3" unfolding l3_def using 2 ok_same [OF flg_setSizeLimits 2] by simp
  have 4: "layout_ok l4" unfolding l4_def using 3 ok_same [OF flg_bindStop 3] ok_same [OF flg_bindStart 3] by simp
  have m: "layout_ok m" unfolding m_def by (rule ok_same [OF flg_upd 4]) simp
  have 5: "layout_ok l5" unfolding l5_def by (rule fit_pane_ok [OF m])
  have pin: "layout_ok (upd p (\<lambda>s. s\<lparr>ctl := syncPinBtns (ui (op l3 p)) p False (ctl s)\<rparr>) l3)"
    by (rule upd_sync_ok [OF 3, of _ _ "\<lambda>_. False"]) (simp_all add: flags_ok_def)
  have hs: "isHidden (pn l3 p) = isHidden s \<and> isShowing (pn l3 p) = isShowing s"
    by (simp add: l3_def l2_def l1_def s_def runCallbacks_def setSizeLimits_def Let_def keeps)
  have hs4: "isHidden (pn l4 p) = isHidden s \<and> isShowing (pn l4 p) = isShowing s
      \<and> s_minSize (pn l4 p) = s_minSize (pn l3 p) \<and> s_maxSize (pn l4 p) = s_maxSize (pn l3 p)"
    using hs by (simp add: l4_def bindStopSlidingEvents_def bindStartSlidingEvent_def Let_def)
  have room: "layout_ok l6" if h: "\<not> (isHidden s \<and> \<not> isShowing s)" "\<not> s_minSize (pn l3 p) > s_maxSize (pn l3 p)"
  proof -
    have "isHidden (pn l5 p) = isHidden s \<and> isShowing (pn l5 p) = isShowing s"
      unfolding l5_def using fit_pane_fits [OF m p, of False False] hs4 h(2) by (simp add: m_def)
    then show ?thesis unfolding l6_def
      using h(1) p ok_flags [OF 5, of p] by (intro upd_ok 5) (auto simp: flags_ok_def)
  qed
  have fx: "layout_ok ((upd p (\<lambda>s. s\<lparr>fx_locked := True\<rparr>) l)\<lparr>anim := Some (AOpen p)\<rparr>)" if "layout_ok l" for l
    using ok_same [OF flg_upd that, of "\<lambda>s. s\<lparr>fx_locked := True\<rparr>" p] p by (simp add: layout_ok_def)
  have o2: "layout_ok (open_2 sub p (showPane_now p l))" if "layout_ok l" for l
    by (intro open_2_ok ok_same [OF flg_showPane_now] that)
  show ?thesis
    unfolding run_open_def Let_def s_def [symmetric] l1_def [symmetric] e prod.case l3_def [symmetric]
      l4_def [symmetric] m_def [symmetric] l5_def [symmetric] l6_def [symmetric]
    by (simp add: ok 2 pin room fx o2)
qed

end

interpretation queued: deferred_sink enqueue
  by unfold_locales (auto simp: enqueue_def layout_ok_def)

section \<open>The queue keeps the invariant\<close>

lemma run_job_ok: "layout_ok l \<Longrightarrow> job_pane j \<noteq> Center \<Longrightarrow> layout_ok (snd (run_job j l))"
  by (cases j) (simp_all add: queued.run_close_ok queued.run_open_ok queued.run_size_ok)

lemma run_size_outcome: "fst (run_size sub p z k f n l) \<noteq> DoneShow q \<and> (fst (run_size sub p z k f n l) = DoneFit q b \<longrightarrow> q = p)"
  unfolding run_size_def Let_def by (simp split: if_split)

lemma ok_busy [simp]: "layout_ok (l\<lparr>busy := b\<rparr>) = layout_ok l"
  by (simp add: layout_ok_def)

lemma run_open_outcome: "fst (run_open sub p s n a l) = DoneShow q \<Longrightarrow> q = p"
  unfolding run_open_def Let_def by (auto split: if_splits prod.splits)

lemma run_close_outcome: "fst (run_close sub p f n k l) \<noteq> DoneShow q"
  unfolding run_close_def Let_def by (auto split: if_splits prod.splits)

lemma run_job_show: "fst (run_job j l) = DoneShow q \<Longrightarrow> q = job_pane j"
  using run_size_outcome run_close_outcome by (cases j) (auto dest: run_open_outcome)

lemma run_queue_ok: "layout_ok l \<Longrightarrow> layout_ok (run_queue n l)"
proof (induction n arbitrary: l)
  case (Suc n)
  have sink: "job_sink (\<lambda>j l. run_queue n (enqueue j l))"
    by unfold_locales (intro Suc.IH queued.sub_ok)
  show ?case
  proof (cases "queue l")
    case (Cons j js)
    obtain r l1 where rj: "run_job j (l\<lparr>queue := js, busy := True\<rparr>) = (r, l1)" by fastforce
    have j: "job_pane j \<noteq> Center" and ok: "layout_ok (l\<lparr>queue := js, busy := True\<rparr>)"
      using Suc.prems Cons by (simp_all add: layout_ok_def)
    have l1: "layout_ok l1" using run_job_ok [OF ok j] rj by simp
    have n: "layout_ok (run_queue n (l1\<lparr>busy := False\<rparr>))" by (rule Suc.IH) (simp add: l1)
    have f: "layout_ok (fit_pane (\<lambda>j l. run_queue n (enqueue j l)) p k False (run_queue n (l1\<lparr>busy := False\<rparr>)))" for p k
      by (rule job_sink.fit_pane_ok [OF sink n])
    have s: "layout_ok (show_pane (\<lambda>j l. run_queue n (enqueue j l)) p True False False (run_queue n (l1\<lparr>busy := False\<rparr>)))"
      if "r = DoneShow p" for p
      using job_sink.show_pane_ok [OF sink n] run_job_show [of j _ p] rj that j by (metis fst_conv)
    show ?thesis using Cons rj Suc.prems l1 n f s by (cases r) simp_all
  qed (simp add: Suc.prems)
qed simp

interpretation ran: job_sink "submit n" for n
  by unfold_locales (simp add: submit_def run_queue_ok queued.sub_ok)

lemma animation_done_ok: "layout_ok l \<Longrightarrow> layout_ok (animation_done n l)"
proof (cases "anim l")
  case (Some a)
  assume ok: "layout_ok l"
  have 0: "layout_ok (l\<lparr>anim := None\<rparr>)" using ok by (simp add: layout_ok_def)
  have U: "layout_ok (upd p f l)" if "layout_ok l"
    "\<And>s. isClosed (f s) = isClosed s \<and> isHidden (f s) = isHidden s \<and> isVisible (f s) = isVisible s \<and> noVerticalRoom (f s) = noVerticalRoom s \<and> ctl (f s) = ctl s"
    for p f l using ok_same [OF flg_upd that(1)] that(2) by blast
  have 1: "layout_ok (upd p (\<lambda>s. s\<lparr>fx_locked := False, shown := b\<rparr>) (l\<lparr>anim := None\<rparr>))" for p b
    by (rule U [OF 0]) simp
  have 2: "layout_ok (upd p (\<lambda>s. set_css p v (s\<lparr>isMoving := False\<rparr>)) (l\<lparr>anim := None\<rparr>))" for p v
    by (rule U [OF 0]) (simp add: set_css_def)
  show ?thesis
    unfolding animation_done_def Let_def Some option.case
    by (rule run_queue_ok) (cases a, simp_all add: 1 2 queued.close_2_ok queued.open_2_ok queued.sizePane_2_ok)
qed (simp add: animation_done_def)

end
