(* ===== verification/LayoutRoom.thy ===== *)
theory LayoutRoom
  imports LayoutFlags
begin

text \<open>
  How the panes of \<open>lib/jquery.layout.js\<close> share the container: what each action touches, the middle
  panes that take the room the others leave, and the limits of a resized pane.
\<close>

section \<open>What the actions touch\<close>

text \<open>The resizer, the toggler and the triggers of a pane, as against the pane itself.\<close>

definition body :: "pane_state \<Rightarrow> pane_state" where
  "body s = s\<lparr>r_min := 0, r_max := 0, r_pos := 0, r_shown := False, r_open := False, r_closed := False,
     r_sliding := False, r_len := 0, r_top := 0, t_open := False, t_shown := False, t_len := 0, t_off := 0,
     ctl := no_ctl, start_bound := False\<rparr>"

definition bodies :: "layout \<Rightarrow> (pane \<Rightarrow> pane_state) \<times> (pane \<Rightarrow> pane_opts) \<times> container \<times> bool \<times> (string \<Rightarrow> pane \<Rightarrow> cbret)" where
  "bodies l = (\<lambda>p. body (pn l p), op l, sC l, initialized l, cb l)"

lemma body_reads [simp]:
  "css_w (body s) = css_w s"
  "css_h (body s) = css_h s"
  "frame_w (body s) = frame_w s"
  "frame_h (body s) = frame_h s"
  "present (body s) = present s"
  "p_size (body s) = p_size s"
  "s_minSize (body s) = s_minSize s"
  "s_maxSize (body s) = s_maxSize s"
  "isClosed (body s) = isClosed s"
  "isHidden (body s) = isHidden s"
  "isSliding (body s) = isSliding s"
  "isVisible (body s) = isVisible s"
  "isShowing (body s) = isShowing s"
  "noRoom (body s) = noRoom s"
  "noVerticalRoom (body s) = noVerticalRoom s"
  "shown (body s) = shown s"
  "isHiding (body s) = isHiding s"
  "isMoving (body s) = isMoving s"
  "isResizing (body s) = isResizing s"
  "wasOpen (body s) = wasOpen s"
  by (simp_all add: body_def)

lemma body_fields:
  assumes "body s = body t"
  shows "css_w s = css_w t" "css_h s = css_h t" "frame_w s = frame_w t" "frame_h s = frame_h t" "present s = present t" "p_size s = p_size t" "s_minSize s = s_minSize t" "s_maxSize s = s_maxSize t" "isClosed s = isClosed t" "isHidden s = isHidden t" "isSliding s = isSliding t" "isVisible s = isVisible t" "isShowing s = isShowing t" "noRoom s = noRoom t" "noVerticalRoom s = noVerticalRoom t" "shown s = shown t"
  using arg_cong [OF assms, of css_w]
    arg_cong [OF assms, of css_h]
    arg_cong [OF assms, of frame_w]
    arg_cong [OF assms, of frame_h]
    arg_cong [OF assms, of present]
    arg_cong [OF assms, of p_size]
    arg_cong [OF assms, of s_minSize]
    arg_cong [OF assms, of s_maxSize]
    arg_cong [OF assms, of isClosed]
    arg_cong [OF assms, of isHidden]
    arg_cong [OF assms, of isSliding]
    arg_cong [OF assms, of isVisible]
    arg_cong [OF assms, of isShowing]
    arg_cong [OF assms, of noRoom]
    arg_cong [OF assms, of noVerticalRoom]
    arg_cong [OF assms, of shown]
  by simp_all


lemma bodies_reads:
  assumes "bodies l' = bodies l"
  shows "body (pn l' p) = body (pn l p)" "op l' = op l" "sC l' = sC l" "initialized l' = initialized l" "cb l' = cb l"
  using assms by (simp_all add: bodies_def fun_eq_iff)

lemma bodies_upd: "(\<And>s. body (f s) = body s) \<Longrightarrow> bodies (upd p f l) = bodies l"
  by (simp add: bodies_def fun_eq_iff)

named_theorems body_same \<open>operations that leave the panes themselves alone\<close>

lemma body_fire [body_same]: "bodies (fire e p l) = bodies l"
  by (simp add: bodies_def fire_def runCallbacks_def)

lemma body_start [body_same]: "bodies (bindStartSlidingEvent p b l) = bodies l"
  unfolding bindStartSlidingEvent_def by (simp add: bodies_upd body_def)

lemma body_sizeHandle [body_same]: "bodies (sizeHandle p l) = bodies l"
  unfolding sizeHandle_def Let_def by (simp add: bodies_upd body_def split: prod.split)

lemma bodies_fold: "(\<And>x l. bodies (f x l) = bodies l) \<Longrightarrow> bodies (fold f xs l) = bodies l"
  by (induction xs arbitrary: l) simp_all

lemma body_sizeHandles [body_same]: "bodies (sizeHandles ps l) = bodies l"
  unfolding sizeHandles_def by (rule bodies_fold) (rule body_sizeHandle)

lemma body_setAsClosed [body_same]: "bodies (setAsClosed p l) = bodies l"
  unfolding setAsClosed_def Let_def by (simp add: body_same bodies_upd body_def)

lemma getPaneSize_body: "bodies l' = bodies l \<Longrightarrow> getPaneSize l' p b = getPaneSize l p b"
  using bodies_reads [of l' l] body_fields [OF bodies_reads(1) [of l' l p]]
  by (simp add: getPaneSize_def Let_def outer_in_def outerWidth_def outerHeight_def)

text \<open>One pane is the only one that changes.\<close>

definition only :: "pane \<Rightarrow> layout \<Rightarrow> layout \<Rightarrow> bool" where
  "only p l l' = ((\<forall>q. q \<noteq> p \<longrightarrow> body (pn l' q) = body (pn l q)) \<and> op l' = op l \<and> sC l' = sC l
     \<and> initialized l' = initialized l \<and> cb l' = cb l)"

lemma only_refl [simp]: "only p l l"
  by (simp add: only_def)

lemma only_trans: "only p l m \<Longrightarrow> only p m r \<Longrightarrow> only p l r"
  by (simp add: only_def)

lemma only_upd [simp]: "only p l (upd p f l)"
  by (simp add: only_def)

lemma only_bodies: "bodies l' = bodies l \<Longrightarrow> only p l l'"
  using bodies_reads [of l' l] by (simp add: only_def)

lemma only_step: "only p l m \<Longrightarrow> bodies r = bodies m \<Longrightarrow> only p l r"
  using only_trans only_bodies by blast

lemma only_stepU: "only p l m \<Longrightarrow> only p l (upd p f m)"
  using only_trans only_upd by blast

lemma only_if: "only p l x \<Longrightarrow> only p l y \<Longrightarrow> only p l (if b then x else y)"
  by simp

lemma only_setSizeLimits: "only p l (setSizeLimits p b l)"
  unfolding setSizeLimits_def Let_def by simp

lemma only_bindStop: "only p l (bindStopSlidingEvents p b l)"
  unfolding bindStopSlidingEvents_def Let_def
  by (intro only_stepU only_if) (simp_all add: only_step [OF only_upd body_start])

lemma only_fit_height: "only p l (fit_height p l)"
  unfolding fit_height_def Let_def by simp

context deferred_sink
begin

lemma bodies_sub [simp]: "bodies (sub j l) = bodies l"
  by (simp add: bodies_def keeps)

lemma only_show_pane: "only p l (show_pane sub p a b c l)"
proof -
  have 1: "only p l (snd (runCallbacks ''onshow_start'' p l))"
    by (rule only_bodies) (simp add: bodies_def runCallbacks_def)
  then have 2: "only p l (sub j (upd p f (snd (runCallbacks ''onshow_start'' p l))))" for j f
    using only_step [OF only_stepU bodies_sub] by blast
  show ?thesis unfolding show_pane_def using 1 2 by (simp add: Let_def case_prod_beta split: cbret.split)
qed

lemma only_makePaneFit:
  assumes "\<And>l. only p l (hide p l)"
  shows "only p l (makePaneFit sub hide p k f l)"
proof -
  define m where "m = fit_height p l"
  have m: "only p l m" unfolding m_def by (rule only_fit_height)
  have s: "only p l (sub j x)" if "only p l x" for j x using only_step that by simp
  have h: "only p l (hide p x)" "only p l (show_pane sub p a b c x)" if "only p l x" for x a b c
    using only_trans that assms only_show_pane by blast+
  show ?thesis unfolding makePaneFit_def Let_def m_def [symmetric]
    by (intro only_if m s h only_stepU)
qed

lemma only_sizeMidPane: "only p l (sizeMidPane sub k f p l)"
proof -
  have fr: "only p l (fire e q x)" "only p l (sizeHandles ps x)" if "only p l x" for e q x ps
    using only_step that body_same by blast+
  have mk: "only p l (makePaneFit sub (\<lambda>_ l. l) p False False x)" if "only p l x" for x
    by (rule only_trans [OF that]) (rule only_makePaneFit, simp)
  show ?thesis unfolding sizeMidPane_def Let_def
    by (intro only_if only_refl fr mk only_stepU)
qed

end

section \<open>The middle panes take the room that is left\<close>

text \<open>What a pane contributes to the room of the others; the height of a side pane is not part of it.\<close>

definition share :: "pane \<Rightarrow> pane_state \<Rightarrow> bool \<times> bool \<times> bool \<times> bool \<times> int \<times> int \<times> int \<times> int" where
  "share p s = (present s, isHidden s, isClosed s, isSliding s \<and> \<not> isHidden s, frame_w s, frame_h s,
     if dir_of_pane p = Vert then css_w s else 0, if dir_of_pane p = Horz then css_h s else 0)"

definition shares :: "layout \<Rightarrow> (pane \<Rightarrow> bool \<times> bool \<times> bool \<times> bool \<times> int \<times> int \<times> int \<times> int) \<times> (pane \<Rightarrow> pane_opts) \<times> container" where
  "shares l = (\<lambda>p. share p (pn l p), op l, sC l)"

lemma share_body: "body s = body t \<Longrightarrow> share p s = share p t"
  using body_fields [of s t] by (simp add: share_def)

lemma sharesI: "(\<And>p. share p (pn l' p) = share p (pn l p)) \<Longrightarrow> op l' = op l \<Longrightarrow> sC l' = sC l \<Longrightarrow> shares l' = shares l"
  unfolding shares_def by presburger

lemma shares_bodies: "bodies l' = bodies l \<Longrightarrow> shares l' = shares l"
  by (intro sharesI share_body bodies_reads)

lemma shares_only:
  assumes "only p l l'" "share p (pn l' p) = share p (pn l p)"
  shows "shares l' = shares l"
proof (rule sharesI)
  show "share q (pn l' q) = share q (pn l q)" for q
    using assms share_body [of "pn l' q" "pn l q"] by (cases "q = p") (simp_all add: only_def)
qed (use assms(1) in \<open>simp_all add: only_def\<close>)

lemma shares_reads:
  assumes "shares l' = shares l"
  shows "share p (pn l' p) = share p (pn l p)" "op l' = op l" "sC l' = sC l"
proof -
  have "fst (shares l') p = fst (shares l) p" "snd (shares l') = snd (shares l)" by (simp_all only: assms)
  then show "share p (pn l' p) = share p (pn l p)" "op l' = op l" "sC l' = sC l" by (simp_all add: shares_def)
qed

lemma getPaneSize_shares:
  assumes "shares l' = shares l" "p \<noteq> Center"
  shows "getPaneSize l' p b = getPaneSize l p b"
  using shares_reads(1) [OF assms(1), of p] shares_reads(2,3) [OF assms(1)] assms(2)
  by (cases "isHidden (pn l p)"; cases p) (simp_all add: share_def getPaneSize_def Let_def outer_in_def outerWidth_def outerHeight_def)

lemma dims_shares: "shares l' = shares l \<Longrightarrow> calcNewCenterPaneDims l' = calcNewCenterPaneDims l"
  using getPaneSize_shares [of l' l] by (simp add: calcNewCenterPaneDims_def shares_def)

lemma shares_upd: "(\<And>s. share p (f s) = share p s) \<Longrightarrow> shares (upd p f l) = shares l"
  by (simp add: shares_def fun_eq_iff)

text \<open>The center fills what the border panes leave; there is room for its frame.\<close>

definition roomy :: "layout \<Rightarrow> bool" where
  "roomy l = (let d = calcNewCenterPaneDims l; s = pn l Center
     in present s \<and> 0 < c_width d \<and> frame_w s \<le> c_width d \<and> 0 < c_height d \<and> frame_h s \<le> c_height d)"

definition tiles :: "layout \<Rightarrow> bool" where
  "tiles l = (getPaneSize l West True + outerWidth (pn l Center) + getPaneSize l East True = innerWidth (sC l)
     \<and> getPaneSize l North True + outerHeight (pn l Center) + getPaneSize l South True = innerHeight (sC l))"

lemma tiles_iff: "tiles l = (outerWidth (pn l Center) = c_width (calcNewCenterPaneDims l)
    \<and> outerHeight (pn l Center) = c_height (calcNewCenterPaneDims l))"
  by (auto simp: tiles_def calcNewCenterPaneDims_def Let_def)

lemma roomy_shares: "shares l' = shares l \<Longrightarrow> roomy l' = roomy l"
  using dims_shares [of l' l] shares_reads(1) [of l' l Center] by (simp add: roomy_def Let_def share_def)

lemma tiles_bodies:
  assumes b: "bodies l' = bodies l"
  shows "tiles l' = tiles l"
  using getPaneSize_body [OF b] body_fields(1-4) [OF bodies_reads(1) [OF b, of Center]] bodies_reads(3) [OF b]
  by (simp add: tiles_def outerWidth_def outerHeight_def)

context deferred_sink
begin

lemma share_makePaneFit:
  assumes "\<not> isHidden (pn l p)"
  shows "share p (pn (makePaneFit sub (\<lambda>_ l. l) p k f l) p) = share p (pn l p)"
proof -
  define m where "m = fit_height p l"
  have m: "share p (pn m p) = share p (pn l p)" "\<not> isHidden (pn m p)"
    unfolding m_def fit_height_def Let_def using assms by (cases "p = Center"; simp add: share_def)+
  have s: "share p (pn (show_pane sub p a b c x) p) = share p (pn x p)" if "\<not> isHidden (pn x p)" for x a b c
    using that by (simp add: show_pane_def)
  have u: "share p (s\<lparr>noRoom := b\<rparr>) = share p s" "share p (s\<lparr>r_pos := v\<rparr>) = share p s"
    "share p (s\<lparr>noRoom := b, wasOpen := c\<rparr>) = share p s" for s b c v
    by (simp_all add: share_def)
  show ?thesis unfolding makePaneFit_def Let_def m_def [symmetric]
    using m by (cases "p = Center") (simp_all add: keeps s u)
qed

lemma shares_sizeMidPane:
  assumes "dir_of_pane p \<noteq> Horz"
  shows "shares (sizeMidPane sub k f p l) = shares l"
proof (rule shares_only [OF only_sizeMidPane])
  have u: "share p (midPane_css p d s) = share p s" "share p (elDims s) = share p s" "share p (midPane_dims p s) = share p s" for d s
    using assms by (cases p; simp add: share_def midPane_css_def midPane_dims_def elDims_def)+
  have b: "share p (pn (fire e q x) p) = share p (pn x p)" "share p (pn (sizeHandles ps x) p) = share p (pn x p)" for e q x ps
    using share_body bodies_reads(1) body_same by blast+
  have i: "share p (pn (if c then x else y) p) = r" if "c \<Longrightarrow> share p (pn x p) = r" "\<not> c \<Longrightarrow> share p (pn y p) = r" for c x y r
    using that by simp
  show "share p (pn (sizeMidPane sub k f p l) p) = share p (pn l p)"
    unfolding sizeMidPane_def Let_def
    by (simp add: u b i share_makePaneFit)
qed

lemma shares_sizeMidPanes:
  assumes "\<forall>q \<in> set ps. dir_of_pane q \<noteq> Horz"
  shows "shares (sizeMidPanes sub ps k f l) = shares l"
proof -
  have "shares (fold (sizeMidPane sub k f) qs l) = shares l" if "\<forall>q \<in> set qs. dir_of_pane q \<noteq> Horz" for qs l
    using that by (induction qs arbitrary: l) (simp_all add: shares_sizeMidPane)
  then show ?thesis unfolding sizeMidPanes_def using assms by (simp del: fold.simps)
qed

lemma makePaneFit_center: "makePaneFit sub h Center a b l = fit_height Center l"
  by (simp add: makePaneFit_def Let_def)

lemma center_sized:
  assumes "roomy l"
  shows "tiles (sizeMidPane sub k f Center l)"
proof -
  define d where "d = calcNewCenterPaneDims l"
  define l' where "l' = sizeMidPane sub k f Center l"
  have dim: "calcNewCenterPaneDims l' = d"
    unfolding l'_def d_def by (rule dims_shares [OF shares_sizeMidPane]) simp
  let ?o = "\<lambda>x. (outerWidth (pn x Center), outerHeight (pn x Center))"
  have o: "?o (upd Center (midPane_css Center d) x) = (c_width d, c_height d)"
    if "frame_w (pn x Center) = frame_w (pn l Center)" "frame_h (pn x Center) = frame_h (pn l Center)" for x
    using assms that unfolding roomy_def d_def [symmetric] Let_def
    by (simp add: midPane_css_def outerWidth_def outerHeight_def cssW_def cssH_def)
  have keep: "?o (upd Center elDims x) = ?o x" "?o (fire e q x) = ?o x" "?o (fit_height Center x) = ?o x" for x e q
    by (simp_all add: elDims_def outerWidth_def outerHeight_def fire_def runCallbacks_def fit_height_def Let_def)
  have fr: "frame_w (pn x Center) = frame_w (pn l Center)" "frame_h (pn x Center) = frame_h (pn l Center)"
    if "x = upd Center (midPane_dims Center) l \<or> x = fire e q (upd Center (midPane_dims Center) l)" for x e q
    using that by (auto simp: midPane_dims_def elDims_def fire_def runCallbacks_def)
  have "?o l' = (c_width d, c_height d)"
  proof (cases "midPane_skips Center f d (pn (upd Center (midPane_dims Center) l) Center)")
    case True
    then have "l' = upd Center (midPane_dims Center) l" using assms by (simp add: l'_def sizeMidPane_def d_def roomy_def Let_def)
    then show ?thesis using True by (simp add: midPane_skips_def midPane_dims_def elDims_def outerWidth_def outerHeight_def)
  next
    case False
    define m where "m = upd Center (midPane_css Center d) (if \<not> k \<and> initialized (upd Center (midPane_dims Center) l)
        then fire ''onresize_start'' Center (upd Center (midPane_dims Center) l) else upd Center (midPane_dims Center) l)"
    have m: "?o m = (c_width d, c_height d)"
      unfolding m_def by (rule o) (rule fr [of _ "''onresize_start''" Center], simp)+
    have p: "present (pn l Center)" using assms by (simp add: roomy_def Let_def)
    have e: "l' = (let l4 = (if noRoom (pn m Center) \<and> \<not> isClosed (pn m Center) \<and> \<not> isHidden (pn m Center)
                               then fit_height Center m else m);
                         l5 = (if isVisible (pn l4 Center) then upd Center elDims l4 else l4)
                     in if isVisible (pn l5 Center) \<and> \<not> k \<and> initialized l5 then fire ''onresize_end'' Center l5 else l5)"
      unfolding l'_def sizeMidPane_def Let_def d_def [symmetric] m_def
      by (simp only: p False makePaneFit_center simp_thms if_True if_False)
    have i: "?o (if b then x else y) = r" if "?o x = r" "?o y = r" for b x y r using that by simp
    have k1: "?o (upd Center elDims x) = r" "?o (fire e q x) = r" "?o (fit_height Center x) = r" if "?o x = r" for x e q r
      using that keep by blast+
    show ?thesis unfolding e Let_def by (intro i k1 m)
  qed
  then show ?thesis unfolding l'_def [symmetric] tiles_iff dim by simp
qed

lemma sizeMidPanes_tile:
  assumes "roomy l" "ps = [] \<or> ps = [Center]"
  shows "tiles (sizeMidPanes sub ps k f l)" "roomy (sizeMidPanes sub ps k f l)"
proof -
  have 1: "shares (sizeMidPane sub k f West (sizeMidPane sub k f East l)) = shares l"
    by (simp add: shares_sizeMidPane)
  show "tiles (sizeMidPanes sub ps k f l)"
    using assms center_sized roomy_shares [OF 1] by (auto simp: sizeMidPanes_def)
  have "\<forall>q \<in> set ps. dir_of_pane q \<noteq> Horz" using assms(2) by auto
  then show "roomy (sizeMidPanes sub ps k f l)"
    using roomy_shares [OF shares_sizeMidPanes] assms(1) by blast
qed

lemma adjacent_cases: "p \<noteq> Center \<Longrightarrow> adjacent p = [] \<or> adjacent p = [Center]"
  by (simp add: adjacent_def)

lemma fit_pane_noRoom:
  assumes "layout_ok l" "q \<noteq> Center" "noRoom (pn l q)"
  shows "shares (fit_pane sub q k f l) = shares l" "pn (fit_pane sub q k f l) r = (if r = q then pn (fit_pane sub q k f l) q else pn l r)"
proof -
  have only: "only q l (fit_pane sub q k f l)" and st: "r \<noteq> q \<Longrightarrow> pn (fit_pane sub q k f l) r = pn l r" for r
  proof -
    have fp: "fit_pane sub q k f l = makePaneFit sub (\<lambda>_ l. l) q k f l"
      using assms by (simp add: fit_pane_def makePaneFit_def Let_def fit_height_border)
    show "only q l (fit_pane sub q k f l)" unfolding fp by (rule only_makePaneFit) simp
    have sh: "pn (show_pane sub q a b c x) r = pn x r" if "r \<noteq> q" for a b c x r
      using that by (simp add: show_pane_def runCallbacks_def keeps Let_def split: cbret.split)
    show "r \<noteq> q \<Longrightarrow> pn (fit_pane sub q k f l) r = pn l r" for r
      using assms by (simp add: fit_pane_def makePaneFit_def Let_def fit_height_border keeps sh)
  qed
  have shw: "share q (pn (show_pane sub q a b c x) q) = share q (pn x q)" for a b c x
    by (simp add: show_pane_def runCallbacks_def keeps Let_def share_def split: cbret.split)
  have u: "share q (s\<lparr>noRoom := b\<rparr>) = share q s" "share q (s\<lparr>r_pos := v\<rparr>) = share q s" for s b v
    by (simp_all add: share_def)
  have "share q (pn (fit_pane sub q k f l) q) = share q (pn l q)"
    using assms by (simp add: fit_pane_def makePaneFit_def Let_def fit_height_border keeps shw u)
  then show "shares (fit_pane sub q k f l) = shares l" by (rule shares_only [OF only])
  show "pn (fit_pane sub q k f l) r = (if r = q then pn (fit_pane sub q k f l) q else pn l r)" using st by simp
qed

lemma opposite_border: "p \<noteq> Center \<Longrightarrow> oppositeEdge p \<noteq> Center \<and> oppositeEdge p \<noteq> p"
  by (cases p) simp_all

lemma setSizeLimits_reads [simp]:
  "q \<noteq> p \<Longrightarrow> pn (setSizeLimits p b l) q = pn l q" "noRoom (pn (setSizeLimits p b l) p) = noRoom (pn l p)"
  "share p (pn (setSizeLimits p b l) p) = share p (pn l p)"
  by (simp_all add: setSizeLimits_def Let_def share_def)

lemma refit_opposite_keeps:
  assumes "layout_ok l" "q \<noteq> oppositeEdge p \<or> p = Center"
  shows "shares (refit_opposite sub p k l) = shares l" "pn (refit_opposite sub p k l) q = pn l q"
proof -
  let ?a = "oppositeEdge p" and ?m = "setSizeLimits (oppositeEdge p) None l"
  have ok: "layout_ok ?m" by (rule ok_same [OF flg_setSizeLimits assms(1)])
  have sh: "shares ?m = shares l" by (rule shares_only [OF only_setSizeLimits]) simp
  show "shares (refit_opposite sub p k l) = shares l"
    using fit_pane_noRoom(1) [OF ok, of ?a] opposite_border [of p] sh by (simp add: refit_opposite_def)
  show "pn (refit_opposite sub p k l) q = pn l q"
    using fit_pane_noRoom(2) [OF ok, of ?a k False q] opposite_border [of p] assms(2) by (simp add: refit_opposite_def)
qed

lemma tiles_shares:
  assumes "shares l' = shares l" "outerWidth (pn l' Center) = outerWidth (pn l Center)" "outerHeight (pn l' Center) = outerHeight (pn l Center)"
  shows "tiles l' = tiles l"
  using getPaneSize_shares [OF assms(1)] assms(2,3) shares_reads(3) [OF assms(1)] by (simp add: tiles_def)

end

end
