(* ===== verification/LayoutProps.thy ===== *)
theory LayoutProps
  imports LayoutRoom
begin

text \<open>
  What the actions of \<open>lib/jquery.layout.js\<close> promise: consistent flags over any sequence of
  actions, a center that fills what the other panes leave, resizes within the limits, sliding that
  leaves the rest alone, and the places where the code does something else than its comments say.
\<close>

section \<open>A layout to run the properties on\<close>

definition demo_ui :: pane_ui where
  "demo_ui = \<lparr>paneClass = ''ui-layout-pane'', resizerClass = ''ui-layout-resizer'', togglerClass = ''ui-layout-toggler'',
     buttonClass = ''ui-layout-button'', resizerCursor = ''e-resize'', sliderCursor = ''pointer'', tipOpen = ''Open'', tipClose = ''Close'',
     tipResize = ''Resize'', tipSlide = ''Slide Open'', tipPin = ''Pin'', tipUnpin = ''Un-Pin'', resizerDblClickToggle = True,
     enableCursorHotkey = True, customHotkey = NoKey, customHotkeyModifier = ''SHIFT''\<rparr>"

definition demo_opts :: pane_opts where
  "demo_opts = \<lparr>closable = True, resizable = True, slidable = True, o_size = Num 100, o_minSize = Num 50, o_maxSize = None,
     spacing_open = 6, spacing_closed = 6, minWidth = 50, minHeight = 50, autoResize = True, autoReopen = True,
     fx_open = False, fx_close = False, animatePaneSizing = False, livePaneResizing = False,
     triggerEventsDuringLiveResize = True, triggerEventsOnLoad = False, slide_close_on_click = False,
     preventQuickSlideClose = True, slide_open_delay = False, togglerLength_open = Some 50, togglerLength_closed = Some 50,
     togglerAlign_open = AlignMid, togglerAlign_closed = AlignMid, hideTogglerOnSlide = False, initClosed = False, initHidden = False, ui = demo_ui\<rparr>"

definition demo_pane :: "int \<Rightarrow> int \<Rightarrow> pane_state" where
  "demo_pane w h = \<lparr>present = True, css_w = w - 10, css_h = h - 10, frame_w = 10, frame_h = 10, auto_w = 80, auto_h = 80,
     shown = True, isClosed = False, isHidden = False, isVisible = True, isSliding = False, isMoving = False,
     isResizing = False, isShowing = False, isHiding = False, noRoom = False, wasOpen = False, noVerticalRoom = False,
     p_size = 100, s_minSize = 50, s_maxSize = 500, s_maxWidth = 0, s_maxHeight = 0, s_outerWidth = w, s_outerHeight = h,
     r_min = 0, r_max = 0, r_pos = 0, r_shown = True, r_open = True, r_closed = False, r_sliding = False, r_len = 0, r_top = 0,
     has_toggler = True, t_open = True, t_shown = True, t_len = 50, t_off = 0, ctl = no_ctl, start_bound = False,
     stop_bound = False, open_timer = False, close_timer = False, fx_locked = False\<rparr>"

definition demo :: layout where
  "demo = \<lparr>pn = (\<lambda>p. if p = Center then demo_pane 588 388 else if p = West \<or> p = East then demo_pane 100 388 else demo_pane 800 100),
     op = (\<lambda>_. demo_opts),
     sC = \<lparr>innerWidth = 800, innerHeight = 600, insetTop = 10, insetBottom = 10, insetLeft = 10, insetRight = 10\<rparr>,
     initialized = True, queue = [], busy = False, anim = None, cb = (\<lambda>_ _. NC), events = []\<rparr>"

lemma demo_ok: "layout_ok demo"
  by (simp add: layout_ok_def demo_def flags_ok_def demo_pane_def no_ctl_def)

lemma demo_tiles: "tiles demo" "roomy demo"
  by code_simp+

section \<open>The flags\<close>

text \<open>What can happen to an initialised layout: the actions, the end of an animation or of a slide
  timer, and a change of the container.  The center has no actions of its own.\<close>

inductive layout_step :: "layout \<Rightarrow> layout \<Rightarrow> bool" where
  step_close: "p \<noteq> Center \<Longrightarrow> initialized l \<Longrightarrow> layout_step l (close_pane n p f a k l)"
| step_open: "p \<noteq> Center \<Longrightarrow> initialized l \<Longrightarrow> layout_step l (open_pane n p s a q l)"
| step_toggle: "p \<noteq> Center \<Longrightarrow> initialized l \<Longrightarrow> layout_step l (toggle_pane n p s l)"
| step_hide: "p \<noteq> Center \<Longrightarrow> initialized l \<Longrightarrow> layout_step l (hide_pane (submit n) a p l)"
| step_show: "p \<noteq> Center \<Longrightarrow> initialized l \<Longrightarrow> layout_step l (show_pane (submit n) p o' a q l)"
| step_size: "p \<noteq> Center \<Longrightarrow> initialized l \<Longrightarrow> layout_step l (manualSizePane n p z k a l)"
| step_slideOpen: "p \<noteq> Center \<Longrightarrow> initialized l \<Longrightarrow> layout_step l (slideOpen n mouse p l)"
| step_slideClose: "p \<noteq> Center \<Longrightarrow> initialized l \<Longrightarrow> layout_step l (slideClose n mouse over p l)"
| step_openTimer: "p \<noteq> Center \<Longrightarrow> open_timer (pn l p)
    \<Longrightarrow> layout_step l (slideOpen_now n p (upd p (\<lambda>s. s\<lparr>open_timer := False\<rparr>) l))"
| step_closeTimer: "p \<noteq> Center \<Longrightarrow> close_timer (pn l p)
    \<Longrightarrow> layout_step l (slideClose_now n p (upd p (\<lambda>s. s\<lparr>close_timer := False\<rparr>) l))"
| step_animated: "anim l = Some a \<Longrightarrow> layout_step l (animation_done n l)"
| step_container: "initialized l \<Longrightarrow> layout_step l (resizeAll n vis c h r l)"

inductive_simps layout_step_iff: "layout_step l l'"

inductive layout_steps :: "layout \<Rightarrow> layout \<Rightarrow> bool" where
  steps_refl: "layout_steps l l"
| steps_more: "layout_steps l m \<Longrightarrow> layout_step m r \<Longrightarrow> layout_steps l r"

lemma upd_same_ok:
  "(\<And>s. isClosed (f s) = isClosed s \<and> isHidden (f s) = isHidden s \<and> isVisible (f s) = isVisible s
      \<and> noVerticalRoom (f s) = noVerticalRoom s \<and> ctl (f s) = ctl s) \<Longrightarrow> layout_ok l \<Longrightarrow> layout_ok (upd p f l)"
  using ok_same [OF flg_upd] by blast

lemma close_pane_ok: "layout_ok l \<Longrightarrow> p \<noteq> Center \<Longrightarrow> layout_ok (close_pane n p f a k l)"
proof -
  assume ok: "layout_ok l" and p: "p \<noteq> Center"
  have 1: "layout_ok (hidePane_now p l)" by (rule ok_same [OF flg_hidePane_now ok])
  have "layout_ok (closePane_now p l)" unfolding closePane_now_def
    using p ok_flags [OF 1, of p] by (intro upd_ok 1) (simp_all add: flags_ok_def)
  then show ?thesis using ok p by (simp add: close_pane_def ran.sub_ok)
qed

lemma open_pane_ok: "layout_ok l \<Longrightarrow> p \<noteq> Center \<Longrightarrow> layout_ok (open_pane n p s a q l)"
  by (simp add: open_pane_def ran.sub_ok)

lemma slideOpen_now_ok: "layout_ok l \<Longrightarrow> p \<noteq> Center \<Longrightarrow> layout_ok (slideOpen_now n p l)"
  by (simp add: slideOpen_now_def ok_same [OF flg_bindStop] open_pane_ok)

lemma slideClose_now_ok: "layout_ok l \<Longrightarrow> p \<noteq> Center \<Longrightarrow> layout_ok (slideClose_now n p l)"
  by (simp add: slideClose_now_def ok_same [OF flg_bindStop] close_pane_ok)

lemma refit_pane_ok: "layout_ok l \<Longrightarrow> p \<noteq> Center \<Longrightarrow> layout_ok (refit_pane n p l)"
  by (simp add: refit_pane_def ran.sub_ok ran.fit_pane_ok ok_same [OF flg_setSizeLimits])

lemma resizeAll_ok: "layout_ok l \<Longrightarrow> layout_ok (resizeAll n vis c h r l)"
proof -
  assume ok: "layout_ok l"
  then have 0: "layout_ok (l\<lparr>sC := c\<rparr>)" by (simp add: layout_ok_def)
  then have 1: "layout_ok (sizeHandles [] (sizeMidPanes (submit n) [] True True
      (fold (refit_pane n) [South, North, East, West] (l\<lparr>sC := c\<rparr>))))"
    by (intro ok_same [OF flg_sizeHandles] ran.sizeMidPanes_ok) (simp add: refit_pane_ok)
  have "layout_ok (fold (\<lambda>p l. if present (pn l p) \<and> isVisible (pn l p) then fire ''onresize_end'' p l else l) ps
      (sizeHandles [] (sizeMidPanes (submit n) [] True True (fold (refit_pane n) [South, North, East, West] (l\<lparr>sC := c\<rparr>)))))" for ps
    by (rule fold_ok [OF _ 1]) (simp add: ok_same [OF flg_fire])
  then show ?thesis unfolding resizeAll_def Let_def using ok 0 by (simp del: fold.simps fold_simps)
qed

lemma layout_step_ok: "layout_step l l' \<Longrightarrow> layout_ok l \<Longrightarrow> layout_ok l'"
proof (induction rule: layout_step.induct)
  case (step_size p l n z k a)
  then have "layout_ok (l\<lparr>op := (op l)(p := (op l p)\<lparr>autoResize := False\<rparr>)\<rparr>)" by (simp add: layout_ok_def)
  then show ?case using step_size by (simp add: manualSizePane_def Let_def ran.sub_ok)
qed (simp_all add: close_pane_ok open_pane_ok toggle_pane_def ran.show_pane_ok ran.hide_pane_ok slideOpen_def slideClose_def
    slideOpen_now_ok slideClose_now_ok upd_same_ok animation_done_ok resizeAll_ok)

lemma layout_steps_ok: "layout_steps l l' \<Longrightarrow> layout_ok l \<Longrightarrow> layout_ok l'"
  by (induction rule: layout_steps.induct) (simp_all add: layout_step_ok)

text \<open>C20. However panes are opened, closed, toggled, hidden, shown, slid and resized, whatever the
  callbacks answer and whenever animations and timers end, a visible pane is neither closed nor
  hidden, a hidden pane is closed, and the center is never closed or hidden.\<close>

theorem pane_flags_consistent:
  assumes "layout_steps l l'" "layout_ok l"
  shows "(isVisible (pn l' p) \<longrightarrow> \<not> isClosed (pn l' p) \<and> \<not> isHidden (pn l' p)) \<and> (isHidden (pn l' p) \<longrightarrow> isClosed (pn l' p))
    \<and> \<not> isClosed (pn l' Center) \<and> \<not> isHidden (pn l' Center)"
proof -
  have ok: "layout_ok l'" by (rule layout_steps_ok [OF assms])
  have "\<not> isClosed (pn l' Center)" using ok unfolding layout_ok_def by blast
  then show ?thesis using ok_flags [OF ok, of p] ok_flags [OF ok, of Center] unfolding flags_ok_def by blast
qed

theorem pane_flags_consistent_witness:
  "\<not> isClosed (pn (toggle_pane 3 West False demo) Center) \<and> \<not> isHidden (pn (toggle_pane 3 West False demo) Center)"
proof -
  have "initialized demo" by (simp add: demo_def)
  then have "layout_steps demo (toggle_pane 3 West False demo)"
    by (intro steps_more [OF steps_refl] step_toggle) simp_all
  from pane_flags_consistent [OF this demo_ok] show ?thesis by blast
qed

section \<open>The center fills what is left\<close>

lemma run_close_shape:
  assumes ok: "layout_ok l" and p: "p \<noteq> Center" and run: "run_close enqueue p f True k l = (Done, l')"
    and was: "\<not> isClosed (pn l p)" "\<not> isSliding (pn l p)" and now: "isClosed (pn l' p)"
  obtains m a b where "layout_ok m"
    "\<not> isShowing (pn l p) \<Longrightarrow> \<not> isHiding (pn l p) \<Longrightarrow> shares m = shares (upd p (\<lambda>s. s\<lparr>isClosed := True\<rparr>) l)"
    "l' = close_2 enqueue p k a b (hidePane_now p (setAsClosed p (sizeMidPanes enqueue (adjacent p) False False m)))"
proof -
  define s where "s = pn l p"
  define l1 where "l1 = (if isShowing s then l else snd (runCallbacks ''onclose_start'' p l))"
  define r where "r = (if isShowing s then NC else fst (runCallbacks ''onclose_start'' p l))"
  have e: "(if isShowing s then (NC, l) else runCallbacks ''onclose_start'' p l) = (r, l1)" by (simp add: r_def l1_def)
  define l2 where "l2 = upd p (\<lambda>s. s\<lparr>isShowing := False, isHiding := False\<rparr>) l1"
  define l3 where "l3 = upd p (\<lambda>t. t\<lparr>isMoving := True, isClosed := True, isVisible := False,
       isHidden := (if isHiding s then True else if isShowing s then False else isHidden t)\<rparr>) l2"
  have pn1: "pn l1 = pn l" by (simp add: l1_def runCallbacks_def)
  have 1: "layout_ok l1" using ok ok_same [OF flg_runCallbacks ok] by (simp add: l1_def)
  have 2: "layout_ok l2" unfolding l2_def by (rule upd_same_ok [OF _ 1]) simp
  have 3: "layout_ok l3" unfolding l3_def using p ok_flags [OF 2, of p] by (intro upd_ok 2) (simp_all add: flags_ok_def)
  have sl: "\<not> isSliding (pn l3 p)" "\<not> isClosed (pn l2 p)" using was by (simp_all add: l3_def l2_def pn1)
  have out: "l' = l \<or> l' = l2 \<or> l' = close_2 enqueue p k (isShowing s) (isHiding s)
      (hidePane_now p (setAsClosed p (sizeMidPanes enqueue (adjacent p) False False l3)))"
    using run unfolding run_close_def Let_def s_def [symmetric] e prod.case l2_def [symmetric] l3_def [symmetric]
    using sl(1) by (simp split: if_splits)
  have sh: "shares l3 = shares (upd p (\<lambda>s. s\<lparr>isClosed := True\<rparr>) l)" if "\<not> isShowing (pn l p)" "\<not> isHiding (pn l p)"
    using that unfolding l3_def l2_def s_def by (intro sharesI) (simp_all add: pn1 share_def l1_def runCallbacks_def)
  show thesis using out was(1) sl(2) now 3 sh that by blast
qed

lemma close_tail:
  assumes ok: "layout_ok m" and p: "p \<noteq> Center"
    and l': "l' = close_2 enqueue p k a b (hidePane_now p (setAsClosed p (sizeMidPanes enqueue (adjacent p) False False m)))"
  shows "shares l' = shares m" "tiles l' = tiles (sizeMidPanes enqueue (adjacent p) False False m)"
proof -
  let ?m = "sizeMidPanes enqueue (adjacent p) False False m"
  define l6 where "l6 = upd p (\<lambda>s. s\<lparr>isMoving := False\<rparr>) (hidePane_now p (setAsClosed p ?m))"
  define l7 where "l7 = refit_opposite enqueue p False (bindStartSlidingEvent p True l6)"
  have ob: "Center \<noteq> oppositeEdge p" using queued.opposite_border [OF p] by metis
  have b: "bodies l' = bodies l7" by (simp add: l' close_2_def Let_def l6_def [symmetric] l7_def [symmetric] body_same)
  have ok6: "layout_ok (bindStartSlidingEvent p True l6)" unfolding l6_def
    by (intro ok_same [OF flg_bindStart] upd_same_ok ok_same [OF flg_hidePane_now] setAsClosed_ok
        queued.sizeMidPanes_ok ok) simp_all
  have s6: "shares (bindStartSlidingEvent p True l6) = shares ?m"
    using shares_bodies [OF body_start, of p True l6] shares_bodies [OF body_setAsClosed, of p ?m]
    by (simp add: l6_def hidePane_now_def shares_upd share_def)
  have s7: "shares l7 = shares ?m"
    using queued.refit_opposite_keeps(1) [OF ok6, of Center p False] ob s6 by (simp add: l7_def)
  have sm: "shares ?m = shares m" by (rule queued.shares_sizeMidPanes) (simp add: adjacent_def)
  show "shares l' = shares m" using shares_bodies [OF b] s7 sm by simp
  have c: "body (pn l7 Center) = body (pn ?m Center)"
    using queued.refit_opposite_keeps(2) [OF ok6, of Center p False] ob p
      bodies_reads(1) [OF body_start, of p True l6 Center] bodies_reads(1) [OF body_setAsClosed, of p ?m Center]
    by (simp add: l7_def l6_def hidePane_now_def)
  have "tiles l7 = tiles ?m"
    using body_fields(1-4) [OF c] by (intro queued.tiles_shares s7) (simp_all add: outerWidth_def outerHeight_def)
  then show "tiles l' = tiles ?m" using tiles_bodies [OF b] by simp
qed

lemma tiles_after_close:
  assumes "layout_ok m" "p \<noteq> Center" "roomy l'"
    "l' = close_2 enqueue p k a b (hidePane_now p (setAsClosed p (sizeMidPanes enqueue (adjacent p) False False m)))"
  shows "tiles l'"
  using close_tail [OF assms(1,2,4)] roomy_shares [of l' m] assms(3) queued.sizeMidPanes_tile(1) [OF _ queued.adjacent_cases [OF assms(2)]]
  by simp

text \<open>A plain close without animation closes the pane.\<close>

lemma run_close_plain:
  assumes ok: "layout_ok l" and p: "p \<noteq> Center" and s: "present (pn l p)" "closable (op l p)" "\<not> isClosed (pn l p)"
    "\<not> isSliding (pn l p)" "\<not> isShowing (pn l p)" "\<not> isHiding (pn l p)" "cb l ''onclose_start'' p \<noteq> CbFalse"
  obtains l' where "run_close enqueue p f True k l = (Done, l')" "shares l' = shares (upd p (\<lambda>s. s\<lparr>isClosed := True\<rparr>) l)"
proof -
  define m where "m = upd p (\<lambda>t. t\<lparr>isMoving := True, isClosed := True, isVisible := False\<rparr>)
     (upd p (\<lambda>s. s\<lparr>isShowing := False, isHiding := False\<rparr>) (snd (runCallbacks ''onclose_start'' p l)))"
  define l' where "l' = close_2 enqueue p k False False
     (hidePane_now p (setAsClosed p (sizeMidPanes enqueue (adjacent p) False False m)))"
  have r: "run_close enqueue p f True k l = (Done, l')"
    unfolding run_close_def Let_def l'_def m_def using s by (simp add: runCallbacks_def)
  have 1: "layout_ok (upd p (\<lambda>s. s\<lparr>isShowing := False, isHiding := False\<rparr>) (snd (runCallbacks ''onclose_start'' p l)))"
    by (intro upd_same_ok ok_same [OF flg_runCallbacks ok]) simp
  have "layout_ok m" unfolding m_def
    using p ok_flags [OF ok, of p] s by (intro upd_ok 1) (simp_all add: flags_ok_def runCallbacks_def)
  then have "shares l' = shares m" using close_tail(1) [OF _ p l'_def] by simp
  moreover have "shares m = shares (upd p (\<lambda>s. s\<lparr>isClosed := True\<rparr>) l)"
    by (intro sharesI) (simp_all add: m_def share_def runCallbacks_def)
  ultimately show thesis using that r by simp
qed

lemma body_setAsOpen: "body (pn (setAsOpen p k l) q) = body (pn (upd p elDims l) q)" "op (setAsOpen p k l) = op l"
  "sC (setAsOpen p k l) = sC l"
proof -
  define m where "m = upd p (\<lambda>s. elDims (s\<lparr>r_pos := inset (sC l) p + getPaneSize l p False, r_closed := False, r_open := True,
                 r_sliding := isSliding s, t_open := True, ctl := ctl_open (ui (op l p)) p (isSliding s) (ctl s)\<rparr>)) l"
  have "bodies (setAsOpen p k l) = bodies m"
    unfolding setAsOpen_def m_def [symmetric] Let_def by (simp add: body_same)
  moreover have "bodies m = bodies (upd p elDims l)"
    by (simp add: m_def bodies_def body_def elDims_def outerWidth_def outerHeight_def fun_eq_iff)
  ultimately have b: "bodies (setAsOpen p k l) = bodies (upd p elDims l)" by simp
  show "body (pn (setAsOpen p k l) q) = body (pn (upd p elDims l) q)" "op (setAsOpen p k l) = op l"
    "sC (setAsOpen p k l) = sC l"
    using bodies_reads [OF b] by simp_all
qed

lemma setAsOpen_keeps: "shares (setAsOpen p k l) = shares l" "tiles (setAsOpen p k l) = tiles l"
proof -
  have e: "share q (elDims s) = share q s" for q s by (simp add: share_def elDims_def)
  show s: "shares (setAsOpen p k l) = shares l"
    using share_body [OF body_setAsOpen(1)] body_setAsOpen(2,3) by (intro sharesI) (simp_all add: e)
  show "tiles (setAsOpen p k l) = tiles l"
    using body_fields(1-4) [OF body_setAsOpen(1) [of p k l Center]]
    by (intro queued.tiles_shares s) (simp_all add: elDims_def outerWidth_def outerHeight_def split: if_splits)
qed

lemma tiles_after_open:
  assumes "p \<noteq> Center" "\<not> isSliding (pn l p)" "roomy (open_2 enqueue p l)"
  shows "tiles (open_2 enqueue p l)"
proof -
  let ?ps = "if dir_of_pane p = Vert then [Center] else []" and ?m = "upd p (\<lambda>s. s\<lparr>isMoving := False\<rparr>) l"
  have o: "open_2 enqueue p l = setAsOpen p False (sizeMidPanes enqueue ?ps False False ?m)"
    using assms(2) by (simp add: open_2_def)
  have "roomy ?m" using assms(3) unfolding o
    using roomy_shares [OF setAsOpen_keeps(1)] roomy_shares [OF queued.shares_sizeMidPanes, of ?ps] by simp
  then show ?thesis unfolding o setAsOpen_keeps(2) by (intro queued.sizeMidPanes_tile(1)) simp_all
qed

lemma only_runCallbacks: "only p l (snd (runCallbacks e q l))"
  by (rule only_bodies) (simp add: bodies_def runCallbacks_def)

lemma bindStop_sliding [simp]: "isSliding (pn (bindStopSlidingEvents p b l) p) = b"
  by (simp add: bindStopSlidingEvents_def bindStartSlidingEvent_def Let_def)

lemma bindStart_sliding [simp]: "isSliding (pn (bindStartSlidingEvent p b l) p) = isSliding (pn l p)"
  by (simp add: bindStartSlidingEvent_def)

lemma bind_limits [simp]:
  "s_minSize (pn (bindStopSlidingEvents p b l) p) = s_minSize (pn l p)" "s_maxSize (pn (bindStopSlidingEvents p b l) p) = s_maxSize (pn l p)"
  "s_minSize (pn (bindStartSlidingEvent p b l) p) = s_minSize (pn l p)" "s_maxSize (pn (bindStartSlidingEvent p b l) p) = s_maxSize (pn l p)"
  "p_size (pn (bindStopSlidingEvents p b l) p) = p_size (pn l p)" "p_size (pn (bindStartSlidingEvent p b l) p) = p_size (pn l p)"
  by (simp_all add: bindStopSlidingEvents_def bindStartSlidingEvent_def Let_def)

lemma setSizeLimits_keeps [simp]:
  "p_size (pn (setSizeLimits p b l) q) = p_size (pn l q)" "isVisible (pn (setSizeLimits p b l) q) = isVisible (pn l q)"
  "queue (setSizeLimits p b l) = queue l" "op (setSizeLimits p b l) = op l"
  by (simp_all add: setSizeLimits_def Let_def)

lemma enqueue_reads [simp]:
  "queue (enqueue j l) = queue l @ [j]" "pn (enqueue j l) = pn l" "op (enqueue j l) = op l"
  by (simp_all add: enqueue_def)

lemma fit_pane_with_room:
  assumes ok: "layout_ok l" and p: "p \<noteq> Center" and r: "s_minSize (pn l p) \<le> s_maxSize (pn l p)"
  defines "m \<equiv> fit_pane enqueue p False False (upd p (\<lambda>s. s\<lparr>noRoom := False\<rparr>) l)"
  shows "isSliding (pn m p) = isSliding (pn l p)" "p_size (pn m p) = p_size (pn l p)" "only p l m"
    "\<exists>js. queue m = queue l @ js"
proof -
  have o: "layout_ok (upd p (\<lambda>s. s\<lparr>noRoom := False\<rparr>) l)" by (rule upd_same_ok [OF _ ok]) simp
  show "isSliding (pn m p) = isSliding (pn l p)" "p_size (pn m p) = p_size (pn l p)"
    using p r o by (simp_all add: m_def fit_pane_def makePaneFit_def Let_def fit_height_border queued.keeps)
  show "only p l m"
    using p r o only_step [OF only_upd [of p l] queued.bodies_sub]
    by (simp add: m_def fit_pane_def makePaneFit_def Let_def fit_height_border queued.keeps only_stepU)
  show "\<exists>js. queue m = queue l @ js"
    using p r o by (simp add: m_def fit_pane_def makePaneFit_def Let_def fit_height_border queued.keeps enqueue_def)
qed

lemma run_open_shape:
  assumes ok: "layout_ok l" and p: "p \<noteq> Center" and run: "run_open enqueue p slide True a l = (Done, l')"
    and was: "\<not> isVisible (pn l p)" and now: "isVisible (pn l' p)"
  obtains m where "only p l m" "isSliding (pn m p) = slide" "\<not> isClosed (pn m p)" "isVisible (pn m p)" "shown (pn m p)"
    "p_size (pn m p) = p_size (pn l p)"
    "autoResize (op l p) \<and> o_size (op l p) \<noteq> Num (of_int (p_size (pn l p)))
       \<Longrightarrow> \<exists>js. queue m = queue l @ JSize p (o_size (op l p)) True True True # js"
    "l' = open_2 enqueue p m"
proof -
  define s where "s = pn l p"
  define auto where "auto = (autoResize (op l p) \<and> o_size (op l p) \<noteq> Num (of_int (p_size s)))"
  define l1 where "l1 = (if auto then enqueue (JSize p (o_size (op l p)) True True True) l else setSizeLimits p (Some slide) l)"
  define r where "r = fst (runCallbacks ''onopen_start'' p l1)"
  define l2 where "l2 = snd (runCallbacks ''onopen_start'' p l1)"
  have e: "runCallbacks ''onopen_start'' p l1 = (r, l2)" by (simp add: r_def l2_def)
  define l3 where "l3 = (if r \<noteq> NC then setSizeLimits p (Some slide) l2 else l2)"
  define l4 where "l4 = (if slide then bindStopSlidingEvents p True l3
                         else if isSliding (pn l3 p) then bindStopSlidingEvents p False l3
                         else if slidable (op l3 p) then bindStartSlidingEvent p False l3 else l3)"
  define l5 where "l5 = fit_pane enqueue p False False (upd p (\<lambda>s. s\<lparr>noRoom := False\<rparr>) l4)"
  define l6 where "l6 = upd p (\<lambda>s. s\<lparr>isShowing := False, isMoving := True, isVisible := True,
       isClosed := False, isHidden := (if isShowing (pn l5 p) then False else isHidden s)\<rparr>) l5"
  have 1: "only p l l1" "p_size (pn l1 p) = p_size s" "isVisible (pn l1 p) = isVisible s" "layout_ok l1"
    "auto \<Longrightarrow> queue l1 = queue l @ [JSize p (o_size (op l p)) True True True]"
    using ok p queued.sub_ok [OF ok] ok_same [OF flg_setSizeLimits ok] only_setSizeLimits only_bodies [OF queued.bodies_sub]
    by (simp_all add: l1_def s_def)
  have 2: "only p l l2" "p_size (pn l2 p) = p_size s" "isVisible (pn l2 p) = isVisible s" "layout_ok l2"
    "auto \<Longrightarrow> queue l2 = queue l @ [JSize p (o_size (op l p)) True True True]"
    using 1 only_trans [OF 1(1) only_runCallbacks] ok_same [OF flg_runCallbacks 1(4)] by (simp_all add: l2_def runCallbacks_def)
  have 3: "only p l l3" "p_size (pn l3 p) = p_size s" "isVisible (pn l3 p) = isVisible s" "layout_ok l3"
    "auto \<Longrightarrow> queue l3 = queue l @ [JSize p (o_size (op l p)) True True True]"
    using 2 only_trans [OF 2(1) only_setSizeLimits] ok_same [OF flg_setSizeLimits 2(4)]
    by (simp_all add: l3_def)
  have 4: "only p l l4" "p_size (pn l4 p) = p_size s" "layout_ok l4" "isSliding (pn l4 p) = slide"
    "s_minSize (pn l4 p) = s_minSize (pn l3 p)" "s_maxSize (pn l4 p) = s_maxSize (pn l3 p)" "queue l4 = queue l3"
    using 3 only_trans [OF 3(1) only_bindStop] only_step [OF 3(1) body_start]
      ok_same [OF flg_bindStop 3(4)] ok_same [OF flg_bindStart 3(4)]
    by (simp_all add: l4_def) (simp add: bindStopSlidingEvents_def bindStartSlidingEvent_def Let_def)
  have out: "l' = l \<or> l' = l2 \<or> l' = upd p (\<lambda>s. s\<lparr>ctl := syncPinBtns (ui (op l3 p)) p False (ctl s)\<rparr>) l3
     \<or> (s_minSize (pn l3 p) \<le> s_maxSize (pn l3 p) \<and> l' = open_2 enqueue p (showPane_now p l6))"
    using run unfolding run_open_def Let_def s_def [symmetric] auto_def [symmetric] l1_def [symmetric] e prod.case
      l3_def [symmetric] l4_def [symmetric] l5_def [symmetric] l6_def [symmetric]
    by (simp split: if_splits)
  then have room: "s_minSize (pn l4 p) \<le> s_maxSize (pn l4 p)" and l': "l' = open_2 enqueue p (showPane_now p l6)"
    using was now 2(3) 3(3) 4(5,6) by (auto simp: s_def)
  note fit = fit_pane_with_room [OF 4(3) p room, folded l5_def]
  show thesis
  proof (rule that [OF _ _ _ _ _ _ _ l'])
    show "only p l (showPane_now p l6)"
      using only_trans [OF 4(1) fit(3)] by (simp add: showPane_now_def l6_def only_stepU)
    show "\<exists>js. queue (showPane_now p l6) = queue l @ JSize p (o_size (op l p)) True True True # js"
      if "autoResize (op l p) \<and> o_size (op l p) \<noteq> Num (of_int (p_size (pn l p)))"
      using fit(4) 4(7) 3(5) that by (auto simp: showPane_now_def l6_def auto_def s_def)
  qed (use fit 4 in \<open>simp_all add: showPane_now_def l6_def s_def\<close>)
qed

text \<open>C21. Once a pane has been closed, or opened other than by sliding, the panes and the gaps beside the
  center and the center itself make up the whole container again, in both directions, whenever
  what they leave holds the frame of the center.\<close>

theorem center_fills_the_rest:
  assumes "layout_ok l" "p \<noteq> Center" "\<not> isSliding (pn l p)" "roomy l'"
    and "(run_close enqueue p f True k l = (Done, l') \<and> \<not> isClosed (pn l p) \<and> isClosed (pn l' p))
       \<or> (run_open enqueue p False True a l = (Done, l') \<and> \<not> isVisible (pn l p) \<and> isVisible (pn l' p))"
  shows "getPaneSize l' West True + outerWidth (pn l' Center) + getPaneSize l' East True = innerWidth (sC l')
    \<and> getPaneSize l' North True + outerHeight (pn l' Center) + getPaneSize l' South True = innerHeight (sC l')"
proof -
  from assms(5) have "tiles l'"
  proof
    assume c: "run_close enqueue p f True k l = (Done, l') \<and> \<not> isClosed (pn l p) \<and> isClosed (pn l' p)"
    obtain m a b where m: "layout_ok m"
      "l' = close_2 enqueue p k a b (hidePane_now p (setAsClosed p (sizeMidPanes enqueue (adjacent p) False False m)))"
      using run_close_shape [OF assms(1,2), of f k l'] c assms(3) by blast
    show "tiles l'" by (rule tiles_after_close [OF m(1) assms(2,4) m(2)])
  next
    assume o: "run_open enqueue p False True a l = (Done, l') \<and> \<not> isVisible (pn l p) \<and> isVisible (pn l' p)"
    obtain m where "\<not> isSliding (pn m p)" "l' = open_2 enqueue p m"
      using run_open_shape [OF assms(1,2), of False a l'] o by blast
    then show "tiles l'" using tiles_after_open assms(2,4) by blast
  qed
  then show ?thesis unfolding tiles_def .
qed

theorem center_fills_the_rest_witness:
  "\<exists>l'. run_close enqueue West False True False demo = (Done, l') \<and> outerWidth (pn l' Center) = 688"
proof -
  have d: "present (pn demo West)" "closable (op demo West)" "\<not> isClosed (pn demo West)" "\<not> isSliding (pn demo West)"
    "\<not> isShowing (pn demo West)" "\<not> isHiding (pn demo West)" "cb demo ''onclose_start'' West \<noteq> CbFalse"
    by (simp_all add: demo_def demo_pane_def demo_opts_def)
  obtain l' where l': "run_close enqueue West False True False demo = (Done, l')"
    "shares l' = shares (upd West (\<lambda>s. s\<lparr>isClosed := True\<rparr>) demo)" (is "_ = shares ?c")
    using run_close_plain [OF demo_ok _ d] by blast
  have c: "roomy ?c \<and> getPaneSize ?c West True = 6 \<and> getPaneSize ?c East True = 106 \<and> innerWidth (sC ?c) = 800"
    by code_simp
  then have r: "roomy l'" "getPaneSize l' West True = 6" "getPaneSize l' East True = 106" "innerWidth (sC l') = 800"
    using roomy_shares [OF l'(2)] getPaneSize_shares [OF l'(2)] shares_reads(3) [OF l'(2)] by simp_all
  have "isClosed (pn l' West)" using shares_reads(1) [OF l'(2), of West] by (simp add: share_def)
  then have "getPaneSize l' West True + outerWidth (pn l' Center) + getPaneSize l' East True = innerWidth (sC l')"
    using center_fills_the_rest [OF demo_ok _ d(4) r(1)] l'(1) d(3) by blast
  then show ?thesis using l'(1) r by auto
qed

section \<open>Sliding and deferred sizes\<close>

text \<open>C26. A pane that slides open lies over the others: no other pane changes its size, its place, its flags
  or its options, and the pane itself takes no more room from the center than when it was closed.\<close>

theorem slide_open_leaves_rest:
  assumes "layout_ok l" "p \<noteq> Center" "run_open enqueue p True True a l = (Done, l')"
    and "\<not> isVisible (pn l p)" "isVisible (pn l' p)"
  shows "isSliding (pn l' p) \<and> (\<forall>q. q \<noteq> p \<longrightarrow> body (pn l' q) = body (pn l q)) \<and> op l' = op l
    \<and> getPaneSize l' p True \<le> max 0 (spacing_closed (op l p))"
proof -
  obtain m where m: "only p l m" "isSliding (pn m p)" "l' = open_2 enqueue p m"
    using run_open_shape [OF assms] by (metis (full_types))
  define x where "x = upd p (\<lambda>s. s\<lparr>isMoving := False\<rparr>) m"
  have l': "l' = setAsOpen p False x" using m by (simp add: open_2_def x_def)
  have b: "body (pn l' q) = body (pn (upd p elDims x) q)" for q unfolding l' by (rule body_setAsOpen(1))
  have o: "op l' = op l" using m(1) body_setAsOpen(2) [of p False x] by (simp add: l' x_def only_def)
  have rest: "body (pn l' q) = body (pn l q)" if "q \<noteq> p" for q
    using b [of q] m(1) that by (simp add: x_def only_def)
  have sl: "isSliding (pn l' p)" using body_fields(11) [OF b [of p]] m(2) by (simp add: x_def elDims_def)
  show ?thesis using sl rest o by (simp add: getPaneSize_def Let_def)
qed

text \<open>The same layout with its west pane closed, and its option of returning to its original size off.\<close>

definition demo_closed :: layout where
  "demo_closed = (upd West (\<lambda>s. s\<lparr>isClosed := True, isVisible := False, shown := False\<rparr>) demo)
     \<lparr>op := (\<lambda>_. demo_opts\<lparr>autoResize := False\<rparr>)\<rparr>"

lemma demo_closed_ok: "layout_ok demo_closed"
  by (simp add: demo_closed_def layout_ok_def demo_def flags_ok_def demo_pane_def no_ctl_def)

text \<open>The limits do not depend on the limits that were there.\<close>

lemma setSizeLimits_again:
  "s_minSize (pn (setSizeLimits p b (snd (runCallbacks e q (setSizeLimits p b l)))) p) = s_minSize (pn (setSizeLimits p b l) p)"
  "s_maxSize (pn (setSizeLimits p b (snd (runCallbacks e q (setSizeLimits p b l)))) p) = s_maxSize (pn (setSizeLimits p b l) p)"
proof -
  define m where "m = snd (runCallbacks e q (setSizeLimits p b l))"
  have r: "op m = op l" "sC m = sC l" "initialized m = initialized l" "present (pn m r) = present (pn l r)"
    "auto_w (pn m r) = auto_w (pn l r)" "auto_h (pn m r) = auto_h (pn l r)" "frame_w (pn m r) = frame_w (pn l r)"
    "frame_h (pn m r) = frame_h (pn l r)" "css_w (pn m r) = css_w (pn l r)" "css_h (pn m r) = css_h (pn l r)"
    "isSliding (pn m r) = isSliding (pn l r)" "isHidden (pn m r) = isHidden (pn l r)" "isClosed (pn m r) = isClosed (pn l r)"
    "isVisible (pn m r) = isVisible (pn l r)" for r
    unfolding m_def by (simp_all add: runCallbacks_def setSizeLimits_def Let_def)
  have av: "avail_space m d = avail_space l d" for d by (cases d) (simp_all add: avail_space_def r)
  have pn: "parse_num m r d x = parse_num l r d x" for r d x by (simp add: parse_num_def av r)
  have ps: "parseSize m r z d = parseSize l r z d" for r z d by (cases z) (simp_all add: parseSize_def pn r)
  have dm: "min_dim_w (pn m r) = min_dim_w (pn l r)" "min_dim_h (pn m r) = min_dim_h (pn l r)" for r
    by (simp_all add: min_dim_w_def min_dim_h_def cssW_def cssH_def r)
  have ls: "limitSize m p s = limitSize l p s" for s
    by (simp add: limitSize_def containerSize_def minCenterSize_def altPaneSize_def altPaneSpacing_def Let_def outer_in_def
        outerWidth_def outerHeight_def ps dm r)
  have cm: "cssMinSize p (pn m p) = cssMinSize p (pn l p)" by (simp add: cssMinSize_def dm)
  show "s_minSize (pn (setSizeLimits p b (snd (runCallbacks e q (setSizeLimits p b l)))) p) = s_minSize (pn (setSizeLimits p b l) p)"
  "s_maxSize (pn (setSizeLimits p b (snd (runCallbacks e q (setSizeLimits p b l)))) p) = s_maxSize (pn (setSizeLimits p b l) p)"
    unfolding m_def [symmetric] unfolding setSizeLimits_def Let_def by (cases b; cases "o_maxSize (op l p)"; simp add: ps cm ls r)+
qed

lemma run_slide_plain:
  assumes ok: "layout_ok l" and p: "p \<noteq> Center" and s: "present (pn l p)" "resizable (op l p)" "\<not> isVisible (pn l p)"
    "\<not> isHidden (pn l p)" "\<not> autoResize (op l p)" "cb l ''onopen_start'' p \<noteq> CbAbort"
    "s_minSize (pn (setSizeLimits p (Some True) l) p) \<le> s_maxSize (pn (setSizeLimits p (Some True) l) p)"
  obtains l' where "run_open enqueue p True True a l = (Done, l')" "isVisible (pn l' p)"
proof -
  define r where "r = cb l ''onopen_start'' p"
  define l2 where "l2 = snd (runCallbacks ''onopen_start'' p (setSizeLimits p (Some True) l))"
  define l3 where "l3 = (if r \<noteq> NC then setSizeLimits p (Some True) l2 else l2)"
  define l5 where "l5 = fit_pane enqueue p False False (upd p (\<lambda>s. s\<lparr>noRoom := False\<rparr>) (bindStopSlidingEvents p True l3))"
  define l6 where "l6 = upd p (\<lambda>s. s\<lparr>isShowing := False, isMoving := True, isVisible := True,
       isClosed := False, isHidden := (if isShowing (pn l5 p) then False else isHidden s)\<rparr>) l5"
  have cbk: "cb (setSizeLimits p b l) = cb l" for b by (simp add: setSizeLimits_def Let_def)
  have r: "runCallbacks ''onopen_start'' p (setSizeLimits p (Some True) l) = (r, l2)"
    by (simp add: r_def l2_def runCallbacks_def cbk)
  have "s_minSize (pn l2 p) \<le> s_maxSize (pn l2 p)" using s(7) by (simp add: l2_def runCallbacks_def)
  then have lim: "s_minSize (pn l3 p) \<le> s_maxSize (pn l3 p)"
    using s(7) setSizeLimits_again [of p "Some True" "''onopen_start''" p l] by (simp add: l3_def l2_def)
  have run: "run_open enqueue p True True a l = (Done, open_2 enqueue p (showPane_now p l6))"
    unfolding run_open_def Let_def l5_def l6_def using s(1-6) lim by (simp add: r l3_def r_def [symmetric])
  have 2: "layout_ok l2" unfolding l2_def by (intro ok_same [OF flg_runCallbacks] ok_same [OF flg_setSizeLimits] ok)
  have 3: "layout_ok (bindStopSlidingEvents p True l3)"
    unfolding l3_def by (rule ok_same [OF flg_bindStop]) (simp add: 2 ok_same [OF flg_setSizeLimits 2])
  have sl: "isSliding (pn (showPane_now p l6) p)" "isVisible (pn (showPane_now p l6) p)"
    using fit_pane_with_room(1) [OF 3 p] lim by (simp_all add: showPane_now_def l6_def l5_def)
  have "isVisible (pn (open_2 enqueue p (showPane_now p l6)) p)"
    using sl body_fields(12) [OF body_setAsOpen(1) [of p False _ p]] by (simp add: open_2_def elDims_def)
  then show thesis using that run by blast
qed

theorem slide_open_leaves_rest_witness:
  "\<exists>l'. run_open enqueue West True True False demo_closed = (Done, l') \<and> isSliding (pn l' West)
     \<and> css_w (pn l' Center) = 578"
proof -
  have d: "present (pn demo_closed West)" "resizable (op demo_closed West)" "\<not> isVisible (pn demo_closed West)"
    "\<not> isHidden (pn demo_closed West)" "\<not> autoResize (op demo_closed West)" "cb demo_closed ''onopen_start'' West \<noteq> CbAbort"
    "css_w (pn demo_closed Center) = 578"
    by (simp_all add: demo_closed_def demo_def demo_pane_def demo_opts_def)
  have lim: "s_minSize (pn (setSizeLimits West (Some True) demo_closed) West)
      \<le> s_maxSize (pn (setSizeLimits West (Some True) demo_closed) West)" by code_simp
  obtain l' where l': "run_open enqueue West True True False demo_closed = (Done, l')" "isVisible (pn l' West)"
    using run_slide_plain [OF demo_closed_ok _ d(1-6) lim] by blast
  have "isSliding (pn l' West) \<and> (\<forall>q. q \<noteq> West \<longrightarrow> body (pn l' q) = body (pn demo_closed q))"
    using slide_open_leaves_rest [OF demo_closed_ok _ l'(1) d(3) l'(2)] by blast
  then show ?thesis using body_fields(1) [of "pn l' Center" "pn demo_closed Center"] l'(1) d(7) by auto
qed

lemma queue_setAsOpen: "queue (setAsOpen p k l) = queue l"
proof -
  have h: "queue (sizeHandles ps l) = queue l" for ps and l :: layout using flg_sizeHandles [of ps l] by (simp add: flg_def)
  show ?thesis unfolding setAsOpen_def Let_def by (simp add: h fire_def runCallbacks_def)
qed

lemma queue_flg: "flg l' = flg l \<Longrightarrow> queue l' = queue l"
  by (simp add: flg_def)

lemma queue_show_pane: "prefix (queue l) (queue (show_pane enqueue p a b c l))"
  by (simp add: show_pane_def runCallbacks_def Let_def split: cbret.split)

lemma queue_fit_height: "queue (fit_height p l) = queue l"
  by (simp add: fit_height_def Let_def)

lemma queue_makePaneFit: "prefix (queue l) (queue (makePaneFit enqueue (\<lambda>_ l. l) p k f l))"
proof -
  have s: "prefix q (queue (show_pane enqueue p a b c x))" if "prefix q (queue x)" for q a b c x
    using prefix_order.trans [OF that queue_show_pane] .
  have i: "prefix q (queue (if b then x else y))" if "prefix q (queue x)" "prefix q (queue y)" for b q x y using that by simp
  have e: "prefix q (queue (enqueue j x))" "prefix q (queue (upd p g x))" if "prefix q (queue x)" for q j x g
    using that by simp_all
  have b: "prefix (queue l) (queue (fit_height p l))" by (simp add: queue_fit_height)
  show ?thesis unfolding makePaneFit_def Let_def by (intro i s e b)
qed

lemma queue_sizeMidPane: "prefix (queue l) (queue (sizeMidPane enqueue k f p l))"
proof -
  have i: "prefix q (queue (if b then x else y))" if "prefix q (queue x)" "prefix q (queue y)" for b q x y using that by simp
  have e: "prefix q (queue (upd r g x))" "prefix q (queue (fire n r x))" "prefix q (queue (sizeHandles ps x))"
    "prefix q (queue (makePaneFit enqueue (\<lambda>_ l. l) r False False x))"
    if "prefix q (queue x)" for q r x g n ps
    using that prefix_order.trans [OF that queue_makePaneFit] queue_flg [OF flg_fire] queue_flg [OF flg_sizeHandles] by simp_all
  show ?thesis unfolding sizeMidPane_def Let_def by (intro i e prefix_order.refl)
qed

lemma queue_sizeMidPanes: "prefix (queue l) (queue (sizeMidPanes enqueue ps k f l))"
proof -
  have "prefix (queue l) (queue (fold (sizeMidPane enqueue k f) qs l))" for qs
    by (induction qs arbitrary: l) (auto intro: prefix_order.trans [OF queue_sizeMidPane])
  then show ?thesis unfolding sizeMidPanes_def by blast
qed

lemma body_sizeMidPanes:
  assumes "p \<notin> set (if ps = [] then [East, West, Center] else ps)"
  shows "body (pn (sizeMidPanes enqueue ps k f l) p) = body (pn l p)"
proof -
  have "body (pn (fold (sizeMidPane enqueue k f) qs l) p) = body (pn l p)" if "p \<notin> set qs" for qs
    using that queued.only_sizeMidPane by (induction qs arbitrary: l) (simp_all add: only_def)
  then show ?thesis unfolding sizeMidPanes_def using assms by blast
qed

lemma body_open_2:
  assumes "p \<noteq> Center"
  shows "body (pn (open_2 enqueue p l) p) = body (elDims ((pn l p)\<lparr>isMoving := False\<rparr>))"
    "prefix (queue l) (queue (open_2 enqueue p l))"
proof -
  let ?m = "upd p (\<lambda>s. s\<lparr>isMoving := False\<rparr>) l"
  define x where "x = (if \<not> isSliding (pn ?m p)
      then sizeMidPanes enqueue (if dir_of_pane p = Vert then [Center] else []) False False ?m else ?m)"
  have x: "body (pn x p) = body (pn ?m p)"
    unfolding x_def using assms by (cases p) (simp_all add: body_sizeMidPanes)
  have "body (elDims s) = elDims (body s)" for s
    by (simp add: body_def elDims_def outerWidth_def outerHeight_def)
  then have el: "body (elDims s) = body (elDims t)" if "body s = body t" for s t using that by simp
  have o: "open_2 enqueue p l = setAsOpen p False x" by (simp add: open_2_def Let_def x_def)
  show "body (pn (open_2 enqueue p l) p) = body (elDims ((pn l p)\<lparr>isMoving := False\<rparr>))"
    using body_setAsOpen(1) [of p False x p] el [OF x] by (simp add: o)
  have "prefix (queue l) (queue x)" using queue_sizeMidPanes [of ?m] by (simp add: x_def)
  then show "prefix (queue l) (queue (open_2 enqueue p l))" by (simp add: o queue_setAsOpen)
qed

text \<open>A pane that is to open at the size of its options opens at the size it had: the resize is a job
  of its own, waiting behind the open that asked for it.\<close>

theorem open_defers_autoresize:
  assumes "layout_ok l" "p \<noteq> Center" "run_open enqueue p slide True a l = (Done, l')"
    and "\<not> isVisible (pn l p)" "isVisible (pn l' p)"
    and "autoResize (op l p)" "o_size (op l p) \<noteq> Num (of_int (p_size (pn l p)))"
  shows "p_size (pn l' p) = p_size (pn l p) \<and> (\<exists>js. queue l' = queue l @ JSize p (o_size (op l p)) True True True # js)"
proof -
  obtain m js where m: "p_size (pn m p) = p_size (pn l p)" "l' = open_2 enqueue p m"
    "queue m = queue l @ JSize p (o_size (op l p)) True True True # js"
    using run_open_shape [OF assms(1-5)] assms(6,7) by blast
  have "p_size (pn l' p) = p_size (pn l p)"
    using body_fields(6) [OF body_open_2(1) [OF assms(2), of m]] m by (simp add: elDims_def)
  moreover have "prefix (queue m) (queue l')" unfolding m(2) by (rule body_open_2(2) [OF assms(2)])
  ultimately show ?thesis using m(3) by (auto simp: prefix_def)
qed

theorem open_defers_autoresize_witness:
  "\<exists>l'. run_open enqueue West True True False (demo_closed\<lparr>op := (\<lambda>_. demo_opts\<lparr>o_size := Num 150\<rparr>)\<rparr>) = (Done, l')
     \<and> p_size (pn l' West) = 100"
proof -
  let ?d = "demo_closed\<lparr>op := (\<lambda>_. demo_opts\<lparr>o_size := Num 150\<rparr>)\<rparr>"
  have ok: "layout_ok ?d" by (simp add: demo_closed_def layout_ok_def demo_def flags_ok_def demo_pane_def no_ctl_def)
  have d: "\<not> isVisible (pn ?d West)" "autoResize (op ?d West)" "o_size (op ?d West) \<noteq> Num (of_int (p_size (pn ?d West)))"
    "p_size (pn ?d West) = 100"
    by (simp_all add: demo_closed_def demo_def demo_pane_def demo_opts_def)
  define l' where "l' = snd (run_open enqueue West True True False ?d)"
  define q where "q = enqueue (JSize West (Num 150) True True True) ?d"
  define l5 where "l5 = fit_pane enqueue West False False
     (upd West (\<lambda>s. s\<lparr>noRoom := False\<rparr>) (bindStopSlidingEvents West True (snd (runCallbacks ''onopen_start'' West q))))"
  define l6 where "l6 = upd West (\<lambda>s. s\<lparr>isShowing := False, isMoving := True, isVisible := True,
       isClosed := False, isHidden := (if isShowing (pn l5 West) then False else isHidden s)\<rparr>) l5"
  have lim: "s_minSize (pn (snd (runCallbacks ''onopen_start'' West q)) West)
      \<le> s_maxSize (pn (snd (runCallbacks ''onopen_start'' West q)) West)"
    by (simp add: q_def demo_closed_def demo_def demo_pane_def runCallbacks_def)
  have run: "run_open enqueue West True True False ?d = (Done, open_2 enqueue West (showPane_now West l6))"
    unfolding run_open_def Let_def l5_def l6_def q_def
    by (simp add: demo_closed_def demo_def demo_pane_def demo_opts_def runCallbacks_def enqueue_def)
  have "isVisible (pn (open_2 enqueue West (showPane_now West l6)) West)"
    using body_fields(12) [OF body_open_2(1), of West "showPane_now West l6"] by (simp add: elDims_def showPane_now_def l6_def)
  from open_defers_autoresize [OF ok _ run d(1) this d(2,3)] show ?thesis using run d(4) by auto
qed

section \<open>Resizing\<close>

lemma cssMinSize_cong: "frame_w s = frame_w t \<Longrightarrow> frame_h s = frame_h t \<Longrightarrow> cssMinSize p s = cssMinSize p t"
  by (simp add: cssMinSize_def min_dim_w_def min_dim_h_def cssW_def cssH_def)

lemma body_sizePane_2:
  assumes ok: "layout_ok l" and p: "p \<noteq> Center"
    and fr: "0 \<le> frame_w (pn l p)" "frame_w (pn l p) \<le> 1000" "0 \<le> frame_h (pn l p)" "frame_h (pn l p) \<le> 1000"
    and min: "cssMinSize p (pn l p) \<le> sz"
  shows "body (pn (sizePane_2 enqueue p sz old k f l) p) = body (elDims (set_css p (cssSize p (pn l p) sz) (pn l p)\<lparr>p_size := sz\<rparr>))"
proof -
  have ap: "fst (correct_size (cssSize p (pn l p)) (\<lambda>c. outer_in p (set_css p c (pn l p))) sz) = cssSize p (pn l p) sz"
    using nudge_exact cssMinSize_fits [OF fr min] by simp
  define l1 where "l1 = upd p (\<lambda>s. elDims (set_css p (cssSize p (pn l p) sz) s\<lparr>p_size := sz\<rparr>)) l"
  define skip where "skip = (isResizing (pn l p) \<and> \<not> triggerEventsDuringLiveResize (op l p))"
  define l2 where "l2 = (if isVisible (pn l1 p) \<and> shown (pn l1 p) \<and> has_resizer p l1
                then upd p (\<lambda>s. s\<lparr>r_pos := sz + inset (sC l1) p\<rparr>) l1 else l1)"
  define l3 where "l3 = (if \<not> k \<and> \<not> skip \<and> initialized l2 \<and> isVisible (pn l2 p) then fire ''onresize_end'' p l2 else l2)"
  define l4 where "l4 = (if \<not> k then sizeHandles [] (if \<not> isSliding (pn l3 p) then sizeMidPanes enqueue (adjacent p) skip f l3 else l3) else l3)"
  have s2: "sizePane_2 enqueue p sz old k f l = (if sz < old then refit_opposite enqueue p k l4 else l4)"
    unfolding sizePane_2_def Let_def skip_def [symmetric] ap l1_def [symmetric] l2_def [symmetric] l3_def [symmetric]
      l4_def [symmetric] by (rule refl)
  have 1: "layout_ok l1" unfolding l1_def by (rule upd_same_ok [OF _ ok]) (simp add: elDims_def set_css_def)
  have 2: "layout_ok l2" "body (pn l2 p) = body (pn l1 p)"
    using 1 upd_same_ok [OF _ 1] by (simp_all add: l2_def body_def)
  have 3: "layout_ok l3" "body (pn l3 p) = body (pn l1 p)"
    using 2 ok_same [OF flg_fire 2(1)] bodies_reads(1) [OF body_fire] by (simp_all add: l3_def)
  have mid: "body (pn (sizeMidPanes enqueue (adjacent p) skip f l3) p) = body (pn l3 p)"
    by (rule body_sizeMidPanes) (use p in \<open>cases p; simp add: adjacent_def\<close>)
  have 4: "layout_ok l4" "body (pn l4 p) = body (pn l1 p)"
    using 3 mid queued.sizeMidPanes_ok [OF 3(1)] ok_same [OF flg_sizeHandles] bodies_reads(1) [OF body_sizeHandles]
    by (simp_all add: l4_def)
  have "body (pn (refit_opposite enqueue p k l4) p) = body (pn l4 p)"
    using queued.refit_opposite_keeps(2) [OF 4(1), of p p k] queued.opposite_border [OF p] by metis
  then show ?thesis unfolding s2 using 4(2) by (simp add: l1_def)
qed

lemma sized_reads:
  assumes "body s = body (elDims (set_css p v t\<lparr>p_size := sz\<rparr>))"
  shows "p_size s = sz" "outer_in p s = outer_in p (set_css p v t)"
  using body_fields(1-4,6) [OF assms] by (simp_all add: elDims_def outer_in_def outerWidth_def outerHeight_def set_css_def)

text \<open>What a resize without animation comes to: nothing, when the pane has the size already, or that size.\<close>

lemma run_size_exact:
  fixes l :: layout and z :: psize and p :: pane
  defines "m \<equiv> setSizeLimits p None l"
  defines "sz \<equiv> min (max (parseSize m p z (dir_of_pane p)) (parseSize m p (o_minSize (op m p)) (dir_of_pane p))) (s_maxSize (pn m p))"
  assumes "layout_ok l" "p \<noteq> Center" "run_size enqueue p z k f True l = (Done, l')"
    and "0 \<le> frame_w (pn l p)" "frame_w (pn l p) \<le> 1000" "0 \<le> frame_h (pn l p)" "frame_h (pn l p) \<le> 1000"
  shows "s_minSize (pn m p) \<le> sz \<and> sz \<le> s_maxSize (pn m p) \<and> p_size (pn l' p) = sz
    \<and> (outer_in p (pn l' p) = sz \<or> l' = m)"
proof -
  define l1 where "l1 = (if \<not> k \<and> initialized m \<and> isVisible (pn m p) then fire ''onresize_start'' p m else m)"
  define l2 where "l2 = upd p (set_css p (cssSize p (pn m p) sz)) l1"
  have pn1: "pn l1 = pn m" by (simp add: l1_def fire_def runCallbacks_def)
  have sh2: "shown (pn l2 p) = shown (pn m p)" by (simp add: l2_def pn1 set_css_def)
  have c: "\<not> sz < s_minSize (pn m p)" "(m = l' \<and> sz = p_size (pn m p)) \<or> l' = (if shown (pn m p) then sizePane_2 enqueue p sz (p_size (pn m p)) k f l2
                                  else upd p (\<lambda>s. elDims (s\<lparr>p_size := sz\<rparr>)) l2)"
    using assms(5) unfolding run_size_def Let_def m_def [symmetric] sz_def [symmetric] l1_def [symmetric] l2_def [symmetric] sh2
    by (simp_all split: if_splits)
  have sz: "s_minSize (pn m p) \<le> sz" "sz \<le> s_maxSize (pn m p)"
    subgoal using c(1) by simp
    subgoal by (simp add: sz_def)
    done
  have ok2: "layout_ok l2" unfolding l2_def l1_def m_def
    using ok_same [OF flg_set_css] ok_same [OF flg_fire] ok_same [OF flg_setSizeLimits assms(3)] by simp
  have fr: "frame_w (pn m p) = frame_w (pn l p)" "frame_h (pn m p) = frame_h (pn l p)"
    "frame_w (pn l2 p) = frame_w (pn l p)" "frame_h (pn l2 p) = frame_h (pn l p)"
    by (simp_all add: l2_def pn1 m_def setSizeLimits_def Let_def set_css_def)
  have "cssMinSize p (pn l p) \<le> s_minSize (pn m p)" by (simp add: m_def setSizeLimits_def Let_def)
  then have min: "cssMinSize p s \<le> sz" if "frame_w s = frame_w (pn l p)" "frame_h s = frame_h (pn l p)" for s
    using cssMinSize_cong [OF that, of p] sz by simp
  have fits: "outer_in p (set_css p (cssSize p t sz) t) = sz"
    if "frame_w t = frame_w (pn l p)" "frame_h t = frame_h (pn l p)" for t
    using cssMinSize_fits [of t p sz] that assms(6-9) min [OF that] by simp
  have "p_size (pn l' p) = sz \<and> outer_in p (pn l' p) = sz"
    if l': "l' = (if shown (pn m p) then sizePane_2 enqueue p sz (p_size (pn m p)) k f l2
                                  else upd p (\<lambda>s. elDims (s\<lparr>p_size := sz\<rparr>)) l2)"
  proof (cases "shown (pn m p)")
    case True
    then show ?thesis
      using sized_reads [OF body_sizePane_2 [OF ok2 assms(4), of sz "p_size (pn m p)" k f]] fr assms(6-9)
        min [OF fr(3,4)] fits [OF fr(3,4)] by (simp add: l')
  next
    case False
    then show ?thesis using fits [OF fr(1,2)]
      by (cases "dir_of_pane p = Horz") (simp_all add: l' l2_def pn1 elDims_def set_css_def outer_in_def outerWidth_def outerHeight_def)
  qed
  then show ?thesis using sz c(2) by auto
qed

text \<open>C24. A resize that does anything leaves the pane between the limits of the moment, whatever size was
  asked for, and the element has exactly the outer size that is recorded.\<close>

theorem resize_within_limits:
  assumes "layout_ok l" "p \<noteq> Center" "run_size enqueue p z k f True l = (Done, l')" "p_size (pn l' p) \<noteq> p_size (pn l p)"
    and "0 \<le> frame_w (pn l p)" "frame_w (pn l p) \<le> 1000" "0 \<le> frame_h (pn l p)" "frame_h (pn l p) \<le> 1000"
  shows "s_minSize (pn (setSizeLimits p None l) p) \<le> p_size (pn l' p)
    \<and> p_size (pn l' p) \<le> s_maxSize (pn (setSizeLimits p None l) p)
    \<and> outer_in p (pn l' p) = p_size (pn l' p)"
proof -
  have "p_size (pn (setSizeLimits p None l) p) = p_size (pn l p)" by simp
  then show ?thesis using run_size_exact [OF assms(1-3,5-8)] assms(4) by auto
qed

theorem resize_within_limits_witness:
  "\<exists>l'. run_size enqueue West (Num 200) False False True (upd West (\<lambda>s. s\<lparr>shown := False\<rparr>) demo) = (Done, l')
     \<and> outer_in West (pn l' West) = p_size (pn l' West)"
proof -
  let ?d = "upd West (\<lambda>s. s\<lparr>shown := False\<rparr>) demo"
  have ok: "layout_ok ?d" by (rule upd_same_ok [OF _ demo_ok]) simp
  have f: "0 \<le> frame_w (pn ?d West)" "frame_w (pn ?d West) \<le> 1000" "0 \<le> frame_h (pn ?d West)" "frame_h (pn ?d West) \<le> 1000"
    by (simp_all add: demo_def demo_pane_def)
  define l' where "l' = snd (run_size enqueue West (Num 200) False False True ?d)"
  have 1: "fst (run_size enqueue West (Num 200) False False True ?d) = Done" by code_simp
  have 2: "p_size (pn l' West) = 200" unfolding l'_def by code_simp
  have "p_size (pn ?d West) = 100" by (simp add: demo_def demo_pane_def)
  then have "p_size (pn l' West) \<noteq> p_size (pn ?d West)" using 2 by simp
  with resize_within_limits [OF ok _ _ this f, of "Num 200" False False] 1 show ?thesis by (simp add: l'_def prod_eq_iff)
qed

section \<open>Callbacks and requests\<close>

text \<open>A show that is refused for lack of room leaves the pane hidden but still marked as being shown, and
  the next close takes it for the end of that show: it calls no \<open>onclose_start\<close>, and the pane that
  was hidden is afterwards merely closed.\<close>

theorem refused_show_unhides:
  assumes "present (pn l p)" "isHidden (pn l p)" "isShowing (pn l p)" "\<not> isVisible (pn l p)" "\<not> isHiding (pn l p)"
    and "resizable (op l p)" "\<not> autoResize (op l p)" "cb l ''onopen_start'' p = NC"
    and "s_minSize (pn (setSizeLimits p (Some slide) l) p) > s_maxSize (pn (setSizeLimits p (Some slide) l) p)"
    and "layout_ok l" "p \<noteq> Center" "\<not> isSliding (pn l p)"
  shows "\<exists>l1 l2. run_open enqueue p slide n a l = (Done, l1) \<and> isHidden (pn l1 p) \<and> isShowing (pn l1 p)
    \<and> run_close enqueue p False True True l1 = (Done, l2) \<and> \<not> isHidden (pn l2 p) \<and> isClosed (pn l2 p)"
proof -
  define l0 where "l0 = snd (runCallbacks ''onopen_start'' p (setSizeLimits p (Some slide) l))"
  define l1 where "l1 = upd p (\<lambda>s. s\<lparr>ctl := syncPinBtns (ui (op l0 p)) p False (ctl s)\<rparr>) l0"
  have c: "cb (setSizeLimits p (Some slide) l) = cb l" by (simp add: setSizeLimits_def Let_def)
  have r: "run_open enqueue p slide n a l = (Done, l1)"
    unfolding run_open_def l1_def l0_def using assms(1-9) by (simp add: Let_def runCallbacks_def c)
  have lim: "isHidden (pn (setSizeLimits p b l) p) = isHidden (pn l p)" "isShowing (pn (setSizeLimits p b l) p) = isShowing (pn l p)"
    "isSliding (pn (setSizeLimits p b l) p) = isSliding (pn l p)" "isHiding (pn (setSizeLimits p b l) p) = isHiding (pn l p)"
    "present (pn (setSizeLimits p b l) p) = present (pn l p)" for b
    by (simp_all add: setSizeLimits_def Let_def)
  have s1: "isHidden (pn l1 p)" "isShowing (pn l1 p)" "\<not> isSliding (pn l1 p)" "\<not> isHiding (pn l1 p)" "present (pn l1 p)"
    using assms(1-5,12) lim by (simp_all add: l1_def l0_def runCallbacks_def)
  have ok1: "layout_ok l1" unfolding l1_def
    by (rule upd_sync_ok [of _ _ _ "\<lambda>_. False"])
       (simp_all add: l0_def flags_ok_def ok_same [OF flg_runCallbacks ok_same [OF flg_setSizeLimits assms(10)]])
  define m where "m = upd p (\<lambda>t. t\<lparr>isMoving := True, isClosed := True, isVisible := False, isHidden := False\<rparr>)
     (upd p (\<lambda>s. s\<lparr>isShowing := False, isHiding := False\<rparr>) l1)"
  define l2 where "l2 = close_2 enqueue p True True False
     (hidePane_now p (setAsClosed p (sizeMidPanes enqueue (adjacent p) False False m)))"
  have r2: "run_close enqueue p False True True l1 = (Done, l2)"
    unfolding run_close_def Let_def l2_def m_def using s1 by simp
  have ok2: "layout_ok m" unfolding m_def
    using assms(11) ok_flags [OF ok1, of p] by (intro upd_ok upd_same_ok [OF _ ok1]) (simp_all add: flags_ok_def)
  have "share p (pn l2 p) = share p (pn m p)"
    using shares_reads(1) [OF close_tail(1) [OF ok2 assms(11) l2_def]] .
  then have "\<not> isHidden (pn l2 p)" "isClosed (pn l2 p)" by (simp_all add: share_def m_def)
  then show ?thesis using r s1(1,2) r2 by blast
qed

theorem refused_show_unhides_witness:
  "\<exists>l1 l2. run_open enqueue West False True False
      ((upd West (\<lambda>s. s\<lparr>isHidden := True, isShowing := True\<rparr>) demo_closed)\<lparr>op := (\<lambda>_. demo_opts\<lparr>autoResize := False, o_minSize := Num 900\<rparr>)\<rparr>)
      = (Done, l1)
    \<and> run_close enqueue West False True True l1 = (Done, l2) \<and> \<not> isHidden (pn l2 West)"
proof -
  let ?d = "(upd West (\<lambda>s. s\<lparr>isHidden := True, isShowing := True\<rparr>) demo_closed)\<lparr>op := (\<lambda>_. demo_opts\<lparr>autoResize := False, o_minSize := Num 900\<rparr>)\<rparr>"
  have ok: "layout_ok ?d"
    by (simp add: demo_closed_def layout_ok_def demo_def flags_ok_def demo_pane_def no_ctl_def)
  have d: "present (pn ?d West)" "isHidden (pn ?d West)" "isShowing (pn ?d West)" "\<not> isVisible (pn ?d West)"
    "\<not> isHiding (pn ?d West)" "resizable (op ?d West)" "\<not> autoResize (op ?d West)" "cb ?d ''onopen_start'' West = NC"
    "\<not> isSliding (pn ?d West)"
    by (simp_all add: demo_closed_def demo_def demo_pane_def demo_opts_def)
  have lim: "s_minSize (pn (setSizeLimits West (Some False) ?d) West) > s_maxSize (pn (setSizeLimits West (Some False) ?d) West)"
    by code_simp
  show ?thesis using refused_show_unhides [OF d(1-8) lim ok _ d(9), of True False] by blast
qed

text \<open>A callback that answers false to \<open>onclose_start\<close> keeps the pane open; one that answers false to
  \<open>onopen_start\<close> does not keep it closed.\<close>

theorem false_keeps_open_only:
  assumes "layout_ok l" "p \<noteq> Center" "present (pn l p)" "cb l ''onclose_start'' p = CbFalse" "cb l ''onopen_start'' p = CbFalse"
    and "resizable (op l p)" "\<not> isHidden (pn l p)" "\<not> isShowing (pn l p)" "\<not> isVisible (pn l p)" "\<not> autoResize (op l p)"
    and "s_minSize (pn (setSizeLimits p (Some True) l) p) \<le> s_maxSize (pn (setSizeLimits p (Some True) l) p)"
  shows "isClosed (pn (snd (run_close enqueue p f n k l)) p) = isClosed (pn l p)
    \<and> isVisible (pn (snd (run_open enqueue p True True a l)) p)"
proof -
  have close: "isClosed (pn (snd (run_close enqueue p f n k l)) p) = isClosed (pn l p)"
    using assms(4,8) by (simp add: run_close_def Let_def runCallbacks_def)
  obtain l' where "run_open enqueue p True True a l = (Done, l')" "isVisible (pn l' p)"
    using run_slide_plain [OF assms(1-3,6,9,7,10) _ assms(11)] assms(5) by (metis cbret.distinct(7))
  then show ?thesis using close by simp
qed

theorem false_keeps_open_only_witness:
  "isVisible (pn (snd (run_open enqueue West True True False (demo_closed\<lparr>cb := (\<lambda>_ _. CbFalse)\<rparr>))) West)"
proof -
  let ?d = "demo_closed\<lparr>cb := (\<lambda>_ _. CbFalse)\<rparr>"
  have ok: "layout_ok ?d" by (simp add: demo_closed_def layout_ok_def demo_def flags_ok_def demo_pane_def no_ctl_def)
  have d: "present (pn ?d West)" "cb ?d ''onclose_start'' West = CbFalse" "cb ?d ''onopen_start'' West = CbFalse"
    "resizable (op ?d West)" "\<not> isHidden (pn ?d West)" "\<not> isShowing (pn ?d West)" "\<not> isVisible (pn ?d West)"
    "\<not> autoResize (op ?d West)"
    by (simp_all add: demo_closed_def demo_def demo_pane_def demo_opts_def)
  have lim: "s_minSize (pn (setSizeLimits West (Some True) ?d) West) \<le> s_maxSize (pn (setSizeLimits West (Some True) ?d) West)"
    by code_simp
  show ?thesis using false_keeps_open_only [OF ok _ d lim] by blast
qed

end
