(* ===== verification/StateProps.thy ===== *)
theory StateProps
  imports LayoutState LayoutProps
begin

text \<open>
  The state that \<open>lib/jquery.layout.js\<close> saves in a cookie is the state it reads back: the JSON text is
  parsed into the data it was made from, percent encoding is undone, and the cookie is found again
  among the others.
\<close>

section \<open>Numbers\<close>

lemma code_char_of [simp]: "n < 256 \<Longrightarrow> code (char_of n) = n"
  by (simp add: code_def)

lemma char_of_code [simp]: "char_of (code c) = c"
  by (simp add: code_def)

lemma code_less [simp]: "code c < 256"
  by (simp add: code_def)

lemma code_inj: "code c = code d \<longleftrightarrow> c = d"
  using char_of_code by metis

lemma digit_code: "n < 10 \<Longrightarrow> code (digit n) = 48 + n"
  by (simp add: digit_def)

lemma is_digit_digit: "n < 10 \<Longrightarrow> is_digit (digit n)"
  by (simp add: is_digit_def digit_code)

lemma nat_str_nonempty [simp]: "nat_str n \<noteq> []"
  by (subst nat_str.simps) simp

lemma nat_str_digits: "\<forall>c \<in> set (nat_str n). is_digit c"
proof (induction n rule: nat_str.induct)
  case (1 n)
  then show ?case by (subst nat_str.simps) (simp add: is_digit_digit)
qed

lemma digits_val_snoc: "digits_val (ds @ [c]) = 10 * digits_val ds + (code c - 48)"
  by (simp add: digits_val_def)

lemma digits_val_nat_str: "digits_val (nat_str n) = n"
proof (induction n rule: nat_str.induct)
  case (1 n)
  then show ?case by (subst nat_str.simps) (simp add: digits_val_snoc digit_code, simp add: digits_val_def digit_code)
qed

lemma nat_str_hd: "0 < n \<Longrightarrow> code (hd (nat_str n)) \<noteq> 48"
proof (induction n rule: nat_str.induct)
  case (1 n)
  then show ?case by (subst nat_str.simps) (simp add: digit_code)
qed

lemma nat_str_zero: "nat_str 0 = ''0''"
  by (subst nat_str.simps, simp add: digit_def) code_simp

lemma code_literal: "code (CHR ''0'') = 48" "code (CHR ''-'') = 45"
  by (simp_all add: code_def)

text \<open>A text that a value can be followed by.\<close>

definition stops :: "string \<Rightarrow> bool" where
  "stops r = (r = [] \<or> hd r = CHR '','' \<or> hd r = CHR ''}'')"

lemma stops_num: "stops r \<Longrightarrow> r \<noteq> [] \<Longrightarrow> \<not> is_digit (hd r) \<and> hd r \<notin> set ''.eE''"
  by (auto simp: stops_def is_digit_def code_def)

lemma take_drop_digits:
  assumes "\<forall>c \<in> set ds. is_digit c" "stops r"
  shows "takeWhile is_digit (ds @ r) = ds" "dropWhile is_digit (ds @ r) = r"
proof -
  have r: "takeWhile is_digit r = []" "dropWhile is_digit r = r" using stops_num [OF assms(2)] by (cases r; simp)+
  show "takeWhile is_digit (ds @ r) = ds" "dropWhile is_digit (ds @ r) = r"
    using assms(1) r by (simp_all add: takeWhile_append2 dropWhile_append2)
qed

lemma nat_str_leading: "\<not> (length (nat_str n) > 1 \<and> hd (nat_str n) = CHR ''0'')"
  using nat_str_hd [of n] nat_str_zero by (cases "n = 0") (auto simp: code_literal)

lemma digit_not_minus: "is_digit c \<Longrightarrow> c \<noteq> CHR ''-''"
  by (auto simp: is_digit_def code_literal)

lemma p_num_int:
  assumes "stops r"
  shows "p_num (int_str i @ r) = Some (JNum i, r)"
proof -
  have s: "\<not> (r \<noteq> [] \<and> hd r \<in> set ''.eE'')" using stops_num [OF assms] by blast
  note td = take_drop_digits [OF nat_str_digits assms]
  show ?thesis
  proof (cases "i < 0")
    case True
    then show ?thesis using s nat_str_leading [of "nat (- i)"]
      unfolding p_num_def int_str_def Let_def by (simp add: td digits_val_nat_str)
  next
    case False
    have "hd (nat_str (nat i) @ r) \<noteq> CHR ''-''"
      using digit_not_minus nat_str_digits [of "nat i"] by (simp add: hd_append)
    then show ?thesis using False s nat_str_leading [of "nat i"]
      unfolding p_num_def int_str_def Let_def by (simp add: td digits_val_nat_str)
  qed
qed

section \<open>JSON texts are read back\<close>

definition plain_char :: "char \<Rightarrow> bool" where
  "plain_char c = (c \<noteq> CHR 0x22 \<and> c \<noteq> CHR 0x5C \<and> 32 \<le> code c)"

fun plain :: "jsval \<Rightarrow> bool" where
  "plain JNull = False"
| "plain (JStr s) = list_all plain_char s"
| "plain (JObj ob) = (distinct (map fst ob) \<and> list_all (\<lambda>(k, v). list_all plain_char k \<and> plain v) ob)"
| "plain v = True"

lemma p_string_plain: "list_all plain_char s \<Longrightarrow> p_string (s @ CHR 0x22 # r) = Some (s, r)"
  by (induction s) (auto simp: plain_char_def)

text \<open>How much fuel a value needs.\<close>

fun need :: "jsval \<Rightarrow> nat" and needs :: "jsobj \<Rightarrow> nat" where
  "need (JObj ob) = Suc (needs ob)"
| "need JNull = 1" | "need (JBool b) = 1" | "need (JNum n) = 1" | "need (JStr s) = 1"
| "needs [] = 1"
| "needs ((k, v) # ob) = Suc (max (need v) (needs ob))"

lemma need_pos [simp]: "0 < need v"
  by (cases v) simp_all

lemma skip_ws_head: "\<not> is_ws c \<Longrightarrow> skip_ws (c # s) = c # s"
  by (simp add: skip_ws_def)

lemma ws_literals [simp]: "\<not> is_ws (CHR ''{'')" "\<not> is_ws (CHR ''}'')" "\<not> is_ws (CHR 0x22)" "\<not> is_ws (CHR '','')"
  "\<not> is_ws (CHR '':'')" "\<not> is_ws (CHR ''t'')" "\<not> is_ws (CHR ''f'')" "\<not> is_ws (CHR ''-'')"
  by (simp_all add: is_ws_def)

lemma digit_class: "is_digit c \<Longrightarrow> \<not> is_ws c \<and> c \<notin> {CHR ''{'', CHR 0x22, CHR ''t'', CHR ''f'', CHR ''n''}"
  by (auto simp: is_digit_def is_ws_def code_def)

lemma int_str_head:
  obtains c s where "int_str i = c # s" "\<not> is_ws c" "c \<notin> {CHR ''{'', CHR 0x22, CHR ''t'', CHR ''f'', CHR ''n''}"
proof (cases "i < 0")
  case True
  then show ?thesis using that by (simp add: int_str_def)
next
  case False
  obtain c s where "nat_str (nat i) = c # s" using nat_str_nonempty by (metis neq_Nil_conv)
  moreover from this have "is_digit c" using nat_str_digits [of "nat i"] by simp
  ultimately show ?thesis using False that digit_class by (simp add: int_str_def)
qed

lemma p_val_num: "stops r \<Longrightarrow> p_val (Suc n) (int_str i @ r) = Some (JNum i, r)"
proof -
  assume r: "stops r"
  obtain c s where c: "int_str i = c # s" "\<not> is_ws c" "c \<notin> {CHR ''{'', CHR 0x22, CHR ''t'', CHR ''f'', CHR ''n''}"
    by (rule int_str_head)
  have "p_val (Suc n) ((c # s) @ r) = p_num ((c # s) @ r)"
    using c(2,3) by (auto simp: skip_ws_head)
  then show ?thesis using p_num_int [OF r, of i] unfolding c(1) by (simp only: )
qed

lemma update_new: "k \<notin> fst ` set acc \<Longrightarrow> AList.update k v acc = acc @ [(k, v)]"
  by (induction acc) auto

lemma enc_pairs_Nil: "enc_pairs ob = [] \<longleftrightarrow> ob = []"
  by (cases ob) auto

lemma p_member:
  assumes "list_all plain_char k" "p_val n (enc v @ e # r) = Some (v, e # r)" "\<not> is_ws e"
  shows "p_members (Suc n) (quoted k @ '':'' @ enc v @ e # r) acc =
    (if e = CHR '','' then p_members n r (AList.update k v acc)
     else if e = CHR ''}'' then Some (JObj (AList.update k v acc), r) else None)"
proof -
  have "p_string (k @ CHR 0x22 # CHR '':'' # enc v @ e # r) = Some (k, CHR '':'' # enc v @ e # r)"
    using p_string_plain [OF assms(1)] by simp
  then show ?thesis using assms(2,3) by (simp add: quoted_def skip_ws_head)
qed

lemma json_roundtrip:
  "plain v \<Longrightarrow> need v \<le> n \<Longrightarrow> stops r \<Longrightarrow> p_val n (enc v @ r) = Some (v, r)"
  "plain (JObj ob) \<Longrightarrow> ob \<noteq> [] \<Longrightarrow> needs ob \<le> n \<Longrightarrow> fst ` set acc \<inter> fst ` set ob = {} \<Longrightarrow>
     p_members n (js_join '','' (enc_pairs ob) @ ''}'' @ r) acc = Some (JObj (acc @ ob), r)"
proof (induction v and ob arbitrary: n r and n r acc rule: enc_enc_pairs.induct)
  case (2 b)
  then obtain m where "n = Suc m" by (cases n) auto
  then show ?case by (cases b) (simp_all add: skip_ws_head)
next
  case (3 i)
  then obtain m where "n = Suc m" by (cases n) auto
  then show ?case using p_val_num 3 by simp
next
  case (4 s)
  then obtain m where "n = Suc m" by (cases n) auto
  then show ?case using 4 p_string_plain by (simp add: quoted_def skip_ws_head)
next
  case (5 ob)
  then obtain m where m: "n = Suc m" "needs ob \<le> m" by (cases n) auto
  show ?case
  proof (cases ob)
    case Nil
    then show ?thesis using m by (simp add: skip_ws_head)
  next
    case (Cons kv ob')
    obtain k v where kv: "kv = (k, v)" by (cases kv)
    have q: "\<exists>t. js_join '','' (enc_pairs ob) = CHR 0x22 # t"
      unfolding Cons kv by (cases "enc_pairs ob'") (simp_all add: quoted_def)
    have "p_members m (js_join '','' (enc_pairs ob) @ ''}'' @ r) [] = Some (JObj ob, r)"
      using 5 m Cons by simp
    then show ?thesis using q m by (auto simp: skip_ws_head)
  qed
next
  case (7 k v ob)
  then obtain m where m: "n = Suc m" "need v \<le> m" "needs ob \<le> m" by (cases n) auto
  have k: "list_all plain_char k" "plain v" "plain (JObj ob)" "k \<notin> fst ` set ob" "k \<notin> fst ` set acc"
    using 7 by auto
  have v: "p_val m (enc v @ e # r') = Some (v, e # r')" if "e = CHR '','' \<or> e = CHR ''}''" for e r'
    using 7 k m that by (simp add: stops_def)
  show ?case
  proof (cases ob)
    case Nil
    then show ?thesis using p_member [OF k(1) v [of "CHR ''}''" r]] k(5) m by (simp add: update_new)
  next
    case (Cons x xs)
    then have j: "js_join '','' (enc_pairs ((k, v) # ob)) @ ''}'' @ r
        = quoted k @ '':'' @ enc v @ CHR '','' # js_join '','' (enc_pairs ob) @ ''}'' @ r"
      by (cases x) simp
    have "p_members m (js_join '','' (enc_pairs ob) @ ''}'' @ r) (acc @ [(k, v)]) = Some (JObj ((acc @ [(k, v)]) @ ob), r)"
      using 7 k m Cons by (intro 7) auto
    then show ?thesis unfolding j m(1) using p_member [OF k(1) v [of "CHR '',''"]] k(5) by (simp add: update_new)
  qed
qed simp_all

lemma need_length: "need v \<le> length (enc v)" "ob \<noteq> [] \<Longrightarrow> needs ob \<le> length (js_join '','' (enc_pairs ob))"
proof (induction v and ob rule: enc_enc_pairs.induct)
  case (3 n)
  show ?case by (cases "int_str n") (use int_str_head [of n] in auto)
next
  case (5 ob)
  then show ?case by (cases ob) simp_all
next
  case (7 k v ob)
  then show ?case by (cases ob) (auto simp: quoted_def)
qed (simp_all add: quoted_def)

lemma decode_encode:
  assumes "plain (JObj ob)"
  shows "decodeJSON (encodeJSON ob) = JObj ob"
proof -
  have "need (JObj ob) \<le> Suc (length (enc (JObj ob)))" using need_length(1) [of "JObj ob"] by simp
  from json_roundtrip(1) [OF assms this, of "[]"] show ?thesis
    by (simp add: decodeJSON_def encodeJSON_def stops_def skip_ws_def)
qed

text \<open>What the encoding does not keep: a quote ends the string it is in, and null becomes an empty object.\<close>

lemma encodeJSON_quote_null:
  "decodeJSON (encodeJSON [(''name'', JStr [CHR ''a'', CHR 0x22])]) = JObj []"
  "decodeJSON (encodeJSON [(''name'', JNull)]) = JObj [(''name'', JObj [])]"
  by code_simp+

section \<open>Percent encoding\<close>

lemma hex_round: "n < 16 \<Longrightarrow> hex_val (hex_digit n) = Some n"
  by (simp add: hex_val_def hex_digit_def Let_def)

lemma hex_byte_round: "n < 256 \<Longrightarrow> hex_byte (hex_digit (n div 16)) (hex_digit (n mod 16)) = Some n"
  by (simp add: hex_byte_def hex_round less_mult_imp_div_less)

lemma decode_percent: "n < 128 \<Longrightarrow> decodeURIComponent (percent n @ s) = map_option ((#) (char_of n)) (decodeURIComponent s)"
  using hex_byte_round [of n] by (simp add: percent_def)

lemma unreserved_percent: "unreserved c \<Longrightarrow> c \<noteq> CHR ''%''"
  by (auto simp: unreserved_def is_digit_def is_upper_def is_lower_def code_def)

lemma decode_enc_char: "decodeURIComponent (enc_char c @ s) = map_option ((#) c) (decodeURIComponent s)"
proof (cases "unreserved c \<or> code c < 128")
  case True
  then show ?thesis using unreserved_percent decode_percent [of "code c" s] by (auto simp: enc_char_def)
next
  case False
  define n where "n = code c"
  have n: "128 \<le> n" "n < 256" using False by (simp_all add: n_def)
  have d: "n div 64 = 2 \<or> n div 64 = 3" using n by linarith
  have h: "hex_byte (hex_digit ((192 + n div 64) div 16)) (hex_digit ((192 + n div 64) mod 16)) = Some (192 + n div 64)"
    "hex_byte (hex_digit ((128 + n mod 64) div 16)) (hex_digit ((128 + n mod 64) mod 16)) = Some (128 + n mod 64)"
    using n by (intro hex_byte_round; simp)+
  have m: "64 * (n div 64) + n mod 64 = n" by simp
  have "decodeURIComponent ((percent (192 + n div 64) @ percent (128 + n mod 64)) @ s)
      = map_option ((#) (char_of (64 * (n div 64) + n mod 64))) (decodeURIComponent s)"
    using d by (simp add: percent_def h)
  then show ?thesis using False unfolding enc_char_def n_def [symmetric] m by (simp add: n_def)
qed

lemma decode_encode_uri: "decodeURIComponent (encodeURIComponent s) = Some s"
  by (induction s) (simp_all add: encodeURIComponent_def decode_enc_char)

lemma enc_char_safe: "x \<in> set (enc_char c) \<Longrightarrow> x \<notin> {CHR '';'', CHR ''='', CHR '' '', CHR '',''} \<and> \<not> is_space x"
proof -
  have h: "hex_digit n \<notin> {CHR '';'', CHR ''='', CHR '' '', CHR '',''} \<and> \<not> is_space (hex_digit n)" if "n < 16" for n
    using that by (auto simp: hex_digit_def is_space_def code_def Let_def dest!: arg_cong [of _ _ "of_char :: char \<Rightarrow> nat"])
  have p: "y \<notin> {CHR '';'', CHR ''='', CHR '' '', CHR '',''} \<and> \<not> is_space y" if "y \<in> set (percent n)" "n < 256" for y n
  proof -
    have "n div 16 < 16" "n mod 16 < 16" using that(2) by (simp_all add: less_mult_imp_div_less)
    then show ?thesis using that(1) h [of "n div 16"] h [of "n mod 16"] by (auto simp: percent_def is_space_def Let_def)
  qed
  have u: "x \<notin> {CHR '';'', CHR ''='', CHR '' '', CHR '',''} \<and> \<not> is_space x" if "unreserved x"
    using that by (auto simp: unreserved_def is_digit_def is_upper_def is_lower_def is_space_def code_def Let_def)
  assume x: "x \<in> set (enc_char c)"
  have "code c div 64 < 4" using code_less [of c] by (simp add: less_mult_imp_div_less)
  then have n: "192 + code c div 64 < 256" "128 + code c mod 64 < 256" by simp_all
  from x consider "unreserved x" | "x \<in> set (percent (code c))" | "x \<in> set (percent (192 + code c div 64))"
    | "x \<in> set (percent (128 + code c mod 64))"
    by (auto simp: enc_char_def split: if_splits)
  then show ?thesis by cases (use u p n code_less in blast)+
qed

lemma encode_safe: "x \<in> set (encodeURIComponent s) \<Longrightarrow> x \<notin> {CHR '';'', CHR ''='', CHR '' '', CHR '',''} \<and> \<not> is_space x"
  using enc_char_safe by (auto simp: encodeURIComponent_def)

section \<open>A cookie is found again\<close>

lemma js_trim_id: "\<forall>c \<in> set s. \<not> is_space c \<Longrightarrow> js_trim s = s"
proof -
  assume s: "\<forall>c \<in> set s. \<not> is_space c"
  have d: "dropWhile is_space t = t" if "\<forall>c \<in> set t. \<not> is_space c" for t
    using that by (cases t) simp_all
  show ?thesis using d [OF s] d [of "rev s"] s by (simp add: js_trim_def)
qed

lemma cookie_pair_space [simp]: "cookie_pair (CHR '' '' # c) = cookie_pair c"
  by (simp add: cookie_pair_def js_trim_def is_space_def)

lemma split_cookies:
  "\<forall>p \<in> set ps. CHR '';'' \<notin> set p \<Longrightarrow>
     map cookie_pair (js_split (CHR '';'') (js_join ''; '' (p # ps))) = map cookie_pair (p # ps)" if "CHR '';'' \<notin> set p" for p
proof -
  have one: "js_split (CHR '';'') (js_join ''; '' (p # ps)) = p # map ((#) (CHR '' '')) ps"
    if "CHR '';'' \<notin> set p" "\<forall>q \<in> set ps. CHR '';'' \<notin> set q" for p ps
    using that
  proof (induction ps arbitrary: p)
    case Nil
    then show ?case by (simp add: js_split_single)
  next
    case (Cons q ps)
    have n: "CHR '';'' \<noteq> CHR '' ''" by simp
    have "js_split (CHR '';'') (CHR '' '' # js_join ''; '' (q # ps)) = (CHR '' '' # q) # map ((#) (CHR '' '')) ps"
      using Cons.IH [of q] Cons.prems(2) n by simp
    then show ?case using Cons.prems(1) js_split_append [of "CHR '';''" p] by simp
  qed
  show "\<forall>p \<in> set ps. CHR '';'' \<notin> set p \<Longrightarrow> ?thesis" using one [OF that] by simp
qed

lemma find_cookie_pairs:
  "map cookie_pair cs = map cookie_pair ds \<Longrightarrow> find_cookie name cs = find_cookie name ds"
proof (induction cs arbitrary: ds)
  case (Cons c cs)
  then obtain d ds' where "ds = d # ds'" "cookie_pair c = cookie_pair d" "map cookie_pair cs = map cookie_pair ds'"
    by (cases ds) auto
  then show ?case using Cons.IH [of ds'] by (simp add: Let_def)
qed simp

lemma find_cookie_skip:
  "\<forall>q \<in> set cs. hd (cookie_pair q) \<noteq> name \<Longrightarrow> find_cookie name (cs @ ds) = find_cookie name ds"
  by (induction cs) (simp_all add: Let_def)

definition token :: "string \<Rightarrow> bool" where
  "token s = (s \<noteq> [] \<and> list_all (\<lambda>c. c \<noteq> CHR '';'' \<and> c \<noteq> CHR ''='' \<and> \<not> is_space c) s)"

fun keeps_value :: "expires \<Rightarrow> bool" where
  "keeps_value ExNull = False"
| "keeps_value (ExDays n) = (n > 0)"
| "keeps_value e = True"

lemma cookie_write_pair:
  assumes "token name" "keeps_value (co_expires o')"
  shows "takeWhile (\<lambda>c. c \<noteq> CHR '';'') (cookie_write utc past name val o') = name @ ''='' @ encodeURIComponent val"
proof -
  obtain ps where w: "cookie_write utc past name val o' = (name @ ''='' @ encodeURIComponent val) @ ps"
    and ps: "ps = [] \<or> hd ps = CHR '';''"
    using assms(2) by (cases "co_expires o'") (auto simp: cookie_write_def Let_def)
  have "\<forall>c \<in> set (name @ ''='' @ encodeURIComponent val). c \<noteq> CHR '';''"
    using assms(1) encode_safe by (auto simp: token_def list_all_iff)
  then have "takeWhile (\<lambda>c. c \<noteq> CHR '';'') ((name @ ''='' @ encodeURIComponent val) @ ps)
      = (name @ ''='' @ encodeURIComponent val) @ takeWhile (\<lambda>c. c \<noteq> CHR '';'') ps"
    using takeWhile_append2 [of "name @ ''='' @ encodeURIComponent val" "\<lambda>c. c \<noteq> CHR '';''" ps] by blast
  then show ?thesis unfolding w using ps by (cases ps) simp_all
qed

lemma cookie_pair_written:
  assumes "token name"
  shows "cookie_pair (name @ ''='' @ encodeURIComponent val) = [name, encodeURIComponent val]"
proof -
  let ?v = "encodeURIComponent val"
  have ns: "\<forall>c \<in> set (name @ ''='' @ ?v). \<not> is_space c"
    using assms encode_safe by (auto simp: token_def list_all_iff is_space_def)
  have "js_split (CHR ''='') (name @ CHR ''='' # ?v) = name # js_split (CHR ''='') ?v"
    using assms by (intro js_split_append) (auto simp: token_def list_all_iff)
  moreover have "js_split (CHR ''='') ?v = [?v]" using encode_safe by (intro js_split_single) auto
  ultimately show ?thesis using js_trim_id [OF ns] by (simp add: cookie_pair_def)
qed

lemma cookie_read_written:
  assumes "token name" "keeps_value (co_expires o')"
    and "pair = takeWhile (\<lambda>c. c \<noteq> CHR '';'') (cookie_write utc past name val o')"
    and "\<forall>q \<in> set (before @ after). CHR '';'' \<notin> set q" "\<forall>q \<in> set before. hd (cookie_pair q) \<noteq> name"
  shows "cookie_read name (js_join ''; '' (before @ pair # after)) = Inr (Some val)"
proof -
  let ?v = "encodeURIComponent val"
  have pair: "pair = name @ ''='' @ ?v" using cookie_write_pair [OF assms(1,2)] assms(3) by simp
  have ns: "\<forall>c \<in> set pair. c \<noteq> CHR '';''"
    using assms(1) encode_safe by (auto simp: pair token_def list_all_iff)
  have cp: "cookie_pair pair = [name, ?v]" unfolding pair by (rule cookie_pair_written [OF assms(1)])
  define ps where "ps = before @ pair # after"
  obtain p qs where pq: "ps = p # qs" by (cases ps) (auto simp: ps_def)
  have semi: "\<forall>q \<in> set ps. CHR '';'' \<notin> set q" using assms(4) ns by (auto simp: ps_def)
  have "js_join ''; '' ps \<noteq> []"
  proof (cases before)
    case Nil
    then show ?thesis by (cases after) (simp_all add: ps_def pair)
  next
    case (Cons b bs)
    then show ?thesis by (cases "bs @ pair # after") (simp_all add: ps_def)
  qed
  then have "cookie_read name (js_join ''; '' ps) = find_cookie name (js_split (CHR '';'') (js_join ''; '' ps))"
    by (simp add: cookie_read_def)
  also have "\<dots> = find_cookie name ps"
    unfolding pq by (rule find_cookie_pairs, rule split_cookies) (use semi pq in auto)
  also have "\<dots> = find_cookie name (pair # after)" unfolding ps_def by (rule find_cookie_skip [OF assms(5)])
  also have "\<dots> = Inr (Some val)" by (simp add: cp decode_encode_uri)
  finally show ?thesis unfolding ps_def .
qed

section \<open>What is saved is plain\<close>

lemma plain_update:
  "plain (JObj ob) \<Longrightarrow> list_all plain_char k \<Longrightarrow> plain v \<Longrightarrow> plain (JObj (AList.update k v ob))"
proof -
  assume a: "plain (JObj ob)" "list_all plain_char k" "plain v"
  have "list_all (\<lambda>(k, v). list_all plain_char k \<and> plain v) (AList.update k v ob)"
    if "list_all (\<lambda>(k, v). list_all plain_char k \<and> plain v) ob" for ob
    using that a(2,3) by (induction ob) auto
  then show ?thesis using a(1) by (simp add: distinct_update)
qed

lemma plain_obj_at:
  assumes "plain (JObj ob)"
  shows "plain (JObj (obj_at k ob))"
proof -
  have "plain v" if "map_of ob k = Some v" for v
    using assms map_of_SomeD [OF that] by (auto simp: list_all_iff)
  then show ?thesis by (auto simp: obj_at_def simp del: plain.simps(3) split: option.split jsval.split) simp_all
qed

definition value_keys :: "string list" where
  "value_keys = [''size'', ''isClosed'', ''isHidden'', ''isVisible'', ''isSliding'', ''isResizing'', ''isMoving'', ''noRoom'',
     ''minSize'', ''maxSize'', ''outerWidth'', ''outerHeight'']"

lemma pane_value_plain:
  assumes "pane_value l p k = Some v"
  shows "plain v \<and> k \<in> set value_keys"
proof -
  obtain q where "map_of (state_fields (pn l q)) k = Some v"
    using assms by (auto simp: pane_value_def split: option.splits if_splits)
  then have "(k, v) \<in> set (state_fields (pn l q))" by (rule map_of_SomeD)
  then show ?thesis by (auto simp: state_fields_def value_keys_def)
qed

lemma names_plain: "k \<in> set value_keys \<Longrightarrow> list_all plain_char (alt_key k)" "p \<in> set allPanes \<Longrightarrow> list_all plain_char p"
proof -
  have "list_all (\<lambda>k. list_all plain_char (alt_key k)) value_keys" "list_all (list_all plain_char) allPanes" by code_simp+
  then show "k \<in> set value_keys \<Longrightarrow> list_all plain_char (alt_key k)" "p \<in> set allPanes \<Longrightarrow> list_all plain_char p"
    unfolding list_all_iff by blast+
qed

lemma read_key_plain:
  assumes "plain (JObj data)"
  shows "plain (JObj (read_key (pane_value l) entry data))"
proof -
  let ?pair = "js_split (CHR ''.'') entry"
  let ?key = "if tl ?pair = [] then ''undefined'' else hd (tl ?pair)"
  have "plain (JObj (AList.update (hd ?pair) (JObj (AList.update (alt_key ?key) w (obj_at (hd ?pair) data))) data))"
    if "hd ?pair \<in> set allPanes" "pane_value l (hd ?pair) ?key = Some v" "plain w" for v w
  proof -
    have "?key \<in> set value_keys" using pane_value_plain [OF that(2)] by blast
    then have "list_all plain_char (alt_key ?key)" "list_all plain_char (hd ?pair)"
      using names_plain that(1) by blast+
    then show ?thesis using assms plain_update plain_obj_at that(3) by presburger
  qed
  moreover have "plain (JBool True)" by simp
  ultimately show ?thesis
    using assms pane_value_plain [of l "hd ?pair" ?key] unfolding read_key_def Let_def
    by (cases "hd ?pair \<in> set allPanes"; cases "pane_value l (hd ?pair) ?key") (auto simp del: plain.simps split: jsval.split)
qed

lemma readState_plain: "plain (JObj (readState (pane_value l) keys))"
proof -
  have "plain (JObj (fold (read_key (pane_value l)) es data))" if "plain (JObj data)" for es data
    using that by (induction es arbitrary: data) (simp_all add: read_key_plain del: plain.simps)
  then show ?thesis by (simp add: readState_def)
qed

text \<open>C16. The state that is saved is the state that is read back: after \<open>saveCookie\<close> the browser keeps the
  name and the value of the text assigned to \<open>document.cookie\<close>, among the cookies of others, and
  \<open>readCookie\<close> of that list answers exactly the data that was saved.\<close>

theorem state_cookie_roundtrip:
  assumes "saveCookie utc past name o' keys l = (data, text)"
    and "token name" "keeps_value (co_expires o')"
    and "list_all (\<lambda>q. CHR '';'' \<notin> set q) (before @ after)" "list_all (\<lambda>q. hd (cookie_pair q) \<noteq> name) before"
  shows "readCookie name (js_join ''; '' (before @ takeWhile (\<lambda>c. c \<noteq> CHR '';'') text # after)) = Inr (JObj data)"
proof -
  have d: "data = readState (pane_value l) keys" and t: "text = cookie_write utc past name (encodeJSON data) o'"
    using assms(1) by (auto simp: saveCookie_def Let_def)
  have "cookie_read name (js_join ''; '' (before @ takeWhile (\<lambda>c. c \<noteq> CHR '';'') text # after)) = Inr (Some (encodeJSON data))"
    unfolding t by (rule cookie_read_written [OF assms(2,3) refl]) (use assms(4,5) in \<open>auto simp: list_all_iff\<close>)
  moreover have "decodeJSON (encodeJSON data) = JObj data" unfolding d by (rule decode_encode [OF readState_plain])
  moreover have "encodeJSON data \<noteq> []" by (simp add: encodeJSON_def)
  ultimately show ?thesis by (simp add: readCookie_def)
qed

theorem state_cookie_roundtrip_witness:
  "readCookie ''lay'' (js_join ''; '' ([''id=7''] @ takeWhile (\<lambda>c. c \<noteq> CHR '';'')
       (snd (saveCookie (\<lambda>_. ''later'') ''1970'' ''lay'' \<lparr>co_expires = ExDays 30, co_path = ''/'', co_domain = [], co_secure = False\<rparr>
          ''west.size,east__isClosed'' demo)) # [])) =
     Inr (JObj [(''west'', JObj [(''size'', JNum 100)]), (''east'', JObj [(''initClosed'', JBool False)])])"
proof -
  let ?o = "\<lparr>co_expires = ExDays 30, co_path = ''/'', co_domain = [], co_secure = False\<rparr>"
  let ?s = "saveCookie (\<lambda>_. ''later'') ''1970'' ''lay'' ?o ''west.size,east__isClosed'' demo"
  have d: "fst ?s = [(''west'', JObj [(''size'', JNum 100)]), (''east'', JObj [(''initClosed'', JBool False)])]"
    by code_simp
  have t: "token ''lay''" and k: "keeps_value (co_expires ?o)" and o: "list_all (\<lambda>q. CHR '';'' \<notin> set q) ([''id=7''] @ [])"
    and n: "list_all (\<lambda>q. hd (cookie_pair q) \<noteq> ''lay'') [''id=7'']"
    by code_simp+
  have p: "?s = (fst ?s, snd ?s)" by (rule prod.collapse [symmetric])
  show ?thesis using state_cookie_roundtrip [OF p t k o n] unfolding d .
qed

end
