(* ===== verification/CookieJar.thy ===== *)
theory CookieJar
  imports StateProps
begin

text \<open>
  The cookies a browser keeps for a page, as RFC 6265 and its revision describe them: what an assignment to
  \<open>document.cookie\<close> stores, which cookies the page can read, and in what order.  A cookie is
  identified by its name, its domain, whether it is for its host only, and its path.  This is the
  browser's side, not code of the repository.  The lemmas say what the texts that \<open>$.ui.cookie.write\<close>
  assigns do to it, and what \<open>$.ui.cookie.read\<close> then finds.
\<close>

section \<open>Cookies\<close>

record cookie =
  ck_name :: string
  ck_value :: string
  ck_domain :: string
  ck_hostOnly :: bool
  ck_path :: string
  ck_secure :: bool

text \<open>The page: its host, the path of its address, whether its connection is secure, and which dates are over.\<close>

record site =
  site_host :: string
  site_path :: string
  site_secure :: bool
  date_over :: "string \<Rightarrow> bool"

definition same_cookie :: "cookie \<Rightarrow> cookie \<Rightarrow> bool" where
  "same_cookie c d = (ck_name c = ck_name d \<and> ck_domain c = ck_domain d \<and> ck_hostOnly c = ck_hostOnly d \<and> ck_path c = ck_path d)"

definition default_path :: "string \<Rightarrow> string" where
  "default_path u =
     (let q = rev (tl (dropWhile (\<lambda>c. c \<noteq> CHR ''/'') (rev u)))
      in if \<not> prefix ''/'' u \<or> q = [] then ''/'' else q)"

definition path_matches :: "string \<Rightarrow> string \<Rightarrow> bool" where
  "path_matches p u = (prefix p u \<and> (p = u \<or> last p = CHR ''/'' \<or> hd (drop (length p) u) = CHR ''/''))"

definition domain_matches :: "string \<Rightarrow> string \<Rightarrow> bool" where
  "domain_matches d h = (h = d \<or> suffix (CHR ''.'' # d) h)"

section \<open>An assignment\<close>

text \<open>The text is split at semicolons, the parts at their first equals sign; of an attribute the last counts.\<close>

definition part_name :: "string \<Rightarrow> string" where
  "part_name a = js_trim (takeWhile (\<lambda>c. c \<noteq> CHR ''='') a)"

definition part_value :: "string \<Rightarrow> string" where
  "part_value a = js_trim (tl (dropWhile (\<lambda>c. c \<noteq> CHR ''='') a))"

definition attr_in :: "string \<Rightarrow> string list \<Rightarrow> string option" where
  "attr_in k as = (case filter (\<lambda>a. js_lower (part_name a) = k) as of [] \<Rightarrow> None | a # bs \<Rightarrow> Some (part_value (last (a # bs))))"

definition cookie_domain :: "string \<Rightarrow> string" where
  "cookie_domain d = js_lower (if prefix ''.'' d then tl d else d)"

definition cookie_parts :: "site \<Rightarrow> string \<Rightarrow> string list \<Rightarrow> cookie option" where
  "cookie_parts w pair as =
     (let d = (case attr_in ''domain'' as of Some x \<Rightarrow> cookie_domain x | None \<Rightarrow> []);
          secure = (attr_in ''secure'' as \<noteq> None)
      in if CHR ''='' \<notin> set pair \<or> part_name pair = [] \<or> (d \<noteq> [] \<and> \<not> domain_matches d (site_host w)) \<or> (secure \<and> \<not> site_secure w)
         then None
         else Some \<lparr>ck_name = part_name pair, ck_value = part_value pair,
                    ck_domain = (if d = [] then site_host w else d), ck_hostOnly = (d = []),
                    ck_path = (case attr_in ''path'' as of Some p \<Rightarrow> if prefix ''/'' p then p else default_path (site_path w)
                                                         | None \<Rightarrow> default_path (site_path w)),
                    ck_secure = secure\<rparr>)"

text \<open>A cookie takes the place of the one it is the same as; one whose date is over only removes it.\<close>

definition jar_set :: "site \<Rightarrow> string \<Rightarrow> cookie list \<Rightarrow> cookie list" where
  "jar_set w text jar =
     (let as = tl (js_split (CHR '';'') text)
      in case cookie_parts w (hd (js_split (CHR '';'') text)) as of
           None \<Rightarrow> jar
         | Some c \<Rightarrow>
             if (case attr_in ''expires'' as of Some d \<Rightarrow> date_over w d | None \<Rightarrow> False)
             then filter (\<lambda>d. \<not> same_cookie c d) jar
             else if \<exists>d \<in> set jar. same_cookie c d then map (\<lambda>d. if same_cookie c d then c else d) jar
             else jar @ [c])"

section \<open>What the page reads\<close>

definition visible_to :: "site \<Rightarrow> cookie \<Rightarrow> bool" where
  "visible_to w c =
     ((if ck_hostOnly c then ck_domain c = site_host w else domain_matches (ck_domain c) (site_host w))
      \<and> path_matches (ck_path c) (site_path w) \<and> (ck_secure c \<longrightarrow> site_secure w))"

definition listed :: "cookie \<Rightarrow> string" where
  "listed c = ck_name c @ ''='' @ ck_value c"

text \<open>Longer paths come first.\<close>

definition document_cookie :: "site \<Rightarrow> cookie list \<Rightarrow> string" where
  "document_cookie w jar =
     js_join ''; '' (map listed (sort_key (\<lambda>c. - int (length (ck_path c))) (filter (visible_to w) jar)))"

section \<open>The texts of the cookie utility\<close>

definition written_date :: "(int \<Rightarrow> string) \<Rightarrow> string \<Rightarrow> expires \<Rightarrow> string" where
  "written_date utc past x = (case x of ExNone \<Rightarrow> [] | ExDate d \<Rightarrow> d | ExNull \<Rightarrow> past | ExDays n \<Rightarrow> if n > 0 then utc n else past)"

definition written_attrs :: "string \<Rightarrow> cookie_opts \<Rightarrow> string list" where
  "written_attrs date o' =
     (if date \<noteq> [] then [''expires='' @ date] else []) @ (if co_path o' \<noteq> [] then [''path='' @ co_path o'] else [])
     @ (if co_domain o' \<noteq> [] then [''domain='' @ co_domain o'] else []) @ (if co_secure o' then [''secure''] else [])"

text \<open>Options a browser can take: no separators or spaces in the path and the domain, no separator in the date.\<close>

definition clean_opts :: "string \<Rightarrow> cookie_opts \<Rightarrow> bool" where
  "clean_opts date o' = (CHR '';'' \<notin> set date \<and> list_all (\<lambda>c. c \<noteq> CHR '';'' \<and> \<not> is_space c) (co_path o' @ co_domain o'))"

lemma split_parts:
  "CHR '';'' \<notin> set a \<Longrightarrow> \<forall>p \<in> set as. CHR '';'' \<notin> set p \<Longrightarrow>
    js_split (CHR '';'') (a @ concat (map ((#) (CHR '';'')) as)) = a # as"
proof (induction as arbitrary: a)
  case (Cons b as)
  then show ?case using js_split_append [of "CHR '';''" a "b @ concat (map ((#) (CHR '';'')) as)"] by simp
qed (simp add: js_split_single)

lemma attrs_text:
  "concat (map ((#) (CHR '';'')) (written_attrs date o')) =
     (if date \<noteq> [] then '';expires='' @ date else []) @ (if co_path o' \<noteq> [] then '';path='' @ co_path o' else [])
     @ (if co_domain o' \<noteq> [] then '';domain='' @ co_domain o' else []) @ (if co_secure o' then '';secure'' else [])"
proof -
  have one: "concat (map ((#) c) (if b then [x] else [])) = (if b then c # x else [])" for b and c :: char and x by simp
  show ?thesis unfolding written_attrs_def map_append concat_append one append_Cons ..
qed

lemma written_text:
  "cookie_write utc past name val o' =
     (name @ ''='' @ (if keeps_value (co_expires o') then encodeURIComponent val else []))
     @ concat (map ((#) (CHR '';'')) (written_attrs (written_date utc past (co_expires o')) o'))"
  unfolding attrs_text cookie_write_def written_date_def
  by (cases "co_expires o'") (simp_all only: Let_def prod.case expires.case keeps_value.simps if_True if_False append_assoc split: if_split, simp_all)

lemma written_parts:
  assumes "token name" "clean_opts (written_date utc past (co_expires o')) o'"
  shows "js_split (CHR '';'') (cookie_write utc past name val o') =
    (name @ ''='' @ (if keeps_value (co_expires o') then encodeURIComponent val else []))
      # written_attrs (written_date utc past (co_expires o')) o'"
proof -
  let ?d = "written_date utc past (co_expires o')"
  let ?pair = "name @ ''='' @ (if keeps_value (co_expires o') then encodeURIComponent val else [])"
  have "CHR '';'' \<notin> set name" using assms(1) by (auto simp: token_def list_all_iff)
  moreover have "CHR '';'' \<notin> set (encodeURIComponent val)" using encode_safe by blast
  ultimately have "CHR '';'' \<notin> set ?pair" by simp
  moreover have "list_all (\<lambda>p. CHR '';'' \<notin> set p) (written_attrs ?d o')"
  proof -
    have one: "list_all P (if b then [x] else []) = (b \<longrightarrow> P x)" for P :: "string \<Rightarrow> bool" and b x by simp
    have lits: "CHR '';'' \<notin> set ''expires=''" "CHR '';'' \<notin> set ''path=''" "CHR '';'' \<notin> set ''domain=''" "CHR '';'' \<notin> set ''secure''"
      by simp_all
    have o: "CHR '';'' \<notin> set ?d" "CHR '';'' \<notin> set (co_path o')" "CHR '';'' \<notin> set (co_domain o')"
      using assms(2) by (auto simp: clean_opts_def list_all_iff)
    show ?thesis unfolding written_attrs_def list_all_append one set_append using lits o by blast
  qed
  ultimately show ?thesis unfolding written_text list_all_iff by (rule split_parts)
qed

lemma attr_parts:
  "part_name (''expires='' @ x) = ''expires''" "part_name (''path='' @ x) = ''path''"
  "part_name (''domain='' @ x) = ''domain''" "part_name ''secure'' = ''secure''"
  "part_value (''expires='' @ x) = js_trim x" "part_value (''path='' @ x) = js_trim x" "part_value (''domain='' @ x) = js_trim x"
  by (simp_all add: part_name_def part_value_def js_trim_def is_space_def)

lemma lower_attrs: "js_lower ''expires'' = ''expires''" "js_lower ''path'' = ''path''" "js_lower ''domain'' = ''domain''" "js_lower ''secure'' = ''secure''"
  by code_simp+

lemma written_attr:
  assumes "clean_opts date o'"
  shows "attr_in ''expires'' (written_attrs date o') = (if date = [] then None else Some (js_trim date))"
    "attr_in ''path'' (written_attrs date o') = (if co_path o' = [] then None else Some (co_path o'))"
    "attr_in ''domain'' (written_attrs date o') = (if co_domain o' = [] then None else Some (co_domain o'))"
    "attr_in ''secure'' (written_attrs date o') = None \<longleftrightarrow> \<not> co_secure o'"
proof -
  have t: "js_trim (co_path o') = co_path o'" "js_trim (co_domain o') = co_domain o'"
    using assms by (auto simp: clean_opts_def list_all_iff intro: js_trim_id)
  note s = attr_in_def written_attrs_def attr_parts [simplified] lower_attrs t
  show "attr_in ''expires'' (written_attrs date o') = (if date = [] then None else Some (js_trim date))"
    "attr_in ''path'' (written_attrs date o') = (if co_path o' = [] then None else Some (co_path o'))"
    "attr_in ''domain'' (written_attrs date o') = (if co_domain o' = [] then None else Some (co_domain o'))"
    "attr_in ''secure'' (written_attrs date o') = None \<longleftrightarrow> \<not> co_secure o'"
    by (simp_all add: s)
qed

section \<open>What the utility writes, as the browser keeps it\<close>

definition written_cookie :: "site \<Rightarrow> string \<Rightarrow> string \<Rightarrow> cookie_opts \<Rightarrow> cookie" where
  "written_cookie w name v o' =
     \<lparr>ck_name = name, ck_value = v, ck_domain = (if co_domain o' = [] then site_host w else cookie_domain (co_domain o')),
      ck_hostOnly = (co_domain o' = []), ck_path = (if co_path o' = [] then default_path (site_path w) else co_path o'),
      ck_secure = co_secure o'\<rparr>"

text \<open>The page may set such a cookie and reads it again: its path is the page's or above it, its domain is
  the host's, and it is secure only on a secure page.\<close>

definition fits :: "site \<Rightarrow> cookie_opts \<Rightarrow> bool" where
  "fits w o' =
     (prefix ''/'' (site_path w)
      \<and> (co_path o' = [] \<or> prefix ''/'' (co_path o') \<and> path_matches (co_path o') (site_path w))
      \<and> (co_domain o' = [] \<or> cookie_domain (co_domain o') \<noteq> [] \<and> domain_matches (cookie_domain (co_domain o')) (site_host w))
      \<and> (co_secure o' \<longrightarrow> site_secure w))"

lemma parts_of_pair:
  assumes "token name" "\<forall>c \<in> set v. \<not> is_space c"
  shows "part_name (name @ ''='' @ v) = name" "part_value (name @ ''='' @ v) = v"
proof -
  have n: "\<forall>c \<in> set name. c \<noteq> CHR ''=''" "\<forall>c \<in> set name. \<not> is_space c" using assms(1) by (auto simp: token_def list_all_iff)
  have "takeWhile (\<lambda>c. c \<noteq> CHR ''='') (name @ CHR ''='' # v) = name" using n(1) takeWhile_append2 [of name "\<lambda>c. c \<noteq> CHR ''=''"] by simp
  moreover have "dropWhile (\<lambda>c. c \<noteq> CHR ''='') (name @ CHR ''='' # v) = CHR ''='' # v"
    using n(1) dropWhile_append2 [of name "\<lambda>c. c \<noteq> CHR ''=''"] by simp
  ultimately show "part_name (name @ ''='' @ v) = name" "part_value (name @ ''='' @ v) = v"
    using js_trim_id [OF n(2)] js_trim_id [OF assms(2)] by (simp_all add: part_name_def part_value_def)
qed

lemma parts_of_written:
  assumes "token name" "\<forall>c \<in> set v. \<not> is_space c" "clean_opts date o'" "fits w o'"
  shows "cookie_parts w (name @ ''='' @ v) (written_attrs date o') = Some (written_cookie w name v o')"
proof -
  have n: "name \<noteq> []" using assms(1) by (auto simp: token_def)
  note a = written_attr(2,3) [OF assms(3)]
  have s: "(attr_in ''secure'' (written_attrs date o') \<noteq> None) = co_secure o'" by (simp only: written_attr(4) [OF assms(3)] not_not)
  have d: "(case attr_in ''domain'' (written_attrs date o') of Some x \<Rightarrow> cookie_domain x | None \<Rightarrow> []) =
      (if co_domain o' = [] then [] else cookie_domain (co_domain o'))" by (simp add: a)
  show ?thesis
    unfolding cookie_parts_def Let_def s d parts_of_pair [OF assms(1,2)] a written_cookie_def
    using assms(4) n by (auto simp: fits_def)
qed

lemma jar_set_written:
  fixes val :: string
  assumes "token name" "clean_opts (written_date utc past (co_expires o')) o'" "fits w o'"
  defines "c \<equiv> written_cookie w name (if keeps_value (co_expires o') then encodeURIComponent val else []) o'"
  shows "jar_set w (cookie_write utc past name val o') jar =
    (if written_date utc past (co_expires o') \<noteq> [] \<and> date_over w (js_trim (written_date utc past (co_expires o')))
     then filter (\<lambda>d. \<not> same_cookie c d) jar
     else if \<exists>d \<in> set jar. same_cookie c d then map (\<lambda>d. if same_cookie c d then c else d) jar else jar @ [c])"
proof -
  let ?v = "if keeps_value (co_expires o') then encodeURIComponent val else []"
  have v: "\<forall>c \<in> set ?v. \<not> is_space c" using encode_safe by auto
  show ?thesis
    unfolding jar_set_def Let_def written_parts [OF assms(1,2)] list.sel parts_of_written [OF assms(1) v assms(2,3)] option.case
      written_attr(1) [OF assms(2)] c_def by simp
qed

lemma default_path_matches: "prefix ''/'' u \<Longrightarrow> path_matches (default_path u) u"
proof -
  assume u: "prefix ''/'' u"
  then have "CHR ''/'' \<in> set (rev u)" by (auto simp: prefix_def)
  then obtain a t where at: "rev u = a @ CHR ''/'' # t" "CHR ''/'' \<notin> set a" using split_list_first by metis
  have "dropWhile (\<lambda>c. c \<noteq> CHR ''/'') (rev u) = CHR ''/'' # t"
    unfolding at(1) using at(2) by (subst dropWhile_append2) auto
  then have d: "default_path u = (if rev t = [] then ''/'' else rev t)" using u by (simp add: default_path_def)
  have "u = rev (a @ CHR ''/'' # t)" using at(1) by (metis rev_rev_ident)
  then have e: "u = rev t @ CHR ''/'' # rev a" by simp
  have "path_matches (rev t) u" using e by (simp add: path_matches_def)
  moreover have "path_matches ''/'' u" using u by (simp add: path_matches_def)
  ultimately show ?thesis unfolding d by simp
qed

lemma written_visible: "fits w o' \<Longrightarrow> visible_to w (written_cookie w name v o')"
  using default_path_matches [of "site_path w"] by (auto simp: fits_def visible_to_def written_cookie_def)

section \<open>What the utility reads\<close>

definition jar_ok :: "cookie list \<Rightarrow> bool" where
  "jar_ok jar = (\<forall>c \<in> set jar. token (ck_name c) \<and> CHR '';'' \<notin> set (ck_value c))"

lemma listed_name:
  assumes "token (ck_name c)"
  shows "hd (cookie_pair (listed c)) = ck_name c"
proof -
  let ?n = "ck_name c" and ?v = "ck_value c"
  have n: "?n \<noteq> []" "CHR ''='' \<notin> set ?n" "\<forall>x \<in> set ?n. \<not> is_space x" using assms by (auto simp: token_def list_all_iff)
  have front: "dropWhile is_space (?n @ CHR ''='' # ?v) = ?n @ CHR ''='' # ?v" using n by (cases ?n) auto
  have eq: "\<not> is_space (CHR ''='')" by (simp add: is_space_def)
  have "dropWhile is_space (rev (?n @ CHR ''='' # ?v)) = dropWhile is_space (rev ?v) @ CHR ''='' # rev ?n"
    using eq by (induction "rev ?v") (simp_all add: dropWhile_append)
  then obtain v' where "js_trim (listed c) = ?n @ CHR ''='' # v'" using front by (simp add: js_trim_def listed_def)
  then show ?thesis using js_split_append [OF n(2)] by (simp add: cookie_pair_def)
qed

lemma shown_set: "set (sort_key f (filter (visible_to w) jar)) = {c \<in> set jar. visible_to w c}"
  by auto

lemma listed_semi: "jar_ok jar \<Longrightarrow> c \<in> set jar \<Longrightarrow> CHR '';'' \<notin> set (listed c)"
  by (auto simp: jar_ok_def listed_def token_def list_all_iff)

text \<open>A cookie of the utility is read when it is the only one of its name that the page sees.\<close>

lemma read_own:
  assumes "jar_ok jar" "own \<in> set jar" "visible_to w own" "token name" "listed own = name @ ''='' @ encodeURIComponent val"
    and "\<forall>c \<in> set jar. visible_to w c \<and> ck_name c = name \<longrightarrow> c = own"
  shows "cookie_read name (document_cookie w jar) = Inr (Some val)"
proof -
  let ?f = "\<lambda>c. - int (length (ck_path c))"
  have "own \<in> set (sort_key ?f (filter (visible_to w) jar))" using assms(2,3) by simp
  then obtain before after where ba: "sort_key ?f (filter (visible_to w) jar) = before @ own # after" "own \<notin> set before"
    using split_list_first by metis
  have sub: "set (before @ own # after) = {c \<in> set jar. visible_to w c}" unfolding ba(1) [symmetric] by (rule shown_set)
  then have in_jar: "c \<in> set jar \<and> visible_to w c" if "c \<in> set (before @ after)" for c using that by auto
  define o0 where "o0 = \<lparr>co_expires = ExNone, co_path = [], co_domain = [], co_secure = False\<rparr>"
  have pair: "listed own = takeWhile (\<lambda>c. c \<noteq> CHR '';'') (cookie_write (\<lambda>_. []) [] name val o0)"
    using cookie_write_pair [OF assms(4), of o0 "\<lambda>_. []" "[]" val] assms(5) by (simp add: o0_def)
  have "cookie_read name (js_join ''; '' (map listed before @ listed own # map listed after)) = Inr (Some val)"
  proof (rule cookie_read_written [OF assms(4) _ pair])
    show "keeps_value (co_expires o0)" by (simp add: o0_def)
    show "\<forall>q \<in> set (map listed before @ map listed after). CHR '';'' \<notin> set q"
      using in_jar listed_semi [OF assms(1)] by auto
    show "\<forall>q \<in> set (map listed before). hd (cookie_pair q) \<noteq> name"
    proof
      fix q assume "q \<in> set (map listed before)"
      then obtain c where c: "c \<in> set before" "q = listed c" by auto
      have "c \<in> set jar" "visible_to w c" using in_jar [of c] c(1) by auto
      moreover have "c \<noteq> own" using c(1) ba(2) by blast
      moreover have "hd (cookie_pair q) = ck_name c" using listed_name calculation(1) assms(1) c(2) by (simp add: jar_ok_def)
      ultimately show "hd (cookie_pair q) \<noteq> name" using assms(6) by auto
    qed
  qed
  then show ?thesis by (simp add: document_cookie_def ba(1))
qed

lemma read_none:
  assumes "jar_ok jar" "\<forall>c \<in> set jar. visible_to w c \<longrightarrow> ck_name c \<noteq> name"
  shows "cookie_read name (document_cookie w jar) = Inr None"
proof (cases "document_cookie w jar = []")
  case False
  define ps where "ps = map listed (sort_key (\<lambda>c. - int (length (ck_path c))) (filter (visible_to w) jar))"
  have doc: "document_cookie w jar = js_join ''; '' ps" by (simp add: document_cookie_def ps_def)
  obtain p qs where pq: "ps = p # qs" using False by (cases ps) (auto simp: doc)
  have semi: "\<forall>q \<in> set ps. CHR '';'' \<notin> set q" using listed_semi [OF assms(1)] by (auto simp: ps_def)
  have name: "\<forall>q \<in> set ps. hd (cookie_pair q) \<noteq> name"
    using assms listed_name by (auto simp: ps_def jar_ok_def)
  have "find_cookie name (js_split (CHR '';'') (js_join ''; '' ps)) = find_cookie name ps"
    unfolding pq by (rule find_cookie_pairs, rule split_cookies) (use semi pq in auto)
  also have "\<dots> = Inr None" using find_cookie_skip [OF name, of "[]"] by simp
  finally show ?thesis using False by (simp add: cookie_read_def doc)
qed (simp add: cookie_read_def)

end
