(* ===== verification/LayoutPlugins.thy ===== *)
theory LayoutPlugins
  imports CookieJar
begin

text \<open>
  The plugins of \<open>lib/jquery.layout.js\<close>: the state of the panes is loaded from a cookie when a layout is
  created and saved in it when the page is left, and the zoom of old browsers is watched by a timer.
  A plugin that throws is cut short, and the layout goes on without it.
\<close>

section \<open>State management\<close>

record state_mgmt =
  sm_enabled :: bool
  sm_autoSave :: bool
  sm_autoLoad :: bool
  sm_keys :: string
  sm_cookie :: cookie_opts
  sm_cookieName :: string
  sm_layoutName :: string

definition sm_name :: "state_mgmt \<Rightarrow> string" where
  "sm_name sm = cookie_name (sm_cookieName sm) (sm_layoutName sm)"

text \<open>A cookie is deleted by its name alone: neither the path nor the domain of the options is given.\<close>

definition deleteCookie :: "(int \<Rightarrow> string) \<Rightarrow> string \<Rightarrow> site \<Rightarrow> state_mgmt \<Rightarrow> cookie list \<Rightarrow> cookie list" where
  "deleteCookie utc past w sm jar = jar_set w (cookie_clear utc past (sm_name sm)) jar"

text \<open>The data is kept before it is loaded, so a load that throws leaves it.\<close>

definition loadCookie :: "nat \<Rightarrow> state_mgmt \<Rightarrow> string \<Rightarrow> jsval \<times> layout \<Rightarrow> jsval \<times> layout" where
  "loadCookie n sm doc sl =
     (case readCookie (sm_name sm) doc of
        Inl e \<Rightarrow> sl
      | Inr c \<Rightarrow>
          if truthy c
          then (c, case loadState n c False (snd sl) of Inl e \<Rightarrow> snd sl | Inr l \<Rightarrow> l)
          else sl)"

text \<open>\<open>doc\<close> is what the page reads from \<open>document.cookie\<close>.\<close>

definition state_create :: "nat \<Rightarrow> state_mgmt \<Rightarrow> string \<Rightarrow> layout \<Rightarrow> jsval \<times> layout" where
  "state_create n sm doc l =
     (if \<not> sm_enabled sm then (JObj [], l)
      else if sm_autoLoad sm then loadCookie n sm doc (JObj [], l)
      else (case readCookie (sm_name sm) doc of Inl e \<Rightarrow> JObj [] | Inr c \<Rightarrow> c, l))"

definition state_unload ::
  "(int \<Rightarrow> string) \<Rightarrow> string \<Rightarrow> site \<Rightarrow> state_mgmt \<Rightarrow> layout \<Rightarrow> jsval \<times> cookie list \<Rightarrow> jsval \<times> cookie list" where
  "state_unload utc past w sm l sj =
     (if \<not> sm_enabled sm then sj
      else if sm_autoSave sm
      then (let (data, text) = saveCookie utc past (sm_name sm) (sm_cookie sm) (sm_keys sm) l
            in (JObj data, jar_set w text (snd sj)))
      else (JObj (readState (pane_value l) (sm_keys sm)), snd sj))"

text \<open>The cookie of the state, and a jar in which the page sees no other cookie of its name.\<close>

definition state_cookie :: "site \<Rightarrow> state_mgmt \<Rightarrow> layout \<Rightarrow> cookie" where
  "state_cookie w sm l =
     written_cookie w (sm_name sm) (encodeURIComponent (encodeJSON (readState (pane_value l) (sm_keys sm)))) (sm_cookie sm)"

definition own_name :: "site \<Rightarrow> state_mgmt \<Rightarrow> layout \<Rightarrow> cookie list \<Rightarrow> bool" where
  "own_name w sm l jar =
     (\<forall>c \<in> set jar. visible_to w c \<and> ck_name c = sm_name sm \<longrightarrow> same_cookie (state_cookie w sm l) c)"

text \<open>The state cookie can be kept: its options suit the page, and its date is not over.\<close>

definition cookie_kept :: "(int \<Rightarrow> string) \<Rightarrow> string \<Rightarrow> site \<Rightarrow> state_mgmt \<Rightarrow> bool" where
  "cookie_kept utc past w sm =
     (let o' = sm_cookie sm; date = written_date utc past (co_expires o')
      in token (sm_name sm) \<and> keeps_value (co_expires o') \<and> clean_opts date o' \<and> fits w o'
         \<and> (date = [] \<or> \<not> date_over w (js_trim date)))"

lemma same_cookie_refl: "same_cookie c c"
  by (simp add: same_cookie_def)

lemma saved_jar:
  assumes "cookie_kept utc past w sm" "own_name w sm l jar" "jar_ok jar"
  defines "jar' \<equiv> jar_set w (cookie_write utc past (sm_name sm) (encodeJSON (readState (pane_value l) (sm_keys sm))) (sm_cookie sm)) jar"
  shows "state_cookie w sm l \<in> set jar'" "visible_to w (state_cookie w sm l)" "jar_ok jar'"
    "\<forall>c \<in> set jar'. visible_to w c \<and> ck_name c = sm_name sm \<longrightarrow> c = state_cookie w sm l"
proof -
  let ?own = "state_cookie w sm l"
  have k: "token (sm_name sm)" "keeps_value (co_expires (sm_cookie sm))" "fits w (sm_cookie sm)"
    "clean_opts (written_date utc past (co_expires (sm_cookie sm))) (sm_cookie sm)"
    "\<not> (written_date utc past (co_expires (sm_cookie sm)) \<noteq> [] \<and> date_over w (js_trim (written_date utc past (co_expires (sm_cookie sm)))))"
    using assms(1) by (auto simp: cookie_kept_def Let_def)
  have j: "jar' = (if \<exists>d \<in> set jar. same_cookie ?own d then map (\<lambda>d. if same_cookie ?own d then ?own else d) jar else jar @ [?own])"
    unfolding jar'_def jar_set_written [OF k(1,4,3)] using k(2,5) by (simp only: if_False if_True state_cookie_def [symmetric])
  have own: "ck_name ?own = sm_name sm" "ck_value ?own = encodeURIComponent (encodeJSON (readState (pane_value l) (sm_keys sm)))"
    by (simp_all add: state_cookie_def written_cookie_def)
  show "?own \<in> set jar'" unfolding j by auto
  show "visible_to w ?own" unfolding state_cookie_def by (rule written_visible [OF k(3)])
  have "token (ck_name ?own) \<and> CHR '';'' \<notin> set (ck_value ?own)" using k(1) own encode_safe by auto
  then show "jar_ok jar'" using assms(3) unfolding j jar_ok_def by auto
  show "\<forall>c \<in> set jar'. visible_to w c \<and> ck_name c = sm_name sm \<longrightarrow> c = ?own"
    using assms(2) unfolding j own_name_def by auto
qed

lemma state_create_same:
  "readCookie (sm_name sm) doc = readCookie (sm_name sm) doc' \<Longrightarrow> state_create n sm doc l = state_create n sm doc' l"
  by (simp add: state_create_def loadCookie_def)

text \<open>The cookie that is cleared: the one of that name for this host and the path of this page.\<close>

definition cleared_cookie :: "site \<Rightarrow> state_mgmt \<Rightarrow> cookie" where
  "cleared_cookie w sm = written_cookie w (sm_name sm) [] \<lparr>co_expires = ExDays (-1), co_path = [], co_domain = [], co_secure = False\<rparr>"

definition default_place :: "site \<Rightarrow> cookie_opts \<Rightarrow> bool" where
  "default_place w o' = (co_domain o' = [] \<and> (co_path o' = [] \<or> co_path o' = default_path (site_path w)))"

lemma cleared_same: "same_cookie (cleared_cookie w sm) (state_cookie w sm l) \<longleftrightarrow> default_place w (sm_cookie sm)"
  by (auto simp: same_cookie_def cleared_cookie_def state_cookie_def written_cookie_def default_place_def)

lemma cleared_jar:
  assumes "token (sm_name sm)" "prefix ''/'' (site_path w)" "past \<noteq> []" "CHR '';'' \<notin> set past" "date_over w (js_trim past)"
  shows "deleteCookie utc past w sm jar = filter (\<lambda>d. \<not> same_cookie (cleared_cookie w sm) d) jar"
proof -
  let ?o = "\<lparr>co_expires = ExDays (-1), co_path = [], co_domain = [], co_secure = False\<rparr>"
  have d: "written_date utc past (co_expires ?o) = past" by (simp add: written_date_def)
  have "clean_opts (written_date utc past (co_expires ?o)) ?o" unfolding d using assms(4) by (simp add: clean_opts_def)
  moreover have "fits w ?o" using assms(2) by (simp add: fits_def)
  ultimately have "jar_set w (cookie_write utc past (sm_name sm) [] ?o) jar =
      (if past \<noteq> [] \<and> date_over w (js_trim past) then filter (\<lambda>d. \<not> same_cookie (cleared_cookie w sm) d) jar
       else if \<exists>d \<in> set jar. same_cookie (cleared_cookie w sm) d
       then map (\<lambda>d. if same_cookie (cleared_cookie w sm) d then cleared_cookie w sm else d) jar else jar @ [cleared_cookie w sm])"
    using jar_set_written [OF assms(1), of utc past ?o w "[]" jar] unfolding d by (simp add: cleared_cookie_def)
  then show ?thesis using assms(3,5) by (simp only: deleteCookie_def cookie_clear_def simp_thms if_True)
qed

text \<open>C18. A layout comes back as it was left, and a deletion forgets it only where it was saved by default.
  The state plugin is on, the name of the cookie is a token, its options suit the page and its date is not over, and the page sees no cookie of
  that name set for another path or domain.  When the page is left the state of the panes is saved; the next page
  at the same address that is created with the same options, whatever other cookies there are, holds and
  loads exactly that state.  If the cookie was saved with neither a domain nor a path other than the default one of the
  page, then once it is deleted the next page holds none.  If it was saved with one, as the examples of the script
  do with the path \<open>/\<close>, deleting it does nothing: the next page still loads the whole state.\<close>

theorem state_survives_reload:
  assumes "sm_enabled sm" "sm_autoSave sm" "sm_autoLoad sm"
    and "cookie_kept utc past w sm" "own_name w sm l jar" "jar_ok jar"
    and "state_unload utc past w sm l (s, jar) = (d, jar')"
    and "past \<noteq> []" "CHR '';'' \<notin> set past" "date_over w (js_trim past)"
  shows "d = JObj (readState (pane_value l) (sm_keys sm))
    \<and> state_create n sm (document_cookie w jar') l' = (d, case loadState n d False l' of Inl e \<Rightarrow> l' | Inr m \<Rightarrow> m)
    \<and> (let jar'' = deleteCookie utc past w sm jar'
       in if default_place w (sm_cookie sm) then fst (state_create n sm (document_cookie w jar'') l') = JObj []
          else state_create n sm (document_cookie w jar'') l' = state_create n sm (document_cookie w jar') l')"
proof -
  let ?name = "sm_name sm" and ?own = "state_cookie w sm l" and ?gone = "cleared_cookie w sm"
  define data where "data = readState (pane_value l) (sm_keys sm)"
  have t: "token ?name" "prefix ''/'' (site_path w)" using assms(4) by (auto simp: cookie_kept_def Let_def fits_def)
  have dj: "d = JObj data" "jar' = jar_set w (cookie_write utc past ?name (encodeJSON data) (sm_cookie sm)) jar"
    using assms(1,2,7) by (auto simp: state_unload_def saveCookie_def data_def Let_def)
  note own = saved_jar [OF assms(4-6), folded data_def, folded dj(2)]
  have lst: "listed ?own = ?name @ ''='' @ encodeURIComponent (encodeJSON data)"
    by (simp add: listed_def state_cookie_def written_cookie_def data_def)
  have read: "readCookie ?name (document_cookie w j) = Inr d"
    if "jar_ok j" "?own \<in> set j" "\<forall>c \<in> set j. visible_to w c \<and> ck_name c = ?name \<longrightarrow> c = ?own" for j
  proof -
    have "cookie_read ?name (document_cookie w j) = Inr (Some (encodeJSON data))"
      by (rule read_own [OF that(1,2) own(2) t(1) lst that(3)])
    moreover have "decodeJSON (encodeJSON data) = JObj data" unfolding data_def by (rule decode_encode [OF readState_plain])
    moreover have "encodeJSON data \<noteq> []" by (simp add: encodeJSON_def)
    ultimately show ?thesis by (simp add: readCookie_def dj(1))
  qed
  note r = read [OF own(3,1,4)]
  have c: "state_create n sm (document_cookie w jar') l' = (d, case loadState n d False l' of Inl e \<Rightarrow> l' | Inr m \<Rightarrow> m)"
    using assms(1,3) r by (simp add: state_create_def loadCookie_def dj(1) split: sum.split)
  define jar'' where "jar'' = filter (\<lambda>d. \<not> same_cookie ?gone d) jar'"
  have del: "deleteCookie utc past w sm jar' = jar''" unfolding jar''_def by (rule cleared_jar [OF t assms(8-10)])
  have ok: "jar_ok jar''" using own(3) by (auto simp: jar''_def jar_ok_def)
  have "fst (state_create n sm (document_cookie w jar'') l') = JObj []" if p: "default_place w (sm_cookie sm)"
  proof -
    have "\<not> same_cookie ?gone c \<Longrightarrow> c \<noteq> ?own" for c using p cleared_same by blast
    then have "\<forall>c \<in> set jar''. visible_to w c \<longrightarrow> ck_name c \<noteq> ?name" using own(4) by (auto simp: jar''_def)
    from read_none [OF ok this] show ?thesis
      using assms(1,3) by (simp add: state_create_def loadCookie_def readCookie_def)
  qed
  moreover have "state_create n sm (document_cookie w jar'') l' = state_create n sm (document_cookie w jar') l'"
    if p: "\<not> default_place w (sm_cookie sm)"
  proof -
    have "?own \<in> set jar''" using p own(1) cleared_same by (simp add: jar''_def)
    moreover have "\<forall>c \<in> set jar''. visible_to w c \<and> ck_name c = ?name \<longrightarrow> c = ?own" using own(4) by (auto simp: jar''_def)
    ultimately have "readCookie ?name (document_cookie w jar'') = Inr d" by (rule read [OF ok])
    then show ?thesis using r by (intro state_create_same) (rule trans, assumption, rule sym)
  qed
  ultimately have "if default_place w (sm_cookie sm) then fst (state_create n sm (document_cookie w jar'') l') = JObj []
      else state_create n sm (document_cookie w jar'') l' = state_create n sm (document_cookie w jar') l'" by presburger
  then show ?thesis unfolding del Let_def using c dj(1) [unfolded data_def] by blast
qed

definition demo_sm :: "string \<Rightarrow> state_mgmt" where
  "demo_sm path = \<lparr>sm_enabled = True, sm_autoSave = True, sm_autoLoad = True, sm_keys = ''west.size,west.isClosed'',
     sm_cookie = \<lparr>co_expires = ExDays 30, co_path = path, co_domain = [], co_secure = False\<rparr>,
     sm_cookieName = [], sm_layoutName = ''lay''\<rparr>"

definition demo_site :: site where
  "demo_site = \<lparr>site_host = ''docs'', site_path = ''/api/index.html'', site_secure = False, date_over = (\<lambda>d. d = ''1970'')\<rparr>"

definition demo_jar :: "cookie list" where
  "demo_jar = [\<lparr>ck_name = ''id'', ck_value = ''7'', ck_domain = ''docs'', ck_hostOnly = True, ck_path = ''/'', ck_secure = False\<rparr>]"

lemma demo_cookies:
  "cookie_kept (\<lambda>_. ''later'') ''1970'' demo_site (demo_sm ''/'')" "cookie_kept (\<lambda>_. ''later'') ''1970'' demo_site (demo_sm [])"
  "own_name demo_site (demo_sm ''/'') demo demo_jar" "own_name demo_site (demo_sm []) demo demo_jar" "jar_ok demo_jar"
  "\<not> default_place demo_site (sm_cookie (demo_sm ''/''))"
proof -
  show "cookie_kept (\<lambda>_. ''later'') ''1970'' demo_site (demo_sm ''/'')" "cookie_kept (\<lambda>_. ''later'') ''1970'' demo_site (demo_sm [])"
    by code_simp+
  show "own_name demo_site (demo_sm ''/'') demo demo_jar" "own_name demo_site (demo_sm []) demo demo_jar" "jar_ok demo_jar"
    by (simp_all add: own_name_def demo_jar_def jar_ok_def token_def is_space_def sm_name_def cookie_name_def demo_sm_def)
  show "\<not> default_place demo_site (sm_cookie (demo_sm ''/''))" by code_simp
qed

theorem state_survives_reload_witness:
  "fst (state_create 3 (demo_sm ''/'') (document_cookie demo_site (deleteCookie (\<lambda>_. ''later'') ''1970'' demo_site (demo_sm ''/'')
       (snd (state_unload (\<lambda>_. ''later'') ''1970'' demo_site (demo_sm ''/'') demo (JNull, demo_jar))))) demo)
     = JObj [(''west'', JObj [(''size'', JNum 100), (''initClosed'', JBool False)])]
   \<and> fst (state_create 3 (demo_sm []) (document_cookie demo_site (deleteCookie (\<lambda>_. ''later'') ''1970'' demo_site (demo_sm [])
       (snd (state_unload (\<lambda>_. ''later'') ''1970'' demo_site (demo_sm []) demo (JNull, demo_jar))))) demo) = JObj []"
proof -
  let ?u = "\<lambda>p. state_unload (\<lambda>_. ''later'') ''1970'' demo_site (demo_sm p) demo (JNull, demo_jar)"
  have 1: "readState (pane_value demo) (sm_keys (demo_sm p)) = [(''west'', JObj [(''size'', JNum 100), (''initClosed'', JBool False)])]" for p
    unfolding demo_sm_def state_mgmt.simps by code_simp
  have 2: "?u p = (fst (?u p), snd (?u p))" for p by (rule prod.collapse [symmetric])
  have on: "sm_enabled (demo_sm p)" "sm_autoSave (demo_sm p)" "sm_autoLoad (demo_sm p)" for p by (simp_all add: demo_sm_def)
  have past: "''1970'' \<noteq> []" "CHR '';'' \<notin> set ''1970''" "date_over demo_site (js_trim ''1970'')" by code_simp+
  have 3: "default_place demo_site (sm_cookie (demo_sm []))" by code_simp
  note t = state_survives_reload [OF on demo_cookies(1) demo_cookies(3) demo_cookies(5) 2 past, of 3 demo]
    state_survives_reload [OF on demo_cookies(2) demo_cookies(4) demo_cookies(5) 2 past, of 3 demo]
  show ?thesis using t 3 demo_cookies(6) unfolding 1 Let_def by (simp only: if_True if_False fst_conv)
qed

section \<open>Browser zoom\<close>

text \<open>Only old versions of one browser need the watch; what \<open>parseInt\<close> and \<open>toFixed\<close> make of the two
  resolutions is a rounded percentage.\<close>

record browser =
  msie :: bool
  version :: nat
  deviceXDPI :: nat
  systemXDPI :: nat
  screenWidth :: nat
  clientWidth :: nat

definition zoom_calc :: "nat \<Rightarrow> nat \<Rightarrow> string" where
  "zoom_calc x y = (if y = 0 then (if x = 0 then ''NaN'' else ''Infinity'') else int_str (js_round (of_nat x / of_nat y * 100)))"

definition zoom_ratio :: "browser \<Rightarrow> string option" where
  "zoom_ratio b =
     (if msie b \<and> version b > 8 \<or> \<not> msie b then None
      else if deviceXDPI b \<noteq> 0 then Some (zoom_calc (deviceXDPI b) (systemXDPI b))
      else if screenWidth b \<noteq> 0 \<and> clientWidth b \<noteq> 0 then Some (zoom_calc (screenWidth b) (clientWidth b))
      else None)"

record zoom =
  z_destroyed :: bool
  z_resizeWithWindow :: bool
  z_hasParent :: bool
  z_interval :: nat
  z_last :: "string option option"
  z_timer :: "nat option"
  z_resizes :: nat

definition zoom_setTimer :: "zoom \<Rightarrow> zoom" where
  "zoom_setTimer z = (if z_destroyed z then z else z\<lparr>z_timer := Some (if z_hasParent z then 5000 else max (z_interval z) 100)\<rparr>)"

definition zoom_init :: "browser \<Rightarrow> zoom \<Rightarrow> zoom" where
  "zoom_init b z = (if zoom_ratio b \<noteq> None then zoom_setTimer z else z)"

definition zoom_fires :: "browser \<Rightarrow> zoom \<Rightarrow> zoom" where
  "zoom_fires b z0 =
     (let z = z0\<lparr>z_timer := None\<rparr>
      in if z_destroyed z \<or> \<not> z_resizeWithWindow z then z
         else zoom_setTimer (if z_last z \<noteq> Some (zoom_ratio b)
                then z\<lparr>z_last := Some (zoom_ratio b), z_resizes := Suc (z_resizes z)\<rparr> else z))"

text \<open>The watch never runs faster than ten times a second, resizes only when the zoom has changed, and ends with its layout.\<close>

lemma zoom_watch:
  "z_timer (zoom_fires b z) = Some ms \<Longrightarrow> 100 \<le> ms \<and> \<not> z_destroyed z \<and> z_resizeWithWindow z"
  "z_last z = Some (zoom_ratio b) \<Longrightarrow> z_resizes (zoom_fires b z) = z_resizes z"
  by (auto simp: zoom_fires_def zoom_setTimer_def Let_def split: if_splits)

end
