(* ===== verification/LayoutControls.thy ===== *)
theory LayoutControls
  imports LayoutProps
begin

text \<open>
  What the user of \<open>lib/jquery.layout.js\<close> presses: togglers, custom buttons and pins, hot keys; the
  methods that switch closing, sliding and resizing of a pane on and off; and the overflow of a
  pane, raised for pop-ups.  An element is its classes, its title and its handlers; the elements a
  selector finds are given.
\<close>

section \<open>State\<close>

datatype handler = HToggle pane bool | HOpen pane bool | HClose pane | HPin pane nat

record button =
  b_classes :: "string list"
  b_title :: string
  b_layout :: "string option"
  b_pin :: "bool option"
  b_clicks :: "handler list"

text \<open>The overflow of a pane in both directions; \<open>cssSaved\<close> keeps what was changed.\<close>

record overflow =
  zIndex :: int
  overflowX :: string
  overflowY :: string
  cssSaved :: "(string option \<times> string option \<times> string option) option"

record controls =
  lay :: layout
  t_clicks :: "pane \<Rightarrow> nat"
  t_visible :: "pane \<Rightarrow> bool"
  t_title :: "pane \<Rightarrow> string"
  t_cursor :: "pane \<Rightarrow> string"
  r_title :: "pane \<Rightarrow> string"
  r_cursor :: "pane \<Rightarrow> string"
  r_drag :: "pane \<Rightarrow> bool option"
  btns :: "button list"
  ovf :: "pane \<Rightarrow> overflow"

section \<open>Switching closing, sliding and resizing on and off\<close>

definition set_opts :: "pane \<Rightarrow> (pane_opts \<Rightarrow> pane_opts) \<Rightarrow> layout \<Rightarrow> layout" where
  "set_opts p f l = l\<lparr>op := (op l)(p := f (op l p))\<rparr>"

text \<open>Each call binds one more click handler to the toggler; disabling unbinds all of them.\<close>

definition enableClosable :: "pane \<Rightarrow> controls \<Rightarrow> controls" where
  "enableClosable p c =
     (if \<not> has_toggler (pn (lay c) p) then c
      else (let l = upd p (\<lambda>s. s\<lparr>t_shown := True\<rparr>) (set_opts p (\<lambda>o'. o'\<lparr>closable := True\<rparr>) (lay c)); u = ui (op l p)
            in c\<lparr>lay := l, t_clicks := (t_clicks c)(p := Suc (t_clicks c p)), t_visible := (t_visible c)(p := True),
                 t_cursor := (t_cursor c)(p := ''pointer''),
                 t_title := (t_title c)(p := if isClosed (pn l p) then tipOpen u else tipClose u)\<rparr>))"

definition disableClosable :: "nat \<Rightarrow> pane \<Rightarrow> bool \<Rightarrow> controls \<Rightarrow> controls" where
  "disableClosable n p hide c =
     (if \<not> has_toggler (pn (lay c) p) then c
      else (let l = set_opts p (\<lambda>o'. o'\<lparr>closable := False\<rparr>) (lay c)
            in c\<lparr>lay := (if isClosed (pn l p) then open_pane n p False True False l else l),
                 t_clicks := (t_clicks c)(p := 0), t_visible := (t_visible c)(p := \<not> hide),
                 t_cursor := (t_cursor c)(p := ''default''), t_title := (t_title c)(p := '''')\<rparr>))"

definition removeHover_resizer :: "pane \<Rightarrow> layout \<Rightarrow> layout" where
  "removeHover_resizer p l =
     upd p (\<lambda>s. s\<lparr>ctl := (ctl s)\<lparr>r_hovers :=
       removeClasses (getHoverClasses (resizerClass (ui (op l p))) p (r_closed s) (r_sliding s) True) (r_hovers (ctl s))\<rparr>\<rparr>) l"

definition addHover_resizer :: "pane \<Rightarrow> layout \<Rightarrow> layout" where
  "addHover_resizer p l =
     upd p (\<lambda>s. s\<lparr>ctl := (ctl s)\<lparr>r_hovers :=
       addClasses (getHoverClasses (resizerClass (ui (op l p))) p (r_closed s) (r_sliding s) False) (r_hovers (ctl s))\<rparr>\<rparr>) l"

definition enableSlidable :: "pane \<Rightarrow> controls \<Rightarrow> controls" where
  "enableSlidable p c =
     (if \<not> has_resizer p (lay c) \<or> r_drag c p = None then c
      else (let l = set_opts p (\<lambda>o'. o'\<lparr>slidable := True\<rparr>) (lay c); u = ui (op l p)
            in if isClosed (pn l p)
               then c\<lparr>lay := bindStartSlidingEvent p True l, r_cursor := (r_cursor c)(p := sliderCursor u),
                      r_title := (r_title c)(p := tipSlide u)\<rparr>
               else c\<lparr>lay := l\<rparr>))"

definition disableSlidable :: "nat \<Rightarrow> pane \<Rightarrow> controls \<Rightarrow> controls" where
  "disableSlidable n p c =
     (if \<not> has_resizer p (lay c) then c
      else (let l = set_opts p (\<lambda>o'. o'\<lparr>slidable := False\<rparr>) (lay c)
            in if isSliding (pn l p) then c\<lparr>lay := close_pane n p False True False l\<rparr>
               else c\<lparr>lay := removeHover_resizer p (bindStartSlidingEvent p False l),
                      r_cursor := (r_cursor c)(p := ''default''), r_title := (r_title c)(p := '''')\<rparr>))"

definition enableResizable :: "pane \<Rightarrow> controls \<Rightarrow> controls" where
  "enableResizable p c =
     (if \<not> has_resizer p (lay c) \<or> r_drag c p = None then c
      else (let l = set_opts p (\<lambda>o'. o'\<lparr>resizable := True\<rparr>) (lay c); u = ui (op l p);
                c1 = c\<lparr>lay := l, r_drag := (r_drag c)(p := Some True)\<rparr>
            in if isClosed (pn l p) then c1
               else c1\<lparr>r_cursor := (r_cursor c)(p := resizerCursor u), r_title := (r_title c)(p := tipResize u)\<rparr>))"

definition disableResizable :: "pane \<Rightarrow> controls \<Rightarrow> controls" where
  "disableResizable p c =
     (if \<not> has_resizer p (lay c) \<or> r_drag c p = None then c
      else c\<lparr>lay := removeHover_resizer p (set_opts p (\<lambda>o'. o'\<lparr>resizable := False\<rparr>) (lay c)),
             r_drag := (r_drag c)(p := Some False), r_cursor := (r_cursor c)(p := ''default''),
             r_title := (r_title c)(p := '''')\<rparr>)"

text \<open>A click on a toggler runs its handlers in turn; a double click on a resizer only the first, which stops the event.\<close>

definition toggler_click :: "nat \<Rightarrow> pane \<Rightarrow> controls \<Rightarrow> controls" where
  "toggler_click n p c = c\<lparr>lay := (toggle_pane n p False ^^ t_clicks c p) (lay c)\<rparr>"

definition resizer_dblclick :: "nat \<Rightarrow> pane \<Rightarrow> layout \<Rightarrow> layout" where
  "resizer_dblclick n p l = (if dbl_handlers (ctl (pn l p)) = 0 then l else toggle_pane n p False l)"

section \<open>Custom buttons\<close>

text \<open>A pin is a button too; once it is added, its attribute, title and classes are those in the list of
  its pane, which begin as those of the element, \<open>b_pin\<close> being its attribute \<open>pin\<close>.\<close>

definition get_button :: "string \<Rightarrow> pane \<Rightarrow> string \<Rightarrow> layout \<Rightarrow> button \<Rightarrow> button option" where
  "get_button name p action l b =
     (if p = Center then None
      else (let btn = buttonClass (ui (op l p)) @ ''-'' @ action
            in Some (b\<lparr>b_classes := addClasses [btn, btn @ ''-'' @ pane_name p] (b_classes b), b_layout := Some name\<rparr>)))"

definition on_click :: "handler \<Rightarrow> button \<Rightarrow> button" where
  "on_click h b = b\<lparr>b_clicks := b_clicks b @ [h]\<rparr>"

definition addToggle :: "string \<Rightarrow> pane \<Rightarrow> bool \<Rightarrow> layout \<Rightarrow> button \<Rightarrow> button" where
  "addToggle name p slide l b =
     (case get_button name p ''toggle'' l b of None \<Rightarrow> b | Some b1 \<Rightarrow> on_click (HToggle p slide) b1)"

definition addOpen :: "string \<Rightarrow> pane \<Rightarrow> bool \<Rightarrow> layout \<Rightarrow> button \<Rightarrow> button" where
  "addOpen name p slide l b =
     (case get_button name p ''open'' l b of None \<Rightarrow> b
      | Some b1 \<Rightarrow> on_click (HOpen p slide) (b1\<lparr>b_title := tipOpen (ui (op l p))\<rparr>))"

definition addClose :: "string \<Rightarrow> pane \<Rightarrow> layout \<Rightarrow> button \<Rightarrow> button" where
  "addClose name p l b =
     (case get_button name p ''close'' l b of None \<Rightarrow> b
      | Some b1 \<Rightarrow> on_click (HClose p) (b1\<lparr>b_title := tipClose (ui (op l p))\<rparr>))"

definition addPin :: "string \<Rightarrow> pane \<Rightarrow> layout \<Rightarrow> button \<Rightarrow> button \<times> layout" where
  "addPin name p l b =
     (case get_button name p ''pin'' l b of
        None \<Rightarrow> (b, l)
      | Some b1 \<Rightarrow>
          (let s = pn l p; ps = pins (ctl s);
               pin = setPinState (ui (op l p)) p (\<not> isClosed s \<and> \<not> isSliding s)
                       \<lparr>pin_attr = b_pin b1, pin_title = b_title b1, pin_classes = b_classes b1\<rparr>
           in (on_click (HPin p (length ps)) b1, upd p (\<lambda>s. s\<lparr>ctl := (ctl s)\<lparr>pins := ps @ [pin]\<rparr>\<rparr>) l)))"

definition bind_button :: "string \<Rightarrow> string \<Rightarrow> pane \<Rightarrow> layout \<Rightarrow> button \<Rightarrow> button \<times> layout" where
  "bind_button name action p l b =
     (let a = js_lower action
      in if a = ''toggle'' then (addToggle name p False l b, l)
         else if a = ''open'' then (addOpen name p False l b, l)
         else if a = ''close'' then (addClose name p l b, l)
         else if a = ''pin'' then addPin name p l b
         else if a = ''toggle-slide'' then (addToggle name p True l b, l)
         else if a = ''open-slide'' then (addOpen name p True l b, l)
         else (b, l))"

text \<open>
  \<open>init\<close> binds the elements of the page that carry the class of an action and a pane, unless they
  belong to another layout.  The name an element was bound under counts before its attribute.
\<close>

fun bind_each :: "string \<Rightarrow> string \<Rightarrow> pane \<Rightarrow> layout \<Rightarrow> (string option \<times> button) list \<Rightarrow> (string option \<times> button) list \<times> layout" where
  "bind_each name action p l [] = ([], l)"
| "bind_each name action p l ((attr, b) # bs) =
     (let cls = ''ui-layout-button-'' @ action @ ''-'' @ pane_name p;
          of_layout = (case b_layout b of Some (x # xs) \<Rightarrow> Some (x # xs) | _ \<Rightarrow> attr);
          (b1, l1) = (if cls \<in> set (b_classes b) \<and> (of_layout = None \<or> of_layout = Some name)
                      then bind_button name action p l b else (b, l));
          (bs1, l2) = bind_each name action p l1 bs
      in ((attr, b1) # bs1, l2))"

definition init_buttons :: "string \<Rightarrow> (string option \<times> button) list \<Rightarrow> layout \<Rightarrow> (string option \<times> button) list \<times> layout" where
  "init_buttons name bs l =
     fold (\<lambda>(action, p) (bs, l). bind_each name action p l bs)
       (List.product [''toggle'', ''open'', ''close'', ''pin'', ''toggle-slide'', ''open-slide''] [North, South, West, East]) (bs, l)"

text \<open>A click on a pin sets the pin first, to the state the pane is to get.\<close>

fun press :: "nat \<Rightarrow> handler \<Rightarrow> layout \<Rightarrow> layout" where
  "press n (HToggle p slide) l = toggle_pane n p slide l"
| "press n (HOpen p slide) l = open_pane n p slide False False l"
| "press n (HClose p) l = close_pane n p False False False l"
| "press n (HPin p i) l =
     (let d = (isSliding (pn l p) \<or> isClosed (pn l p));
          l1 = upd p (\<lambda>s. s\<lparr>ctl := (ctl s)\<lparr>pins := (pins (ctl s))[i := setPinState (ui (op l p)) p d (pins (ctl s) ! i)]\<rparr>\<rparr>) l
      in if d then open_pane n p False False False l1 else close_pane n p False False False l1)"

section \<open>Hot keys\<close>

record key_event =
  keyCode :: int
  shiftKey :: bool
  ctrlKey :: bool

definition to_upper :: "char \<Rightarrow> char" where
  "to_upper c = (if is_lower c then char_of ((of_char c :: nat) - 32) else c)"

text \<open>A number up to 9 is taken for a character, and a number has no \<open>toUpperCase\<close>: the handler throws.\<close>

definition key_matches :: "hotkey \<Rightarrow> int \<Rightarrow> bool option" where
  "key_matches k code =
     (case k of
        NoKey \<Rightarrow> Some False
      | KeyChar c \<Rightarrow> Some (code = int (of_char (to_upper c)))
      | KeyCode i \<Rightarrow> if i = 0 then Some False else if i \<le> 9 then None else Some (code = i))"

definition modifier_matches :: "string \<Rightarrow> key_event \<Rightarrow> bool" where
  "modifier_matches m e = (shiftKey e \<and> m = ''SHIFT'' \<or> ctrlKey e \<and> m = ''CTRL'' \<or> ctrlKey e \<and> shiftKey e)"

fun custom_key :: "key_event \<Rightarrow> layout \<Rightarrow> pane list \<Rightarrow> pane option option" where
  "custom_key e l [] = Some None"
| "custom_key e l (p # ps) =
     (if modifier_matches (customHotkeyModifier (ui (op l p))) e
      then (case key_matches (customHotkey (ui (op l p))) (keyCode e) of
              None \<Rightarrow> None | Some True \<Rightarrow> Some (Some p) | Some False \<Rightarrow> custom_key e l ps)
      else custom_key e l ps)"

definition cursor_pane :: "int \<Rightarrow> pane option" where
  "cursor_pane code = map_of [(38, North), (40, South), (37, West), (39, East)] code"

definition hot_pane :: "key_event \<Rightarrow> layout \<Rightarrow> pane option option" where
  "hot_pane e l =
     (case (if ctrlKey e then cursor_pane (keyCode e) else None) of
        Some p \<Rightarrow> if enableCursorHotkey (ui (op l p)) then Some (Some p) else custom_key e l [North, South, West, East]
      | None \<Rightarrow> if ctrlKey e \<or> shiftKey e then custom_key e l [North, South, West, East] else Some None)"

text \<open>The answer says whether the key goes on to the page; none is an exception.\<close>

definition keyDown :: "nat \<Rightarrow> key_event \<Rightarrow> layout \<Rightarrow> bool option \<times> layout" where
  "keyDown n e l =
     (if keyCode e < 33 then (Some True, l)
      else (case hot_pane e l of
              None \<Rightarrow> (None, l)
            | Some None \<Rightarrow> (Some True, l)
            | Some (Some p) \<Rightarrow>
                if \<not> present (pn l p) \<or> \<not> closable (op l p) \<or> isHidden (pn l p) then (Some True, l)
                else (Some False, toggle_pane n p False l)))"

text \<open>The key handler is bound once, when any of the panes has a hot key.\<close>

definition initHotkeys :: "pane list \<Rightarrow> layout \<Rightarrow> bool" where
  "initHotkeys ps l = list_ex (\<lambda>p. enableCursorHotkey (ui (op l p)) \<or> customHotkey (ui (op l p)) \<notin> {NoKey, KeyCode 0}) ps"

section \<open>Overflow\<close>

definition overflow_of :: "overflow \<Rightarrow> string" where
  "overflow_of v = (if overflowX v = overflowY v then overflowX v else overflowX v @ '' '' @ overflowY v)"

text \<open>Setting \<open>overflow\<close> sets both directions, of one word or of two.\<close>

definition set_overflow :: "string option \<times> string option \<times> string option \<Rightarrow> overflow \<Rightarrow> overflow" where
  "set_overflow css v =
     (case css of (o', x, y) \<Rightarrow>
        (let v1 = (case o' of None \<Rightarrow> v
                   | Some s \<Rightarrow> (case js_split CHR '' '' s of a # b # _ \<Rightarrow> v\<lparr>overflowX := a, overflowY := b\<rparr>
                               | _ \<Rightarrow> v\<lparr>overflowX := s, overflowY := s\<rparr>));
             v2 = (case x of None \<Rightarrow> v1 | Some s \<Rightarrow> v1\<lparr>overflowX := s\<rparr>)
         in (case y of None \<Rightarrow> v2 | Some s \<Rightarrow> v2\<lparr>overflowY := s\<rparr>)))"

definition resetOverflow :: "int \<Rightarrow> pane \<Rightarrow> controls \<Rightarrow> controls" where
  "resetOverflow pane_normal p c =
     (let s = pn (lay c) p; v = ovf c p;
          v1 = (if \<not> isSliding s \<and> \<not> isResizing s then v\<lparr>zIndex := pane_normal\<rparr> else v);
          v2 = set_overflow (case cssSaved v of Some css \<Rightarrow> css | None \<Rightarrow> (None, None, None)) v1
      in if \<not> present s then c else c\<lparr>ovf := (ovf c)(p := v2\<lparr>cssSaved := None\<rparr>)\<rparr>)"

text \<open>What is kept to be set again: for the vertical direction the source keeps the horizontal value.\<close>

definition keeps_of :: "overflow \<Rightarrow> string option \<times> string option \<times> string option" where
  "keeps_of v =
     (let fixed = (\<lambda>s. s \<noteq> '''' \<and> \<not> sublist ''visible'' s \<and> \<not> sublist ''auto'' s)
      in (if overflow_of v \<noteq> ''visible'' then Some (overflow_of v) else None,
          if fixed (overflowX v) then Some (overflowX v) else None,
          if fixed (overflowY v) then Some (overflowX v) else None))"

definition allowOverflow :: "int \<Rightarrow> int \<Rightarrow> pane \<Rightarrow> controls \<Rightarrow> controls" where
  "allowOverflow pane_normal resizer_normal p c0 =
     (if \<not> present (pn (lay c0) p) then c0
      else (let c = (if cssSaved (ovf c0 p) \<noteq> None then resetOverflow pane_normal p c0 else c0);
                s = pn (lay c) p; v = ovf c p; css = keeps_of v;
                shown_css = (case css of (o', x, y) \<Rightarrow>
                  (map_option (\<lambda>_. ''visible'') o', map_option (\<lambda>_. ''visible'') x, map_option (\<lambda>_. ''visible'') y))
            in if isSliding s \<or> isResizing s \<or> isClosed s then c\<lparr>ovf := (ovf c)(p := v\<lparr>cssSaved := None\<rparr>)\<rparr>
               else fold (\<lambda>q c. if q \<noteq> p then resetOverflow pane_normal q c else c) [North, South, West, East, Center]
                      (c\<lparr>ovf := (ovf c)(p := (set_overflow shown_css v)\<lparr>zIndex := resizer_normal + 1, cssSaved := Some css\<rparr>)\<rparr>)))"

section \<open>Pins\<close>

text \<open>The pins of a pane change with its state and with a click on one of them only.\<close>

named_theorems ctl_same \<open>operations that leave the pins of every pane alone\<close>

lemma ctl_upd [ctl_same]: "(\<And>s. ctl (f s) = ctl s) \<Longrightarrow> ctl (pn (upd p f l) q) = ctl (pn l q)"
  by simp

lemma ctl_fire [ctl_same]: "ctl (pn (fire e p l) q) = ctl (pn l q)"
  by (simp add: fire_def runCallbacks_def)

lemma ctl_runCallbacks [ctl_same]: "ctl (pn (snd (runCallbacks e p l)) q) = ctl (pn l q)"
  by (simp add: runCallbacks_def)

lemma ctl_bindStart [ctl_same]: "ctl (pn (bindStartSlidingEvent p b l) q) = ctl (pn l q)"
  by (simp add: bindStartSlidingEvent_def)

lemma ctl_enqueue [ctl_same]: "ctl (pn (enqueue j l) q) = ctl (pn l q)"
  by (simp add: enqueue_def)

lemma ctl_setSizeLimits [ctl_same]: "ctl (pn (setSizeLimits p b l) q) = ctl (pn l q)"
  by (simp add: setSizeLimits_def Let_def)

lemma ctl_sizeHandle: "ctl (pn (sizeHandle p l) q) = ctl (pn l q)"
  by (simp add: sizeHandle_def Let_def split: prod.split)

lemma ctl_fold: "(\<And>x (l :: layout). ctl (pn (f x l) q) = ctl (pn l q)) \<Longrightarrow> ctl (pn (fold f xs l) q) = ctl (pn l q)"
  by (induction xs arbitrary: l) simp_all

lemma ctl_sizeHandles [ctl_same]: "ctl (pn (sizeHandles ps l) q) = ctl (pn (l :: layout) q)"
  unfolding sizeHandles_def by (rule ctl_fold) (rule ctl_sizeHandle)

lemma ctl_elDims [simp]: "ctl (elDims s) = ctl s" "ctl (midPane_dims p s) = ctl s" "ctl (midPane_css p d s) = ctl s"
  by (simp_all add: elDims_def midPane_dims_def midPane_css_def)

lemma ctl_show_pane [ctl_same]: "ctl (pn (show_pane enqueue p a b c l) q) = ctl (pn l q)"
  by (simp add: show_pane_def runCallbacks_def enqueue_def Let_def split: cbret.split)

lemma ctl_fit_height [ctl_same]: "ctl (pn (fit_height p l) q) = ctl (pn l q)"
  by (simp add: fit_height_def Let_def)

lemma ctl_makePaneFit:
  assumes "\<And>p l. ctl (pn (hide p l) q) = ctl (pn l q)"
  shows "ctl (pn (makePaneFit enqueue hide p k f l) q) = ctl (pn l q)"
  unfolding makePaneFit_def Let_def by (simp add: ctl_same assms)

lemma ctl_sizeMidPane: "ctl (pn (sizeMidPane enqueue k f p l) q) = ctl (pn l q)"
  unfolding sizeMidPane_def Let_def by (simp add: ctl_same ctl_makePaneFit)

lemma ctl_sizeMidPanes [ctl_same]: "ctl (pn (sizeMidPanes enqueue ps k f l) q) = ctl (pn l q)"
  unfolding sizeMidPanes_def by (rule ctl_fold) (rule ctl_sizeMidPane)

lemma ctl_hide_pane [ctl_same]: "ctl (pn (hide_pane enqueue n p l) q) = ctl (pn l q)"
  by (cases "initialized l") (simp_all add: hide_pane_def Let_def ctl_same hidePane_now_def runCallbacks_def)

lemma ctl_refit [ctl_same]: "ctl (pn (refit_opposite enqueue p k l) q) = ctl (pn l q)"
  by (simp add: refit_opposite_def fit_pane_def ctl_makePaneFit ctl_same)

lemma ctl_close_2 [ctl_same]: "ctl (pn (close_2 enqueue p k a b l) q) = ctl (pn l q)"
  unfolding close_2_def Let_def by (simp add: ctl_same)

lemma pins_setAsClosed: "pins (ctl (pn (setAsClosed p l) p)) = map (setPinState (ui (op l p)) p False) (pins (ctl (pn l p)))"
  unfolding setAsClosed_def Let_def by (simp add: ctl_same)

lemma pins_setAsOpen:
  "pins (ctl (pn (setAsOpen p k l) p)) = map (setPinState (ui (op l p)) p (\<not> isSliding (pn l p))) (pins (ctl (pn l p)))"
  unfolding setAsOpen_def Let_def by (simp add: ctl_same)

text \<open>Closing, animated or not, lifts the pins.\<close>

lemma run_close_pins:
  assumes "run_close enqueue p f n k l = (r, l')" "\<not> isClosed (pn l p)" "isClosed (pn l' p)"
  shows "list_all (\<lambda>b. pin_attr b = Some False) (pins (ctl (pn l' p)))"
proof -
  have up: "list_all (\<lambda>b. pin_attr b = Some False) (pins (ctl (pn m p)))" if "ctl (pn m p) = ctl (pn (setAsClosed p x) p)" for m x
    using that by (simp add: pins_setAsClosed list_all_iff)
  show ?thesis
    using assms unfolding run_close_def Let_def
    by (auto split: if_splits prod.splits simp: runCallbacks_def intro!: up simp: ctl_same hidePane_now_def)
qed

text \<open>Opening lowers them, unless the pane slides.\<close>

lemma run_open_pins:
  assumes "layout_ok l" "p \<noteq> Center" "run_open enqueue p slide True a l = (Done, l')" "\<not> isVisible (pn l p)" "isVisible (pn l' p)"
  shows "list_all (\<lambda>b. pin_attr b = Some (\<not> slide)) (pins (ctl (pn l' p)))"
proof -
  obtain m where m: "isSliding (pn m p) = slide" "l' = open_2 enqueue p m"
    using run_open_shape [OF assms] by (metis (full_types))
  define x where "x = upd p (\<lambda>s. s\<lparr>isMoving := False\<rparr>) m"
  define y where "y = (if \<not> isSliding (pn x p)
      then sizeMidPanes enqueue (if dir_of_pane p = Vert then [Center] else []) False False x else x)"
  have "body (pn y p) = body (pn x p)"
    unfolding y_def using assms(2) by (cases p) (simp_all add: body_sizeMidPanes)
  from body_fields(11) [OF this] have "isSliding (pn y p) = slide" using m(1) by (simp add: x_def)
  moreover have "l' = setAsOpen p False y" by (simp add: m(2) open_2_def Let_def x_def y_def)
  ultimately show ?thesis by (simp add: pins_setAsOpen list_all_iff)
qed

text \<open>C36. Pins follow their pane.  A close lifts all pins of its pane, and an open that does not animate
  lowers them, or lifts them when the pane slides over the others.\<close>

theorem pins_follow_pane:
  assumes "layout_ok l" "p \<noteq> Center"
    and "run_close enqueue p f n k l = (r, l1)" "\<not> isClosed (pn l p)" "isClosed (pn l1 p)"
    and "run_open enqueue p slide True a l2 = (Done, l3)" "layout_ok l2" "\<not> isVisible (pn l2 p)" "isVisible (pn l3 p)"
  shows "list_all (\<lambda>b. pin_attr b = Some False) (pins (ctl (pn l1 p)))
    \<and> list_all (\<lambda>b. pin_attr b = Some (\<not> slide)) (pins (ctl (pn l3 p)))"
  using run_close_pins [OF assms(3-5)] run_open_pins [OF assms(7,2,6,8,9)] by blast

section \<open>Steps\<close>

fun handler_pane :: "handler \<Rightarrow> pane" where
  "handler_pane (HToggle p _) = p"
| "handler_pane (HOpen p _) = p"
| "handler_pane (HClose p) = p"
| "handler_pane (HPin p _) = p"

text \<open>Besides the actions: presses of buttons, hot keys, switches, and new pins.\<close>

inductive control_step :: "layout \<Rightarrow> layout \<Rightarrow> bool" where
  cs_layout: "layout_step l l' \<Longrightarrow> control_step l l'"
| cs_press: "initialized l \<Longrightarrow> handler_pane h \<noteq> Center \<Longrightarrow> control_step l (press n h l)"
| cs_pin: "b_pin b = None \<Longrightarrow> control_step l (snd (addPin name p l b))"
| cs_key: "initialized l \<Longrightarrow> control_step l (snd (keyDown n e l))"
| cs_closable: "control_step (lay c) (lay (enableClosable p c))"
| cs_notClosable: "initialized (lay c) \<Longrightarrow> p \<noteq> Center \<Longrightarrow> control_step (lay c) (lay (disableClosable n p h c))"
| cs_slidable: "control_step (lay c) (lay (enableSlidable p c))"
| cs_notSlidable: "initialized (lay c) \<Longrightarrow> p \<noteq> Center \<Longrightarrow> control_step (lay c) (lay (disableSlidable n p c))"
| cs_resizable: "control_step (lay c) (lay (enableResizable p c))"
| cs_notResizable: "control_step (lay c) (lay (disableResizable p c))"
| cs_hover: "control_step l (addHover_resizer p l)"

lemma toggle_pane_ok: "layout_ok l \<Longrightarrow> p \<noteq> Center \<Longrightarrow> layout_ok (toggle_pane n p s l)"
  by (simp add: toggle_pane_def ran.show_pane_ok open_pane_ok close_pane_ok)

lemma set_opts_ok: "(\<And>o'. ui (f o') = ui o') \<Longrightarrow> layout_ok l \<Longrightarrow> layout_ok (set_opts p f l)"
  by (simp add: set_opts_def layout_ok_def)

lemma upd_pins_ok:
  assumes "layout_ok l" "\<And>s. flags_ok (f s) = flags_ok s \<and> isClosed (f s) = isClosed s"
    and "list_all (pin_ok (ui (op l p)) p) (pins (ctl (f (pn l p))))"
  shows "layout_ok (upd p f l)"
  using assms by (auto simp: layout_ok_def)

lemma ok_pins: "layout_ok l \<Longrightarrow> list_all (pin_ok (ui (op l p)) p) (pins (ctl (pn l p)))"
  by (simp add: layout_ok_def)

lemma press_pin_ok:
  assumes "layout_ok l"
  shows "layout_ok (upd p (\<lambda>s. s\<lparr>ctl := (ctl s)\<lparr>pins := (pins (ctl s))[i := setPinState (ui (op l p)) p d (pins (ctl s) ! i)]\<rparr>\<rparr>) l)"
proof (rule upd_pins_ok [OF assms])
  have "pin_ok (ui (op l p)) p b" if "b \<in> set (pins (ctl (pn l p)))" for b
    using ok_pins [OF assms] that by (simp add: list_all_iff)
  moreover have "set (xs[i := y]) \<subseteq> set xs \<union> (if i < length xs then {y} else {})" for xs and y :: pin_btn
    using set_update_subset_insert [of xs i y] by (auto simp: list_update_beyond)
  ultimately show "list_all (pin_ok (ui (op l p)) p) (pins (ctl ((pn l p)\<lparr>ctl := (ctl (pn l p))\<lparr>pins :=
      (pins (ctl (pn l p)))[i := setPinState (ui (op l p)) p d (pins (ctl (pn l p)) ! i)]\<rparr>\<rparr>)))"
    by (fastforce simp: list_all_iff setPinState_ok split: if_splits)
qed (simp_all add: flags_ok_def)

lemma addPin_ok: "b_pin b = None \<Longrightarrow> layout_ok l \<Longrightarrow> layout_ok (snd (addPin name p l b))"
proof -
  assume b: "b_pin b = None" and ok: "layout_ok l"
  have "pin_ok u p (setPinState u p d \<lparr>pin_attr = None, pin_title = t, pin_classes = cs\<rparr>)" for u d t cs
    by (rule setPinState_ok) (simp add: pin_ok_def)
  then show ?thesis using b ok ok_pins [OF ok, of p]
    by (auto simp: addPin_def get_button_def Let_def flags_ok_def intro!: upd_pins_ok)
qed

lemma removeHover_ok: "layout_ok l \<Longrightarrow> layout_ok (removeHover_resizer p l)"
  unfolding removeHover_resizer_def by (rule upd_pins_ok) (simp_all add: flags_ok_def ok_pins)

lemma custom_key_in: "custom_key e l ps = Some (Some p) \<Longrightarrow> p \<in> set ps"
  by (induction ps) (auto split: if_splits option.splits bool.splits)

lemma hot_pane_border: "hot_pane e l = Some (Some p) \<Longrightarrow> p \<noteq> Center"
  using custom_key_in [of e l "[North, South, West, East]" p]
  by (auto simp: hot_pane_def cursor_pane_def split: option.splits if_splits)

lemma control_step_ok: "control_step l l' \<Longrightarrow> layout_ok l \<Longrightarrow> layout_ok l'"
proof (induction rule: control_step.induct)
  case (cs_press l h n)
  then show ?case
    by (cases h) (simp_all add: toggle_pane_ok open_pane_ok close_pane_ok press_pin_ok Let_def del: upd_simps)
next
  case (cs_key l n e)
  then show ?case using cs_key by (auto simp: keyDown_def toggle_pane_ok hot_pane_border split: option.splits)
next
  case (cs_hover l p)
  then show ?case unfolding addHover_resizer_def by (intro upd_pins_ok) (simp_all add: flags_ok_def ok_pins)
qed (auto simp: layout_step_ok addPin_ok enableClosable_def disableClosable_def enableSlidable_def disableSlidable_def
    enableResizable_def disableResizable_def Let_def set_opts_ok open_pane_ok close_pane_ok removeHover_ok
    ok_same [OF flg_bindStart] upd_same_ok)

inductive control_steps :: "layout \<Rightarrow> layout \<Rightarrow> bool" where
  cs_refl: "control_steps l l"
| cs_more: "control_steps l m \<Longrightarrow> control_step m r \<Longrightarrow> control_steps l r"

lemma control_steps_ok: "control_steps l l' \<Longrightarrow> layout_ok l \<Longrightarrow> layout_ok l'"
  by (induction rule: control_steps.induct) (simp_all add: control_step_ok)

text \<open>C32. Whatever is pressed, switched, opened and closed, and whatever pins are added on elements without a
  pin attribute of their own, a pin button says one thing: its title and its classes are those of the
  state its attribute names.\<close>

theorem pins_say_one_thing:
  assumes "control_steps l l'" "layout_ok l" "b \<in> set (pins (ctl (pn l' p)))" "pin_attr b = Some d"
  shows "pin_title b = (if d then tipUnpin (ui (op l' p)) else tipPin (ui (op l' p)))
    \<and> set (pin_state_classes (ui (op l' p)) p d) \<subseteq> set (pin_classes b)
    \<and> set (pin_state_classes (ui (op l' p)) p (\<not> d)) \<inter> set (pin_classes b) = {}"
proof -
  have "pin_ok (ui (op l' p)) p b"
    using ok_pins [OF control_steps_ok [OF assms(1,2)], of p] assms(3) by (simp add: list_all_iff)
  then show ?thesis using assms(4) by (simp add: pin_ok_def)
qed

section \<open>Presses\<close>

lemma run_queue_empty [simp]: "queue l = [] \<Longrightarrow> run_queue n l = l"
  by (cases n) auto

text \<open>A pin that is refused lies.  A click on the pin of an open pane lifts the pin before it asks the pane
  to close; when the callback refuses, the pane stays open and its pin stays up.\<close>

theorem refused_pin_lies:
  assumes "initialized l" "queue l = []" "\<not> busy l" "i < length (pins (ctl (pn l p)))"
    and "present (pn l p)" "closable (op l p)" "\<not> isClosed (pn l p)" "\<not> isSliding (pn l p)" "\<not> isShowing (pn l p)"
    and "cb l ''onclose_start'' p = CbFalse"
  shows "\<not> isClosed (pn (press (Suc n) (HPin p i) l) p) \<and> \<not> isSliding (pn (press (Suc n) (HPin p i) l) p)
    \<and> pin_attr (pins (ctl (pn (press (Suc n) (HPin p i) l) p)) ! i) = Some False"
  using assms by (simp add: close_pane_def submit_def enqueue_def run_close_def Let_def runCallbacks_def)

text \<open>A key reaches at most one pane, one that exists, may be closed and is not hidden, and is kept from
  the page only then; keys below 33 and keys without control or shift change nothing.\<close>

theorem hot_key_toggles_one:
  assumes "keyDown n e l = (r, l')"
  shows "if r = Some False
         then \<exists>p. p \<noteq> Center \<and> present (pn l p) \<and> closable (op l p) \<and> \<not> isHidden (pn l p) \<and> l' = toggle_pane n p False l
           \<and> 33 \<le> keyCode e \<and> (ctrlKey e \<or> shiftKey e)
         else l' = l"
proof -
  have "ctrlKey e \<or> shiftKey e" if "hot_pane e l = Some (Some p)" for p
    using that by (auto simp: hot_pane_def split: if_splits)
  then show ?thesis using assms hot_pane_border
    by (auto simp: keyDown_def not_less split: if_splits option.splits)
qed

text \<open>A pane that may not be closed should be open, so disabling its closing opens it; but a pane that
  cannot be resized either is then refused by the open, and stays closed with no toggler to open it.\<close>

theorem unclosable_stays_closed:
  assumes "has_toggler (pn (lay c) p)" "isClosed (pn (lay c) p)" "\<not> resizable (op (lay c) p)" "\<not> isShowing (pn (lay c) p)"
    and "queue (lay c) = []" "\<not> busy (lay c)"
  shows "isClosed (pn (lay (disableClosable (Suc n) p hide c)) p) \<and> t_clicks (disableClosable (Suc n) p hide c) p = 0
    \<and> \<not> closable (op (lay (disableClosable (Suc n) p hide c)) p)"
  using assms by (simp add: disableClosable_def set_opts_def Let_def open_pane_def submit_def enqueue_def run_open_def)

text \<open>Raising the overflow of an open pane and resetting it loses the vertical value: the pane ends with
  its horizontal value in both directions.\<close>

theorem overflow_reset_copies:
  assumes "present (pn (lay c) p)" "\<not> isSliding (pn (lay c) p)" "\<not> isResizing (pn (lay c) p)" "\<not> isClosed (pn (lay c) p)"
    and "cssSaved (ovf c p) = None" "overflowX (ovf c p) = x" "overflowY (ovf c p) = y"
    and "x \<in> {''hidden'', ''scroll''}" "y \<in> {''hidden'', ''scroll''}"
  shows "overflowX (ovf (resetOverflow a p (allowOverflow a b p c)) p) = x
    \<and> overflowY (ovf (resetOverflow a p (allowOverflow a b p c)) p) = x
    \<and> overflowX (ovf (allowOverflow a b p c) p) = ''visible'' \<and> overflowY (ovf (allowOverflow a b p c) p) = ''visible''"
proof -
  have other: "lay (fold (\<lambda>q c. if q \<noteq> p then resetOverflow a q c else c) qs d) = lay d
      \<and> ovf (fold (\<lambda>q c. if q \<noteq> p then resetOverflow a q c else c) qs d) p = ovf d p" for qs d
    by (induction qs arbitrary: d) (auto simp: resetOverflow_def Let_def)
  have k: "keeps_of (ovf c p) = (Some (if x = y then x else x @ '' '' @ y), Some x, Some x)"
    using assms(6-9) by (auto simp: keeps_of_def overflow_of_def sublist_code Let_def)
  have v: "ovf (allowOverflow a b p c) p = (set_overflow (Some ''visible'', Some ''visible'', Some ''visible'') (ovf c p))
      \<lparr>zIndex := b + 1, cssSaved := Some (keeps_of (ovf c p))\<rparr>" "lay (allowOverflow a b p c) = lay c"
    using assms(1-5) k other unfolding allowOverflow_def by (simp_all add: Let_def del: fold.simps fold_simps)
  show ?thesis
    using assms(1-4) v k by (simp add: resetOverflow_def set_overflow_def Let_def split: list.splits)
qed

section \<open>Witnesses\<close>

definition demo_button :: button where
  "demo_button = \<lparr>b_classes = [''btn''], b_title = '''', b_layout = None, b_pin = None, b_clicks = []\<rparr>"

text \<open>The west pane with a pin, open and pinned, and closed.\<close>

definition demo_pin :: "bool \<Rightarrow> pin_btn" where
  "demo_pin d = \<lparr>pin_attr = Some d, pin_title = (if d then ''Un-Pin'' else ''Pin''), pin_classes = pin_state_classes demo_ui West d\<rparr>"

definition demo_pinned :: layout where
  "demo_pinned = upd West (\<lambda>s. s\<lparr>ctl := no_ctl\<lparr>pins := [demo_pin True]\<rparr>\<rparr>) demo"

definition demo_pinned_closed :: layout where
  "demo_pinned_closed = upd West (\<lambda>s. s\<lparr>ctl := no_ctl\<lparr>pins := [demo_pin False]\<rparr>\<rparr>) demo_closed"

definition demo_controls :: "layout \<Rightarrow> controls" where
  "demo_controls l = \<lparr>lay = l, t_clicks = (\<lambda>_. 1), t_visible = (\<lambda>_. True), t_title = (\<lambda>_. ''''), t_cursor = (\<lambda>_. ''pointer''),
     r_title = (\<lambda>_. ''''), r_cursor = (\<lambda>_. ''default''), r_drag = (\<lambda>_. Some True), btns = [],
     ovf = (\<lambda>_. \<lparr>zIndex = 0, overflowX = ''hidden'', overflowY = ''scroll'', cssSaved = None\<rparr>)\<rparr>"

lemma demo_pin_ok: "pin_ok demo_ui West (demo_pin d)"
  using pin_states_differ [of demo_ui West d] by (auto simp: pin_ok_def demo_pin_def demo_ui_def)

lemma demo_pinned_ok: "layout_ok demo_pinned" "layout_ok demo_pinned_closed"
  unfolding demo_pinned_def demo_pinned_closed_def
  by (intro upd_pins_ok demo_ok, simp_all add: flags_ok_def demo_def demo_opts_def demo_pin_ok)
     (intro upd_pins_ok demo_closed_ok, simp_all add: flags_ok_def demo_closed_def demo_opts_def demo_pin_ok)

lemmas demo_simps = demo_controls_def demo_pinned_def demo_pinned_closed_def demo_closed_def demo_def demo_pane_def demo_opts_def no_ctl_def

theorem pins_follow_pane_witness:
  "\<exists>l1 l3. run_close enqueue West False True False demo_pinned = (Done, l1)
    \<and> run_open enqueue West True True False demo_pinned_closed = (Done, l3)
    \<and> list_all (\<lambda>b. pin_attr b = Some False) (pins (ctl (pn l1 West))) \<and> map pin_attr (pins (ctl (pn l3 West))) = [Some False]"
proof -
  obtain l1 where c: "run_close enqueue West False True False demo_pinned = (Done, l1)"
    "shares l1 = shares (upd West (\<lambda>s. s\<lparr>isClosed := True\<rparr>) demo_pinned)"
    by (rule run_close_plain [OF demo_pinned_ok(1), of West]) (simp_all add: demo_simps)
  have d: "isClosed (pn l1 West)" using shares_reads(1) [OF c(2), of West] by (simp add: share_def)
  obtain r l3 where o: "run_open enqueue West True True False demo_pinned_closed = (r, l3)" by fastforce
  have "(\<lambda>(r, l1). r = Done \<and> isVisible (pn l1 West) \<and> length (pins (ctl (pn l1 West))) = 1)
      (run_open enqueue West True True False demo_pinned_closed)"
    by code_simp
  then have e: "r = Done" "isVisible (pn l3 West)" "length (pins (ctl (pn l3 West))) = 1"
    unfolding o by simp_all
  have "\<not> isClosed (pn demo_pinned West)" "\<not> isVisible (pn demo_pinned_closed West)" by (simp_all add: demo_simps)
  note t = pins_follow_pane [OF demo_pinned_ok(1) _ c(1) this(1) d o [unfolded e(1)] demo_pinned_ok(2) this(2) e(2)]
  show ?thesis using t c(1) o e by (auto simp: length_Suc_conv)
qed

theorem pins_say_one_thing_witness:
  "map pin_title (pins (ctl (pn (snd (addPin ''main'' West demo demo_button)) West))) = [''Un-Pin'']"
proof -
  have "control_steps demo (snd (addPin ''main'' West demo demo_button))" by (intro cs_more [OF cs_refl] cs_pin) (simp add: demo_button_def)
  note t = pins_say_one_thing [OF this demo_ok]
  have "map pin_attr (pins (ctl (pn (snd (addPin ''main'' West demo demo_button)) West))) = [Some True]"
    "tipUnpin (ui (op (snd (addPin ''main'' West demo demo_button)) West)) = ''Un-Pin''"
    by code_simp+
  then obtain z where z: "pins (ctl (pn (snd (addPin ''main'' West demo demo_button)) West)) = [z]" "pin_attr z = Some True"
    "tipUnpin (ui (op (snd (addPin ''main'' West demo demo_button)) West)) = ''Un-Pin''"
    by (auto simp: map_eq_Cons_conv)
  then have "pin_title z = ''Un-Pin''" using t [of z West True] by simp
  then show ?thesis using z by simp
qed

theorem refused_pin_lies_witness:
  "\<not> isClosed (pn (press 1 (HPin West 0) (demo_pinned\<lparr>cb := \<lambda>_ _. CbFalse\<rparr>)) West)
    \<and> pin_attr (pins (ctl (pn (press 1 (HPin West 0) (demo_pinned\<lparr>cb := \<lambda>_ _. CbFalse\<rparr>)) West)) ! 0) = Some False"
proof -
  let ?l = "demo_pinned\<lparr>cb := \<lambda>_ _. CbFalse\<rparr>"
  have "initialized ?l" "queue ?l = []" "\<not> busy ?l" "0 < length (pins (ctl (pn ?l West)))" "present (pn ?l West)"
    "closable (op ?l West)" "\<not> isClosed (pn ?l West)" "\<not> isSliding (pn ?l West)" "\<not> isShowing (pn ?l West)"
    "cb ?l ''onclose_start'' West = CbFalse"
    by (simp_all add: demo_simps upd_def)
  from refused_pin_lies [OF this, of 0] show ?thesis by simp
qed

theorem hot_key_toggles_one_witness:
  "snd (keyDown 3 \<lparr>keyCode = 37, shiftKey = False, ctrlKey = True\<rparr> demo) = toggle_pane 3 West False demo"
proof -
  let ?e = "\<lparr>keyCode = 37, shiftKey = False, ctrlKey = True\<rparr>"
  have h: "hot_pane ?e demo = Some (Some West)" by code_simp
  then have "fst (keyDown 3 ?e demo) = Some False" by (simp add: keyDown_def demo_simps)
  then obtain l' where k: "keyDown 3 ?e demo = (Some False, l')" by (metis prod.collapse)
  then obtain p where "l' = toggle_pane 3 p False demo" "closable (op demo p)" using hot_key_toggles_one [OF k] by auto
  then show ?thesis using k h by (auto simp: keyDown_def split: if_splits)
qed

theorem unclosable_stays_closed_witness:
  "isClosed (pn (lay (disableClosable 1 West False (demo_controls (demo_closed\<lparr>op := \<lambda>_. demo_opts\<lparr>resizable := False\<rparr>\<rparr>)))) West)"
proof -
  let ?c = "demo_controls (demo_closed\<lparr>op := \<lambda>_. demo_opts\<lparr>resizable := False\<rparr>\<rparr>)"
  have "has_toggler (pn (lay ?c) West)" "isClosed (pn (lay ?c) West)" "\<not> resizable (op (lay ?c) West)"
    "\<not> isShowing (pn (lay ?c) West)" "queue (lay ?c) = []" "\<not> busy (lay ?c)"
    by (simp_all add: demo_simps)
  from unclosable_stays_closed [OF this, of 0] show ?thesis by simp
qed

theorem overflow_reset_copies_witness:
  "overflowY (ovf (resetOverflow 0 West (allowOverflow 0 2 West (demo_controls demo))) West) = ''hidden''"
proof -
  let ?c = "demo_controls demo"
  have "present (pn (lay ?c) West)" "\<not> isSliding (pn (lay ?c) West)" "\<not> isResizing (pn (lay ?c) West)"
    "\<not> isClosed (pn (lay ?c) West)" "cssSaved (ovf ?c West) = None" "overflowX (ovf ?c West) = ''hidden''"
    "overflowY (ovf ?c West) = ''scroll''"
    by (simp_all add: demo_simps)
  from overflow_reset_copies [OF this, of 0 2] show ?thesis by simp
qed

end
