(* ===== verification/LayoutDrag.thy ===== *)
theory LayoutDrag
  imports LayoutProps "HOL-Library.AList"
begin

text \<open>
  Dragging the resizer of a pane of \<open>lib/jquery.layout.js\<close>, with the masks that cover the panes
  meanwhile, and the timers: the one that gives text selection back and those of the window.  The
  position of the dragged resizer is what jQuery UI reports; the limits are those of the start of
  the drag, since every later update of the limits makes a new object.
\<close>

section \<open>Masks\<close>

record mask_opts =
  maskContents :: bool
  maskObjects :: bool
  maskZindex :: int
  liveResizingTolerance :: int
  paneIsIframe :: bool
  offsetTop :: int
  offsetLeft :: int

record zIndexes =
  pane_normal :: int
  content_mask :: int
  pane_sliding :: int

text \<open>A mask inside its pane fills it; one over an iframe pane has a box of its own.\<close>

record mask =
  m_pane :: pane
  m_isIframe :: bool
  m_inside :: bool
  m_z :: int
  m_box :: "(int \<times> int \<times> int \<times> int) option"
  m_shown :: bool

record dragging =
  dl :: layout
  mo :: "pane \<Rightarrow> mask_opts"
  zs :: zIndexes
  masks :: "mask list"
  d_min :: int
  d_max :: int
  d_pos :: int
  lastPos :: int
  live :: bool
  at_limit :: int
  drag_class :: bool
  selectable :: bool

definition sizeMask :: "dragging \<Rightarrow> mask \<Rightarrow> mask" where
  "sizeMask d m =
     (let s = pn (dl d) (m_pane m); o' = mo d (m_pane m)
      in if paneIsIframe o' \<and> isVisible s
         then m\<lparr>m_box := Some (offsetTop o', offsetLeft o', s_outerWidth s, s_outerHeight s)\<rparr> else m)"

definition sizeMasks :: "dragging \<Rightarrow> dragging" where
  "sizeMasks d = d\<lparr>masks := map (sizeMask d) (masks d)\<rparr>"

definition new_mask :: "dragging \<Rightarrow> pane \<Rightarrow> bool \<Rightarrow> mask" where
  "new_mask d p isIframe =
     (let o' = mo d p
      in if paneIsIframe o'
         then \<lparr>m_pane = p, m_isIframe = isIframe, m_inside = False, m_z = pane_normal (zs d) + 1, m_box = None, m_shown = True\<rparr>
         else \<lparr>m_pane = p, m_isIframe = isIframe, m_inside = True,
                m_z = (if maskZindex o' = 0 then content_mask (zs d) else maskZindex o'), m_box = None, m_shown = True\<rparr>)"

definition createMasks :: "pane \<Rightarrow> dragging \<Rightarrow> dragging" where
  "createMasks p d =
     (let o' = mo d p
      in if \<not> maskContents o' \<and> \<not> maskObjects o' then d
         else d\<lparr>masks := masks d @ map (new_mask d p) (if maskObjects o' then [True, False] else [False])\<rparr>)"

definition getMasks :: "pane \<Rightarrow> dragging \<Rightarrow> dragging" where
  "getMasks p d = (if list_ex (\<lambda>m. m_pane m = p) (masks d) then d else createMasks p d)"

definition showMasks_of :: "bool \<Rightarrow> pane \<Rightarrow> dragging \<Rightarrow> dragging" where
  "showMasks_of onlyForObjects p d =
     (let s = pn (dl d) p; o' = mo d p
      in if isVisible s \<and> (\<not> onlyForObjects \<and> maskContents o' \<or> maskObjects o')
         then (let d1 = getMasks p d; z = (if isSliding s then pane_sliding (zs d) + 1 else pane_normal (zs d) + 1)
               in d1\<lparr>masks := map (\<lambda>m. if m_pane m = p then (sizeMask d1 m)\<lparr>m_z := z, m_shown := True\<rparr> else m) (masks d1)\<rparr>)
         else d)"

definition showMasks :: "pane list \<Rightarrow> bool \<Rightarrow> dragging \<Rightarrow> dragging" where
  "showMasks ps onlyForObjects d = fold (showMasks_of onlyForObjects) ps d"

definition hideMasks :: "dragging \<Rightarrow> dragging" where
  "hideMasks d =
     (if list_ex (\<lambda>p. isResizing (pn (dl d) p)) [North, South, West, East] then d
      else d\<lparr>masks := map (\<lambda>m. m\<lparr>m_shown := False\<rparr>) (masks d)\<rparr>)"

section \<open>Dragging\<close>

definition drag_masks :: "pane \<Rightarrow> pane list" where
  "drag_masks p = [p, Center, oppositeEdge p] @ (if dir_of_pane p = Horz then [West, East] else [])"

text \<open>The size a position stands for; \<open>offsetHeight\<close> and \<open>offsetWidth\<close> of the container include its padding.\<close>

definition offsetHeight :: "container \<Rightarrow> int" where
  "offsetHeight c = innerHeight c + insetTop c + insetBottom c"

definition offsetWidth :: "container \<Rightarrow> int" where
  "offsetWidth c = innerWidth c + insetLeft c + insetRight c"

definition size_at :: "layout \<Rightarrow> pane \<Rightarrow> int \<Rightarrow> int" where
  "size_at l p pos =
     (case p of
        North \<Rightarrow> pos
      | West \<Rightarrow> pos
      | South \<Rightarrow> offsetHeight (sC l) - pos - spacing_open (op l p)
      | East \<Rightarrow> offsetWidth (sC l) - pos - spacing_open (op l p)
      | Center \<Rightarrow> pos) - inset (sC l) p"

definition resizePanes :: "nat \<Rightarrow> pane \<Rightarrow> bool \<Rightarrow> dragging \<Rightarrow> dragging" where
  "resizePanes n p resizingDone d =
     (let newSize = size_at (dl d) p (d_pos d)
      in if \<not> resizingDone
         then (if \<bar>newSize - p_size (pn (dl d) p)\<bar> < liveResizingTolerance (mo d p) then d
               else sizeMasks (d\<lparr>dl := manualSizePane n p (Num (of_int newSize)) False True (dl d)\<rparr>))
         else (let (r, l1) = runCallbacks ''ondrag_end'' p (dl d);
                   d1 = d\<lparr>dl := (if r \<noteq> CbFalse then manualSizePane n p (Num (of_int newSize)) False True l1 else l1)\<rparr>;
                   d2 = hideMasks d1
               in if isSliding (pn (dl d2) p) then showMasks (drag_masks p) True d2 else d2))"

text \<open>The start answers whether the drag goes on.\<close>

definition drag_start :: "pane \<Rightarrow> int \<Rightarrow> dragging \<Rightarrow> bool \<times> dragging" where
  "drag_start p pos d =
     (case runCallbacks ''ondrag_start'' p (dl d) of
        (CbFalse, l1) \<Rightarrow> (False, d\<lparr>dl := l1, live := livePaneResizing (op (dl d) p)\<rparr>)
      | (_, l1) \<Rightarrow>
          (let l2 = setSizeLimits p None (upd p (\<lambda>s. s\<lparr>isResizing := True, close_timer := False\<rparr>) l1)
           in (True, showMasks (drag_masks p) False
                (d\<lparr>dl := l2, live := livePaneResizing (op (dl d) p), d_min := r_min (pn l2 p), d_max := r_max (pn l2 p),
                   d_pos := pos, lastPos := pos, drag_class := True, selectable := False\<rparr>))))"

definition drag_move :: "nat \<Rightarrow> pane \<Rightarrow> int \<Rightarrow> dragging \<Rightarrow> dragging" where
  "drag_move n p pos d =
     (let (pos', lim) = (if pos < d_min d then (d_min d, -1) else if pos > d_max d then (d_max d, 1) else (pos, 0));
          d1 = d\<lparr>d_pos := pos', at_limit := lim\<rparr>
      in if live d1 \<and> \<bar>pos' - lastPos d1\<bar> \<ge> liveResizingTolerance (mo d1 p)
         then resizePanes n p False (d1\<lparr>lastPos := pos'\<rparr>) else d1)"

definition drag_stop :: "nat \<Rightarrow> pane \<Rightarrow> dragging \<Rightarrow> dragging" where
  "drag_stop n p d =
     resizePanes n p True (d\<lparr>dl := upd p (\<lambda>s. s\<lparr>isResizing := False\<rparr>) (dl d), drag_class := False, selectable := True, at_limit := 0\<rparr>)"

section \<open>Timers\<close>

text \<open>
  \<open>timer\<close>: the name of a timer maps to the last one that was set under it, which may have fired since;
  \<open>running\<close> are those that have not.
\<close>

record timers =
  timer_data :: "(string \<times> nat) list"
  running :: "(nat \<times> string) list"
  next_id :: nat

definition timer_clear :: "string \<Rightarrow> timers \<Rightarrow> timers" where
  "timer_clear s t =
     (case map_of (timer_data t) s of
        None \<Rightarrow> t
      | Some i \<Rightarrow> t\<lparr>running := filter (\<lambda>(j, _). j \<noteq> i) (running t), timer_data := AList.delete s (timer_data t)\<rparr>)"

definition timer_set :: "string \<Rightarrow> timers \<Rightarrow> timers" where
  "timer_set s t0 =
     (let t = timer_clear s t0; i = next_id t
      in t\<lparr>timer_data := AList.update s i (timer_data t), running := running t @ [(i, s)], next_id := Suc i\<rparr>)"

record page_timers =
  tm :: timers
  pl :: layout
  selection :: bool
  maxDelay :: int
  resizeWithWindow :: bool

definition leave_name :: "pane \<Rightarrow> string" where
  "leave_name p = pane_name p @ ''ResizerLeave''"

definition onResizerEnter :: "page_timers \<Rightarrow> page_timers" where
  "onResizerEnter w = w\<lparr>selection := False\<rparr>"

definition onResizerLeave :: "pane \<Rightarrow> page_timers \<Rightarrow> page_timers" where
  "onResizerLeave p w =
     w\<lparr>pl := upd p (\<lambda>s. s\<lparr>open_timer := False\<rparr>) (pl w), tm := timer_set (leave_name p) (timer_clear (leave_name p) (tm w))\<rparr>"

definition left_resizer :: "pane \<Rightarrow> page_timers \<Rightarrow> page_timers" where
  "left_resizer p w =
     (let l = upd p (\<lambda>s. s\<lparr>open_timer := False\<rparr>) (pl w)
      in w\<lparr>pl := l, tm := timer_clear (leave_name p) (tm w), selection := (if isResizing (pn l p) then selection w else True)\<rparr>)"

definition setWindowResizeRepeater :: "page_timers \<Rightarrow> page_timers" where
  "setWindowResizeRepeater w = (if maxDelay w > 0 then w\<lparr>tm := timer_set ''winResizeRepeater'' (tm w)\<rparr> else w)"

definition windowResize :: "page_timers \<Rightarrow> page_timers" where
  "windowResize w =
     (let w1 = w\<lparr>tm := timer_set ''winResize'' (timer_clear ''winResize'' (tm w))\<rparr>
      in if map_of (timer_data (tm w1)) ''winResizeRepeater'' = None then setWindowResizeRepeater w1 else w1)"

text \<open>What a timer does when it fires; \<open>all\<close> is \<open>resizeAll\<close> on what the browser measures, \<open>c\<close> the container it measures now.\<close>

definition window_resized :: "(layout \<Rightarrow> layout) \<Rightarrow> container \<Rightarrow> page_timers \<Rightarrow> page_timers" where
  "window_resized all c w =
     w\<lparr>tm := timer_clear ''winResizeRepeater'' (timer_clear ''winResize'' (tm w)),
       pl := (if innerWidth c \<noteq> innerWidth (sC (pl w)) \<or> innerHeight c \<noteq> innerHeight (sC (pl w)) then all (pl w) else pl w)\<rparr>"

definition window_repeats :: "(layout \<Rightarrow> layout) \<Rightarrow> page_timers \<Rightarrow> page_timers" where
  "window_repeats all w = (setWindowResizeRepeater w)\<lparr>pl := all (pl w)\<rparr>"

definition fire_timer :: "nat \<Rightarrow> (layout \<Rightarrow> layout) \<Rightarrow> container \<Rightarrow> page_timers \<Rightarrow> page_timers" where
  "fire_timer i all c w =
     (case map_of (running (tm w)) i of
        None \<Rightarrow> w
      | Some s \<Rightarrow>
          (let w1 = w\<lparr>tm := (tm w)\<lparr>running := filter (\<lambda>(j, _). j \<noteq> i) (running (tm w))\<rparr>\<rparr>
           in if s = ''winResize'' then window_resized all c w1
              else if s = ''winResizeRepeater'' then window_repeats all w1
              else fold (\<lambda>p w. if s = leave_name p then left_resizer p w else w) [North, South, West, East] w1))"

end
