(* ===== verification/LayoutKept.thy ===== *)
theory LayoutKept
  imports LayoutProps
begin

text \<open>
  No action, timer or change of the container of \<open>lib/jquery.layout.js\<close> makes or removes a pane, or
  touches the mark \<open>isResizing\<close> that a drag sets.  Shown once for any receiver of the jobs of an
  action (the locale \<open>keep_sink\<close>).
\<close>

section \<open>What no action touches\<close>

text \<open>The mark of a drag, and whether there is such a pane.\<close>

definition kept :: "'a geom_scheme \<Rightarrow> pane \<Rightarrow> bool \<times> bool" where
  "kept l q = (isResizing (pn l q), present (pn l q))"

named_theorems kept_same \<open>operations that leave these two alone\<close>

lemma kept_upd [kept_same]: "(\<And>s. isResizing (f s) = isResizing s \<and> present (f s) = present s) \<Longrightarrow> kept (upd p f l) = kept l"
  by (simp add: kept_def fun_eq_iff upd_def)

lemma kept_anim [simp]: "kept (l\<lparr>anim := a\<rparr>) = kept l" "kept (l\<lparr>busy := b\<rparr>) = kept l" "kept (l\<lparr>queue := js\<rparr>) = kept l"
  "kept (l\<lparr>op := f\<rparr>) = kept l" "kept (l\<lparr>sC := c\<rparr>) = kept l" "kept (l\<lparr>events := es\<rparr>) = kept l"
  by (simp_all add: kept_def fun_eq_iff)

lemma kept_fields [simp]:
  "isResizing (elDims s) = isResizing s" "isResizing (midPane_dims p s) = isResizing s"
  "isResizing (midPane_css p d s) = isResizing s" "isResizing (set_css p v s) = isResizing s"
  "present (elDims s) = present s" "present (midPane_dims p s) = present s"
  "present (midPane_css p d s) = present s" "present (set_css p v s) = present s"
  by (simp_all add: elDims_def midPane_dims_def midPane_css_def set_css_def)

lemma kept_fold: "(\<And>x l. kept (f x l) = kept l) \<Longrightarrow> kept (fold f xs l) = kept l"
  by (induction xs arbitrary: l) simp_all

lemma kept_fire [kept_same]: "kept (fire e p l) = kept l"
  by (simp add: fire_def runCallbacks_def)

lemma kept_runCallbacks [kept_same]: "kept (snd (runCallbacks e p l)) = kept l"
  by (simp add: runCallbacks_def)

lemma kept_bind [kept_same]: "kept (bindStartSlidingEvent p b l) = kept l" "kept (bindStopSlidingEvents p b l) = kept l"
  by (simp_all add: bindStartSlidingEvent_def bindStopSlidingEvents_def Let_def kept_same)

lemma kept_setSizeLimits [kept_same]: "kept (setSizeLimits p b l) = kept l"
  by (simp add: setSizeLimits_def Let_def kept_same)

lemma kept_sizeHandle: "kept (sizeHandle p l) = kept l"
  by (simp add: sizeHandle_def Let_def kept_same split: prod.split)

lemma kept_sizeHandles [kept_same]: "kept (sizeHandles ps l) = kept l"
  unfolding sizeHandles_def by (rule kept_fold) (rule kept_sizeHandle)

lemma kept_now [kept_same]: "kept (hidePane_now p l) = kept l" "kept (showPane_now p l) = kept l" "kept (fit_height p l) = kept l"
  by (simp_all add: hidePane_now_def showPane_now_def fit_height_def Let_def kept_same)

lemma kept_setAs [kept_same]: "kept (setAsClosed p l) = kept l" "kept (setAsOpen p k l) = kept l"
  unfolding setAsClosed_def setAsOpen_def Let_def by (simp_all add: kept_same)

text \<open>Rules that walk through the steps of an action.\<close>

lemma kept_let:
  "kept t = r \<Longrightarrow> (\<And>x. kept x = r \<Longrightarrow> kept (snd (f x)) = r) \<Longrightarrow> kept (snd (let x = t in f x)) = r" for t :: layout
  by simp

lemma kept_let_pair:
  "kept (snd t) = r \<Longrightarrow> (\<And>a x. kept x = r \<Longrightarrow> kept (snd (f a x)) = r) \<Longrightarrow> kept (snd (let (a, x) = t in f a x)) = r" for t :: "cbret \<times> layout"
  by (simp add: split_def)

lemma kept_let_other:
  fixes t :: pane_state and u :: bool
  shows "(\<And>x. kept (snd (f x)) = r) \<Longrightarrow> kept (snd (let x = t in f x)) = r"
    and "(\<And>x. kept (snd (g x)) = r) \<Longrightarrow> kept (snd (let x = u in g x)) = r"
  by simp_all

lemma kept_if:
  "kept (snd x) = r \<Longrightarrow> kept (snd y) = r \<Longrightarrow> kept (snd (if b then x else y)) = r"
  "kept v = r \<Longrightarrow> kept w = r \<Longrightarrow> kept (if b then v else w) = r"
  by simp_all

lemma kept_pair: "kept x = r \<Longrightarrow> kept (snd (a, x)) = r"
  by simp

lemmas kept_walk = kept_let kept_let_pair kept_let_other kept_if kept_pair

locale keep_sink =
  fixes sub :: "job \<Rightarrow> layout \<Rightarrow> layout"
  assumes kept_sub [kept_same]: "kept (sub j l) = kept l"
begin

lemma kept_show_pane [kept_same]: "kept (show_pane sub p a b c l) = kept l"
  by (simp add: show_pane_def runCallbacks_def Let_def kept_same split: cbret.split)

lemma kept_makePaneFit:
  assumes "\<And>p l. kept (hide p l) = kept l"
  shows "kept (makePaneFit sub hide p k f l) = kept l"
  unfolding makePaneFit_def Let_def by (simp add: kept_same assms)

lemma kept_sizeMidPane: "kept (sizeMidPane sub k f p l) = kept l"
  unfolding sizeMidPane_def Let_def by (simp add: kept_same kept_makePaneFit)

lemma kept_sizeMidPanes [kept_same]: "kept (sizeMidPanes sub ps k f l) = kept l"
  unfolding sizeMidPanes_def by (rule kept_fold) (rule kept_sizeMidPane)

lemma kept_hide_pane [kept_same]: "kept (hide_pane sub n p l) = kept l"
  by (cases "initialized l") (simp_all add: hide_pane_def Let_def kept_same runCallbacks_def)

lemma kept_fit_pane [kept_same]: "kept (fit_pane sub p k f l) = kept l"
  by (simp add: fit_pane_def kept_makePaneFit kept_hide_pane)

lemma kept_refit [kept_same]: "kept (refit_opposite sub p k l) = kept l"
  by (simp add: refit_opposite_def kept_same)

lemma kept_close_2 [kept_same]: "kept (close_2 sub p k a b l) = kept l"
  unfolding close_2_def Let_def by (simp add: kept_same)

lemma kept_open_2 [kept_same]: "kept (open_2 sub p l) = kept l"
  unfolding open_2_def Let_def by (simp add: kept_same)

lemma kept_sizePane_2 [kept_same]: "kept (sizePane_2 sub p z old k f l) = kept l"
  unfolding sizePane_2_def Let_def by (simp add: kept_same)

lemma kept_run_close: "kept (snd (run_close sub p f n k l)) = kept l"
  unfolding run_close_def by (intro kept_walk) (simp_all add: kept_same)

lemma kept_run_open: "kept (snd (run_open sub p s n a l)) = kept l"
  unfolding run_open_def by (intro kept_walk) (simp_all add: kept_same)

lemma kept_run_size: "kept (snd (run_size sub p z k f n l)) = kept l"
  unfolding run_size_def Let_def by (simp add: kept_same)

end

interpretation kqueued: keep_sink enqueue
  by unfold_locales (simp add: enqueue_def)

lemma kept_run_job: "kept (snd (run_job j l)) = kept l"
  by (cases j) (simp_all add: kqueued.kept_run_close kqueued.kept_run_open kqueued.kept_run_size)

lemma kept_run_queue [kept_same]: "kept (run_queue n l) = kept l"
proof (induction n arbitrary: l)
  case (Suc n)
  have sink: "keep_sink (\<lambda>j l. run_queue n (enqueue j l))"
    by unfold_locales (simp add: Suc.IH kqueued.kept_sub)
  show ?case
  proof (cases "queue l")
    case (Cons j js)
    obtain r l1 where rj: "run_job j (l\<lparr>queue := js, busy := True\<rparr>) = (r, l1)" by fastforce
    have "kept l1 = kept l" using kept_run_job [of j "l\<lparr>queue := js, busy := True\<rparr>"] rj by simp
    then show ?thesis using Cons rj
      by (cases r) (simp_all add: Suc.IH keep_sink.kept_fit_pane [OF sink] keep_sink.kept_show_pane [OF sink])
  qed simp
qed simp

interpretation kran: keep_sink "submit n" for n
  by unfold_locales (simp add: submit_def kept_run_queue kqueued.kept_sub)

lemma kept_manualSizePane [kept_same]: "kept (manualSizePane n p z k a l) = kept l"
  by (simp add: manualSizePane_def Let_def kran.kept_sub)

lemma kept_resizeAll: "kept (resizeAll n vis c h r l) = kept l"
proof -
  have 1: "kept (refit_pane n p l) = kept l" for p l
    by (simp add: refit_pane_def kran.kept_sub kran.kept_fit_pane kept_same)
  have 2: "kept (fold (\<lambda>p l. if present (pn l p) \<and> isVisible (pn l p) then fire e p l else l) ps l) = kept l" for e ps and l :: layout
    by (rule kept_fold) (simp add: kept_same)
  show ?thesis
    unfolding resizeAll_def Let_def
    by (simp add: 2 kept_same kran.kept_sizeMidPanes kept_fold [OF 1] del: fold.simps fold_simps)
qed

lemma kept_layout_step: "layout_step l l' \<Longrightarrow> kept l' = kept l"
proof (induction rule: layout_step.induct)
  case (step_animated l a n)
  then show ?case
    unfolding animation_done_def Let_def
    by (cases a) (simp_all add: kept_same kqueued.kept_close_2 kqueued.kept_open_2 kqueued.kept_sizePane_2)
qed (simp_all add: kept_same close_pane_def open_pane_def toggle_pane_def slideOpen_def slideOpen_now_def slideClose_def slideClose_now_def
    kran.kept_sub kran.kept_show_pane kran.kept_hide_pane kept_resizeAll closePane_now_def)

end
