(* ===== verification/LayoutMarks.thy ===== *)
theory LayoutMarks
  imports LayoutDrag LayoutKept
begin

text \<open>
  The mark \<open>isResizing\<close> of a pane is set and taken away by drags alone: no action, no timer and no
  mask changes it.
\<close>

section \<open>Only a drag says that a pane is being resized\<close>

definition rsz :: "'a geom_scheme \<Rightarrow> pane \<Rightarrow> bool" where
  "rsz l q = isResizing (pn l q)"

lemma rsz_kept: "kept l' = kept l \<Longrightarrow> rsz l' = rsz l"
  by (simp add: fun_eq_iff kept_def rsz_def)

lemmas rsz_same = rsz_kept [OF kept_fire] rsz_kept [OF kept_runCallbacks] rsz_kept [OF kept_setSizeLimits] rsz_kept [OF kept_manualSizePane]
  rsz_kept [OF kran.kept_sub]

lemmas rsz_resizeAll = rsz_kept [OF kept_resizeAll]

lemmas rsz_layout_step = rsz_kept [OF kept_layout_step]

lemma rsz_upd: "(\<And>s. isResizing (f s) = isResizing s) \<Longrightarrow> rsz (upd p f l) = rsz l"
  by (simp add: rsz_def fun_eq_iff upd_def)

lemma rsz_fields [simp]: "rsz (l\<lparr>events := es\<rparr>) = rsz l" "rsz (l\<lparr>op := os\<rparr>) = rsz l" "rsz (l\<lparr>anim := a\<rparr>) = rsz l"
  by (simp_all add: rsz_def fun_eq_iff)

section \<open>The masks leave the layout alone\<close>

lemma masks_dl [simp]:
  "dl (sizeMasks d) = dl d" "dl (createMasks p d) = dl d" "dl (getMasks p d) = dl d" "dl (showMasks_of b p d) = dl d" "dl (hideMasks d) = dl d"
  by (simp_all add: sizeMasks_def createMasks_def getMasks_def showMasks_of_def hideMasks_def Let_def)

lemma masks_selectable [simp]:
  "selectable (sizeMasks d) = selectable d" "selectable (createMasks p d) = selectable d" "selectable (getMasks p d) = selectable d"
  "selectable (showMasks_of b p d) = selectable d" "selectable (hideMasks d) = selectable d"
  by (simp_all add: sizeMasks_def createMasks_def getMasks_def showMasks_of_def hideMasks_def Let_def)

lemma showMasks_keeps [simp]: "dl (showMasks ps b d) = dl d" "selectable (showMasks ps b d) = selectable d"
  unfolding showMasks_def by (induction ps arbitrary: d) simp_all

lemma resizePanes_keeps: "rsz (dl (resizePanes n p b d)) = rsz (dl d)" "selectable (resizePanes n p b d) = selectable d"
  by (simp_all add: resizePanes_def Let_def rsz_same runCallbacks_def)

lemma drag_move_keeps: "rsz (dl (drag_move n p pos d)) = rsz (dl d)" "selectable (drag_move n p pos d) = selectable d"
  by (simp_all add: drag_move_def Let_def resizePanes_keeps)

lemma drag_stop_selectable: "selectable (drag_stop n p d)"
  by (simp add: drag_stop_def resizePanes_keeps)

lemma drag_start_cases:
  assumes "drag_start p pos d = (go, d')"
  shows "\<not> go \<and> rsz (dl d') = rsz (dl d) \<and> selectable d' = selectable d \<or> go \<and> rsz (dl d') p"
  using assms
  by (auto simp: drag_start_def runCallbacks_def Let_def rsz_same split: cbret.splits)
    (simp_all add: rsz_def setSizeLimits_def Let_def)

end
