(* ===== verification/LayoutTimers.thy ===== *)
theory LayoutTimers
  imports LayoutMarks
begin

text \<open>
  The timers of a page with a layout: at most one runs under each name, text selection comes back,
  and the window is left in peace once it stops changing.
\<close>

section \<open>Timers\<close>

text \<open>A timer that runs is the one its name stands for.\<close>

definition timers_ok :: "timers \<Rightarrow> bool" where
  "timers_ok t \<longleftrightarrow>
     (\<forall>(i, s) \<in> set (running t). map_of (timer_data t) s = Some i)
     \<and> (\<forall>s i. map_of (timer_data t) s = Some i \<longrightarrow> i < next_id t)
     \<and> (\<forall>s s' i. map_of (timer_data t) s = Some i \<longrightarrow> map_of (timer_data t) s' = Some i \<longrightarrow> s = s')"

lemma timers_okD:
  assumes "timers_ok t"
  shows "(i, s) \<in> set (running t) \<Longrightarrow> map_of (timer_data t) s = Some i"
    and "map_of (timer_data t) s = Some i \<Longrightarrow> i < next_id t"
    and "map_of (timer_data t) s = Some i \<Longrightarrow> map_of (timer_data t) s' = Some i \<Longrightarrow> s = s'"
  using assms unfolding timers_ok_def by blast+

lemma one_per_name: "timers_ok t \<Longrightarrow> (i, s) \<in> set (running t) \<Longrightarrow> (j, s) \<in> set (running t) \<Longrightarrow> i = j"
  by (drule (1) timers_okD(1) [rotated], drule (1) timers_okD(1) [rotated]) simp

lemma timer_clear_reads:
  "map_of (timer_data (timer_clear s t)) = (map_of (timer_data t))(s := None)" "next_id (timer_clear s t) = next_id t"
  by (simp_all add: timer_clear_def AList.delete_conv' fun_upd_idem split: option.split)

lemma running_clear:
  assumes "timers_ok t"
  shows "set (running (timer_clear s t)) = {(i, u) \<in> set (running t). u \<noteq> s}"
proof (cases "map_of (timer_data t) s")
  case None
  then show ?thesis using timers_okD(1) [OF assms] by (force simp: timer_clear_def)
next
  case (Some i)
  then have "j \<noteq> i \<longleftrightarrow> u \<noteq> s" if "(j, u) \<in> set (running t)" for j u
    using timers_okD(1) [OF assms that] timers_okD(3) [OF assms] by fastforce
  then show ?thesis using Some by (auto simp: timer_clear_def)
qed

lemma timers_ok_clear: "timers_ok t \<Longrightarrow> timers_ok (timer_clear s t)"
  unfolding timers_ok_def [of "timer_clear s t"]
  by (auto simp: running_clear timer_clear_reads dest: timers_okD)

lemma timer_set_reads:
  "map_of (timer_data (timer_set s t)) = (map_of (timer_data t))(s := Some (next_id t))"
  "next_id (timer_set s t) = Suc (next_id t)"
  by (simp_all add: timer_set_def Let_def AList.update_conv' timer_clear_reads)

lemma running_set:
  "timers_ok t \<Longrightarrow> set (running (timer_set s t)) = insert (next_id t, s) {(i, u) \<in> set (running t). u \<noteq> s}"
  by (simp add: timer_set_def Let_def running_clear timer_clear_reads)

lemma timers_ok_set:
  assumes "timers_ok t"
  shows "timers_ok (timer_set s t)"
proof -
  have "map_of (timer_data t) u \<noteq> Some (next_id t)" for u using timers_okD(2) [OF assms, of u] by fastforce
  then show ?thesis
    unfolding timers_ok_def [of "timer_set s t"]
    by (auto simp: running_set [OF assms] timer_set_reads dest: timers_okD [OF assms] less_SucI)
qed

definition stop_timer :: "nat \<Rightarrow> timers \<Rightarrow> timers" where
  "stop_timer i t = t\<lparr>running := filter (\<lambda>(j, _). j \<noteq> i) (running t)\<rparr>"

lemma timers_ok_stop: "timers_ok t \<Longrightarrow> timers_ok (stop_timer i t)"
  unfolding timers_ok_def by (auto simp: stop_timer_def)

lemma running_stop: "set (running (stop_timer i t)) = {(j, u) \<in> set (running t). j \<noteq> i}"
  by (auto simp: stop_timer_def)

section \<open>The page: resizers, drags, actions and timers\<close>

text \<open>The state of the layout, its timers and masks, and the resizers the mouse is over.\<close>

type_synonym page = "page_timers \<times> dragging \<times> pane set"

definition in_drag :: "page_timers \<Rightarrow> dragging \<Rightarrow> dragging" where
  "in_drag w d = d\<lparr>dl := pl w, selectable := selection w\<rparr>"

definition dragged :: "page_timers \<Rightarrow> dragging \<Rightarrow> page_timers" where
  "dragged w d = w\<lparr>pl := dl d, selection := selectable d\<rparr>"

inductive page_step :: "page \<Rightarrow> page \<Rightarrow> bool" where
  page_enter: "page_step (w, d, over) (onResizerEnter w, d, insert p over)"
| page_leave: "p \<noteq> Center \<Longrightarrow> page_step (w, d, over) (onResizerLeave p w, d, over - {p})"
| page_window: "page_step (w, d, over) (windowResize w, d, over)"
| page_timer: "page_step (w, d, over) (fire_timer i (resizeAll n vis c h r) c' w, d, over)"
| page_start: "drag_start p pos (in_drag w d) = (go, d') \<Longrightarrow> page_step (w, d, over) (dragged w d', d', over)"
| page_move: "d' = drag_move n p pos (in_drag w d) \<Longrightarrow> page_step (w, d, over) (dragged w d', d', over)"
| page_stop: "d' = drag_stop n p (in_drag w d) \<Longrightarrow> page_step (w, d, over) (dragged w d', d', over)"
| page_action: "layout_step (pl w) l' \<Longrightarrow> page_step (w, d, over) (w\<lparr>pl := l'\<rparr>, d, over)"

inductive page_reach :: "page \<Rightarrow> bool" where
  page_init: "timer_data (tm w) = [] \<Longrightarrow> running (tm w) = [] \<Longrightarrow> selection w \<Longrightarrow> page_reach (w, d, over)"
| page_next: "page_reach P \<Longrightarrow> page_step P Q \<Longrightarrow> page_reach Q"

text \<open>Why text selection may be off.\<close>

definition leaving :: "page_timers \<Rightarrow> bool" where
  "leaving w \<longleftrightarrow> (\<exists>i p. p \<noteq> Center \<and> (i, leave_name p) \<in> set (running (tm w)))"

definition in_use :: "page_timers \<Rightarrow> pane set \<Rightarrow> bool" where
  "in_use w over \<longleftrightarrow> over \<noteq> {} \<or> leaving w \<or> (\<exists>p. rsz (pl w) p)"

definition page_ok :: "page \<Rightarrow> bool" where
  "page_ok P \<longleftrightarrow> (case P of (w, d, over) \<Rightarrow>
     timers_ok (tm w) \<and> (selection w \<or> in_use w over)
     \<and> (\<forall>i. map_of (timer_data (tm w)) ''winResizeRepeater'' = Some i
          \<longrightarrow> (i, ''winResizeRepeater'') \<in> set (running (tm w)) \<and> 0 < maxDelay w))"

lemma timer_names [simp]:
  "leave_name p \<noteq> ''winResize''" "leave_name p \<noteq> ''winResizeRepeater''" "''winResize'' \<noteq> leave_name p" "''winResizeRepeater'' \<noteq> leave_name p"
  "leave_name p = leave_name q \<longleftrightarrow> p = q"
  by (cases p; simp add: leave_name_def) (cases p; simp add: leave_name_def; fail | cases q; cases p; simp add: leave_name_def)+

lemma leaving_mono: "{(i, s) \<in> set (running (tm w)). s \<noteq> ''winResize'' \<and> s \<noteq> ''winResizeRepeater''} \<subseteq> set (running (tm w')) \<Longrightarrow> leaving w \<Longrightarrow> leaving w'"
  unfolding leaving_def by fastforce

lemma in_use_mono: "(leaving w \<Longrightarrow> leaving w') \<Longrightarrow> rsz (pl w') = rsz (pl w) \<Longrightarrow> in_use w over \<Longrightarrow> in_use w' over"
  unfolding in_use_def by auto

lemma page_ok_same:
  assumes "page_ok (w, d, over)" "tm w' = tm w" "maxDelay w' = maxDelay w" "selection w' \<or> in_use w' over'"
  shows "page_ok (w', d', over')"
  using assms by (simp add: page_ok_def)

text \<open>The repeater of the window: it starts again whenever it is set.\<close>

lemma repeater_ok:
  assumes "page_ok (w, d, over)" "selection w' \<or> in_use w' over" "maxDelay w' = maxDelay w"
    "timers_ok (tm w')" "map_of (timer_data (tm w')) ''winResizeRepeater'' = map_of (timer_data (tm w)) ''winResizeRepeater''"
    "{(i, s) \<in> set (running (tm w)). s = ''winResizeRepeater''} \<subseteq> set (running (tm w'))"
  shows "page_ok (w', d', over)"
  using assms unfolding page_ok_def by auto

lemma page_ok_set_repeater:
  assumes "timers_ok (tm w)" "selection w \<or> in_use w over"
    "map_of (timer_data (tm w)) ''winResizeRepeater'' = None \<or> 0 < maxDelay w"
  shows "page_ok (setWindowResizeRepeater w, d, over)"
proof (cases "0 < maxDelay w")
  case True
  let ?w = "setWindowResizeRepeater w"
  have w: "?w = w\<lparr>tm := timer_set ''winResizeRepeater'' (tm w)\<rparr>" using True by (simp add: setWindowResizeRepeater_def)
  have "leaving w \<Longrightarrow> leaving ?w" by (rule leaving_mono) (auto simp: w running_set [OF assms(1)])
  then show ?thesis using assms(2) True in_use_mono [of w ?w over]
    by (auto simp: w page_ok_def timers_ok_set [OF assms(1)] running_set [OF assms(1)] timer_set_reads)
next
  case False
  then show ?thesis using assms by (auto simp: setWindowResizeRepeater_def page_ok_def)
qed

lemma windowResize_ok:
  assumes "page_ok (w, d, over)"
  shows "page_ok (windowResize w, d, over)"
proof -
  have ok: "timers_ok (tm w)" and sel: "selection w \<or> in_use w over" using assms by (simp_all add: page_ok_def)
  define w1 where "w1 = w\<lparr>tm := timer_set ''winResize'' (timer_clear ''winResize'' (tm w))\<rparr>"
  have run: "set (running (tm w1)) = insert (next_id (tm w), ''winResize'') {(i, s) \<in> set (running (tm w)). s \<noteq> ''winResize''}"
    by (auto simp: w1_def running_set timers_ok_clear ok running_clear timer_clear_reads)
  have ok1: "timers_ok (tm w1)" by (simp add: w1_def timers_ok_set timers_ok_clear ok)
  have "leaving w \<Longrightarrow> leaving w1" by (rule leaving_mono) (auto simp: run)
  then have sel1: "selection w1 \<or> in_use w1 over" using sel in_use_mono [of w w1 over] by (auto simp: w1_def)
  have 1: "page_ok (w1, d, over)"
    by (rule repeater_ok [OF assms sel1 _ ok1]) (use run in \<open>auto simp: w1_def timer_set_reads timer_clear_reads\<close>)
  have "windowResize w = (if map_of (timer_data (tm w1)) ''winResizeRepeater'' = None then setWindowResizeRepeater w1 else w1)"
    by (simp add: windowResize_def w1_def Let_def)
  then show ?thesis using 1 page_ok_set_repeater [OF ok1 sel1] by simp
qed

lemma fire_leave:
  fixes w :: page_timers
  defines "go s \<equiv> fold (\<lambda>p w. if s = leave_name p then left_resizer p w else w) [North, South, West, East] w"
  shows "p \<noteq> Center \<Longrightarrow> go (leave_name p) = left_resizer p w"
    and "(\<And>p. p \<noteq> Center \<Longrightarrow> s \<noteq> leave_name p) \<Longrightarrow> go s = w"
  unfolding go_def by (cases p; simp) simp

lemma left_resizer_ok:
  assumes "p \<noteq> Center" "(i, leave_name p) \<in> set (running (tm w))" "page_ok (w, d, over)"
  shows "page_ok (left_resizer p (w\<lparr>tm := stop_timer i (tm w)\<rparr>), d, over)"
proof -
  define w' where "w' = left_resizer p (w\<lparr>tm := stop_timer i (tm w)\<rparr>)"
  have ok: "timers_ok (tm w)" using assms(3) by (simp add: page_ok_def)
  have rs: "rsz (pl w') = rsz (pl w)" by (simp add: w'_def left_resizer_def Let_def rsz_upd)
  have "selection w' \<or> rsz (pl w') p" by (simp add: w'_def left_resizer_def Let_def rsz_def)
  then have sel: "selection w' \<or> in_use w' over" unfolding in_use_def by blast
  have ne: "j \<noteq> i" if "(j, ''winResizeRepeater'') \<in> set (running (tm w))" for j
    using timers_okD(1) [OF ok that] timers_okD(1) [OF ok assms(2)] timers_okD(3) [OF ok] by (metis timer_names(4))
  have "page_ok (w', d, over)"
    by (rule repeater_ok [OF assms(3) sel])
      (use ne in \<open>auto simp: w'_def left_resizer_def Let_def timers_ok_clear timers_ok_stop ok timer_clear_reads running_clear running_stop,
         auto simp: stop_timer_def\<close>)
  then show ?thesis by (simp add: w'_def)
qed

lemma window_resized_ok:
  fixes c :: container
  assumes "(i, ''winResize'') \<in> set (running (tm w))" "page_ok (w, d, over)" "\<And>l. rsz (all l) = rsz l"
  defines "w' \<equiv> window_resized all c (w\<lparr>tm := stop_timer i (tm w)\<rparr>)"
  shows "page_ok (w', d, over)" "(j, s) \<in> set (running (tm w')) \<Longrightarrow> s \<noteq> ''winResize'' \<and> s \<noteq> ''winResizeRepeater''"
proof -
  have ok: "timers_ok (tm w)" using assms(2) by (simp add: page_ok_def)
  have ne: "u = ''winResize''" if "(i, u) \<in> set (running (tm w))" for u
    using timers_okD(1) [OF ok that] timers_okD(1) [OF ok assms(1)] timers_okD(3) [OF ok] by metis
  have ok2: "timers_ok (timer_clear ''winResize'' (stop_timer i (tm w)))" by (simp add: timers_ok_clear timers_ok_stop ok)
  have run: "set (running (tm w')) = {(j, u) \<in> set (running (tm w)). u \<noteq> ''winResize'' \<and> u \<noteq> ''winResizeRepeater''}"
    using ne by (auto simp: w'_def window_resized_def running_clear [OF ok2] running_clear timers_ok_stop ok running_stop)
  then show "(j, s) \<in> set (running (tm w')) \<Longrightarrow> s \<noteq> ''winResize'' \<and> s \<noteq> ''winResizeRepeater''" by auto
  have "leaving w \<Longrightarrow> leaving w'" by (rule leaving_mono) (auto simp: run)
  moreover have "rsz (pl w') = rsz (pl w)" by (simp add: w'_def window_resized_def assms(3))
  moreover have "selection w' = selection w" by (simp add: w'_def window_resized_def)
  ultimately show "page_ok (w', d, over)"
    using assms(2) ok2 in_use_mono [of w w' over]
    by (auto simp: page_ok_def w'_def window_resized_def timers_ok_clear timer_clear_reads)
qed

lemma window_repeats_ok:
  assumes "(i, ''winResizeRepeater'') \<in> set (running (tm w))" "page_ok (w, d, over)" "\<And>l. rsz (all l) = rsz l"
  shows "page_ok (window_repeats all (w\<lparr>tm := stop_timer i (tm w)\<rparr>), d, over)"
proof -
  define w1 where "w1 = w\<lparr>tm := stop_timer i (tm w), pl := all (pl w)\<rparr>"
  have ok: "timers_ok (tm w)" using assms(2) by (simp add: page_ok_def)
  have data: "map_of (timer_data (tm w)) ''winResizeRepeater'' = Some i" by (rule timers_okD(1) [OF ok assms(1)])
  then have d: "0 < maxDelay w" using assms(2) by (simp add: page_ok_def)
  have ne: "u = ''winResizeRepeater''" if "(i, u) \<in> set (running (tm w))" for u
    using timers_okD(1) [OF ok that] data timers_okD(3) [OF ok] by metis
  have "leaving w \<Longrightarrow> leaving w1" by (rule leaving_mono) (use ne in \<open>auto simp: w1_def running_stop\<close>)
  then have "selection w1 \<or> in_use w1 over"
    using assms(2) in_use_mono [of w w1 over] by (auto simp: page_ok_def w1_def assms(3))
  then have "page_ok (setWindowResizeRepeater w1, d, over)"
    by (rule page_ok_set_repeater [rotated]) (use d in \<open>simp_all add: w1_def timers_ok_stop ok\<close>)
  moreover have "window_repeats all (w\<lparr>tm := stop_timer i (tm w)\<rparr>) = setWindowResizeRepeater w1"
    using d by (simp add: window_repeats_def w1_def setWindowResizeRepeater_def)
  ultimately show ?thesis by simp
qed

lemma fire_timer_ok:
  assumes "page_ok (w, d, over)" "\<And>l. rsz (all l) = rsz l"
  shows "page_ok (fire_timer i all c w, d, over)"
proof (cases "map_of (running (tm w)) i")
  case (Some s)
  then have r: "(i, s) \<in> set (running (tm w))" by (rule map_of_SomeD)
  define w1 where "w1 = w\<lparr>tm := stop_timer i (tm w)\<rparr>"
  have f: "fire_timer i all c w = (if s = ''winResize'' then window_resized all c w1
      else if s = ''winResizeRepeater'' then window_repeats all w1
      else fold (\<lambda>p w. if s = leave_name p then left_resizer p w else w) [North, South, West, East] w1)"
    using Some by (simp add: fire_timer_def w1_def stop_timer_def del: fold.simps fold_simps)
  consider (a) "s = ''winResize''" | (b) "s = ''winResizeRepeater''" | (c) p where "p \<noteq> Center" "s = leave_name p"
    | (e) "s \<noteq> ''winResize''" "s \<noteq> ''winResizeRepeater''" "\<And>p. p \<noteq> Center \<Longrightarrow> s \<noteq> leave_name p" by blast
  then show ?thesis
  proof cases
    case e
    have ok: "timers_ok (tm w)" using assms(1) by (simp add: page_ok_def)
    have ne: "u = s" if "(i, u) \<in> set (running (tm w))" for u
      using timers_okD(1) [OF ok that] timers_okD(1) [OF ok r] timers_okD(3) [OF ok] by metis
    have "leaving w \<Longrightarrow> leaving w1" using e(3) ne unfolding leaving_def w1_def by (auto simp: running_stop)
    then have "selection w1 \<or> in_use w1 over"
      using assms(1) in_use_mono [of w w1 over] by (auto simp: page_ok_def w1_def)
    then have "page_ok (w1, d, over)"
      by (rule repeater_ok [OF assms(1)]) (use ne e(2) in \<open>auto simp: w1_def timers_ok_stop ok running_stop, auto simp: stop_timer_def\<close>)
    moreover have "fire_timer i all c w = w1" unfolding f using e fire_leave(2) [of s w1] by (simp del: fold.simps fold_simps)
    ultimately show ?thesis by simp
  next
    case (c p)
    then have "fire_timer i all c w = left_resizer p w1" unfolding f using fire_leave(1) [of p w1] by (simp del: fold.simps fold_simps)
    then show ?thesis using left_resizer_ok [OF c(1) _ assms(1), of i] r c(2) by (simp add: w1_def)
  qed (use f r window_resized_ok(1) [OF _ assms, of i] window_repeats_ok [OF _ assms, of i] in \<open>simp_all add: w1_def\<close>)
qed (simp add: fire_timer_def assms(1))

lemma page_step_ok: "page_step P Q \<Longrightarrow> page_ok P \<Longrightarrow> page_ok Q"
proof (induction rule: page_step.induct)
  case (page_enter w d over p)
  then show ?case by (auto simp: page_ok_def onResizerEnter_def in_use_def)
next
  case (page_leave p w d over)
  let ?w = "onResizerLeave p w"
  have ok: "timers_ok (tm w)" using page_leave by (simp add: page_ok_def)
  have run: "set (running (tm ?w)) = insert (next_id (tm w), leave_name p) {(i, u) \<in> set (running (tm w)). u \<noteq> leave_name p}"
    by (auto simp: onResizerLeave_def running_set timers_ok_clear ok running_clear timer_clear_reads)
  have "leaving ?w" unfolding leaving_def run using page_leave(1) by blast
  then have "in_use ?w (over - {p})" by (simp add: in_use_def)
  then show ?case using page_leave(2)
    by (auto simp: page_ok_def onResizerLeave_def timers_ok_set timers_ok_clear timer_set_reads timer_clear_reads
        running_set running_clear)
next
  case (page_start p pos w d go d' over)
  then have "selection w \<or> in_use w over" by (simp add: page_ok_def)
  then have "selection (dragged w d') \<or> in_use (dragged w d') over"
    using drag_start_cases [OF page_start(1)] by (auto simp: dragged_def in_drag_def in_use_def leaving_def)
  then show ?case by (intro page_ok_same [OF page_start(2)]) (simp_all add: dragged_def)
next
  case (page_move d' n p pos w d over)
  then show ?case using drag_move_keeps [of n p pos "in_drag w d"]
    by (intro page_ok_same [OF page_move(2)]) (auto simp: dragged_def in_drag_def in_use_def leaving_def page_ok_def)
next
  case (page_stop d' n p w d over)
  then show ?case by (intro page_ok_same [OF page_stop(2)]) (simp_all add: dragged_def drag_stop_selectable)
next
  case (page_action w l' d over)
  then show ?case
    by (intro page_ok_same [OF page_action(2)]) (auto simp: rsz_layout_step in_use_def leaving_def page_ok_def)
qed (simp_all add: windowResize_ok fire_timer_ok rsz_resizeAll)

lemma page_reach_ok: "page_reach P \<Longrightarrow> page_ok P"
  by (induction rule: page_reach.induct) (auto simp: page_step_ok, simp add: page_ok_def timers_ok_def)

text \<open>Text selection comes back.  However the mouse moves over resizers, panes are dragged and acted
  on, and timers fire, no two timers of one name run, and the selection of text is off only while
  the mouse is on a resizer, a timer that will turn it on runs, or a pane is being dragged.\<close>

theorem selection_comes_back:
  assumes "page_reach (w, d, over)"
  shows "((i, s) \<in> set (running (tm w)) \<and> (j, s) \<in> set (running (tm w)) \<longrightarrow> i = j)
    \<and> (selection w \<or> over \<noteq> {} \<or> leaving w \<or> (\<exists>p. isResizing (pn (pl w) p)))"
  using page_reach_ok [OF assms] one_per_name [of "tm w" i s j]
  unfolding page_ok_def in_use_def rsz_def prod.case by blast

definition demo_page :: page_timers where
  "demo_page = \<lparr>tm = \<lparr>timer_data = [], running = [], next_id = 0\<rparr>, pl = demo, selection = True, maxDelay = 1000, resizeWithWindow = True\<rparr>"

lemma demo_page_init: "page_reach (demo_page, d, {})"
  by (rule page_init) (simp_all add: demo_page_def)

theorem selection_comes_back_witness:
  "selection (onResizerLeave West (onResizerEnter demo_page)) \<or> leaving (onResizerLeave West (onResizerEnter demo_page))"
proof -
  fix d
  have "page_reach (onResizerEnter demo_page, d, {West})"
    by (rule page_next [OF demo_page_init]) (rule page_enter)
  from page_next [OF this page_leave [of West]] have "page_reach (onResizerLeave West (onResizerEnter demo_page), d, {})" by simp
  from selection_comes_back [OF this]
  have "selection (onResizerLeave West (onResizerEnter demo_page)) \<or> leaving (onResizerLeave West (onResizerEnter demo_page))
    \<or> (\<exists>p. isResizing (pn (pl (onResizerLeave West (onResizerEnter demo_page))) p))" by blast
  moreover have "\<not> isResizing (pn (pl (onResizerLeave West (onResizerEnter demo_page))) p)" for p
    by (simp add: onResizerLeave_def onResizerEnter_def demo_page_def demo_def demo_pane_def)
  ultimately show ?thesis by blast
qed

text \<open>A window that stops changing is left in peace.  Each change starts the timer of the window anew
  and keeps the repeated one running, and once the first fires neither of them runs.\<close>

theorem window_settles:
  assumes "page_reach (w, d, over)" "(i, ''winResize'') \<in> set (running (tm (windowResize w)))"
  shows "(0 < maxDelay w \<longrightarrow> ''winResizeRepeater'' \<in> snd ` set (running (tm (windowResize w))))
    \<and> {''winResize'', ''winResizeRepeater''} \<inter> snd ` set (running (tm (fire_timer i (resizeAll n vis c h r) c' (windowResize w)))) = {}"
proof
  let ?w = "windowResize w"
  have ok: "page_ok (?w, d, over)" by (rule windowResize_ok [OF page_reach_ok [OF assms(1)]])
  then have t: "timers_ok (tm ?w)" by (simp add: page_ok_def)
  have "map_of (timer_data (tm ?w)) ''winResizeRepeater'' \<noteq> None" if "0 < maxDelay w"
    using that by (simp add: windowResize_def Let_def setWindowResizeRepeater_def timer_set_reads)
  then show "0 < maxDelay w \<longrightarrow> ''winResizeRepeater'' \<in> snd ` set (running (tm ?w))"
    using ok by (force simp: page_ok_def)
  have "map_of (running (tm ?w)) i = Some ''winResize''"
  proof -
    obtain s where s: "map_of (running (tm ?w)) i = Some s" using weak_map_of_SomeI [OF assms(2)] by blast
    from timers_okD(1) [OF t map_of_SomeD [OF this]] have "s = ''winResize''"
      using timers_okD(3) [OF t timers_okD(1) [OF t assms(2)]] by metis
    then show ?thesis using s by simp
  qed
  then have "fire_timer i (resizeAll n vis c h r) c' ?w = window_resized (resizeAll n vis c h r) c' (?w\<lparr>tm := stop_timer i (tm ?w)\<rparr>)"
    by (simp add: fire_timer_def stop_timer_def)
  then show "{''winResize'', ''winResizeRepeater''} \<inter> snd ` set (running (tm (fire_timer i (resizeAll n vis c h r) c' ?w))) = {}"
    using window_resized_ok(2) [OF assms(2) ok, of "resizeAll n vis c h r" _ _ c'] by (force simp: rsz_resizeAll)
qed

theorem window_settles_witness:
  "''winResizeRepeater'' \<in> snd ` set (running (tm (windowResize demo_page)))"
proof -
  have "(0, ''winResize'') \<in> set (running (tm (windowResize demo_page)))" by code_simp
  with window_settles [OF demo_page_init this] have "0 < maxDelay demo_page \<longrightarrow> ?thesis" by blast
  then show ?thesis by (simp add: demo_page_def)
qed

end
