(* ===== verification/LayoutDragProps.thy ===== *)
theory LayoutDragProps
  imports LayoutTimers
begin

text \<open>What a drag of a resizer comes to: the panes it covers with masks meanwhile and the size a pane ends with.\<close>

section \<open>Masks\<close>

definition mask_size :: "dragging \<Rightarrow> pane \<Rightarrow> (int \<times> int \<times> int \<times> int) option" where
  "mask_size d q = Some (offsetTop (mo d q), offsetLeft (mo d q), s_outerWidth (pn (dl d) q), s_outerHeight (pn (dl d) q))"

definition mask_level :: "dragging \<Rightarrow> pane \<Rightarrow> int" where
  "mask_level d q = (if isSliding (pn (dl d) q) then pane_sliding (zs d) else pane_normal (zs d)) + 1"

definition covered :: "pane \<Rightarrow> dragging \<Rightarrow> bool" where
  "covered q d \<longleftrightarrow> (\<exists>m \<in> set (masks d). m_pane m = q) \<and>
     (\<forall>m \<in> set (masks d). m_pane m = q \<longrightarrow> m_shown m \<and> m_z m = mask_level d q \<and> (paneIsIframe (mo d q) \<longrightarrow> m_box m = mask_size d q))"

definition wants_mask :: "pane \<Rightarrow> dragging \<Rightarrow> bool" where
  "wants_mask q d \<longleftrightarrow> isVisible (pn (dl d) q) \<and> (maskContents (mo d q) \<or> maskObjects (mo d q))"

lemma masks_env [simp]:
  "mo (getMasks p d) = mo d" "zs (getMasks p d) = zs d" "mo (showMasks_of b p d) = mo d" "zs (showMasks_of b p d) = zs d"
  "wants_mask q (showMasks_of b p d) = wants_mask q d"
  by (simp_all add: getMasks_def createMasks_def showMasks_of_def Let_def wants_mask_def)

lemma getMasks_some:
  "maskContents (mo d q) \<or> maskObjects (mo d q) \<Longrightarrow> \<exists>m \<in> set (masks (getMasks q d)). m_pane m = q"
  by (auto simp: getMasks_def createMasks_def new_mask_def Let_def list_ex_iff split: if_splits)

lemma getMasks_other: "m_pane m \<noteq> p \<Longrightarrow> m \<in> set (masks (getMasks p d)) \<longleftrightarrow> m \<in> set (masks d)"
  by (auto simp: getMasks_def createMasks_def new_mask_def Let_def split: if_splits)

lemma sizeMask_pane [simp]: "m_pane (sizeMask d m) = m_pane m"
  by (simp add: sizeMask_def Let_def)

lemma covered_now:
  assumes "wants_mask q d"
  shows "covered q (showMasks_of False q d)"
proof -
  let ?d = "getMasks q d"
  define g where "g m = (if m_pane m = q then (sizeMask ?d m)\<lparr>m_z := mask_level d q, m_shown := True\<rparr> else m)" for m
  have d: "showMasks_of False q d = ?d\<lparr>masks := map g (masks ?d)\<rparr>"
    using assms by (auto simp: showMasks_of_def wants_mask_def Let_def g_def mask_level_def)
  have g: "m_pane (g m) = m_pane m" for m by (simp add: g_def)
  have "m_shown (g m) \<and> m_z (g m) = mask_level d q \<and> (paneIsIframe (mo d q) \<longrightarrow> m_box (g m) = mask_size d q)" if "m_pane m = q" for m
    using that assms by (simp add: g_def sizeMask_def Let_def mask_size_def wants_mask_def)
  moreover have "\<exists>m \<in> set (masks ?d). m_pane m = q" using getMasks_some assms by (simp add: wants_mask_def)
  ultimately show ?thesis unfolding covered_def d by (auto simp: g mask_level_def mask_size_def)
qed

lemma masks_other: "m_pane m \<noteq> p \<Longrightarrow> m \<in> set (masks (showMasks_of b p d)) \<longleftrightarrow> m \<in> set (masks d)"
  by (auto simp: showMasks_of_def Let_def getMasks_other image_iff)

lemma covered_stays:
  assumes "covered q d" "wants_mask q d"
  shows "covered q (showMasks_of False p d)"
proof (cases "p = q")
  case False
  then have "m_pane m = q \<Longrightarrow> m \<in> set (masks (showMasks_of False p d)) \<longleftrightarrow> m \<in> set (masks d)" for m
    using masks_other [of m p False d] by auto
  then show ?thesis using assms(1) unfolding covered_def by (auto simp: mask_level_def mask_size_def)
qed (simp add: covered_now assms)

lemma covered_showMasks:
  assumes "q \<in> set ps" "wants_mask q d"
  shows "covered q (showMasks ps False d)"
proof -
  have stays: "covered q (fold (showMasks_of False) xs e)" if "covered q e" "wants_mask q e" for xs e
    using that by (induction xs arbitrary: e) (simp_all add: covered_stays)
  show ?thesis
    unfolding showMasks_def using assms
    by (induction ps arbitrary: d) (auto simp: stays covered_now)
qed

text \<open>No pane has more than two masks, of which one is an iframe.\<close>

definition few_masks :: "dragging \<Rightarrow> bool" where
  "few_masks d \<longleftrightarrow> (\<forall>q. length (filter (\<lambda>m. m_pane m = q) (masks d)) \<le> 2)"

lemma few_same: "map m_pane (masks d') = map m_pane (masks d) \<Longrightarrow> few_masks d' = few_masks d"
proof -
  have "length (filter (\<lambda>m. m_pane m = q) ms) = length (filter (\<lambda>x. x = q) (map m_pane ms))" for q and ms :: "mask list"
    by (simp add: filter_map o_def)
  then show "map m_pane (masks d') = map m_pane (masks d) \<Longrightarrow> few_masks d' = few_masks d"
    by (simp only: few_masks_def)
qed

lemma few_getMasks: "few_masks d \<Longrightarrow> few_masks (getMasks p d)"
proof (cases "list_ex (\<lambda>m. m_pane m = p) (masks d)")
  case False
  assume few: "few_masks d"
  have none: "filter (\<lambda>m. m_pane m = p) (masks d) = []" using False by (simp add: list_ex_iff filter_empty_conv)
  have "length (filter (\<lambda>m. m_pane m = q) (masks (createMasks p d))) \<le> 2" for q
    using few none by (cases "q = p") (auto simp: createMasks_def new_mask_def Let_def few_masks_def)
  then show ?thesis using False by (simp add: getMasks_def few_masks_def)
qed (simp add: getMasks_def)

lemma few_showMasks: "few_masks d \<Longrightarrow> few_masks (showMasks ps b d)"
proof -
  have "few_masks (showMasks_of b p d)" if "few_masks d" for p d
  proof -
    have "map m_pane (masks (showMasks_of b p d)) = map m_pane (masks (getMasks p d)) \<or> showMasks_of b p d = d"
      by (auto simp: showMasks_of_def Let_def)
    then show ?thesis using few_same few_getMasks [OF that] that by metis
  qed
  then show "few_masks d \<Longrightarrow> few_masks (showMasks ps b d)"
    unfolding showMasks_def by (induction ps arbitrary: d) simp_all
qed

lemma few_resizePanes: "few_masks d \<Longrightarrow> few_masks (resizePanes n p b d)"
proof -
  have h: "few_masks (hideMasks e) = few_masks e" "few_masks (sizeMasks e) = few_masks e" "few_masks (e\<lparr>dl := l\<rparr>) = few_masks e" for e l
    by (rule few_same, simp add: hideMasks_def sizeMasks_def o_def)+
  show "few_masks d \<Longrightarrow> few_masks (resizePanes n p b d)"
    unfolding resizePanes_def Let_def by (simp add: h few_showMasks split: prod.split)
qed

lemma few_drag_move: "few_masks d \<Longrightarrow> few_masks (drag_move n p pos d)"
  using few_same [of "d\<lparr>d_pos := x, at_limit := y\<rparr>" d for x y] few_same [of "d\<lparr>d_pos := x, at_limit := y, lastPos := z\<rparr>" d for x y z]
  by (simp add: drag_move_def Let_def few_resizePanes)

lemma few_drag_start: "few_masks d \<Longrightarrow> few_masks (snd (drag_start p pos d))"
proof -
  have "few_masks (d\<lparr>dl := a, live := b, d_min := c, d_max := e, d_pos := x, lastPos := y, drag_class := f, selectable := g\<rparr>) = few_masks d"
    "few_masks (d\<lparr>dl := a, live := b\<rparr>) = few_masks d" for a b c e x y f g
    by (rule few_same, simp)+
  then show "few_masks d \<Longrightarrow> few_masks (snd (drag_start p pos d))"
    unfolding drag_start_def Let_def by (simp add: few_showMasks split: prod.split cbret.split)
qed

lemma few_drag_stop: "few_masks d \<Longrightarrow> few_masks (drag_stop n p d)"
proof -
  have "few_masks (d\<lparr>dl := a, drag_class := f, selectable := g, at_limit := y\<rparr>) = few_masks d" for a f g y
    by (rule few_same) simp
  then show "few_masks d \<Longrightarrow> few_masks (drag_stop n p d)" unfolding drag_stop_def by (simp add: few_resizePanes)
qed

text \<open>A drag that goes on.\<close>

definition drag_limits :: "pane \<Rightarrow> layout \<Rightarrow> layout" where
  "drag_limits p l = setSizeLimits p None (upd p (\<lambda>s. s\<lparr>isResizing := True, close_timer := False\<rparr>) (snd (runCallbacks ''ondrag_start'' p l)))"

lemma drag_start_go:
  assumes "drag_start p pos d = (True, d1)"
  shows "d1 = showMasks (drag_masks p) False
    (d\<lparr>dl := drag_limits p (dl d), live := livePaneResizing (op (dl d) p), d_min := r_min (pn (drag_limits p (dl d)) p),
       d_max := r_max (pn (drag_limits p (dl d)) p), d_pos := pos, lastPos := pos, drag_class := True, selectable := False\<rparr>)"
  using assms by (cases "cb (dl d) ''ondrag_start'' p") (simp_all add: drag_start_def drag_limits_def runCallbacks_def Let_def)

lemma drag_limits_reads [simp]:
  "isVisible (pn (drag_limits p l) q) = isVisible (pn l q)" "isSliding (pn (drag_limits p l) q) = isSliding (pn l q)"
  "isResizing (pn (drag_limits p l) q) = (q = p \<or> isResizing (pn l q))"
  by (auto simp: drag_limits_def setSizeLimits_def Let_def runCallbacks_def)

text \<open>A drag is masked.  When a drag begins, every visible pane it can pass over whose contents or objects
  are to be masked is covered: all its masks are shown, one level above the pane, and those of an
  iframe have its box.  When it ends, and no other drag goes on and the pane does not slide, no mask is left shown;
  no pane ever has more than two.\<close>

theorem drag_is_masked:
  assumes "drag_start p pos d = (True, d1)"
    and "q \<in> set (drag_masks p)" "isVisible (pn (dl d) q)" "maskContents (mo d q) \<or> maskObjects (mo d q)"
    and "few_masks d" "d2 = fold (drag_move n p) ps d1"
    and "\<And>q. q \<noteq> p \<Longrightarrow> \<not> isResizing (pn (dl d) q)" "\<not> isSliding (pn (dl (drag_stop n p d2)) p)"
  shows "covered q d1 \<and> few_masks d2 \<and> few_masks (drag_stop n p d2) \<and> (\<exists>m \<in> set (masks d1). m_pane m = q)
    \<and> \<not> (\<exists>m \<in> set (masks (drag_stop n p d2)). m_shown m)"
proof -
  note e = drag_start_go [OF assms(1)]
  have c: "covered q d1" unfolding e by (rule covered_showMasks [OF assms(2)]) (use assms(3,4) in \<open>simp add: wants_mask_def\<close>)
  have f1: "few_masks d1" using few_drag_start [OF assms(5), of p pos] assms(1) by simp
  have f2: "few_masks d2" unfolding assms(6) by (rule fold_invariant [where Q = "\<lambda>_. True"]) (simp_all add: f1 few_drag_move)
  have "rsz (dl (fold (drag_move n p) ps d1)) = rsz (dl d1)" for ps
    by (induction ps arbitrary: d1) (simp_all add: drag_move_keeps)
  then have r2: "rsz (dl d2) = rsz (drag_limits p (dl d))" by (simp add: assms(6) e)
  define s where "s = d2\<lparr>dl := upd p (\<lambda>s. s\<lparr>isResizing := False\<rparr>) (dl d2), drag_class := False, selectable := True, at_limit := 0\<rparr>"
  have st: "drag_stop n p d2 = resizePanes n p True s" by (simp add: drag_stop_def s_def)
  have "rsz (dl d2) q = (q = p \<or> isResizing (pn (dl d) q))" for q unfolding r2 by (simp add: rsz_def)
  moreover have "rsz (dl s) q = (q \<noteq> p \<and> rsz (dl d2) q)" for q by (simp add: s_def rsz_def)
  ultimately have "rsz (dl s) = (\<lambda>_. False)" using assms(7) by blast
  then have no: "\<not> isResizing (pn l q)" if "rsz l = rsz (dl s)" for l q using that by (metis rsz_def)
  have hid: "\<not> (\<exists>m \<in> set (masks (hideMasks (s\<lparr>dl := l\<rparr>))). m_shown m)" if "rsz l = rsz (dl s)" for l
    by (simp add: hideMasks_def no [OF that])
  define l where "l = (let (r, l1) = runCallbacks ''ondrag_end'' p (dl s)
      in if r \<noteq> CbFalse then manualSizePane n p (Num (of_int (size_at (dl s) p (d_pos s)))) False True l1 else l1)"
  have l: "rsz l = rsz (dl s)" by (simp add: l_def runCallbacks_def rsz_kept [OF kept_manualSizePane])
  have "drag_stop n p d2 = (if isSliding (pn l p) then showMasks (drag_masks p) True (hideMasks (s\<lparr>dl := l\<rparr>)) else hideMasks (s\<lparr>dl := l\<rparr>))"
    unfolding st resizePanes_def by (simp add: runCallbacks_def Let_def l_def)
  with assms(8) have "drag_stop n p d2 = hideMasks (s\<lparr>dl := l\<rparr>)" by (simp split: if_splits)
  then show ?thesis using c f2 few_drag_stop [OF f2, of n p] hid [OF l] unfolding covered_def by auto
qed

section \<open>The size a drag ends with\<close>

text \<open>What the limits of a pane depend on.\<close>

definition limit_reads :: "pane_state \<Rightarrow> bool \<times> bool \<times> bool \<times> bool \<times> bool \<times> int \<times> int \<times> int \<times> int \<times> int \<times> int" where
  "limit_reads s = (present s, isVisible s, isSliding s, isHidden s, isClosed s, css_w s, css_h s, frame_w s, frame_h s, auto_w s, auto_h s)"

definition limit_opts :: "pane_opts \<Rightarrow> psize \<times> psize option \<times> int \<times> int \<times> int \<times> int" where
  "limit_opts o' = (o_minSize o', o_maxSize o', spacing_open o', spacing_closed o', minWidth o', minHeight o')"

lemma limits_cong:
  assumes "\<And>q. limit_reads (pn l q) = limit_reads (pn l' q)" "\<And>q. limit_opts (op l q) = limit_opts (op l' q)" "sC l = sC l'"
  shows "parseSize l q z dr = parseSize l' q z dr"
    and "s_minSize (pn (setSizeLimits p b l) p) = s_minSize (pn (setSizeLimits p b l') p)"
    and "s_maxSize (pn (setSizeLimits p b l) p) = s_maxSize (pn (setSizeLimits p b l') p)"
proof -
  note r = assms(1) [unfolded limit_reads_def prod.inject] and o' = assms(2) [unfolded limit_opts_def prod.inject]
  have av: "avail_space l d = avail_space l' d" for d
    unfolding avail_space_def by (cases d) (simp_all add: r o' assms(3))
  have ps: "parseSize l q z d = parseSize l' q z d" for q z d
    unfolding parseSize_def parse_num_def by (cases z) (simp_all add: r av)
  then show "parseSize l q z dr = parseSize l' q z dr" .
  have c: "cssMinSize p (pn l p) = cssMinSize p (pn l' p)" using r [of p] by (intro cssMinSize_cong) simp_all
  have mc: "minCenterSize l p = minCenterSize l' p"
    unfolding minCenterSize_def min_dim_h_def min_dim_w_def cssH_def cssW_def using r o' by simp
  have "altPaneSize l p = altPaneSize l' p" "altPaneSpacing l p = altPaneSpacing l' p" "containerSize l p = containerSize l' p"
    unfolding altPaneSize_def altPaneSpacing_def containerSize_def outer_in_def outerHeight_def outerWidth_def Let_def
    using r o' assms(3) by simp_all
  then have "limitSize l p sl = limitSize l' p sl" for sl unfolding limitSize_def using ps mc o' by simp
  then show "s_minSize (pn (setSizeLimits p b l) p) = s_minSize (pn (setSizeLimits p b l') p)"
    "s_maxSize (pn (setSizeLimits p b l) p) = s_maxSize (pn (setSizeLimits p b l') p)"
    unfolding setSizeLimits_def Let_def using ps c r o' by (simp_all split: option.split)
qed

lemma showMasks_limits [simp]:
  "live (showMasks ps b d) = live d" "d_min (showMasks ps b d) = d_min d" "d_max (showMasks ps b d) = d_max d"
proof -
  have 1: "live (showMasks_of b p d) = live d" "d_min (showMasks_of b p d) = d_min d" "d_max (showMasks_of b p d) = d_max d" for p d
    by (simp_all add: showMasks_of_def getMasks_def createMasks_def Let_def)
  show "live (showMasks ps b d) = live d" "d_min (showMasks ps b d) = d_min d" "d_max (showMasks ps b d) = d_max d"
    unfolding showMasks_def by (induction ps arbitrary: d; simp add: 1)+
qed

lemma moves_only_move:
  assumes "\<not> live d" "ps \<noteq> []"
  shows "dl (fold (drag_move n p) ps d) = dl d"
    and "d_min d \<le> d_max d \<Longrightarrow> d_pos (fold (drag_move n p) ps d) = max (d_min d) (min (d_max d) (last ps))"
proof -
  have "\<not> live (fold (drag_move n p) ps d) \<and> dl (fold (drag_move n p) ps d) = dl d
      \<and> d_min (fold (drag_move n p) ps d) = d_min d \<and> d_max (fold (drag_move n p) ps d) = d_max d" for ps
    using assms(1) by (induction ps arbitrary: d) (simp_all add: drag_move_def Let_def)
  then show "dl (fold (drag_move n p) ps d) = dl d"
    and "d_min d \<le> d_max d \<Longrightarrow> d_pos (fold (drag_move n p) ps d) = max (d_min d) (min (d_max d) (last ps))"
    using assms(2) by (induction ps rule: rev_induct) (auto simp: drag_move_def Let_def)
qed

text \<open>A position between the limits of the resizer is a size between the limits of the pane.\<close>

lemma size_of_position:
  assumes "p \<noteq> Center" "s_minSize (pn (setSizeLimits p None l) p) \<le> s_maxSize (pn (setSizeLimits p None l) p)"
  defines "m \<equiv> setSizeLimits p None l"
  shows "r_min (pn m p) \<le> r_max (pn m p)"
    and "size_at m p (max (r_min (pn m p)) (min (r_max (pn m p)) x)) = max (s_minSize (pn m p)) (min (s_maxSize (pn m p)) (size_at m p x))"
proof -
  define lo hi where "lo = s_minSize (pn m p)" and "hi = s_maxSize (pn m p)"
  have sc: "sC m = sC l" "op m = op l" by (simp_all add: m_def setSizeLimits_def Let_def upd_def)
  have r: "r_min (pn m p) = (case p of North \<Rightarrow> insetTop (sC l) + lo | West \<Rightarrow> insetLeft (sC l) + lo
        | South \<Rightarrow> insetTop (sC l) + innerHeight (sC l) - hi - spacing_open (op l p)
        | East \<Rightarrow> insetLeft (sC l) + innerWidth (sC l) - hi - spacing_open (op l p) | Center \<Rightarrow> r_min (pn l p))"
    "r_max (pn m p) = (case p of North \<Rightarrow> insetTop (sC l) + hi | West \<Rightarrow> insetLeft (sC l) + hi
        | South \<Rightarrow> insetTop (sC l) + innerHeight (sC l) - lo - spacing_open (op l p)
        | East \<Rightarrow> insetLeft (sC l) + innerWidth (sC l) - lo - spacing_open (op l p) | Center \<Rightarrow> r_max (pn l p))"
    by (cases p; simp add: m_def lo_def hi_def setSizeLimits_def Let_def)+
  have le: "lo \<le> hi" using assms(2) by (simp add: lo_def hi_def m_def)
  show "r_min (pn m p) \<le> r_max (pn m p)" using le assms(1) unfolding r by (cases p) simp_all
  have "size_at m p (max (r_min (pn m p)) (min (r_max (pn m p)) x)) = max lo (min hi (size_at m p x))"
    using le assms(1) unfolding r size_at_def sc offsetHeight_def offsetWidth_def inset_def by (cases p) simp_all
  then show "size_at m p (max (r_min (pn m p)) (min (r_max (pn m p)) x)) = max (s_minSize (pn m p)) (min (s_maxSize (pn m p)) (size_at m p x))"
    by (simp add: lo_def hi_def)
qed

lemma setSizeLimits_bounds:
  "parseSize (setSizeLimits p b l) p (o_minSize (op l p)) (dir_of_pane p) \<le> s_minSize (pn (setSizeLimits p b l) p)"
  "cssMinSize p (pn l p) \<le> s_minSize (pn (setSizeLimits p b l) p)"
proof -
  have "parseSize (setSizeLimits p b l) p z d = parseSize l p z d" for z d
    by (rule limits_cong(1)) (simp_all add: limit_reads_def limit_opts_def setSizeLimits_def Let_def upd_def)
  then show "parseSize (setSizeLimits p b l) p (o_minSize (op l p)) (dir_of_pane p) \<le> s_minSize (pn (setSizeLimits p b l) p)"
    "cssMinSize p (pn l p) \<le> s_minSize (pn (setSizeLimits p b l) p)"
    by (simp_all add: setSizeLimits_def Let_def)
qed

text \<open>A size within the limits is the size a resize without animation gives.\<close>

lemma run_size_to:
  assumes "layout_ok l" "p \<noteq> Center"
    and "0 \<le> frame_w (pn l p)" "frame_w (pn l p) \<le> 1000" "0 \<le> frame_h (pn l p)" "frame_h (pn l p) \<le> 1000"
    and "s_minSize (pn (setSizeLimits p None l) p) \<le> z" "z \<le> s_maxSize (pn (setSizeLimits p None l) p)"
  obtains l' where "run_size enqueue p (Num (of_int z)) k f True l = (Done, l')" "p_size (pn l' p) = z"
    "outer_in p (pn l' p) = z \<or> p_size (pn l p) = z"
proof -
  define m where "m = setSizeLimits p None l"
  have lo: "parseSize m p (o_minSize (op m p)) (dir_of_pane p) \<le> s_minSize (pn m p)" "1 \<le> s_minSize (pn m p)"
    using setSizeLimits_bounds [where p = p and b = None and l = l] assms(3-6)
    by (auto simp: m_def cssMinSize_def min_dim_w_def min_dim_h_def cssW_def cssH_def split: if_splits)
  have "1 \<le> z" using lo(2) assms(7) by (simp add: m_def)
  then have z: "parseSize m p (Num (of_int z)) (dir_of_pane p) = z" by (simp add: parseSize_def parse_num_def)
  have sz: "min (max z (parseSize m p (o_minSize (op m p)) (dir_of_pane p))) (s_maxSize (pn m p)) = z"
    using lo(1) assms(7,8) by (simp add: m_def)
  have "fst (run_size enqueue p (Num (of_int z)) k f True l) = Done"
    unfolding run_size_def Let_def m_def [symmetric] z sz using assms(7) by (simp add: m_def)
  then obtain l' where l': "run_size enqueue p (Num (of_int z)) k f True l = (Done, l')" by (metis prod.collapse)
  from run_size_exact [OF assms(1,2) l' assms(3-6)] have "p_size (pn l' p) = z" "outer_in p (pn l' p) = z \<or> l' = m"
    by (simp_all add: m_def [symmetric] z sz)
  moreover have "p_size (pn m p) = p_size (pn l p)" by (simp add: m_def)
  ultimately show ?thesis using that [OF l'] by auto
qed

lemma submit_once:
  assumes "queue l = []" "\<not> busy l" "run_job j (l\<lparr>queue := [], busy := True\<rparr>) = (Done, x)"
  shows "submit 1 j l = x\<lparr>busy := False\<rparr>"
  unfolding submit_def enqueue_def One_nat_def run_queue.simps(2) using assms by (simp del: run_job.simps)

lemma drag_stop_dl:
  assumes "cb (dl d) ''ondrag_end'' p \<noteq> CbFalse"
  shows "dl (drag_stop n p d) = manualSizePane n p (Num (of_int (size_at (dl d) p (d_pos d)))) False True
    (snd (runCallbacks ''ondrag_end'' p (upd p (\<lambda>s. s\<lparr>isResizing := False\<rparr>) (dl d))))"
proof -
  have "size_at (upd p f l) p x = size_at l p x" for f x and l :: layout by (cases p) (simp_all add: size_at_def)
  then show ?thesis using assms by (simp add: drag_stop_def resizePanes_def Let_def runCallbacks_def)
qed

text \<open>A drag whose end is accepted, and one whose end is refused.\<close>

lemma accepted_drag:
  assumes "drag_start p pos d = (True, d1)" "p \<noteq> Center" "layout_ok (dl d)" "queue (dl d) = []" "\<not> busy (dl d)"
    and "\<not> livePaneResizing (op (dl d) p)" "ps \<noteq> []" "cb (dl d) ''ondrag_end'' p \<noteq> CbFalse"
    and "0 \<le> frame_w (pn (dl d) p)" "frame_w (pn (dl d) p) \<le> 1000" "0 \<le> frame_h (pn (dl d) p)" "frame_h (pn (dl d) p) \<le> 1000"
    and "s_minSize (pn (dl d1) p) \<le> s_maxSize (pn (dl d1) p)" "l' = dl (drag_stop 1 p (fold (drag_move 1 p) ps d1))"
  shows "p_size (pn l' p) = max (s_minSize (pn (dl d1) p)) (min (s_maxSize (pn (dl d1) p)) (size_at (dl d) p (last ps)))
    \<and> (outer_in p (pn l' p) = p_size (pn l' p) \<or> p_size (pn l' p) = p_size (pn (dl d) p)) \<and> \<not> isResizing (pn l' p)"
proof -
  define a where "a = upd p (\<lambda>s. s\<lparr>isResizing := True, close_timer := False\<rparr>) (snd (runCallbacks ''ondrag_start'' p (dl d)))"
  define m where "m = setSizeLimits p None a"
  have d1: "dl d1 = m" "\<not> live d1" "d_min d1 = r_min (pn m p)" "d_max d1 = r_max (pn m p)"
    using assms(6) unfolding drag_start_go [OF assms(1)] by (simp_all add: drag_limits_def a_def m_def)
  define z where "z = max (s_minSize (pn m p)) (min (s_maxSize (pn m p)) (size_at (dl d) p (last ps)))"
  define e where "e = fold (drag_move 1 p) ps d1"
  have same: "sC m = sC (dl d)" "op m = op (dl d)" "cb m = cb (dl d)" "queue m = []" "\<not> busy m"
    using assms(4,5) by (simp_all add: m_def a_def setSizeLimits_def Let_def runCallbacks_def upd_def)
  have lim: "s_minSize (pn m p) \<le> s_maxSize (pn m p)" using assms(13) d1 by simp
  have at: "size_at l p x = size_at (dl d) p x" if "sC l = sC (dl d)" "op l = op (dl d)" for l x
    using that by (cases p) (simp_all add: size_at_def)
  have pos: "dl e = m" "size_at (dl d) p (d_pos e) = z"
  proof -
    note sp = size_of_position [OF assms(2), of a, folded m_def, OF lim]
    show "dl e = m" using moves_only_move(1) [OF d1(2) assms(7)] d1 by (simp add: e_def)
    have "d_pos e = max (r_min (pn m p)) (min (r_max (pn m p)) (last ps))"
      using moves_only_move(2) [OF d1(2) assms(7), of 1 p] sp(1) d1 by (simp add: e_def)
    then show "size_at (dl d) p (d_pos e) = z" using sp(2) [of "last ps"] at [OF same(1,2)] by (simp add: z_def)
  qed
  define L where "L = (snd (runCallbacks ''ondrag_end'' p (upd p (\<lambda>s. s\<lparr>isResizing := False\<rparr>) m)))
    \<lparr>op := (op m)(p := (op m p)\<lparr>autoResize := False\<rparr>), queue := [], busy := True\<rparr>"
  have L: "layout_ok L" "p_size (pn L p) = p_size (pn (dl d) p)" "\<not> isResizing (pn L p)"
    "frame_w (pn L p) = frame_w (pn (dl d) p)" "frame_h (pn L p) = frame_h (pn (dl d) p)"
    using assms(2,3) by (auto simp: L_def m_def a_def layout_ok_def flags_ok_def setSizeLimits_def Let_def runCallbacks_def)
  have lims: "s_minSize (pn (setSizeLimits p None L) p) = s_minSize (pn m p)" "s_maxSize (pn (setSizeLimits p None L) p) = s_maxSize (pn m p)"
    unfolding m_def by (rule limits_cong(2,3); simp add: L_def m_def a_def limit_reads_def limit_opts_def setSizeLimits_def Let_def runCallbacks_def)+
  have fr: "0 \<le> frame_w (pn L p)" "frame_w (pn L p) \<le> 1000" "0 \<le> frame_h (pn L p)" "frame_h (pn L p) \<le> 1000"
    using assms(9-12) L(4,5) by simp_all
  have zl: "s_minSize (pn (setSizeLimits p None L) p) \<le> z" "z \<le> s_maxSize (pn (setSizeLimits p None L) p)"
    using lim by (simp_all add: lims z_def)
  define k where "k = livePaneResizing (op m p)"
  obtain x where x: "run_size enqueue p (Num (of_int z)) False k True L = (Done, x)" "p_size (pn x p) = z"
    "outer_in p (pn x p) = z \<or> p_size (pn L p) = z"
    by (rule run_size_to [OF L(1) assms(2) fr zl])
  have "rsz x = rsz L" using rsz_kept [OF kqueued.kept_run_size [of p "Num (of_int z)" False k True L]] unfolding x(1) by simp
  then have nr: "\<not> isResizing (pn x p)" using L(3) by (metis rsz_def)
  have "dl (drag_stop 1 p e) = x\<lparr>busy := False\<rparr>"
  proof -
    define l1 where "l1 = snd (runCallbacks ''ondrag_end'' p (upd p (\<lambda>s. s\<lparr>isResizing := False\<rparr>) m))"
    have l1: "queue l1 = []" "\<not> busy l1" "op l1 = op m" "\<not> isResizing (pn l1 p)"
      using same by (simp_all add: l1_def runCallbacks_def)
    have "manualSizePane 1 p (Num (of_int z)) False True l1 = x\<lparr>busy := False\<rparr>"
      unfolding manualSizePane_def Let_def
    proof (rule submit_once)
      show "run_job (JSize p (Num (of_int z)) False (livePaneResizing (op l1 p) \<and> \<not> isResizing (pn l1 p)) True)
          (l1\<lparr>op := (op l1)(p := (op l1 p)\<lparr>autoResize := False\<rparr>), queue := [], busy := True\<rparr>) = (Done, x)"
        unfolding run_job.simps l1(3) using x(1) l1(4) unfolding k_def L_def l1_def [symmetric] by simp
    qed (simp_all add: l1)
    moreover have "cb (dl e) ''ondrag_end'' p \<noteq> CbFalse" using assms(8) by (simp add: pos(1) same(3))
    moreover have "size_at m p (d_pos e) = z" using at [OF same(1,2)] pos(2) by simp
    ultimately show ?thesis using drag_stop_dl [of e p 1] by (simp only: pos(1) l1_def not_False_eq_True True_implies_equals)
  qed
  then have l': "l' = x\<lparr>busy := False\<rparr>" unfolding assms(14) e_def .
  show ?thesis unfolding l' using x(2,3) L(2) nr by (auto simp: z_def d1)
qed

lemma drag_stop_refused:
  assumes "cb (dl d) ''ondrag_end'' p = CbFalse"
  shows "dl (drag_stop n p d) = snd (runCallbacks ''ondrag_end'' p (upd p (\<lambda>s. s\<lparr>isResizing := False\<rparr>) (dl d)))"
  using assms by (simp add: drag_stop_def resizePanes_def Let_def runCallbacks_def)

lemma refused_drag:
  assumes "drag_start p pos d = (True, d1)" "\<not> livePaneResizing (op (dl d) p)" "ps \<noteq> []" "cb (dl d) ''ondrag_end'' p = CbFalse"
    and "l' = dl (drag_stop 1 p (fold (drag_move 1 p) ps d1))"
  shows "p_size (pn l' p) = p_size (pn (dl d) p) \<and> outer_in p (pn l' p) = outer_in p (pn (dl d) p) \<and> \<not> isResizing (pn l' p)"
proof -
  have d1: "dl d1 = drag_limits p (dl d)" "\<not> live d1" using assms(2) unfolding drag_start_go [OF assms(1)] by simp_all
  have e: "dl (fold (drag_move 1 p) ps d1) = drag_limits p (dl d)"
    using moves_only_move(1) [OF d1(2) assms(3)] d1(1) by simp
  have "cb (drag_limits p (dl d)) = cb (dl d)"
    by (simp add: drag_limits_def setSizeLimits_def Let_def runCallbacks_def)
  then have "cb (dl (fold (drag_move 1 p) ps d1)) ''ondrag_end'' p = CbFalse" using assms(4) by (simp only: e)
  then have "l' = snd (runCallbacks ''ondrag_end'' p (upd p (\<lambda>s. s\<lparr>isResizing := False\<rparr>) (drag_limits p (dl d))))"
    unfolding assms(5) by (simp only: drag_stop_refused e)
  then show ?thesis by (simp add: drag_limits_def setSizeLimits_def Let_def runCallbacks_def
        outer_in_def outerWidth_def outerHeight_def)
qed

text \<open>C33. A drag sets the size it shows.  Take a pane that is not resized live, while the queue of actions
  is idle, with a frame of 0 to 1000 pixels and with a smallest size no larger than the largest one
  at the start of the drag.  Wherever its resizer is taken, when it is let go and \<open>ondrag_end\<close> does not refuse, the
  pane has the size of that place, put between the limits of the start of the drag, and its element has
  that size unless the pane had it before.  When \<open>ondrag_end\<close> refuses, the pane and its element keep
  the size they had.  Either way it no longer counts as being resized.\<close>

theorem drag_sets_size:
  assumes "drag_start p pos d = (True, d1)" "p \<noteq> Center" "layout_ok (dl d)" "queue (dl d) = []" "\<not> busy (dl d)"
    and "\<not> livePaneResizing (op (dl d) p)" "ps \<noteq> []"
    and "0 \<le> frame_w (pn (dl d) p)" "frame_w (pn (dl d) p) \<le> 1000" "0 \<le> frame_h (pn (dl d) p)" "frame_h (pn (dl d) p) \<le> 1000"
    and "s_minSize (pn (dl d1) p) \<le> s_maxSize (pn (dl d1) p)" "l' = dl (drag_stop 1 p (fold (drag_move 1 p) ps d1))"
  shows "(cb (dl d) ''ondrag_end'' p \<noteq> CbFalse \<longrightarrow>
        p_size (pn l' p) = max (s_minSize (pn (dl d1) p)) (min (s_maxSize (pn (dl d1) p)) (size_at (dl d) p (last ps)))
        \<and> (outer_in p (pn l' p) = p_size (pn l' p) \<or> p_size (pn l' p) = p_size (pn (dl d) p)))
    \<and> (cb (dl d) ''ondrag_end'' p = CbFalse \<longrightarrow>
        p_size (pn l' p) = p_size (pn (dl d) p) \<and> outer_in p (pn l' p) = outer_in p (pn (dl d) p))
    \<and> \<not> isResizing (pn l' p)"
  using accepted_drag [OF assms(1-7) _ assms(8-13)] refused_drag [OF assms(1,6,7) _ assms(13)] by blast

definition demo_drag :: dragging where
  "demo_drag = \<lparr>dl = demo,
     mo = (\<lambda>q. \<lparr>maskContents = q = Center, maskObjects = False, maskZindex = 7, liveResizingTolerance = 1, paneIsIframe = False,
              offsetTop = 10, offsetLeft = 10\<rparr>),
     zs = \<lparr>pane_normal = 0, content_mask = 1, pane_sliding = 100\<rparr>, masks = [], d_min = 0, d_max = 0, d_pos = 0, lastPos = 0,
     live = False, at_limit = 0, drag_class = False, selectable = True\<rparr>"

lemmas demo_drag_simps = demo_drag_def demo_def demo_pane_def demo_opts_def

lemma demo_drag_start: "fst (drag_start West 110 demo_drag)"
  by (simp add: drag_start_def runCallbacks_def demo_drag_simps Let_def)

lemma demo_dragging:
  "dl (snd (drag_start West 110 demo_drag)) = drag_limits West demo" "\<not> live (snd (drag_start West 110 demo_drag))"
proof -
  have "drag_start West 110 demo_drag = (True, snd (drag_start West 110 demo_drag))"
    using demo_drag_start by (simp add: prod_eq_iff)
  note e = drag_start_go [OF this]
  show "dl (snd (drag_start West 110 demo_drag)) = drag_limits West demo" by (subst e) (simp add: demo_drag_def)
  show "\<not> live (snd (drag_start West 110 demo_drag))" by (subst e) (simp add: demo_drag_simps)
qed

theorem drag_is_masked_witness:
  "covered Center (snd (drag_start West 110 demo_drag))
    \<and> \<not> (\<exists>m \<in> set (masks (drag_stop 0 West (fold (drag_move 0 West) [150] (snd (drag_start West 110 demo_drag))))). m_shown m)"
proof -
  have 1: "drag_start West 110 demo_drag = (True, snd (drag_start West 110 demo_drag))"
    using demo_drag_start by (simp add: prod_eq_iff)
  have 2: "few_masks demo_drag" by (simp add: few_masks_def demo_drag_def)
  have "dl (fold (drag_move 0 West) [150] (snd (drag_start West 110 demo_drag))) = drag_limits West demo"
    using moves_only_move(1) [OF demo_dragging(2), of "[150]" 0 West] demo_dragging(1) by simp
  then have 3: "\<not> isSliding (pn (dl (drag_stop 0 West (fold (drag_move 0 West) [150] (snd (drag_start West 110 demo_drag))))) West)"
    by (simp add: drag_stop_def resizePanes_def Let_def runCallbacks_def manualSizePane_def submit_def enqueue_def
        demo_def demo_pane_def del: fold.simps fold_simps)
  show ?thesis
    using drag_is_masked [OF 1 _ _ _ 2 refl _ 3, of Center] by (simp add: drag_masks_def demo_drag_simps del: fold.simps fold_simps)
qed

theorem drag_sets_size_witness:
  "p_size (pn (dl (drag_stop 1 West (fold (drag_move 1 West) [900, 200] (snd (drag_start West 110 demo_drag))))) West) = 190"
proof -
  have 1: "drag_start West 110 demo_drag = (True, snd (drag_start West 110 demo_drag))"
    using demo_drag_start by (simp add: prod_eq_iff)
  have 2: "s_minSize (pn (drag_limits West demo) West) = 50" "s_maxSize (pn (drag_limits West demo) West) = 638" by code_simp+
  have 3: "layout_ok (dl demo_drag)" using demo_ok by (simp add: demo_drag_def)
  have 4: "size_at (dl demo_drag) West 200 = 190" by (simp add: size_at_def inset_def demo_drag_simps)
  show ?thesis
    using drag_sets_size [OF 1 _ 3 _ _ _ _ _ _ _ _ _ refl, of "[900, 200]"] 4
    unfolding demo_dragging(1) 2 by (simp add: demo_drag_simps del: fold.simps fold_simps)
qed

end
