(* ===== verification/LayoutContent.thy ===== *)
theory LayoutContent
  imports LayoutProps
begin

text \<open>
  The content element of a pane of \<open>lib/jquery.layout.js\<close>: it takes the height that the elements above
  and below it leave in the pane.  The browser flows the footers after the content, so each keeps its
  distance from the bottom of a content that is displayed; of one that is not it reports the offset
  zero, and the footers move up.  What it measures while the pane lets its contents overflow may
  differ from what it measures otherwise.
\<close>

section \<open>Elements and measures\<close>

record footer =
  f_ignored :: bool
  f_visible :: bool
  f_off :: int
  f_topAlone :: int
  f_height :: int
  f_marginBottom :: int

record content_el =
  ce_top :: int
  ce_height :: int
  ce_frame :: int
  ce_innerWidth :: int
  ce_marginBottom :: int
  ce_shown :: bool
  ce_autoHidden :: bool
  footers :: "bool \<Rightarrow> footer list"

record measures =
  m_top :: int
  m_height :: int
  numFooters :: nat
  hiddenFooters :: nat
  spaceAbove :: int
  spaceBelow :: int

text \<open>A pane with its content: \<open>cp_measures\<close> is \<open>state.content\<close>, an object without keys at first.\<close>

record content_pane =
  cp_pane :: pane
  cp_content :: "content_el option"
  cp_measures :: "measures option"
  cp_innerHeight :: int
  cp_paddingTop :: int
  cp_paddingBottom :: int
  cp_overflowHidden :: bool
  liveContentResizing :: bool

definition below :: "content_pane \<Rightarrow> int \<Rightarrow> int" where
  "below c margin = max (cp_paddingBottom c) margin"

definition live_footers :: "bool \<Rightarrow> content_el \<Rightarrow> footer list" where
  "live_footers overflowing e = filter (\<lambda>f. \<not> f_ignored f) (footers e overflowing)"

definition visible_footers :: "bool \<Rightarrow> content_el \<Rightarrow> footer list" where
  "visible_footers overflowing e = filter f_visible (live_footers overflowing e)"

definition offset_top :: "content_el \<Rightarrow> int" where
  "offset_top e = (if ce_shown e then ce_top e else 0)"

definition footer_top :: "content_el \<Rightarrow> footer \<Rightarrow> int" where
  "footer_top e f = (if ce_shown e then ce_top e + ce_height e + f_off f else f_topAlone f)"

definition space_below :: "content_pane \<Rightarrow> bool \<Rightarrow> content_el \<Rightarrow> int" where
  "space_below c overflowing e =
     (case visible_footers overflowing e of
        [] \<Rightarrow> below c (ce_marginBottom e)
      | f # fs \<Rightarrow>
          (let g = last (f # fs)
           in footer_top e g + f_height g - (offset_top e + ce_height e) + below c (f_marginBottom g)))"

definition measure_content :: "content_pane \<Rightarrow> bool \<Rightarrow> content_el \<Rightarrow> measures" where
  "measure_content c overflowing e =
     \<lparr>m_top = offset_top e, m_height = ce_height e, numFooters = length (live_footers overflowing e),
      hiddenFooters = length (live_footers overflowing e) - length (visible_footers overflowing e),
      spaceAbove = offset_top e, spaceBelow = space_below c overflowing e\<rparr>"

section \<open>Sizing\<close>

definition cssH_el :: "content_el \<Rightarrow> int \<Rightarrow> int" where
  "cssH_el e h = (if h \<le> 0 then 0 else max 0 (h - ce_frame e))"

text \<open>\<open>setOuterHeight\<close> with \<open>autoHide\<close>.\<close>

definition setOuterHeight :: "int \<Rightarrow> content_el \<Rightarrow> content_el" where
  "setOuterHeight outer e =
     (let h = cssH_el e outer; e1 = e\<lparr>ce_height := h + ce_frame e\<rparr>
      in if h > 0 \<and> ce_innerWidth e > 0
         then (if ce_autoHidden e then e1\<lparr>ce_shown := True, ce_autoHidden := False\<rparr> else e1)
         else (if \<not> ce_autoHidden e then e1\<lparr>ce_shown := False, ce_autoHidden := True\<rparr> else e1))"

text \<open>The measures of one call: new ones, taken again with overflow when some footer is hidden, or those kept in the state.\<close>

definition call_measures :: "bool \<Rightarrow> layout \<Rightarrow> content_pane \<Rightarrow> content_el \<Rightarrow> measures" where
  "call_measures remeasure l c e =
     (let s = pn l (cp_pane c); fresh = measure_content c False e
      in case cp_measures c of
           Some m \<Rightarrow>
             if \<not> isMoving s \<and> \<not> isResizing s \<or> liveContentResizing c \<or> remeasure
             then (if hiddenFooters fresh > 0 \<and> cp_overflowHidden c then measure_content c True e else fresh)
             else m
         | None \<Rightarrow> if hiddenFooters fresh > 0 \<and> cp_overflowHidden c then measure_content c True e else fresh)"

definition content_height :: "content_pane \<Rightarrow> measures \<Rightarrow> int" where
  "content_height c m = cp_innerHeight c - (spaceAbove m - cp_paddingTop c) - (spaceBelow m - cp_paddingBottom c)"

definition sizeContent :: "bool \<Rightarrow> layout \<Rightarrow> content_pane \<Rightarrow> layout \<times> content_pane" where
  "sizeContent remeasure l c =
     (case cp_content c of
        None \<Rightarrow> (l, c)
      | Some e \<Rightarrow>
          if \<not> present (pn l (cp_pane c)) \<or> \<not> shown (pn l (cp_pane c)) then (l, c)
          else (case runCallbacks ''onsizecontent_start'' (cp_pane c) l of
                  (CbFalse, l1) \<Rightarrow> (l1, c)
                | (_, l1) \<Rightarrow>
                    (let m = call_measures remeasure l1 c e; newH = content_height c m;
                         c1 = (if \<not> ce_shown e \<or> m_height m \<noteq> newH then c\<lparr>cp_content := Some (setOuterHeight newH e)\<rparr> else c)
                     in (if initialized l1 then fire ''onsizecontent_end'' (cp_pane c) l1 else l1, c1))))"

text \<open>\<open>initContent\<close> starts the measures of a pane; \<open>found\<close> is the element of its selector.\<close>

definition initContent :: "bool \<Rightarrow> content_el option \<Rightarrow> layout \<Rightarrow> content_pane \<Rightarrow> layout \<times> content_pane" where
  "initContent resize found l c =
     (case found of
        None \<Rightarrow> (l, c\<lparr>cp_content := None\<rparr>)
      | Some e \<Rightarrow>
          (let c1 = c\<lparr>cp_content := Some e, cp_measures := None\<rparr>
           in if resize then sizeContent False l c1 else (l, c1)))"

section \<open>The content fits\<close>

lemma sizeContent_keeps:
  "cp_measures (snd (sizeContent r l c)) = cp_measures c" "cp_innerHeight (snd (sizeContent r l c)) = cp_innerHeight c"
  "liveContentResizing (snd (sizeContent r l c)) = liveContentResizing c"
  by (simp_all add: sizeContent_def runCallbacks_def Let_def split: option.split cbret.split)

lemma initContent_measures: "initContent resize (Some e) l c = (l', c') \<Longrightarrow> cp_measures c' = None"
  using sizeContent_keeps(1) [of False l "c\<lparr>cp_content := Some e, cp_measures := None\<rparr>"]
  by (auto simp: initContent_def Let_def split: if_splits)

lemma below_live [simp]: "below (c\<lparr>liveContentResizing := b\<rparr>) x = below c x"
  by (simp add: below_def)

lemma space_below_live [simp]: "space_below (c\<lparr>liveContentResizing := b\<rparr>) o' e = space_below c o' e"
  by (simp add: space_below_def Let_def split: list.split)

text \<open>The measures are never kept, so they are taken anew in every call, also when the option says not to.\<close>

lemma measures_always_anew:
  assumes "cp_measures c = None"
  shows "call_measures r l c e = (if hiddenFooters (measure_content c False e) > 0 \<and> cp_overflowHidden c
      then measure_content c True e else measure_content c False e)"
    and "call_measures r l c e = call_measures r' l' (c\<lparr>liveContentResizing := b\<rparr>) e"
  using assms by (simp_all add: call_measures_def Let_def measure_content_def)

text \<open>The space below a displayed content does not depend on its height.\<close>

lemma space_below_shown:
  assumes "ce_shown e" "ce_shown e'" "e' = e\<lparr>ce_height := h, ce_shown := True, ce_autoHidden := y\<rparr>"
  shows "space_below c b e' = space_below c b e"
  using assms by (simp add: space_below_def visible_footers_def live_footers_def footer_top_def offset_top_def Let_def split: list.split)

lemma sizeContent_runs:
  assumes "cp_content c = Some e" "present (pn l (cp_pane c))" "shown (pn l (cp_pane c))"
    and "cb l ''onsizecontent_start'' (cp_pane c) \<noteq> CbFalse" "cp_measures c = None"
    and "hiddenFooters (measure_content c False e) = 0 \<or> \<not> cp_overflowHidden c"
  defines "m \<equiv> measure_content c False e"
  shows "cp_content (snd (sizeContent remeasure l c)) =
    Some (if \<not> ce_shown e \<or> ce_height e \<noteq> content_height c m then setOuterHeight (content_height c m) e else e)"
proof -
  have m: "call_measures remeasure l' c e = m" for l' using measures_always_anew(1) [OF assms(5)] assms(6) by (auto simp: m_def)
  have "m_height m = ce_height e" by (simp add: m_def measure_content_def)
  then show ?thesis
    using assms(1-4) by (cases "cb l ''onsizecontent_start'' (cp_pane c)") (simp_all add: sizeContent_def runCallbacks_def Let_def m)
qed

text \<open>C34. The content of a pane fits.  Take a pane that is there and shown, whose content is displayed and
  whose room no callback refuses to measure afresh; no footer is hidden below it, or the pane does not hide
  what overflows, so that nothing is measured twice; and the height does change.  After \<open>sizeContent\<close> the content
  ends, with the footers below it, where the inside of the pane ends; or it is hidden, because no more
  than its frame was left for it.\<close>

theorem content_fits_pane:
  assumes "cp_content c = Some e" "present (pn l (cp_pane c))" "shown (pn l (cp_pane c))"
    and "cb l ''onsizecontent_start'' (cp_pane c) \<noteq> CbFalse" "cp_measures c = None"
    and "hiddenFooters (measure_content c False e) = 0 \<or> \<not> cp_overflowHidden c"
    and "ce_shown e" "\<not> ce_autoHidden e" "0 \<le> ce_frame e" "0 < ce_innerWidth e"
    and "cp_content (snd (sizeContent remeasure l c)) = Some e'" "ce_height e \<noteq> content_height c (measure_content c False e)"
  shows "if content_height c (measure_content c False e) \<le> ce_frame e then \<not> ce_shown e' \<and> ce_autoHidden e'
    else ce_shown e' \<and> ce_top e' + ce_height e' + space_below c False e' = cp_paddingTop c + cp_innerHeight c + cp_paddingBottom c"
proof -
  define h where "h = content_height c (measure_content c False e)"
  have e': "e' = setOuterHeight h e"
    using sizeContent_runs [OF assms(1-6), of remeasure] assms(11,12) by (simp add: h_def)
  show ?thesis
  proof (cases "h \<le> ce_frame e")
    case True
    then have "cssH_el e h = 0" using assms(9) by (simp add: cssH_el_def)
    then show ?thesis using True assms(8) by (simp add: e' h_def [symmetric] setOuterHeight_def)
  next
    case False
    then have "cssH_el e h = h - ce_frame e" "0 < cssH_el e h" using assms(9) by (simp_all add: cssH_el_def)
    then have 1: "e' = e\<lparr>ce_height := h, ce_shown := True, ce_autoHidden := False\<rparr>"
      using assms(7,8,10) by (simp add: e' setOuterHeight_def)
    have "space_below c False e' = space_below c False e" by (rule space_below_shown [OF assms(7) _ 1]) (simp add: 1)
    then show ?thesis using False assms(7)
      by (simp add: h_def [symmetric], simp add: 1 h_def content_height_def measure_content_def offset_top_def)
  qed
qed

text \<open>A content that comes back is too high.  Of a content it has hidden for lack of room the script
  measures the offset zero, so when there is room again the content covers the elements above it once
  more and runs over the end of the pane by as much as they take.\<close>

theorem hidden_content_overflows:
  assumes "cp_content c = Some e" "present (pn l (cp_pane c))" "shown (pn l (cp_pane c))"
    and "cb l ''onsizecontent_start'' (cp_pane c) \<noteq> CbFalse" "cp_measures c = None"
    and "\<not> ce_shown e" "ce_autoHidden e" "0 < ce_innerWidth e" "0 \<le> ce_frame e"
    and "live_footers False e = []" "ce_frame e < content_height c (measure_content c False e)"
    and "cp_content (snd (sizeContent remeasure l c)) = Some e'"
  shows "ce_shown e' \<and> ce_top e' + ce_height e' + space_below c False e' = cp_paddingTop c + cp_innerHeight c + cp_paddingBottom c + ce_top e"
proof -
  define h where "h = content_height c (measure_content c False e)"
  have "hiddenFooters (measure_content c False e) = 0" using assms(10) by (simp add: measure_content_def)
  then have e': "e' = setOuterHeight h e"
    using sizeContent_runs [OF assms(1-5), of remeasure] assms(6,12) by (simp add: h_def)
  have "cssH_el e h = h - ce_frame e" "0 < cssH_el e h" using assms(9,11) by (simp_all add: cssH_el_def h_def)
  then have 1: "e' = e\<lparr>ce_height := h, ce_shown := True, ce_autoHidden := False\<rparr>"
    using assms(7,8) by (simp add: e' setOuterHeight_def)
  have "space_below c False x = below c (ce_marginBottom e)" if "live_footers False x = []" "ce_marginBottom x = ce_marginBottom e" for x
    using that by (simp add: space_below_def visible_footers_def)
  moreover have "live_footers False e' = []" "ce_marginBottom e' = ce_marginBottom e"
    using assms(10) by (simp_all add: 1 live_footers_def)
  ultimately have "space_below c False e' = below c (ce_marginBottom e)" "space_below c False e = below c (ce_marginBottom e)"
    using assms(10) by blast+
  then show ?thesis using assms(6) by (simp add: 1 h_def content_height_def measure_content_def offset_top_def)
qed

definition demo_content :: "bool \<Rightarrow> content_pane" where
  "demo_content b = \<lparr>cp_pane = West,
     cp_content = Some \<lparr>ce_top = 30, ce_height = 100, ce_frame = 2, ce_innerWidth = 80, ce_marginBottom = 0, ce_shown = b,
                        ce_autoHidden = \<not> b, footers = (\<lambda>_. [])\<rparr>,
     cp_measures = None, cp_innerHeight = 378, cp_paddingTop = 5, cp_paddingBottom = 5, cp_overflowHidden = False,
     liveContentResizing = False\<rparr>"

theorem content_fits_pane_witness:
  "map_option ce_height (cp_content (snd (sizeContent False demo (demo_content True)))) = Some 353"
proof -
  obtain e where e: "cp_content (demo_content True) = Some e" "ce_shown e" "\<not> ce_autoHidden e" "ce_frame e = 2" "ce_innerWidth e = 80"
    "ce_height e = 100" "ce_top e = 30" "content_height (demo_content True) (measure_content (demo_content True) False e) = 353"
    "hiddenFooters (measure_content (demo_content True) False e) = 0"
    by (simp add: demo_content_def content_height_def measure_content_def space_below_def visible_footers_def live_footers_def below_def offset_top_def)
  obtain e' where e': "cp_content (snd (sizeContent False demo (demo_content True))) = Some e'"
    using sizeContent_runs [OF e(1), of demo False] e by (auto simp: demo_def demo_pane_def demo_content_def)
  have s: "space_below (demo_content True) False e' = 5" if "ce_marginBottom e' = 0" "footers e' = (\<lambda>_. [])"
    using that by (simp add: space_below_def visible_footers_def live_footers_def below_def demo_content_def)
  have "present (pn demo West)" "shown (pn demo West)" "cb demo s' West \<noteq> CbFalse" for s' by (simp_all add: demo_def demo_pane_def)
  with content_fits_pane [OF e(1) _ _ _ _ _ e(2,3) _ _ e'] e
  have f: "ce_top e' + ce_height e' + space_below (demo_content True) False e' = 388" by (simp add: demo_content_def)
  have "e' = setOuterHeight 353 e" using sizeContent_runs [OF e(1), of demo False] e e' by (simp add: demo_def demo_pane_def demo_content_def)
  then have "ce_top e' = 30" "ce_marginBottom e' = 0" "footers e' = (\<lambda>_. [])" using e(1)
    by (auto simp: setOuterHeight_def Let_def demo_content_def)
  then show ?thesis using f s e' by simp
qed

theorem hidden_content_overflows_witness:
  "map_option ce_height (cp_content (snd (sizeContent False demo (demo_content False)))) = Some 383"
proof -
  obtain e where e: "cp_content (demo_content False) = Some e" "\<not> ce_shown e" "ce_autoHidden e" "ce_frame e = 2" "ce_innerWidth e = 80"
    "live_footers False e = []" "ce_top e = 30" "content_height (demo_content False) (measure_content (demo_content False) False e) = 383"
    "hiddenFooters (measure_content (demo_content False) False e) = 0"
    by (simp add: demo_content_def content_height_def measure_content_def space_below_def visible_footers_def live_footers_def below_def offset_top_def)
  obtain e' where e': "cp_content (snd (sizeContent False demo (demo_content False))) = Some e'"
    using sizeContent_runs [OF e(1), of demo False] e by (auto simp: demo_def demo_pane_def demo_content_def)
  have p: "present (pn demo West)" "shown (pn demo West)" "cb demo s' West \<noteq> CbFalse" for s' by (simp_all add: demo_def demo_pane_def)
  have "ce_top e' + ce_height e' + space_below (demo_content False) False e' = 418"
    using hidden_content_overflows [OF e(1) _ _ _ _ e(2,3) _ _ e(6) _ e'] e p by (simp add: demo_content_def)
  moreover have "e' = setOuterHeight 383 e" using sizeContent_runs [OF e(1), of demo False] e e' p by (simp add: demo_content_def)
  then have "ce_top e' = 30" "space_below (demo_content False) False e' = 5" using e(1)
    by (auto simp: setOuterHeight_def Let_def demo_content_def space_below_def visible_footers_def live_footers_def below_def)
  ultimately show ?thesis using e' by simp
qed

end
