(* ===== verification/LayoutElems.thy ===== *)
theory LayoutElems
  imports LayoutProps "HOL-Library.AList"
begin

text \<open>
  What \<open>lib/jquery.layout.js\<close> does to the elements of a page: it saves the inline styles of the container
  and of the panes, dresses them with classes, styles, data and events, and undresses them when a pane
  is removed or the layout is destroyed.  A style is a function from property names; the shorthands
  \<open>margin\<close>, \<open>padding\<close> and \<open>border\<close> set their parts.  Only the events of the layout's own name space are
  kept here, and the demo styles are left out.
\<close>

section \<open>Styles\<close>

datatype css_value = Px int | Txt string

type_synonym style = "string \<Rightarrow> css_value"

definition css_sides :: "string list" where
  "css_sides = [''Top'', ''Bottom'', ''Left'', ''Right'']"

definition css_attrs :: "string list" where
  "css_attrs = [''Color'', ''Style'', ''Width'']"

definition shorthands :: "string list" where
  "shorthands = [''border'', ''padding'', ''margin'']"

definition longhands :: "string \<Rightarrow> string list" where
  "longhands p =
     (if list_ex (\<lambda>s. suffix s p) shorthands
      then concat (map (\<lambda>s. if p = ''border'' then map (\<lambda>a. p @ s @ a) css_attrs else [p @ s]) css_sides)
      else [p])"

definition css_keys :: "string \<Rightarrow> string list" where
  "css_keys props = concat (map longhands (js_split (CHR '','') props))"

definition getElementCSS :: "style \<Rightarrow> string \<Rightarrow> (string \<times> css_value) list" where
  "getElementCSS st props = map (\<lambda>k. (k, st k)) (css_keys props)"

definition css_prop :: "string \<times> css_value \<Rightarrow> style \<Rightarrow> style" where
  "css_prop pv st =
     (let (p, v) = pv
      in if p = ''border'' then fold (\<lambda>s st. st(p @ s @ ''Style'' := v, p @ s @ ''Width'' := Txt ''initial'', p @ s @ ''Color'' := Txt ''initial'')) css_sides st
         else if p \<in> set shorthands then fold (\<lambda>s st. st(p @ s := v)) css_sides st
         else st(p := v))"

definition css_on :: "(string \<times> css_value) list \<Rightarrow> style \<Rightarrow> style" where
  "css_on pvs st = fold css_prop pvs st"

section \<open>Elements\<close>

text \<open>\<open>el_nested\<close> is the data \<open>layout\<close>, which an element has that is the container of a layout.\<close>

record el =
  el_style :: style
  el_classes :: "string list"
  el_saved :: "(string \<times> css_value) list option"
  el_edge :: "string option"
  el_role :: "string option"
  el_parent :: bool
  el_alias :: bool
  el_nested :: "nat option"
  el_container :: bool
  el_autoHidden :: bool
  el_events :: "(string \<times> string) list"

record pane_setup =
  paneClass :: string
  pane_zIndex :: int
  showOverflowOnHover :: bool

definition pane_props :: string where
  "pane_props = ''position,top,left,bottom,right,width,height,overflow,zIndex,display,backgroundColor,padding,margin,border''"

definition cssReq :: "pane \<Rightarrow> (string \<times> css_value) list" where
  "cssReq p =
     [(''position'', Txt ''absolute''), (''margin'', Px 0)] @
     (case p of
        North \<Rightarrow> [(''top'', Px 0), (''bottom'', Txt ''auto''), (''left'', Px 0), (''right'', Px 0), (''width'', Txt ''auto'')]
      | South \<Rightarrow> [(''top'', Txt ''auto''), (''bottom'', Px 0), (''left'', Px 0), (''right'', Px 0), (''width'', Txt ''auto'')]
      | East \<Rightarrow> [(''left'', Txt ''auto''), (''right'', Px 0), (''top'', Txt ''auto''), (''bottom'', Txt ''auto''), (''height'', Txt ''auto'')]
      | West \<Rightarrow> [(''left'', Px 0), (''right'', Txt ''auto''), (''top'', Txt ''auto''), (''bottom'', Txt ''auto''), (''height'', Txt ''auto'')]
      | Center \<Rightarrow> [(''left'', Txt ''auto''), (''right'', Txt ''auto''), (''top'', Txt ''auto''), (''bottom'', Txt ''auto''),
                   (''height'', Txt ''auto''), (''width'', Txt ''auto'')])"

text \<open>The events of a pane and the methods of the layout they call; a method that is missing binds nothing.\<close>

definition paneMethods :: "(string \<times> string) list" where
  "paneMethods =
     [(''hide'', ''''), (''show'', ''''), (''toggle'', ''''), (''close'', ''''), (''open'', ''''), (''slideOpen'', ''''), (''slideClose'', ''''),
      (''slideToggle'', ''''), (''size'', ''sizePane''), (''sizePane'', ''sizePane''), (''sizeContent'', ''''), (''sizeHandles'', ''''),
      (''enableClosable'', ''''), (''disableClosable'', ''''), (''enableSlideable'', ''''), (''disableSlideable'', ''''),
      (''enableResizable'', ''''), (''disableResizable'', ''''), (''swapPanes'', ''swapPanes''), (''swap'', ''swapPanes''),
      (''move'', ''swapPanes''), (''removePane'', ''removePane''), (''remove'', ''removePane''), (''createChildLayout'', ''''),
      (''resizeChildLayout'', ''''), (''resizeAll'', ''resizeAll''), (''resizeLayout'', ''resizeAll'')]"

definition instance_methods :: "string list" where
  "instance_methods =
     [''hide'', ''show'', ''toggle'', ''open'', ''close'', ''slideOpen'', ''slideClose'', ''slideToggle'', ''setSizeLimits'', ''_sizePane'',
      ''sizePane'', ''sizeContent'', ''swapPanes'', ''showMasks'', ''hideMasks'', ''initContent'', ''addPane'', ''removePane'',
      ''createChildLayout'', ''enableClosable'', ''disableClosable'', ''enableSlidable'', ''disableSlidable'', ''enableResizable'',
      ''disableResizable'', ''allowOverflow'', ''resetOverflow'', ''destroy'', ''initPanes'', ''resizeAll'', ''runCallbacks'']"

definition bound_methods :: "string \<Rightarrow> (string \<times> string) list \<Rightarrow> (string \<times> string) list" where
  "bound_methods pre ms =
     filter (\<lambda>(e, m). m \<in> set instance_methods) (map (\<lambda>(n, m). (pre @ js_lower n, if m = [] then n else m)) ms)"

definition save_css :: "string \<Rightarrow> el \<Rightarrow> el" where
  "save_css props e = (case el_saved e of None \<Rightarrow> e\<lparr>el_saved := Some (getElementCSS (el_style e) props)\<rparr> | Some _ \<Rightarrow> e)"

definition dress_pane :: "pane_setup \<Rightarrow> pane \<Rightarrow> el \<Rightarrow> el" where
  "dress_pane u p e0 =
     (let e = save_css pane_props e0
      in e\<lparr>el_parent := True, el_alias := True, el_edge := Some (pane_name p), el_role := Some ''pane'',
           el_style := css_on [(''zIndex'', Px (pane_zIndex u))] (css_on (cssReq p) (el_style e)),
           el_classes := addClasses [paneClass u, paneClass u @ ''-'' @ pane_name p] (el_classes e),
           el_events := el_events e @ [(''mouseenter'', ''addHover''), (''mouseleave'', ''removeHover'')] @ bound_methods ''layoutpane'' paneMethods\<rparr>)"

text \<open>The place of a pane: the insets of the container, and the size in its own direction (\<open>v\<close>, in CSS).\<close>

definition place_css :: "container \<Rightarrow> pane \<Rightarrow> int \<Rightarrow> (string \<times> css_value) list" where
  "place_css c p v =
     (case p of
        North \<Rightarrow> [(''top'', Px (insetTop c)), (''left'', Px (insetLeft c)), (''right'', Px (insetRight c)), (''height'', Px v)]
      | South \<Rightarrow> [(''bottom'', Px (insetBottom c)), (''left'', Px (insetLeft c)), (''right'', Px (insetRight c)), (''height'', Px v)]
      | West \<Rightarrow> [(''left'', Px (insetLeft c)), (''width'', Px v)]
      | East \<Rightarrow> [(''right'', Px (insetRight c)), (''width'', Px v)]
      | Center \<Rightarrow> [])"

definition place_pane :: "container \<Rightarrow> pane \<Rightarrow> int \<Rightarrow> bool \<Rightarrow> el \<Rightarrow> el" where
  "place_pane c p v visible e =
     e\<lparr>el_style := css_on ((if visible then [(''display'', Txt ''block'')] else []) @ [(''visibility'', Txt ''visible'')])
         (css_on (place_css c p v) (el_style e))\<rparr>"

text \<open>Hover classes of a pane, of which \<open>removePane\<close> merges the single characters into its list.\<close>

definition pane_hover :: "pane_setup \<Rightarrow> pane \<Rightarrow> el \<Rightarrow> bool \<Rightarrow> string list" where
  "pane_hover u p e allStates = getHoverClasses (paneClass u) p ((paneClass u @ ''-closed'') \<in> set (el_classes e)) False allStates"

definition addHover :: "pane_setup \<Rightarrow> pane \<Rightarrow> el \<Rightarrow> el" where
  "addHover u p e = e\<lparr>el_classes := addClasses (pane_hover u p e False) (el_classes e)\<rparr>"

definition pane_classes :: "pane_setup \<Rightarrow> pane \<Rightarrow> string list" where
  "pane_classes u p =
     (let base = paneClass u; side = base @ ''-'' @ pane_name p
      in [base, base @ ''-open'', base @ ''-closed'', base @ ''-sliding'', side, side @ ''-open'', side @ ''-closed'', side @ ''-sliding''])"

definition merged_chars :: "string \<Rightarrow> string list" where
  "merged_chars s = map (\<lambda>c. [c]) s"

definition restore_css :: "el \<Rightarrow> el" where
  "restore_css e = e\<lparr>el_style := (case el_saved e of Some pvs \<Rightarrow> css_on pvs (el_style e) | None \<Rightarrow> el_style e), el_saved := None\<rparr>"

definition undress_pane :: "pane_setup \<Rightarrow> pane \<Rightarrow> el \<Rightarrow> el" where
  "undress_pane u p e =
     (let classes = pane_classes u p @ merged_chars (js_join '' '' (pane_hover u p e True));
          e1 = e\<lparr>el_classes := removeClasses classes (el_classes e), el_parent := False, el_alias := False, el_role := None,
                 el_edge := None, el_autoHidden := False, el_events := []\<rparr>
      in if el_nested e1 = None then restore_css e1 else e1)"

section \<open>The container\<close>

definition body_props :: string where
  "body_props = ''overflow,position,margin,padding,border''"

definition container_props :: string where
  "container_props = body_props @ '',top,bottom,left,right,width,height,overflow,overflowX,overflowY''"

definition layoutMethods :: "(string \<times> string) list" where
  "layoutMethods = [(''destroy'', ''''), (''initPanes'', ''''), (''resizeAll'', ''resizeAll''), (''resize'', ''resizeAll'')]"

definition scrolls :: "(string \<Rightarrow> css_value) \<Rightarrow> (string \<times> css_value) list" where
  "scrolls computed = [(''overflow'', computed ''overflow''), (''overflowX'', computed ''overflowX''), (''overflowY'', computed ''overflowY'')]"

definition no_scroll :: "(string \<times> css_value) list" where
  "no_scroll = scrolls (\<lambda>_. Txt ''hidden'')"

definition is_positioned :: "css_value \<Rightarrow> bool" where
  "is_positioned v = (v \<in> {Txt ''fixed'', Txt ''absolute'', Txt ''relative''})"

record page_root =
  root_el :: el
  html_el :: el
  full_page :: bool

text \<open>\<open>cn\<close> and \<open>ch\<close> are the computed styles of the container and of the HTML element, \<open>lid\<close> the new layout.\<close>

definition save_container :: "(string \<Rightarrow> css_value) \<Rightarrow> (string \<Rightarrow> css_value) \<Rightarrow> page_root \<Rightarrow> page_root" where
  "save_container cn ch r =
     (let n = root_el r
      in if el_saved n \<noteq> None then r
         else if full_page r
         then r\<lparr>root_el := n\<lparr>el_saved := Some (fold (\<lambda>(k, v). AList.update k v) ((''height'', cn ''height'') # scrolls cn) (getElementCSS (el_style n) body_props))\<rparr>,
                html_el := (html_el r)\<lparr>el_saved := Some ((''height'', Txt ''auto'') # scrolls ch)\<rparr>\<rparr>
         else r\<lparr>root_el := save_css container_props n\<rparr>)"

definition initContainer :: "(string \<Rightarrow> css_value) \<Rightarrow> (string \<Rightarrow> css_value) \<Rightarrow> string \<Rightarrow> nat \<Rightarrow> page_root \<Rightarrow> page_root" where
  "initContainer cn ch cls lid r0 =
     (let n0 = root_el r0; isChild = (el_parent n0 \<and> el_edge n0 \<noteq> None);
          r = save_container cn ch
                (r0\<lparr>root_el := n0\<lparr>el_nested := Some lid, el_container := True, el_classes := addClasses [cls] (el_classes n0),
                                   el_events := el_events n0 @ bound_methods ''layout'' layoutMethods\<rparr>\<rparr>);
          n = root_el r; h = html_el r
      in if full_page r
         then r\<lparr>html_el := h\<lparr>el_style := css_on ((''height'', Txt ''100%'') # no_scroll) (el_style h)\<rparr>,
                root_el := n\<lparr>el_style := css_on ([(''position'', Txt ''relative''), (''height'', Txt ''100%'')] @ no_scroll
                     @ [(''margin'', Px 0), (''padding'', Px 0), (''border'', Txt ''none'')]) (el_style n)\<rparr>\<rparr>
         else r\<lparr>root_el := n\<lparr>el_style := css_on (no_scroll
                     @ (if \<not> isChild \<and> \<not> is_positioned (cn ''position'') then [(''position'', Txt ''relative'')] else [])) (el_style n)\<rparr>\<rparr>)"

definition destroy_container :: "string \<Rightarrow> page_root \<Rightarrow> page_root" where
  "destroy_container cls r =
     (let n = (root_el r)\<lparr>el_nested := None, el_container := False, el_classes := removeClasses [cls] (el_classes (root_el r)), el_events := []\<rparr>;
          n' = (if el_saved n \<noteq> None \<and> el_role n = None then restore_css n else n);
          h = html_el r
      in r\<lparr>root_el := n', html_el := (if full_page r \<and> el_saved h \<noteq> None then restore_css h else h)\<rparr>)"

section \<open>Nested layouts\<close>

text \<open>
  The pointers of a pane to the layout inside it: \<open>children\<close> and its alias in the instance, either of
  which the user may set; \<open>at_pane\<close> and \<open>at_content\<close> are the data \<open>layout\<close> of the elements, \<open>own\<close> that of
  the container of a layout.
\<close>

record nest =
  n_child :: "nat option"
  n_alias :: "nat option"
  at_pane :: "nat option"
  at_content :: "nat option"

definition createChildLayout :: "bool \<Rightarrow> bool \<Rightarrow> nat option \<Rightarrow> nat option \<Rightarrow> nest \<Rightarrow> nest option" where
  "createChildLayout opts found existing fresh c =
     (if \<not> opts then None
      else Some (if \<not> found then c\<lparr>n_alias := n_child c\<rparr>
                 else (let child = (if existing \<noteq> None then existing else fresh) in c\<lparr>n_child := child, n_alias := child\<rparr>)))"

definition resizeChildLayout :: "(nat \<Rightarrow> bool) \<Rightarrow> (nat \<Rightarrow> nat option) \<Rightarrow> bool \<Rightarrow> nest \<Rightarrow> nest \<times> nat option" where
  "resizeChildLayout gone own enabled c =
     (if \<not> enabled then (c, None)
      else (let L0 = (case (n_alias c, n_child c) of (Some a, None) \<Rightarrow> own a | _ \<Rightarrow> n_child c);
                L1 = (case L0 of Some i \<Rightarrow> if gone i then None else Some i | None \<Rightarrow> None);
                L2 = (if L1 = None then (if at_pane c \<noteq> None then at_pane c else at_content c) else L1)
            in (c\<lparr>n_child := L2, n_alias := L2\<rparr>, L2)))"

text \<open>A layout that is resized is one that lives, as long as destroyed layouts leave their elements.\<close>

lemma resizeChild_alive:
  assumes "resizeChildLayout gone own e c = (c', Some i)"
    and "\<And>i. at_pane c = Some i \<or> at_content c = Some i \<Longrightarrow> \<not> gone i"
  shows "\<not> gone i \<and> n_child c' = Some i \<and> n_alias c' = Some i"
  using assms by (auto simp: resizeChildLayout_def Let_def split: if_splits option.splits)

section \<open>What is taken away is what was put\<close>

lemma css_plain: "k \<notin> set shorthands \<Longrightarrow> css_prop (k, v) st = st(k := v)"
  by (simp add: css_prop_def shorthands_def)

lemma css_saved:
  assumes "set ks \<inter> set shorthands = {}"
  shows "css_on (map (\<lambda>k. (k, f k)) ks) st k = (if k \<in> set ks then f k else st k)"
  using assms unfolding css_on_def
  by (induction ks arbitrary: st) (auto simp: css_plain)

definition touches :: "string \<times> css_value \<Rightarrow> string list" where
  "touches pv = (if fst pv \<in> set shorthands then longhands (fst pv) else [fst pv])"

lemma fold_other: "(\<And>x st. x \<in> set xs \<Longrightarrow> g x st k = st k) \<Longrightarrow> fold g xs st k = (st k :: 'v)"
  by (induction xs arbitrary: st) simp_all

lemma longhands_shorthand:
  "p \<in> set shorthands \<Longrightarrow> longhands p = concat (map (\<lambda>s. if p = ''border'' then map (\<lambda>a. p @ s @ a) css_attrs else [p @ s]) css_sides)"
  by (auto simp: longhands_def list_ex_iff)

lemma css_prop_other:
  assumes "k \<notin> set (touches pv)"
  shows "css_prop pv st k = st k"
proof -
  obtain p v where pv: "pv = (p, v)" by (cases pv)
  show ?thesis
  proof (cases "p \<in> set shorthands")
    case True
    have 1: "k \<noteq> ''border'' @ s @ a" if "p = ''border''" "s \<in> set css_sides" "a \<in> set css_attrs" for s a
      using assms True that by (auto simp: pv touches_def longhands_shorthand)
    have 2: "k \<noteq> p @ s" if "p \<noteq> ''border''" "s \<in> set css_sides" for s
      using assms True that by (auto simp: pv touches_def longhands_shorthand)
    have "fold (\<lambda>s st. st(''border'' @ s @ ''Style'' := v, ''border'' @ s @ ''Width'' := Txt ''initial'', ''border'' @ s @ ''Color'' := Txt ''initial'')) css_sides st k = st k"
      if "p = ''border''" by (rule fold_other) (use 1 [OF that] in \<open>auto simp: css_attrs_def\<close>)
    moreover have "fold (\<lambda>s st. st(p @ s := v)) css_sides st k = st k" if "p \<noteq> ''border''"
      by (rule fold_other) (use 2 [OF that] in auto)
    ultimately show ?thesis using True by (simp add: pv css_prop_def)
  next
    case False
    then show ?thesis using assms by (simp add: pv css_plain touches_def)
  qed
qed

lemma css_on_other: "k \<notin> (\<Union>pv \<in> set pvs. set (touches pv)) \<Longrightarrow> css_on pvs st k = st k"
  unfolding css_on_def by (induction pvs arbitrary: st) (simp_all add: css_prop_other)

lemma css_keys_long: "set (css_keys pane_props) \<inter> set shorthands = {}" "set (css_keys container_props) \<inter> set shorthands = {}"
  "set (css_keys body_props) \<inter> set shorthands = {}"
  by code_simp+

lemma cssReq_saved: "(\<Union>pv \<in> set (cssReq p). set (touches pv)) \<subseteq> set (css_keys pane_props)"
proof -
  have "\<forall>p \<in> {North, South, West, East, Center}. \<forall>pv \<in> set (cssReq p). set (touches pv) \<subseteq> set (css_keys pane_props)" by code_simp
  then show ?thesis by (cases p) auto
qed


lemma restore_saved:
  assumes "el_saved e = Some (getElementCSS st props)" "set (css_keys props) \<inter> set shorthands = {}"
    and "\<And>k. k \<notin> set (css_keys props) \<Longrightarrow> el_style e k = st' k" "\<And>k. k \<in> set (css_keys props) \<Longrightarrow> st' k = st k"
  shows "restore_css e = e\<lparr>el_style := st', el_saved := None\<rparr>"
proof -
  have "css_on (getElementCSS st props) (el_style e) = st'"
    using assms(2-4) by (auto simp: fun_eq_iff getElementCSS_def css_saved)
  then show ?thesis by (simp add: restore_css_def assms(1))
qed

text \<open>An element that no layout uses, and one that a layout uses as a pane: \<open>base\<close> is what it was before.\<close>

definition plain :: "el \<Rightarrow> bool" where
  "plain e = (el_saved e = None \<and> el_events e = [] \<and> el_edge e = None \<and> el_role e = None \<and> \<not> el_parent e \<and> \<not> el_alias e
     \<and> \<not> el_autoHidden e \<and> el_nested e = None)"

definition worn :: "pane \<Rightarrow> el \<Rightarrow> el \<Rightarrow> bool" where
  "worn p base e = (el_saved e = Some (getElementCSS (el_style base) pane_props) \<and> el_parent e \<and> el_edge e = Some (pane_name p)
     \<and> el_nested e = None \<and> el_container e = el_container base
     \<and> (\<forall>k. k \<notin> insert ''visibility'' (set (css_keys pane_props)) \<longrightarrow> el_style e k = el_style base k))"

lemma css_on_within: "(\<Union>pv \<in> set pvs. set (touches pv)) \<subseteq> K \<Longrightarrow> k \<notin> K \<Longrightarrow> css_on pvs st k = st k"
  by (rule css_on_other) blast

lemma worn_styled:
  assumes "worn p base e" "(\<Union>pv \<in> set pvs. set (touches pv)) \<subseteq> insert ''visibility'' (set (css_keys pane_props))"
  shows "worn p base (e\<lparr>el_style := css_on pvs (el_style e), el_classes := cs, el_autoHidden := h\<rparr>)"
  using assms(1) css_on_within [OF assms(2)] by (simp add: worn_def)

lemma place_css_saved: "(\<Union>pv \<in> set (place_css c p v). set (touches pv)) \<subseteq> set (css_keys pane_props)"
proof -
  have "{''top'', ''left'', ''right'', ''height'', ''bottom'', ''width''} \<subseteq> set (css_keys pane_props)" by code_simp
  then show ?thesis by (cases p) (simp_all add: place_css_def touches_def shorthands_def)
qed

lemma dressed_worn:
  assumes "plain e"
  shows "worn p e (place_pane c p v b (dress_pane u p e))"
proof -
  let ?K = "insert ''visibility'' (set (css_keys pane_props))"
  let ?D = "(if b then [(''display'', Txt ''block'')] else []) @ [(''visibility'', Txt ''visible'')]" and ?Z = "[(''zIndex'', Px (pane_zIndex u))]"
  have z: "''zIndex'' \<in> ?K" "''display'' \<in> ?K" by code_simp+
  have d: "(\<Union>pv \<in> set ?D. set (touches pv)) \<subseteq> ?K" "(\<Union>pv \<in> set ?Z. set (touches pv)) \<subseteq> ?K"
    using z by (simp_all add: touches_def shorthands_def)
  have p: "(\<Union>pv \<in> set (place_css c p v). set (touches pv)) \<subseteq> ?K" "(\<Union>pv \<in> set (cssReq p). set (touches pv)) \<subseteq> ?K"
    using place_css_saved [of c p v] cssReq_saved [of p] by blast+
  have "css_on ?D (css_on (place_css c p v) (css_on ?Z (css_on (cssReq p) (el_style e)))) k = el_style e k" if "k \<notin> ?K" for k
    unfolding css_on_within [OF d(1) that] css_on_within [OF p(1) that] css_on_within [OF d(2) that] css_on_within [OF p(2) that] ..
  then show ?thesis using assms by (simp add: worn_def plain_def place_pane_def dress_pane_def save_css_def Let_def)
qed

text \<open>However the layout has placed, sized and moved a pane, by the properties it saved or its visibility,
  removing the pane gives the element back every inline style but the visibility, and takes away all
  data and events and, of its classes, those of the layout that are not hover classes.\<close>

lemma undress_worn:
  assumes "worn p base e" "plain base"
  shows "undress_pane u p e = base\<lparr>el_style := (el_style base)(''visibility'' := el_style e ''visibility''),
      el_classes := removeClasses (pane_classes u p @ merged_chars (js_join '' '' (pane_hover u p e True))) (el_classes e)\<rparr>"
proof -
  define e4 where "e4 = e\<lparr>el_classes := removeClasses (pane_classes u p @ merged_chars (js_join '' '' (pane_hover u p e True))) (el_classes e),
      el_parent := False, el_alias := False, el_role := None, el_edge := None, el_autoHidden := False, el_events := []\<rparr>"
  have nv: "''visibility'' \<notin> set (css_keys pane_props)" by code_simp
  have "restore_css e4 = e4\<lparr>el_style := (el_style base)(''visibility'' := el_style e ''visibility''), el_saved := None\<rparr>"
    by (rule restore_saved [OF _ css_keys_long(1), of _ "el_style base"]) (use assms(1) nv in \<open>auto simp: e4_def worn_def\<close>)
  then have u: "undress_pane u p e = e4\<lparr>el_style := (el_style base)(''visibility'' := el_style e ''visibility''), el_saved := None\<rparr>"
    using assms(1) by (simp add: undress_pane_def Let_def e4_def worn_def)
  show ?thesis unfolding u by (rule el.equality) (use assms in \<open>simp_all add: e4_def worn_def plain_def\<close>)
qed

text \<open>What undressing gives back: everything but the visibility and the classes.\<close>

definition bare :: "el \<Rightarrow> el" where
  "bare e = e\<lparr>el_style := (el_style e)(''visibility'' := Txt ''''), el_classes := []\<rparr>"

lemma undress_bare:
  assumes "worn p base e" "plain base"
  shows "plain (undress_pane u p e)" "bare (undress_pane u p e) = bare base"
  using assms(2) unfolding undress_worn [OF assms] by (simp_all add: plain_def bare_def)

lemma hover_suffix: "x \<in> set (getHoverClasses base p c d a) \<Longrightarrow> suffix ''-hover'' x"
  unfolding getHoverClasses_def Let_def set_map suffix_def by (elim imageE) (simp only: , blast)

text \<open>Hover classes stay.  The list of the classes to remove is meant to hold the hover classes of the
  pane, but their text is merged into it character by character: a pane that is removed while the
  mouse is over it keeps them.\<close>

theorem hover_classes_stay:
  assumes "e' = addHover u p e"
  shows "set (pane_hover u p e False) \<subseteq> set (el_classes (undress_pane u p e'))"
proof -
  have h: "pane_hover u p e False \<noteq> []" "set (pane_hover u p e False) \<subseteq> set (el_classes e')"
    by (auto simp: assms addHover_def addClasses_def pane_hover_def getHoverClasses_def Let_def)
  have keep: "x \<notin> set (pane_classes u p)" "length x \<noteq> 1" if "x \<in> set (pane_hover u p e False)" for x
  proof -
    note hov = hover_suffix [OF that [unfolded pane_hover_def]]
    then obtain y where x: "x = y @ ''-hover''" by (auto simp: suffix_def)
    have l: "take 6 (rev x) = ''revoh-''" by (simp add: x)
    have n: "take 6 (rev (base @ ''-'' @ pane_name p @ suf)) \<noteq> ''revoh-''" if "suf \<in> {'''', ''-open'', ''-closed'', ''-sliding''}" for base suf
      using that by (cases p) auto
    have "x \<noteq> paneClass u"
      using that by (auto simp: pane_hover_def getHoverClasses_def Let_def)
    moreover have "x \<noteq> paneClass u @ ''-open''" "x \<noteq> paneClass u @ ''-closed''" "x \<noteq> paneClass u @ ''-sliding''"
      using l by (auto simp: x)
    ultimately show "x \<notin> set (pane_classes u p)"
      using l n [of "''''" "paneClass u"] n [of "''-open''" "paneClass u"] n [of "''-closed''" "paneClass u"] n [of "''-sliding''" "paneClass u"]
      by (auto simp: pane_classes_def Let_def)
    show "length x \<noteq> 1" by (simp add: x)
  qed
  have m: "set (merged_chars s) \<subseteq> {x. length x = 1}" for s by (auto simp: merged_chars_def)
  have "x \<in> set (el_classes (undress_pane u p e'))" if "x \<in> set (pane_hover u p e False)" for x
    using that h(2) keep [OF that] m by (auto simp: undress_pane_def Let_def removeClasses_def restore_css_def)
  then show ?thesis by blast
qed

theorem hover_classes_stay_witness:
  "''ui-layout-pane-hover'' \<in> set (el_classes (undress_pane \<lparr>paneClass = ''ui-layout-pane'', pane_zIndex = 0, showOverflowOnHover = False\<rparr> West
     (addHover \<lparr>paneClass = ''ui-layout-pane'', pane_zIndex = 0, showOverflowOnHover = False\<rparr> West
       \<lparr>el_style = (\<lambda>_. Txt ''''), el_classes = [''main''], el_saved = None, el_edge = None, el_role = None, el_parent = False,
        el_alias = False, el_nested = None, el_container = False, el_autoHidden = False, el_events = []\<rparr>)))"
proof -
  let ?u = "\<lparr>paneClass = ''ui-layout-pane'', pane_zIndex = 0, showOverflowOnHover = False\<rparr>"
  let ?e = "\<lparr>el_style = (\<lambda>_. Txt ''''), el_classes = [''main''], el_saved = None, el_edge = None, el_role = None, el_parent = False,
        el_alias = False, el_nested = None, el_container = False, el_autoHidden = False, el_events = []\<rparr>"
  have "''ui-layout-pane-hover'' \<in> set (pane_hover ?u West ?e False)" by (simp add: pane_hover_def getHoverClasses_def Let_def)
  then show ?thesis using hover_classes_stay [OF refl, of ?u West ?e] by blast
qed

text \<open>The container in use, when it is not the body.\<close>

definition root_worn :: "string \<Rightarrow> page_root \<Rightarrow> page_root \<Rightarrow> bool" where
  "root_worn cls base r = (let n = root_el r; b = root_el base
     in el_saved n = Some (getElementCSS (el_style b) container_props) \<and> el_classes n = el_classes b @ [cls]
        \<and> (\<forall>k. k \<notin> set (css_keys container_props) \<longrightarrow> el_style n k = el_style b k)
        \<and> n\<lparr>el_nested := None, el_container := False, el_classes := el_classes b, el_events := [], el_style := el_style b, el_saved := None\<rparr> = b
        \<and> r\<lparr>root_el := b\<rparr> = base)"

lemma root_worn_styled:
  assumes "root_worn cls base r" "(\<Union>pv \<in> set pvs. set (touches pv)) \<subseteq> set (css_keys container_props)"
  shows "root_worn cls base (r\<lparr>root_el := (root_el r)\<lparr>el_style := css_on pvs (el_style (root_el r))\<rparr>\<rparr>)"
  using assms(1) css_on_within [OF assms(2)] by (simp add: root_worn_def Let_def)

definition unused_root :: "string \<Rightarrow> page_root \<Rightarrow> bool" where
  "unused_root cls r = (\<not> full_page r \<and> el_saved (root_el r) = None \<and> el_role (root_el r) = None \<and> el_nested (root_el r) = None
     \<and> \<not> el_container (root_el r) \<and> el_events (root_el r) = [] \<and> cls \<notin> set (el_classes (root_el r)))"

lemma init_root_worn:
  assumes "unused_root cls r"
  shows "root_worn cls r (initContainer cn ch cls lid r)"
proof -
  let ?n = "root_el r" and ?K = "set (css_keys container_props)"
  define here where "here = no_scroll @ (if \<not> (el_parent ?n \<and> el_edge ?n \<noteq> None) \<and> \<not> is_positioned (cn ''position'')
      then [(''position'', Txt ''relative'')] else [])"
  have i: "initContainer cn ch cls lid r = r\<lparr>root_el := ?n\<lparr>el_nested := Some lid, el_container := True, el_classes := el_classes ?n @ [cls],
      el_events := bound_methods ''layout'' layoutMethods, el_saved := Some (getElementCSS (el_style ?n) container_props),
      el_style := css_on here (el_style ?n)\<rparr>\<rparr>"
    using assms by (simp add: unused_root_def initContainer_def Let_def save_container_def save_css_def addClasses_def here_def)
  have "{''overflow'', ''overflowX'', ''overflowY'', ''position''} \<subseteq> ?K" by code_simp
  then have "(\<Union>pv \<in> set here. set (touches pv)) \<subseteq> ?K"
    by (simp add: here_def no_scroll_def scrolls_def touches_def shorthands_def)
  note o = css_on_within [OF this]
  show ?thesis unfolding i root_worn_def Let_def
    using assms by (auto simp: o unused_root_def intro!: el.equality)
qed

lemma destroy_root_worn:
  assumes "root_worn cls r r'" "unused_root cls r"
  shows "destroy_container cls r' = r"
proof -
  let ?n = "root_el r" and ?m = "root_el r'"
  define m1 where "m1 = ?m\<lparr>el_nested := None, el_container := False, el_classes := removeClasses [cls] (el_classes ?m), el_events := []\<rparr>"
  have w: "el_saved ?m = Some (getElementCSS (el_style ?n) container_props)" "el_classes ?m = el_classes ?n @ [cls]"
    "\<And>k. k \<notin> set (css_keys container_props) \<Longrightarrow> el_style ?m k = el_style ?n k"
    "?m\<lparr>el_nested := None, el_container := False, el_classes := el_classes ?n, el_events := [], el_style := el_style ?n, el_saved := None\<rparr> = ?n"
    "r'\<lparr>root_el := ?n\<rparr> = r"
    using assms(1) by (simp_all add: root_worn_def Let_def)
  have u: "\<not> full_page r'" "el_role m1 = None"
    using assms(2) arg_cong [OF w(5), of full_page] arg_cong [OF w(4), of el_role] by (simp_all add: unused_root_def m1_def)
  have c: "removeClasses [cls] (el_classes ?m) = el_classes ?n"
    using assms(2) by (auto simp: w(2) unused_root_def removeClasses_def filter_id_conv)
  have "restore_css m1 = m1\<lparr>el_style := el_style ?n, el_saved := None\<rparr>"
    by (rule restore_saved [OF _ css_keys_long(2), of _ "el_style ?n"]) (use w(1,3) in \<open>auto simp: m1_def\<close>)
  also have "\<dots> = ?n" using w(4) by (simp add: m1_def c)
  finally show ?thesis
    using u w(1,5) by (simp add: destroy_container_def m1_def [symmetric] Let_def) (simp add: m1_def)
qed

lemma keys_update: "fst ` set (AList.update k v al) = insert k (fst ` set al)"
  by (induction al) auto

lemma css_on_lookup:
  "distinct (map fst pvs) \<Longrightarrow> fst ` set pvs \<inter> set shorthands = {} \<Longrightarrow>
    css_on pvs st k = (case map_of pvs k of Some v \<Rightarrow> v | None \<Rightarrow> st k)"
proof (induction pvs arbitrary: st)
  case (Cons pv pvs)
  obtain p v where pv: "pv = (p, v)" by (cases pv)
  have "map_of pvs p = None" using Cons.prems(1) by (simp add: pv map_of_eq_None_iff)
  then show ?case using Cons.IH [of "css_prop pv st"] Cons.prems by (auto simp: pv css_on_def css_plain split: option.split)
qed (simp add: css_on_def)

text \<open>What the layout has saved of a body: among its styles the computed height.\<close>

definition saved_body :: "(string \<Rightarrow> css_value) \<Rightarrow> page_root \<Rightarrow> bool" where
  "saved_body cn r = (el_role (root_el r) = None \<and> (\<exists>pvs. el_saved (root_el r) = Some pvs
     \<and> distinct (map fst pvs) \<and> fst ` set pvs \<inter> set shorthands = {} \<and> map_of pvs ''height'' = Some (cn ''height'')))"

lemma init_saved_body:
  assumes "full_page r" "el_saved (root_el r) = None" "el_role (root_el r) = None"
  shows "saved_body cn (initContainer cn ch cls lid r)"
proof -
  let ?g = "getElementCSS (el_style (root_el r)) body_props"
  define pvs where "pvs = fold (\<lambda>(k, v). AList.update k v) ((''height'', cn ''height'') # scrolls cn) ?g"
  have g: "map fst ?g = css_keys body_props" by (simp add: getElementCSS_def o_def)
  have "distinct (css_keys body_props)" by code_simp
  then have d: "distinct (map fst ?g)" by (simp only: g)
  have 1: "distinct (map fst pvs)" using d by (simp add: pvs_def scrolls_def distinct_update)
  have "fst ` set pvs = {''height'', ''overflow'', ''overflowX'', ''overflowY''} \<union> fst ` set ?g"
    by (auto simp: pvs_def scrolls_def keys_update)
  then have "fst ` set pvs = {''height'', ''overflow'', ''overflowX'', ''overflowY''} \<union> set (css_keys body_props)"
    unfolding g [symmetric] set_map .
  moreover have "{''height'', ''overflow'', ''overflowX'', ''overflowY''} \<inter> set shorthands = {}" by code_simp
  ultimately have 2: "fst ` set pvs \<inter> set shorthands = {}" by (simp only: Int_Un_distrib2 css_keys_long(3) Un_empty_left)
  have 3: "map_of pvs ''height'' = Some (cn ''height'')" by (simp add: pvs_def scrolls_def AList.update_conv')
  have "el_saved (root_el (initContainer cn ch cls lid r)) = Some pvs" "el_role (root_el (initContainer cn ch cls lid r)) = None"
    using assms by (simp_all add: initContainer_def Let_def save_container_def pvs_def)
  then show ?thesis using 1 2 3 by (simp add: saved_body_def)
qed

lemma destroy_saved_body:
  "saved_body cn r \<Longrightarrow> el_style (root_el (destroy_container cls r)) ''height'' = cn ''height''"
  by (auto simp: saved_body_def destroy_container_def Let_def restore_css_def css_on_lookup)

text \<open>The body is not.  Of the body of a page the height is saved as the browser computes it, so
  destroying the layout leaves the body with that height fixed in place of the style it had.\<close>

theorem body_height_is_fixed:
  assumes "full_page r" "el_saved (root_el r) = None" "el_role (root_el r) = None"
  shows "el_style (root_el (destroy_container cls (initContainer cn ch cls lid r))) ''height'' = cn ''height''"
  by (rule destroy_saved_body [OF init_saved_body [OF assms]])

definition plain_el :: el where
  "plain_el = \<lparr>el_style = (\<lambda>_. Txt ''''), el_classes = [''main''], el_saved = None, el_edge = None, el_role = None, el_parent = False,
     el_alias = False, el_nested = None, el_container = False, el_autoHidden = False, el_events = []\<rparr>"

definition plain_page :: "bool \<Rightarrow> page_root" where
  "plain_page b = \<lparr>root_el = plain_el, html_el = plain_el, full_page = b\<rparr>"

theorem body_height_is_fixed_witness:
  "el_style (root_el (destroy_container ''box'' (initContainer (\<lambda>_. Px 700) (\<lambda>_. Px 700) ''box'' 1 (plain_page True)))) ''height'' = Px 700"
  by (rule body_height_is_fixed) (simp_all add: plain_page_def plain_el_def)

definition demo_setup :: pane_setup where
  "demo_setup = \<lparr>paneClass = ''ui-layout-pane'', pane_zIndex = 0, showOverflowOnHover = False\<rparr>"

end
