(* ===== verification/LayoutBirth.thy ===== *)
theory LayoutBirth
  imports LayoutKept LayoutElems
begin

text \<open>
  How a layout of \<open>lib/jquery.layout.js\<close> comes and goes: its creation, which adds the panes, their
  resizers and togglers, fits them and sizes the center; panes added and removed later; its end.  The
  element of a pane is the one its selector finds; the sizes the browser reports of it are those in
  the state of the pane.  A layout that is not created yet has all panes absent.  Nested layouts,
  the contents of panes (which \<open>LayoutContent\<close> models) and bookmarks are left out.
\<close>

section \<open>State\<close>

record home =
  hl :: layout
  hel :: "pane \<Rightarrow> el option"
  hset :: "pane \<Rightarrow> pane_setup"
  hroot :: page_root

text \<open>What the script throws: it uses a resizer that is not made yet, and the side of the center.\<close>

datatype birth_error = NoResizer | NoSide

definition all_panes :: "pane list" where
  "all_panes = [North, South, West, East, Center]"

definition border_panes :: "pane list" where
  "border_panes = [North, South, West, East]"

text \<open>While the layout is created a pane that is closed is closed at once, and not by a job.\<close>

definition born :: "nat \<Rightarrow> job \<Rightarrow> layout \<Rightarrow> layout" where
  "born n j l = (case j of JClose p force noAnim skip \<Rightarrow> close_pane n p force noAnim skip l | _ \<Rightarrow> submit n j l)"

section \<open>The center while the layout is created\<close>

text \<open>
  A center that is narrower than its minimum takes what it lacks from the side panes, when they have
  it, and starts again.  The width it lacks is that of the element before it is sized, also the
  next time.  \<open>m\<close> bounds the number of times; the bodies of the jobs size the center without this.
\<close>

definition psize_px :: "psize \<Rightarrow> rat option" where
  "psize_px z = (case z of Num x \<Rightarrow> Some x | _ \<Rightarrow> None)"

definition give_room :: "pane \<Rightarrow> layout \<Rightarrow> rat \<Rightarrow> rat \<times> rat" where
  "give_room p l req =
     (let s = pn l p; z = of_int (p_size s)
      in case psize_px (o_minSize (op l p)) of
           Some m \<Rightarrow>
             if req > 0 \<and> present s \<and> isVisible s \<and> z > m
             then (let z' = max (z - m) (z - req) in (z', req - (z - z'))) else (z, req)
         | None \<Rightarrow> (z, req))"

definition make_room :: "(job \<Rightarrow> layout \<Rightarrow> layout) \<Rightarrow> bool \<Rightarrow> pane \<Rightarrow> rat \<Rightarrow> layout \<Rightarrow> layout" where
  "make_room sub force p z l =
     (let s = pn l p
      in if present s \<and> p_size s \<noteq> 0 \<and> psize_px (o_minSize (op l p)) \<noteq> Some (of_int (p_size s))
         then sub (JSize p (Num z) True force True) l else l)"

fun mid_center :: "nat \<Rightarrow> (job \<Rightarrow> layout \<Rightarrow> layout) \<Rightarrow> bool \<Rightarrow> bool \<Rightarrow> layout \<Rightarrow> layout" where
  "mid_center 0 sub skip force l = sizeMidPane sub skip force Center l"
| "mid_center (Suc m) sub skip force l =
     (let l1 = upd Center (midPane_dims Center) l;
          req = of_int (minWidth (op l Center) - s_outerWidth (pn l1 Center));
          (e, r1) = give_room East l1 req; (w, r2) = give_room West l1 r1
      in if \<not> present (pn l Center) \<or> initialized l \<or> midPane_skips Center force (calcNewCenterPaneDims l) (pn l1 Center)
            \<or> req \<le> 0 \<or> r2 \<noteq> 0
         then sizeMidPane sub skip force Center l
         else mid_center m sub skip force (make_room sub force West w (make_room sub force East e l1)))"

section \<open>Taking a pane away\<close>

text \<open>
  A running animation of the pane ends first.  The state of the pane stays as it is; only its element,
  its resizer and its toggler go.
\<close>

definition remove_core :: "nat \<Rightarrow> bool \<Rightarrow> pane \<Rightarrow> home \<Rightarrow> home" where
  "remove_core n del p h =
     (if \<not> present (pn (hl h) p) then h
      else (let l = (case anim (hl h) of Some a \<Rightarrow> if anim_pane a = p then animation_done n (hl h) else hl h | None \<Rightarrow> hl h)
            in h\<lparr>hl := upd p (\<lambda>s. s\<lparr>present := False, stop_bound := False, start_bound := False\<rparr>) l,
                 hel := (hel h)(p := (case hel h p of
                    Some e \<Rightarrow> if del \<and> el_nested e = None then None else Some (undress_pane (hset h p) p e) | None \<Rightarrow> None))\<rparr>))"

section \<open>Adding the panes\<close>

text \<open>The size of the options, and that size within the minimum and the maximum of the options.\<close>

definition first_sizes :: "pane \<Rightarrow> layout \<Rightarrow> int \<times> int" where
  "first_sizes p l =
     (let d = dir_of_pane p; o' = op l p; z = parseSize l p (o_size o') d;
          lo = (let m = parseSize l p (o_minSize o') d in if m = 0 then 1 else m);
          hi = (case o_maxSize o' of None \<Rightarrow> 100000 | Some x \<Rightarrow> (let m = parseSize l p x d in if m = 0 then 100000 else m))
      in (z, if z > 0 then max (min z hi) lo else z))"

definition there :: "pane \<Rightarrow> layout \<Rightarrow> layout" where
  "there p l = upd p (\<lambda>s. s\<lparr>present := True, has_toggler := False\<rparr>) l"

definition new_pane :: "pane \<Rightarrow> layout \<Rightarrow> layout" where
  "new_pane p l =
     (let l0 = there p l; (z, v) = first_sizes p l0
      in upd p (\<lambda>s. if p = Center then s\<lparr>noRoom := False, isVisible := True\<rparr>
                    else set_css p (cssSize p s v) (s\<lparr>p_size := z, isClosed := False, isSliding := False, isResizing := False,
                           isHidden := False, noRoom := False, isVisible := True\<rparr>)) l0)"

text \<open>The center has none of the options that close or hide a pane at first.\<close>

definition starts_closed :: "pane \<Rightarrow> layout \<Rightarrow> bool" where
  "starts_closed p l = (p \<noteq> Center \<and> initClosed (op l p) \<and> closable (op l p) \<and> \<not> initHidden (op l p))"

definition starts_hidden :: "pane \<Rightarrow> layout \<Rightarrow> bool" where
  "starts_hidden p l = (p \<noteq> Center \<and> (initHidden (op l p) \<or> initClosed (op l p)) \<and> \<not> starts_closed p l)"

definition settle :: "(job \<Rightarrow> layout \<Rightarrow> layout) \<Rightarrow> pane \<Rightarrow> layout \<Rightarrow> layout" where
  "settle sub p l =
     (if starts_closed p l then sub (JClose p True True False) l
      else if starts_hidden p l then hide_pane sub False p l
      else if \<not> noRoom (pn l p) then showPane_now p l else l)"

definition born_pane :: "nat \<Rightarrow> pane \<Rightarrow> layout \<Rightarrow> layout" where
  "born_pane n p l =
     (let l1 = new_pane p l
      in settle (born n) p
           (if dir_of_pane p = Horz then l1
            else if p = Center then mid_center n (born n) True False l1
            else sizeMidPane (born n) True False p l1))"

text \<open>Its element: saved, dressed and placed.  A pane that is there already is removed first.\<close>

definition new_el :: "pane \<Rightarrow> home \<Rightarrow> el \<Rightarrow> el" where
  "new_el p h e =
     (let u = hset h p; l = there p (hl h);
          opened = (\<not> starts_closed p l \<and> \<not> starts_hidden p l)
      in place_pane (sC l) p (cssSize p (pn l p) (snd (first_sizes p l))) opened (dress_pane u p e))"

definition addPane_init :: "nat \<Rightarrow> pane \<Rightarrow> home \<Rightarrow> home" where
  "addPane_init n p h0 =
     (let h = remove_core n False p h0
      in case hel h p of
           None \<Rightarrow> h
         | Some e \<Rightarrow> h\<lparr>hl := born_pane n p (hl h), hel := (hel h)(p := Some (new_el p h e))\<rparr>)"

section \<open>Resizers and togglers\<close>

definition fresh_handles :: "pane_opts \<Rightarrow> pane_state \<Rightarrow> pane_state" where
  "fresh_handles o' s =
     s\<lparr>r_pos := 0, r_shown := True, r_open := False, r_closed := False, r_sliding := False, r_len := 0, r_top := 0,
       has_toggler := closable o', t_open := False, t_shown := closable o', t_len := 0, t_off := 0,
       ctl := (ctl s)\<lparr>r_hovers := [], t_hovers := [], dbl_handlers := 0\<rparr>, start_bound := False\<rparr>"

definition initHandle :: "pane \<Rightarrow> layout \<Rightarrow> layout" where
  "initHandle p l =
     (if \<not> present (pn l p) then l
      else (let l1 = upd p (fresh_handles (op l p)) l
            in if isVisible (pn l1 p) then setAsOpen p False l1
               else bindStartSlidingEvent p True (setAsClosed p l1)))"

definition initHandles :: "pane list \<Rightarrow> layout \<Rightarrow> layout" where
  "initHandles ps l = sizeHandles [] (fold initHandle ps l)"

section \<open>Creation\<close>

definition fit_visible :: "nat \<Rightarrow> pane \<Rightarrow> layout \<Rightarrow> layout" where
  "fit_visible n p l =
     (if present (pn l p) \<and> isVisible (pn l p) then fit_pane (born n) p False False (setSizeLimits p None l) else l)"

definition event_on_load :: "pane \<Rightarrow> layout \<Rightarrow> layout" where
  "event_on_load p l =
     (if present (pn l p) \<and> isVisible (pn l p) \<and> triggerEventsOnLoad (op l p) then fire ''onresize_end'' p l else l)"

definition initPanes :: "nat \<Rightarrow> home \<Rightarrow> home" where
  "initPanes n h =
     (let h1 = fold (addPane_init n) all_panes h;
          l2 = fold (fit_visible n) border_panes (initHandles border_panes (hl h1));
          l3 = mid_center n (born n) False False l2
      in h1\<lparr>hl := fold event_on_load all_panes l3\<rparr>)"

text \<open>\<open>vis\<close> and \<open>c\<close> are what the browser reports of the container; a center is needed.\<close>

definition initLayoutElements :: "nat \<Rightarrow> bool \<Rightarrow> container \<Rightarrow> home \<Rightarrow> bool \<times> home" where
  "initLayoutElements n vis c h =
     (if \<not> vis \<or> hel h Center = None then (False, h)
      else (let h1 = initPanes n (h\<lparr>hl := (hl h)\<lparr>sC := c\<rparr>\<rparr>) in (True, h1\<lparr>hl := (hl h1)\<lparr>initialized := True\<rparr>\<rparr>)))"

text \<open>\<open>answer\<close> is what \<open>onload_start\<close> returns; None says that the creation was cancelled.\<close>

definition create_layout ::
  "nat \<Rightarrow> cbret \<Rightarrow> bool \<Rightarrow> bool \<Rightarrow> container \<Rightarrow> (string \<Rightarrow> css_value) \<Rightarrow> (string \<Rightarrow> css_value) \<Rightarrow> string \<Rightarrow> nat \<Rightarrow> home \<Rightarrow> bool option \<times> home" where
  "create_layout n answer withPanes vis c cn ch cls lid h =
     (if answer = CbFalse then (None, h)
      else (let h1 = h\<lparr>hroot := initContainer cn ch cls lid (hroot h)\<rparr>
            in if withPanes then map_prod Some id (initLayoutElements n vis c h1) else (Some (initialized (hl h1)), h1)))"

section \<open>Removal and end\<close>

definition removePane :: "nat \<Rightarrow> bool \<Rightarrow> bool \<Rightarrow> pane \<Rightarrow> bool \<Rightarrow> container \<Rightarrow> int \<Rightarrow> cbret \<Rightarrow> home \<Rightarrow> home" where
  "removePane n del skipResize p vis c outerH answer h =
     (let h1 = remove_core n del p h
      in if skipResize then h1 else h1\<lparr>hl := resizeAll n vis c outerH answer (hl h1)\<rparr>)"

definition destroy :: "nat \<Rightarrow> string \<Rightarrow> home \<Rightarrow> home" where
  "destroy n cls h =
     (let h1 = fold (remove_core n False) all_panes h in h1\<lparr>hroot := destroy_container cls (hroot h1)\<rparr>)"

section \<open>Panes added to a layout that is in use\<close>

text \<open>
  Now closing goes through the queue.  If the queue is idle the job runs at once, up to the place
  where it moves the resizer, which is not made yet: the script throws inside the job, and the queue
  waits for its end for ever.
\<close>

definition close_bare :: "pane \<Rightarrow> bool \<Rightarrow> layout \<Rightarrow> layout" where
  "close_bare p force l =
     (let s = pn l p
      in if (\<not> closable (op l p) \<and> \<not> isShowing s \<and> \<not> isHiding s) \<or> (\<not> force \<and> isClosed s \<and> \<not> isShowing s) then l
         else (let (r, l1) = (if isShowing s then (NC, l) else runCallbacks ''onclose_start'' p l);
                   l2 = upd p (\<lambda>s. s\<lparr>isShowing := False, isHiding := False\<rparr>) l1
               in if r = CbFalse then l2
                  else (let l3 = upd p (\<lambda>t. t\<lparr>isMoving := True, isClosed := True, isVisible := False,
                                   isHidden := (if isHiding s then True else if isShowing s then False else isHidden t)\<rparr>) (l2\<lparr>busy := True\<rparr>)
                        in sizeMidPanes enqueue (adjacent p) False False l3)))"

definition bare_sub :: "nat \<Rightarrow> job \<Rightarrow> layout \<Rightarrow> layout" where
  "bare_sub n j l =
     (case j of
        JClose p force noAnim skip \<Rightarrow> if busy l then submit n j l else close_bare p force l
      | _ \<Rightarrow> submit n j l)"

definition addPane :: "nat \<Rightarrow> pane \<Rightarrow> bool \<Rightarrow> container \<Rightarrow> int \<Rightarrow> cbret \<Rightarrow> home \<Rightarrow> birth_error option \<times> home" where
  "addPane n p vis c outerH answer h =
     (let h0 = remove_core n False p h
      in case hel h0 p of
           None \<Rightarrow> (None, h0)
         | Some e \<Rightarrow>
             (let l1 = new_pane p (hl h0);
                  l2 = (if dir_of_pane p = Horz then l1 else sizeMidPane (submit n) True False p l1);
                  l3 = settle (bare_sub n) p l2;
                  h3 = h0\<lparr>hl := l3, hel := (hel h0)(p := Some (new_el p h0 e))\<rparr>
              in if \<not> busy l2 \<and> busy l3 then (Some NoResizer, h3)
                 else if p = Center then (Some NoSide, h3)
                 else (None, h3\<lparr>hl := event_on_load p (resizeAll n vis c outerH answer (initHandles [p] l3))\<rparr>)))"

section \<open>What creation and removal keep\<close>

context job_sink
begin

lemma make_room_ok: "layout_ok l \<Longrightarrow> p \<noteq> Center \<Longrightarrow> layout_ok (make_room sub f p z l)"
  by (simp add: make_room_def Let_def sub_ok)

lemma mid_center_ok: "layout_ok l \<Longrightarrow> layout_ok (mid_center m sub k f l)"
proof (induction m arbitrary: l)
  case (Suc m)
  have "layout_ok (make_room sub f West w (make_room sub f East e (upd Center (midPane_dims Center) l)))" for e w
    by (intro make_room_ok ok_same [OF flg_midPane_dims] Suc.prems) simp_all
  then show ?case using Suc sizeMidPane_ok [OF Suc.prems] by (simp add: Let_def split: prod.split)
qed (simp add: sizeMidPane_ok)

lemma settle_ok: "layout_ok l \<Longrightarrow> layout_ok (settle sub p l)"
  by (auto simp: settle_def starts_closed_def starts_hidden_def sub_ok hide_pane_ok ok_same [OF flg_showPane_now])

end

context keep_sink
begin

lemma kept_mid_center: "kept (mid_center m sub k f l) = kept l"
proof (induction m arbitrary: l)
  case (Suc m)
  have "kept (make_room sub f West w (make_room sub f East e (upd Center (midPane_dims Center) l))) = kept l" for e w
    by (simp add: make_room_def Let_def kept_sub kept_same)
  then show ?case using Suc kept_sizeMidPane by (simp add: Let_def split: prod.split)
qed (simp add: kept_sizeMidPane)

lemma kept_settle: "kept (settle sub p l) = kept l"
  by (simp add: settle_def kept_sub kept_hide_pane kept_same)

end

lemma born_ok: "layout_ok l \<Longrightarrow> job_pane j \<noteq> Center \<Longrightarrow> layout_ok (born n j l)"
  by (cases j) (simp_all add: born_def close_pane_ok ran.sub_ok)

lemma kept_born: "kept (born n j l) = kept l"
  by (cases j) (simp_all add: born_def close_pane_def closePane_now_def kran.kept_sub kept_same)

interpretation bornok: job_sink "born n" for n
  by unfold_locales (rule born_ok)

interpretation kborn: keep_sink "born n" for n
  by unfold_locales (rule kept_born)

lemma new_pane_ok: "layout_ok l \<Longrightarrow> layout_ok (new_pane p l)"
proof -
  assume ok: "layout_ok l"
  have t: "layout_ok (there p l)" unfolding there_def by (rule ok_same [OF flg_upd ok]) simp
  have c: "\<not> isClosed (pn (there p l) Center)" using t by (simp add: layout_ok_def)
  show ?thesis unfolding new_pane_def Let_def prod.case_distrib
    using ok_flags [OF t, of p] c
    by (auto simp: split_def set_css_def flags_ok_def intro!: upd_ok t)
qed

lemma there_present [simp]: "present (pn (there p l) q) = (q = p \<or> present (pn l q))"
  by (simp add: there_def)

lemma new_pane_present: "present (pn (new_pane p l) q) = (q = p \<or> present (pn l q))"
  by (auto simp: new_pane_def Let_def split_def set_css_def)

lemma born_pane_ok: "layout_ok l \<Longrightarrow> layout_ok (born_pane n p l)"
  unfolding born_pane_def Let_def
  by (intro bornok.settle_ok) (simp add: new_pane_ok bornok.mid_center_ok bornok.sizeMidPane_ok)

lemma present_kept: "kept l' = kept l \<Longrightarrow> present (pn l' q) = present (pn l q)"
  by (simp add: fun_eq_iff kept_def)

lemma born_pane_present: "present (pn (born_pane n p l) q) = (q = p \<or> present (pn l q))"
proof -
  have "kept (born_pane n p l) = kept (new_pane p l)"
    unfolding born_pane_def Let_def by (simp add: kborn.kept_settle kborn.kept_mid_center kborn.kept_sizeMidPane)
  then show ?thesis using present_kept new_pane_present by blast
qed

lemma fresh_handles_keeps [simp]:
  "isClosed (fresh_handles o' s) = isClosed s" "isHidden (fresh_handles o' s) = isHidden s" "isVisible (fresh_handles o' s) = isVisible s"
  "noVerticalRoom (fresh_handles o' s) = noVerticalRoom s" "pins (ctl (fresh_handles o' s)) = pins (ctl s)"
  "present (fresh_handles o' s) = present s" "isResizing (fresh_handles o' s) = isResizing s"
  by (simp_all add: fresh_handles_def)

lemma flg_fresh: "flg (upd p (fresh_handles o') l) = flg l"
  by (simp add: flg_def upd_def fun_eq_iff)

lemma initHandle_ok: "layout_ok l \<Longrightarrow> layout_ok (initHandle p l)"
  unfolding initHandle_def Let_def
  by (simp add: ok_same [OF flg_fresh] setAsOpen_ok setAsClosed_ok ok_same [OF flg_bindStart])

lemma kept_initHandle: "kept (initHandle p l) = kept l"
  by (simp add: initHandle_def Let_def kept_same)

lemma initHandles_ok: "layout_ok l \<Longrightarrow> layout_ok (initHandles ps l)"
  unfolding initHandles_def by (intro ok_same [OF flg_sizeHandles] fold_ok initHandle_ok)

lemma kept_initHandles: "kept (initHandles ps l) = kept l"
  unfolding initHandles_def by (simp add: kept_same kept_fold [OF kept_initHandle])

lemma fit_visible_ok: "layout_ok l \<Longrightarrow> layout_ok (fit_visible n p l)"
  by (simp add: fit_visible_def bornok.fit_pane_ok ok_same [OF flg_setSizeLimits])

lemma kept_fit_visible: "kept (fit_visible n p l) = kept l"
  by (simp add: fit_visible_def kborn.kept_fit_pane kept_same)

lemma event_on_load_ok: "layout_ok l \<Longrightarrow> layout_ok (event_on_load p l)"
  by (simp add: event_on_load_def ok_same [OF flg_fire])

lemma kept_event_on_load: "kept (event_on_load p l) = kept l"
  by (simp add: event_on_load_def kept_same)

lemma kept_animation_done: "kept (animation_done n l) = kept l"
proof (cases "anim l")
  case None
  then show ?thesis by (simp add: animation_done_def)
next
  case (Some a)
  then show ?thesis by (intro kept_layout_step step_animated)
qed

text \<open>What goes before a removal.\<close>

lemma remove_core_layout:
  obtains l where "layout_ok (hl h) \<Longrightarrow> layout_ok l" "kept l = kept (hl h)"
    "hl (remove_core n d p h) = (if present (pn (hl h) p) then upd p (\<lambda>s. s\<lparr>present := False, stop_bound := False, start_bound := False\<rparr>) l else hl h)"
proof
  let ?l = "case anim (hl h) of Some a \<Rightarrow> if anim_pane a = p then animation_done n (hl h) else hl h | None \<Rightarrow> hl h"
  show "layout_ok (hl h) \<Longrightarrow> layout_ok ?l" by (simp add: animation_done_ok split: option.split)
  show "kept ?l = kept (hl h)" by (simp add: kept_animation_done split: option.split)
  show "hl (remove_core n d p h) = (if present (pn (hl h) p) then upd p (\<lambda>s. s\<lparr>present := False, stop_bound := False, start_bound := False\<rparr>) ?l else hl h)"
    by (simp add: remove_core_def Let_def)
qed

lemma remove_core_ok: "layout_ok (hl h) \<Longrightarrow> layout_ok (hl (remove_core n d p h))"
proof -
  assume ok: "layout_ok (hl h)"
  obtain l where l: "layout_ok l"
    "hl (remove_core n d p h) = (if present (pn (hl h) p) then upd p (\<lambda>s. s\<lparr>present := False, stop_bound := False, start_bound := False\<rparr>) l else hl h)"
    by (metis ok remove_core_layout)
  show ?thesis unfolding l(2) using ok ok_same [OF flg_upd l(1)] by simp
qed

lemma remove_core_present: "present (pn (hl (remove_core n d p h)) q) = (q \<noteq> p \<and> present (pn (hl h) q))"
proof -
  obtain l where l: "kept l = kept (hl h)"
    "hl (remove_core n d p h) = (if present (pn (hl h) p) then upd p (\<lambda>s. s\<lparr>present := False, stop_bound := False, start_bound := False\<rparr>) l else hl h)"
    by (metis remove_core_layout)
  show ?thesis unfolding l(2) using present_kept [OF l(1)] by auto
qed

lemma remove_core_rest [simp]: "hset (remove_core n d p h) = hset h" "hroot (remove_core n d p h) = hroot h"
  by (simp_all add: remove_core_def Let_def)

lemma close_bare_ok: "layout_ok l \<Longrightarrow> p \<noteq> Center \<Longrightarrow> layout_ok (close_bare p f l)"
proof -
  assume ok: "layout_ok l" and p: "p \<noteq> Center"
  define l1 where "l1 = (if isShowing (pn l p) then l else snd (runCallbacks ''onclose_start'' p l))"
  define r where "r = (if isShowing (pn l p) then NC else fst (runCallbacks ''onclose_start'' p l))"
  have e: "(if isShowing (pn l p) then (NC, l) else runCallbacks ''onclose_start'' p l) = (r, l1)" by (simp add: r_def l1_def)
  define l2 where "l2 = upd p (\<lambda>s. s\<lparr>isShowing := False, isHiding := False\<rparr>) l1"
  have 1: "layout_ok l1" using ok ok_same [OF flg_runCallbacks ok] by (simp add: l1_def)
  have 2: "layout_ok l2" unfolding l2_def by (rule ok_same [OF flg_upd 1]) simp
  have 3: "layout_ok (l2\<lparr>busy := True\<rparr>)" using 2 by simp
  have "layout_ok (upd p (\<lambda>t. t\<lparr>isMoving := True, isClosed := True, isVisible := False,
       isHidden := (if b then True else if c then False else isHidden t)\<rparr>) (l2\<lparr>busy := True\<rparr>))" for b c
    using p ok_flags [OF 2, of p] by (intro upd_ok 3) (simp_all add: flags_ok_def)
  then show ?thesis
    unfolding close_bare_def Let_def e prod.case l2_def [symmetric] using ok 2 queued.sizeMidPanes_ok by simp
qed

lemma kept_close_bare: "kept (close_bare p f l) = kept l"
  by (simp add: close_bare_def Let_def runCallbacks_def kqueued.kept_sizeMidPanes kept_same)

lemma bare_sub_ok: "layout_ok l \<Longrightarrow> job_pane j \<noteq> Center \<Longrightarrow> layout_ok (bare_sub n j l)"
  by (cases j) (simp_all add: bare_sub_def close_bare_ok ran.sub_ok)

lemma kept_bare_sub: "kept (bare_sub n j l) = kept l"
  by (cases j) (simp_all add: bare_sub_def kept_close_bare kran.kept_sub)

interpretation bareok: job_sink "bare_sub n" for n
  by unfold_locales (rule bare_sub_ok)

interpretation kbare: keep_sink "bare_sub n" for n
  by unfold_locales (rule kept_bare_sub)

section \<open>The life of a layout\<close>

text \<open>Styles the layout sets while it is in use, on its panes and on its container.\<close>

definition style_pane :: "pane \<Rightarrow> (string \<times> css_value) list \<Rightarrow> string list \<Rightarrow> bool \<Rightarrow> home \<Rightarrow> home" where
  "style_pane p pvs cs b h =
     h\<lparr>hel := (hel h)(p := map_option (\<lambda>e. e\<lparr>el_style := css_on pvs (el_style e), el_classes := cs, el_autoHidden := b\<rparr>) (hel h p))\<rparr>"

definition style_root :: "(string \<times> css_value) list \<Rightarrow> home \<Rightarrow> home" where
  "style_root pvs h = h\<lparr>hroot := (hroot h)\<lparr>root_el := (root_el (hroot h))\<lparr>el_style := css_on pvs (el_style (root_el (hroot h)))\<rparr>\<rparr>\<rparr>"

definition sets_only :: "string set \<Rightarrow> (string \<times> css_value) list \<Rightarrow> bool" where
  "sets_only K pvs = ((\<Union>pv \<in> set pvs. set (touches pv)) \<subseteq> K)"

inductive home_step :: "home \<Rightarrow> home \<Rightarrow> bool" where
  home_acts: "layout_step (hl h) l \<Longrightarrow> home_step h (h\<lparr>hl := l\<rparr>)"
| home_styles: "present (pn (hl h) p) \<Longrightarrow> sets_only (insert ''visibility'' (set (css_keys pane_props))) pvs \<Longrightarrow> home_step h (style_pane p pvs cs b h)"
| home_styles_root: "sets_only (set (css_keys container_props)) pvs \<Longrightarrow> home_step h (style_root pvs h)"
| home_inits: "\<not> initialized (hl h) \<Longrightarrow> home_step h (snd (initLayoutElements n vis c h))"
| home_adds: "initialized (hl h) \<Longrightarrow> home_step h (snd (addPane n p vis c o' a h))"
| home_removes: "initialized (hl h) \<Longrightarrow> home_step h (removePane n d skip p vis c o' a h)"

inductive home_steps :: "home \<Rightarrow> home \<Rightarrow> bool" where
  home_refl: "home_steps h h"
| home_more: "home_steps h m \<Longrightarrow> home_step m r \<Longrightarrow> home_steps h r"

text \<open>The element of a pane that is there is in use as that pane, any other is not; under it is what was there first.\<close>

definition wears :: "el option \<Rightarrow> pane \<Rightarrow> bool \<Rightarrow> el option \<Rightarrow> bool" where
  "wears first p here x =
     (case x of
        None \<Rightarrow> \<not> here
      | Some e \<Rightarrow> (\<exists>e0. first = Some e0 \<and> (if here then \<exists>b. worn p b e \<and> plain b \<and> bare b = bare e0 else plain e \<and> bare e = bare e0)))"

definition home_ok :: "(pane \<Rightarrow> el option) \<Rightarrow> home \<Rightarrow> bool" where
  "home_ok first h = (layout_ok (hl h) \<and> (\<forall>p. wears (first p) p (present (pn (hl h) p)) (hel h p)))"

lemma home_there:
  assumes "home_ok first h" "present (pn (hl h) p)"
  obtains e e0 b where "hel h p = Some e" "first p = Some e0" "worn p b e" "plain b" "bare b = bare e0"
proof -
  have "wears (first p) p True (hel h p)" using assms by (metis home_ok_def)
  then show thesis using that by (auto simp: wears_def split: option.splits)
qed

lemma remove_core_home: "home_ok first h \<Longrightarrow> home_ok first (remove_core n d p h)"
proof -
  assume ok: "home_ok first h"
  have "wears (first q) q (present (pn (hl (remove_core n d p h)) q)) (hel (remove_core n d p h) q)" for q
  proof (cases "q = p \<and> present (pn (hl h) p)")
    case True
    then obtain e e0 b where e: "hel h p = Some e" "first p = Some e0" "worn p b e" "plain b" "bare b = bare e0"
      using home_there [OF ok] True by blast
    then show ?thesis using True undress_bare [OF e(3,4), of "hset h p"]
      by (simp add: remove_core_present wears_def) (simp add: remove_core_def Let_def)
  next
    case False
    then have "hel (remove_core n d p h) q = hel h q" by (auto simp: remove_core_def Let_def)
    moreover have "present (pn (hl (remove_core n d p h)) q) = present (pn (hl h) q)" using False by (auto simp: remove_core_present)
    ultimately show ?thesis using ok by (simp add: home_ok_def)
  qed
  then show ?thesis using ok remove_core_ok by (simp add: home_ok_def)
qed

lemma dress_home:
  assumes ok: "home_ok first h" and e: "hel h p = Some e" "\<not> present (pn (hl h) p)"
    and l: "layout_ok l" "\<And>q. present (pn l q) = (q = p \<or> present (pn (hl h) q))"
  shows "home_ok first (h\<lparr>hl := l, hel := (hel h)(p := Some (new_el p h e))\<rparr>)"
proof -
  have "wears (first p) p False (Some e)" using ok e by (metis home_ok_def)
  then obtain e0 where "first p = Some e0" "plain e" "bare e = bare e0" by (auto simp: wears_def)
  moreover have "worn p e (new_el p h e)" using dressed_worn [OF \<open>plain e\<close>] by (simp add: new_el_def Let_def)
  ultimately have "wears (first p) p True (Some (new_el p h e))" by (auto simp: wears_def)
  then have "wears (first q) q (present (pn l q)) (((hel h)(p := Some (new_el p h e))) q)" for q
    using ok l(2) by (cases "q = p") (simp_all add: home_ok_def)
  then show ?thesis using l(1) by (simp add: home_ok_def)
qed

lemma addPane_init_home: "home_ok first h \<Longrightarrow> home_ok first (addPane_init n p h)"
proof -
  assume ok: "home_ok first h"
  let ?h = "remove_core n False p h"
  have 1: "home_ok first ?h" by (rule remove_core_home [OF ok])
  show ?thesis
  proof (cases "hel ?h p")
    case (Some e)
    have "layout_ok (born_pane n p (hl ?h))" using 1 by (intro born_pane_ok) (simp add: home_ok_def)
    then show ?thesis using dress_home [OF 1 Some] Some
      by (simp add: addPane_init_def Let_def remove_core_present born_pane_present)
  qed (simp add: addPane_init_def Let_def 1)
qed

lemma home_same:
  assumes "home_ok first h" "layout_ok l" "kept l = kept (hl h)"
  shows "home_ok first (h\<lparr>hl := l\<rparr>)"
  using assms present_kept [OF assms(3)] by (simp add: home_ok_def)

lemma initPanes_home: "home_ok first h \<Longrightarrow> home_ok first (initPanes n h)"
proof -
  assume ok: "home_ok first h"
  have f: "home_ok first (fold (addPane_init n) ps h)" for ps
    using ok by (induction ps arbitrary: h) (simp_all add: addPane_init_home)
  define h1 where "h1 = fold (addPane_init n) all_panes h"
  define l2 where "l2 = fold (fit_visible n) border_panes (initHandles border_panes (hl h1))"
  have 1: "home_ok first h1" unfolding h1_def by (rule f)
  then have 2: "layout_ok l2" "kept l2 = kept (hl h1)" unfolding l2_def
    by (auto simp: home_ok_def kept_fold [OF kept_fit_visible] kept_initHandles intro!: fold_ok [OF fit_visible_ok] initHandles_ok)
  have "home_ok first (h1\<lparr>hl := fold event_on_load all_panes (mid_center n (born n) False False l2)\<rparr>)"
    by (rule home_same [OF 1]) (use 2 in \<open>auto simp: kept_fold [OF kept_event_on_load] kborn.kept_mid_center
        intro!: fold_ok [OF event_on_load_ok] bornok.mid_center_ok\<close>)
  then show ?thesis by (simp add: initPanes_def Let_def h1_def l2_def)
qed

lemma home_container: "home_ok first h \<Longrightarrow> home_ok first (h\<lparr>hl := (hl h)\<lparr>sC := c\<rparr>\<rparr>)" "home_ok first h \<Longrightarrow> home_ok first (h\<lparr>hl := (hl h)\<lparr>initialized := b\<rparr>\<rparr>)"
  by (simp_all add: home_ok_def layout_ok_def)

lemma init_home: "home_ok first h \<Longrightarrow> home_ok first (snd (initLayoutElements n vis c h))"
  by (simp add: initLayoutElements_def Let_def home_container initPanes_home)

lemma addPane_home: "home_ok first h \<Longrightarrow> home_ok first (snd (addPane n p vis c o' a h))"
proof -
  assume ok: "home_ok first h"
  let ?h = "remove_core n False p h"
  have 1: "home_ok first ?h" by (rule remove_core_home [OF ok])
  show ?thesis
  proof (cases "hel ?h p")
    case (Some e)
    define l2 where "l2 = (if dir_of_pane p = Horz then new_pane p (hl ?h) else sizeMidPane (submit n) True False p (new_pane p (hl ?h)))"
    define l3 where "l3 = settle (bare_sub n) p l2"
    have 2: "layout_ok l2" using 1 unfolding l2_def by (simp add: home_ok_def new_pane_ok ran.sizeMidPane_ok)
    have k: "kept l3 = kept (new_pane p (hl ?h))"
      unfolding l3_def l2_def by (simp add: kbare.kept_settle kran.kept_sizeMidPane)
    define h3 where "h3 = ?h\<lparr>hl := l3, hel := (hel ?h)(p := Some (new_el p ?h e))\<rparr>"
    have 3: "layout_ok l3" unfolding l3_def by (rule bareok.settle_ok [OF 2])
    have h3: "home_ok first h3" unfolding h3_def
      by (rule dress_home [OF 1 Some]) (simp_all add: remove_core_present 3 present_kept [OF k] new_pane_present)
    have 4: "home_ok first (h3\<lparr>hl := event_on_load p (resizeAll n vis c o' a (initHandles [p] l3))\<rparr>)"
      by (rule home_same [OF h3]) (simp_all add: event_on_load_ok resizeAll_ok initHandles_ok 3 kept_event_on_load kept_resizeAll kept_initHandles h3_def)
    define h4 where "h4 = h3\<lparr>hl := event_on_load p (resizeAll n vis c o' a (initHandles [p] l3))\<rparr>"
    have "snd (addPane n p vis c o' a h) = (if \<not> busy l2 \<and> busy l3 then h3 else if p = Center then h3 else h4)"
      by (simp only: addPane_def Let_def Some option.case l2_def [symmetric] l3_def [symmetric] h3_def [symmetric] h4_def [symmetric] if_distrib [of snd] snd_conv)
    then show ?thesis using h3 4 unfolding h4_def by simp
  qed (simp add: addPane_def 1)
qed

lemma removePane_home: "home_ok first h \<Longrightarrow> home_ok first (removePane n d skip p vis c o' a h)"
proof -
  assume "home_ok first h"
  then have 1: "home_ok first (remove_core n d p h)" by (rule remove_core_home)
  moreover have "home_ok first (remove_core n d p h\<lparr>hl := resizeAll n vis c o' a (hl (remove_core n d p h))\<rparr>)"
    by (rule home_same [OF 1]) (use 1 in \<open>simp_all add: home_ok_def resizeAll_ok kept_resizeAll\<close>)
  ultimately show ?thesis by (simp add: removePane_def Let_def)
qed

lemma home_step_ok: "home_step h h' \<Longrightarrow> home_ok first h \<Longrightarrow> home_ok first h'"
proof (induction rule: home_step.induct)
  case (home_acts h l)
  then show ?case by (intro home_same) (auto simp: home_ok_def layout_step_ok kept_layout_step)
next
  case (home_styles h p pvs cs b)
  then obtain e e0 b' where e: "hel h p = Some e" "first p = Some e0" "worn p b' e" "plain b'" "bare b' = bare e0"
    using home_there by blast
  have "worn p b' (e\<lparr>el_style := css_on pvs (el_style e), el_classes := cs, el_autoHidden := b\<rparr>)"
    using home_styles(2) by (intro worn_styled [OF e(3)]) (simp add: sets_only_def)
  then show ?case using home_styles(1,3) e by (auto simp: style_pane_def home_ok_def wears_def)
next
  case (home_styles_root pvs h)
  then show ?case by (simp add: style_root_def home_ok_def)
qed (simp_all add: init_home addPane_home removePane_home)

lemma home_steps_ok: "home_steps h h' \<Longrightarrow> home_ok first h \<Longrightarrow> home_ok first h'"
  by (induction rule: home_steps.induct) (simp_all add: home_step_ok)

end
