(* ===== verification/LayoutLife.thy ===== *)
theory LayoutLife
  imports LayoutBirth
begin

text \<open>
  What the life of a layout of \<open>lib/jquery.layout.js\<close> promises: it is consistent from its creation to its
  end, its end gives the page back, and the center of a new layout fills the room; and where a pane
  that is added later is met by an exception.
\<close>

section \<open>Consistent from creation on\<close>

lemma hroot_keeps:
  "hroot (snd (initLayoutElements n vis c h)) = hroot h" "hroot (snd (addPane n p vis c o' a h)) = hroot h"
  "hroot (removePane n d skip p vis c o' a h) = hroot h"
proof -
  have i: "hroot (addPane_init n p h) = hroot h" for p h by (simp add: addPane_init_def Let_def split: option.split)
  then have "hroot (fold (addPane_init n) ps h) = hroot h" for ps h by (induction ps arbitrary: h) simp_all
  then show "hroot (snd (initLayoutElements n vis c h)) = hroot h" by (simp add: initLayoutElements_def initPanes_def Let_def)
  show "hroot (snd (addPane n p vis c o' a h)) = hroot h" by (simp add: addPane_def Let_def split: option.split)
  show "hroot (removePane n d skip p vis c o' a h) = hroot h" by (simp add: removePane_def Let_def)
qed

lemma home_steps_root: "home_steps h h' \<Longrightarrow> root_worn cls base (hroot h) \<Longrightarrow> root_worn cls base (hroot h')"
proof (induction rule: home_steps.induct)
  case (home_more h m r)
  then have w: "root_worn cls base (hroot m)" by simp
  from home_more.hyps(2) w show ?case
    by (cases rule: home_step.cases) (simp_all add: style_pane_def style_root_def hroot_keeps root_worn_styled sets_only_def)
qed simp

definition fresh_home :: "home \<Rightarrow> bool" where
  "fresh_home h = (layout_ok (hl h) \<and> (\<forall>p. \<not> present (pn (hl h) p) \<and> (\<forall>e. hel h p = Some e \<longrightarrow> plain e)))"

lemma fresh_home_ok: "fresh_home h \<Longrightarrow> home_ok (hel h) h"
  by (simp add: fresh_home_def home_ok_def wears_def split: option.split)

lemma created_ok:
  assumes "create_layout n answer withPanes vis c cn ch cls lid h = (Some ready, h1)" "fresh_home h"
  shows "home_ok (hel h) h1" "hroot h1 = initContainer cn ch cls lid (hroot h)"
proof -
  let ?h = "h\<lparr>hroot := initContainer cn ch cls lid (hroot h)\<rparr>"
  have ok: "home_ok (hel h) ?h" using fresh_home_ok [OF assms(2)] by (simp add: home_ok_def)
  have "h1 = ?h \<or> h1 = snd (initLayoutElements n vis c ?h)"
    using assms(1) by (auto simp: create_layout_def Let_def map_prod_def split: if_splits prod.splits)
  then show "home_ok (hel h) h1" "hroot h1 = initContainer cn ch cls lid (hroot h)"
    using ok init_home [OF ok] hroot_keeps(1) by auto
qed

text \<open>C17. A layout is consistent from its creation on.  However panes are then added, removed, opened, closed,
  hidden and resized, with whatever the script throws on the way, a visible pane is neither closed nor
  hidden, a hidden pane is closed, the center is never closed, and exactly the elements of the panes
  that are there carry the name of their pane.\<close>

theorem layout_lives_consistently:
  assumes "create_layout n answer withPanes vis c cn ch cls lid h = (Some ready, h1)" "fresh_home h" "home_steps h1 h2"
  shows "(isVisible (pn (hl h2) p) \<longrightarrow> \<not> isClosed (pn (hl h2) p) \<and> \<not> isHidden (pn (hl h2) p))
    \<and> (isHidden (pn (hl h2) p) \<longrightarrow> isClosed (pn (hl h2) p)) \<and> \<not> isClosed (pn (hl h2) Center)
    \<and> (present (pn (hl h2) p) \<longleftrightarrow> (\<exists>e. hel h2 p = Some e \<and> el_edge e = Some (pane_name p)))"
proof -
  have ok: "home_ok (hel h) h2" by (rule home_steps_ok [OF assms(3) created_ok(1) [OF assms(1,2)]])
  then have l: "layout_ok (hl h2)" and w: "wears (hel h p) p (present (pn (hl h2) p)) (hel h2 p)" by (simp_all add: home_ok_def)
  have "\<not> isClosed (pn (hl h2) Center)" using l by (simp add: layout_ok_def)
  moreover have "present (pn (hl h2) p) \<longleftrightarrow> (\<exists>e. hel h2 p = Some e \<and> el_edge e = Some (pane_name p))"
    using w by (auto simp: wears_def worn_def plain_def split: option.splits if_splits)
  ultimately show ?thesis using ok_flags [OF l, of p] unfolding flags_ok_def by blast
qed

section \<open>The page comes back\<close>

lemma destroyed_home:
  assumes "home_ok first h"
  shows "home_ok first (fold (remove_core n False) all_panes h)" "\<not> present (pn (hl (fold (remove_core n False) all_panes h)) p)"
proof -
  have f: "home_ok first (fold (remove_core n False) ps h)" for ps
    using assms by (induction ps arbitrary: h) (simp_all add: remove_core_home)
  show "home_ok first (fold (remove_core n False) all_panes h)" by (rule f)
  show "\<not> present (pn (hl (fold (remove_core n False) all_panes h)) p)"
    by (cases p) (simp_all add: all_panes_def remove_core_present)
qed

lemma home_steps_saved: "home_steps h h' \<Longrightarrow> saved_body cn (hroot h) \<Longrightarrow> saved_body cn (hroot h')"
proof (induction rule: home_steps.induct)
  case (home_more h m r)
  then have w: "saved_body cn (hroot m)" by simp
  from home_more.hyps(2) w show ?case
    by (cases rule: home_step.cases) (simp_all add: style_pane_def style_root_def hroot_keeps saved_body_def)
qed simp

lemma destroy_root: "hroot (destroy m cls h) = destroy_container cls (hroot h)"
proof -
  have "hroot (fold (remove_core m False) ps x) = hroot x" for ps x by (induction ps arbitrary: x) simp_all
  then show ?thesis by (simp add: destroy_def Let_def)
qed

text \<open>C19. Destroying a layout gives the page back.  Panes may have been added and removed, and they and the
  container may have been styled in between, by the properties the layout has saved.  Every element that
  served as a pane then has its inline styles, except the visibility, and no data or events of
  the layout, whatever the container is (the classes are not covered).  A container that is not the body of the page, and had no data,
  events or class of a layout before, is as it was.  A container that is the body is not: its
  height is left fixed at what the browser computed when the layout was created, whatever style
  it had; and the body is what the documentation page makes its layout of.\<close>

theorem destroyed_page_is_restored:
  assumes "create_layout n answer withPanes vis c cn ch cls lid h = (Some ready, h1)" "fresh_home h" "home_steps h1 h2"
  shows "(\<forall>e'. hel (destroy m cls h2) p = Some e' \<longrightarrow> (\<exists>e. hel h p = Some e \<and> plain e' \<and> bare e' = bare e))
    \<and> (unused_root cls (hroot h) \<longrightarrow> hroot (destroy m cls h2) = hroot h)
    \<and> (full_page (hroot h) \<and> el_saved (root_el (hroot h)) = None \<and> el_role (root_el (hroot h)) = None \<longrightarrow>
        el_style (root_el (hroot (destroy m cls h2))) ''height'' = cn ''height'')"
proof (intro conjI impI)
  define h3 where "h3 = fold (remove_core m False) all_panes h2"
  note root = created_ok(2) [OF assms(1,2)]
  have ok: "home_ok (hel h) h2" by (rule home_steps_ok [OF assms(3) created_ok(1) [OF assms(1,2)]])
  have "wears (hel h p) p False (hel h3 p)" using destroyed_home(1) [OF ok, of m] destroyed_home(2) [OF ok, of m p] unfolding h3_def [symmetric] by (metis home_ok_def)
  then show "\<forall>e'. hel (destroy m cls h2) p = Some e' \<longrightarrow> (\<exists>e. hel h p = Some e \<and> plain e' \<and> bare e' = bare e)"
    by (auto simp: destroy_def Let_def h3_def [symmetric] wears_def split: option.splits)
  show "hroot (destroy m cls h2) = hroot h" if u: "unused_root cls (hroot h)"
    using home_steps_root [OF assms(3)] init_root_worn [OF u] root destroy_root_worn [OF _ u] by (simp add: destroy_root)
  show "el_style (root_el (hroot (destroy m cls h2))) ''height'' = cn ''height''"
    if "full_page (hroot h) \<and> el_saved (root_el (hroot h)) = None \<and> el_role (root_el (hroot h)) = None"
    using home_steps_saved [OF assms(3)] init_saved_body that root destroy_saved_body by (simp add: destroy_root)
qed

section \<open>The center of a new layout\<close>

lemma sizeMidPane_center: "sizeMidPane sub k f Center l = sizeMidPane enqueue k f Center l"
proof -
  have "makePaneFit s h Center a b x = fit_height Center x" for s h a b x by (simp add: makePaneFit_def Let_def)
  then show ?thesis by (simp only: sizeMidPane_def)
qed

lemma center_tiles:
  assumes "roomy (sizeMidPane sub k f Center l)"
  shows "tiles (sizeMidPane sub k f Center l)"
  using assms roomy_shares [OF queued.shares_sizeMidPane, of Center k f l] queued.center_sized [of l k f]
  unfolding sizeMidPane_center [of sub] by simp

lemma mid_center_tiles: "roomy (mid_center m sub k f l) \<Longrightarrow> tiles (mid_center m sub k f l)"
  by (induction m arbitrary: l) (auto simp: Let_def center_tiles split: prod.splits if_splits)

text \<open>C23. The center of a new layout fills what the border panes leave, also when panes had to be fitted, closed
  or hidden for lack of room, as long as the center has room for its frame.\<close>

theorem created_center_fills:
  assumes "initLayoutElements n vis c h = (True, h1)" "roomy (hl h1)"
  shows "getPaneSize (hl h1) West True + outerWidth (pn (hl h1) Center) + getPaneSize (hl h1) East True = innerWidth (sC (hl h1))
    \<and> getPaneSize (hl h1) North True + outerHeight (pn (hl h1) Center) + getPaneSize (hl h1) South True = innerHeight (sC (hl h1))"
proof -
  define l where "l = fold (fit_visible n) border_panes (initHandles border_panes (hl (fold (addPane_init n) all_panes (h\<lparr>hl := (hl h)\<lparr>sC := c\<rparr>\<rparr>))))"
  define m where "m = mid_center n (born n) False False l"
  have b: "bodies (fold event_on_load all_panes m) = bodies m" by (rule bodies_fold) (simp add: event_on_load_def body_same)
  have e: "hl h1 = (fold event_on_load all_panes m)\<lparr>initialized := True\<rparr>"
    using assms(1) by (auto simp: initLayoutElements_def initPanes_def Let_def m_def l_def split: if_splits)
  have i: "roomy (x\<lparr>initialized := True\<rparr>) = roomy x" "tiles (x\<lparr>initialized := True\<rparr>) = tiles x" for x :: layout
    by (simp_all add: roomy_def tiles_def calcNewCenterPaneDims_def getPaneSize_def Let_def)
  have "roomy m" using assms(2) roomy_shares [OF shares_bodies [OF b]] by (simp add: e i)
  then have "tiles m" unfolding m_def by (rule mid_center_tiles)
  then have "tiles (hl h1)" using tiles_bodies [OF b] by (simp add: e i)
  then show ?thesis by (simp add: tiles_def)
qed

section \<open>A pane that is added closed\<close>

text \<open>The queue as a whole: whether a job runs, and what is animated.\<close>

definition at_work :: "layout \<Rightarrow> bool \<times> anim option" where
  "at_work l = (busy l, anim l)"

lemma at_work_steps [simp]:
  "at_work (upd p f l) = at_work l" "at_work (fire e p l) = at_work l" "at_work (enqueue j l) = at_work l"
  "at_work (snd (runCallbacks e p l)) = at_work l" "at_work (fit_height p l) = at_work l"
  by (simp_all add: at_work_def fire_def runCallbacks_def enqueue_def fit_height_def Let_def)

lemma at_work_sizeHandles [simp]: "at_work (sizeHandles ps l) = at_work l"
proof -
  have 1: "at_work (sizeHandle p l) = at_work l" for p l by (simp add: sizeHandle_def Let_def split: prod.split)
  have "at_work (fold sizeHandle qs l) = at_work l" for qs by (induction qs arbitrary: l) (simp_all add: 1)
  then show ?thesis unfolding sizeHandles_def by blast
qed

lemma at_work_walk:
  "at_work x = r \<Longrightarrow> (\<And>y. at_work y = r \<Longrightarrow> at_work (f y) = r) \<Longrightarrow> at_work (let y = x in f y) = r"
  "(\<And>d. at_work (g d) = r) \<Longrightarrow> at_work (let d = (t :: center_dims) in g d) = r"
  "at_work x = r \<Longrightarrow> at_work z = r \<Longrightarrow> at_work (if b then x else z) = r"
  by simp_all

lemma at_work_makePaneFit: "at_work (makePaneFit enqueue (\<lambda>_ l. l) p a b l) = at_work l"
proof -
  have "at_work (show_pane enqueue p a b c l) = at_work l" for a b c l
    by (simp add: show_pane_def runCallbacks_def at_work_def enqueue_def Let_def split: cbret.split)
  then show ?thesis by (simp add: makePaneFit_def Let_def)
qed

lemma at_work_sizeMidPanes: "at_work (sizeMidPanes enqueue ps k f l) = at_work l"
proof -
  have 1: "at_work (sizeMidPane enqueue k f p l) = at_work l" for p l
    unfolding sizeMidPane_def by (intro at_work_walk) (simp_all add: at_work_makePaneFit)
  have "at_work (fold (sizeMidPane enqueue k f) qs l) = at_work l" for qs by (induction qs arbitrary: l) (simp_all add: 1)
  then show ?thesis unfolding sizeMidPanes_def by blast
qed

text \<open>A pane with room sizes itself without any job.\<close>

lemma sizeMidPane_room:
  assumes "\<not> noRoom (pn l p)"
  shows "sizeMidPane sub k f p l = sizeMidPane enqueue k f p l" "isShowing (pn (sizeMidPane sub k f p l) p) = isShowing (pn l p)"
proof -
  define d where "d = calcNewCenterPaneDims l"
  define l' where "l' = upd p (midPane_dims p) l"
  define l2 where "l2 = upd p (midPane_css p d) (if \<not> k \<and> initialized l' then fire ''onresize_start'' p l' else l')"
  define l3 where "l3 = (if p \<noteq> Center then sizeHandles [p] l2 else l2)"
  have "noRoom (pn l2 p) = noRoom (pn l p)"
    by (simp add: l2_def l'_def midPane_css_def midPane_dims_def elDims_def fire_def runCallbacks_def)
  then have nr: "\<not> noRoom (pn l3 p)"
    using assms body_fields(14) [OF bodies_reads(1) [OF body_sizeHandles, of "[p]" l2 p]] by (auto simp: l3_def)
  have e: "sizeMidPane s k f p l = (if \<not> present (pn l p) then l else if midPane_skips p f d (pn l' p) then l'
      else (let l4 = (if noRoom (pn l3 p) \<and> \<not> isClosed (pn l3 p) \<and> \<not> isHidden (pn l3 p) then makePaneFit s (\<lambda>_ l. l) p False False l3 else l3);
                l5 = (if isVisible (pn l4 p) then upd p elDims l4 else l4)
            in if isVisible (pn l5 p) \<and> \<not> k \<and> initialized l5 then fire ''onresize_end'' p l5 else l5))" for s
    unfolding sizeMidPane_def Let_def d_def [symmetric] l'_def [symmetric] l2_def [symmetric] l3_def [symmetric] ..
  show "sizeMidPane sub k f p l = sizeMidPane enqueue k f p l" unfolding e using nr by simp
  have "isShowing (pn l2 p) = isShowing (pn l p)"
    by (simp add: l2_def l'_def midPane_css_def midPane_dims_def elDims_def fire_def runCallbacks_def)
  moreover have "isShowing (pn l3 p) = isShowing (pn l2 p)"
    using body_fields(13) [OF bodies_reads(1) [OF body_sizeHandles, of "[p]" l2 p]] by (auto simp: l3_def)
  ultimately show "isShowing (pn (sizeMidPane sub k f p l) p) = isShowing (pn l p)"
    unfolding e using nr by (simp add: Let_def l'_def midPane_dims_def elDims_def fire_def runCallbacks_def)
qed

lemma run_queue_busy: "busy l \<Longrightarrow> run_queue m l = l"
  by (cases m) simp_all

text \<open>C25. Adding a pane that starts closed to a layout in use jams it.  Closing the pane moves its resizer before
  it is made: the script throws inside the job, so that every later action only waits in the queue.\<close>

theorem adding_closed_pane_jams:
  assumes "\<not> busy (hl h)" "anim (hl h) = None" "hel h p = Some e" "\<not> present (pn (hl h) p)" "p \<noteq> Center"
    and "initClosed (op (hl h) p)" "closable (op (hl h) p)" "\<not> initHidden (op (hl h) p)"
    and "\<not> isShowing (pn (hl h) p)" "cb (hl h) ''onclose_start'' p \<noteq> CbFalse"
    and "addPane n p vis c o' a h = (r, h')"
  shows "r = Some NoResizer \<and> submit m j (hl h') = enqueue j (hl h') \<and> animation_done m (hl h') = hl h'"
proof -
  define l1 where "l1 = new_pane p (hl h)"
  define l2 where "l2 = (if dir_of_pane p = Horz then l1 else sizeMidPane (submit n) True False p l1)"
  have rc: "remove_core n False p h = h" using assms(4) by (simp add: remove_core_def)
  have 1: "at_work l1 = at_work (hl h)" "op l1 = op (hl h)" "cb l1 = cb (hl h)" "\<not> noRoom (pn l1 p)" "isShowing (pn l1 p) = isShowing (pn (hl h) p)"
    using assms(5) by (simp_all add: l1_def new_pane_def there_def Let_def split_def set_css_def)
  have q: "sizeMidPane (submit n) True False p l1 = sizeMidPane enqueue True False p l1" by (rule sizeMidPane_room(1) [OF 1(4)])
  have 2: "at_work l2 = at_work (hl h)" "op l2 = op (hl h)" "cb l2 = cb (hl h)" "isShowing (pn l2 p) = isShowing (pn (hl h) p)"
    using 1 at_work_sizeMidPanes [of "[p]" True False l1] queued.only_sizeMidPane [of p l1 True False] sizeMidPane_room(2) [OF 1(4), of "submit n" True False]
    by (auto simp: l2_def q only_def sizeMidPanes_def)
  have nb: "\<not> busy l2" using 2(1) assms(1) by (simp add: at_work_def)
  define l3 where "l3 = settle (bare_sub n) p l2"
  have "l3 = close_bare p True l2"
    using assms(5-8) nb 2 by (simp add: l3_def settle_def starts_closed_def bare_sub_def)
  then have "at_work l3 = (True, anim l2)"
    using assms(7,9,10) 2(2-4)
    by (simp add: close_bare_def Let_def runCallbacks_def at_work_sizeMidPanes) (simp add: at_work_def)
  then have 3: "busy l3" "anim l3 = None" using 2(1) assms(2) by (simp_all add: at_work_def)
  have a: "addPane n p vis c o' a h = (Some NoResizer, h\<lparr>hl := l3, hel := (hel h)(p := Some (new_el p h e))\<rparr>)"
    using nb 3(1) assms(3) by (simp add: addPane_def Let_def rc l1_def [symmetric] l2_def [symmetric] l3_def [symmetric])
  have "h' = h\<lparr>hl := l3, hel := (hel h)(p := Some (new_el p h e))\<rparr>" "r = Some NoResizer"
    using a assms(11) by simp_all
  then show ?thesis using 3 by (simp add: submit_def enqueue_def run_queue_busy animation_done_def)
qed

text \<open>The center cannot be added again: it has no side for a resizer.\<close>

lemma readding_center_throws:
  assumes "hel (remove_core n False Center h) Center = Some e"
  shows "fst (addPane n Center vis c o' a h) \<noteq> None"
  using assms by (simp add: addPane_def Let_def)

section \<open>The theorems on concrete layouts\<close>

definition newborn :: home where
  "newborn = \<lparr>hl = \<lparr>pn = (\<lambda>p. (demo_pane 300 200)\<lparr>present := False\<rparr>), op = (\<lambda>_. demo_opts),
       sC = \<lparr>innerWidth = 0, innerHeight = 0, insetTop = 10, insetBottom = 10, insetLeft = 10, insetRight = 10\<rparr>,
       initialized = False, queue = [], busy = False, anim = None, cb = (\<lambda>_ _. NC), events = []\<rparr>,
     hel = (\<lambda>p. if p = Center \<or> p = West then Some plain_el else None), hset = (\<lambda>_. demo_setup), hroot = plain_page False\<rparr>"

definition created :: home where
  "created = snd (create_layout 3 NC True True (sC demo) (\<lambda>_. Txt ''static'') (\<lambda>_. Txt ''static'') ''box'' 1 newborn)"

lemma newborn_fresh: "fresh_home newborn" "unused_root ''box'' (hroot newborn)"
  by (simp_all add: fresh_home_def newborn_def layout_ok_def flags_ok_def demo_pane_def no_ctl_def plain_def plain_el_def
      unused_root_def plain_page_def)

lemma newborn_created:
  "create_layout 3 NC True True (sC demo) (\<lambda>_. Txt ''static'') (\<lambda>_. Txt ''static'') ''box'' 1 newborn = (Some True, created)"
  by (simp add: created_def create_layout_def initLayoutElements_def newborn_def Let_def)

lemma created_initialized: "initialized (hl created)"
  by (simp add: created_def create_layout_def initLayoutElements_def newborn_def Let_def)

lemma created_steps: "home_steps created (removePane 3 False True West True (sC demo) 600 NC created)"
  by (rule home_more [OF home_refl home_removes]) (rule created_initialized)

theorem layout_lives_consistently_witness:
  "\<not> isClosed (pn (hl (removePane 3 False True West True (sC demo) 600 NC created)) Center)"
  using layout_lives_consistently [OF newborn_created newborn_fresh(1) created_steps] by blast

theorem destroyed_page_is_restored_witness:
  "hroot (destroy 3 ''box'' (removePane 3 False True West True (sC demo) 600 NC created)) = plain_page False"
  using destroyed_page_is_restored [OF newborn_created newborn_fresh(1) created_steps, of 3 Center] newborn_fresh(2)
  by (simp add: newborn_def)

lemma newborn_roomy: "roomy (hl (snd (initLayoutElements 3 True (sC demo) newborn)))"
  by code_simp

theorem created_center_fills_witness:
  "\<exists>h1. initLayoutElements 3 True (sC demo) newborn = (True, h1) \<and>
    getPaneSize (hl h1) West True + outerWidth (pn (hl h1) Center) + getPaneSize (hl h1) East True = innerWidth (sC (hl h1))"
proof -
  have e: "initLayoutElements 3 True (sC demo) newborn = (True, snd (initLayoutElements 3 True (sC demo) newborn))"
    by (simp add: initLayoutElements_def newborn_def Let_def)
  show ?thesis using created_center_fills [OF e newborn_roomy] e by blast
qed

definition without_west :: home where
  "without_west = newborn\<lparr>hl := demo\<lparr>pn := (pn demo)(West := (demo_pane 100 388)\<lparr>present := False\<rparr>),
     op := (op demo)(West := demo_opts\<lparr>initClosed := True\<rparr>)\<rparr>\<rparr>"

theorem adding_closed_pane_jams_witness:
  "fst (addPane 3 West True (sC demo) 600 NC without_west) = Some NoResizer"
proof -
  obtain r h' where a: "addPane 3 West True (sC demo) 600 NC without_west = (r, h')" by fastforce
  have "r = Some NoResizer"
    using adding_closed_pane_jams [OF _ _ _ _ _ _ _ _ _ _ a, of plain_el 1 "JOpen West False True True"]
    by (simp add: without_west_def newborn_def demo_def demo_pane_def demo_opts_def demo_setup_def)
  then show ?thesis by (simp add: a)
qed

text \<open>
  The width a center lacks is measured before the center is sized: a center whose content is narrow
  takes a hundred pixels from the side pane though it is then given far more than its minimum.
\<close>

definition newborn_narrow :: home where
  "newborn_narrow = newborn\<lparr>hl := (hl newborn)\<lparr>pn := (\<lambda>p. (demo_pane 100 200)\<lparr>present := False\<rparr>),
     op := (\<lambda>p. if p = Center then demo_opts\<lparr>minWidth := 200\<rparr> else demo_opts\<lparr>o_size := Num 200, o_minSize := Num 100\<rparr>)\<rparr>\<rparr>"

lemma narrow_center_takes:
  "p_size (pn (hl (snd (initLayoutElements 3 True (sC demo) newborn_narrow))) West) = 100"
  "outerWidth (pn (hl (snd (initLayoutElements 3 True (sC demo) newborn_narrow))) Center) = 694"
  by code_simp+

end
