(* ===== verification/LayoutSwap.thy ===== *)
theory LayoutSwap
  imports LayoutBirth LayoutControls
begin

text \<open>
  \<open>swapPanes\<close> of \<open>lib/jquery.layout.js\<close>: a pane moves to the other side with its element, its options and
  its state, and the pane of that side takes its place; resizers and togglers are made anew.  The slide
  timers belong to the side, since their names do.  The layout is one that is initialised.  The events of \<open>triggerHandler\<close> need an element.
\<close>

section \<open>Copies of panes\<close>

datatype swap_error = NoPane | NoSideName

record pane_copy =
  c_from :: pane
  c_state :: pane_state
  c_opts :: pane_opts
  c_setup :: pane_setup
  c_el :: "el option"

definition copy_pane :: "pane \<Rightarrow> home \<Rightarrow> pane_copy" where
  "copy_pane p h = \<lparr>c_from = p, c_state = pn (hl h) p, c_opts = op (hl h) p, c_setup = hset h p, c_el = hel h p\<rparr>"

text \<open>A state without keys.\<close>

definition clear_state :: "pane_state \<Rightarrow> pane_state" where
  "clear_state s =
     s\<lparr>present := False, shown := False, isClosed := False, isHidden := False, isVisible := False, isSliding := False,
       isMoving := False, isResizing := False, isShowing := False, isHiding := False, noRoom := False, wasOpen := False,
       noVerticalRoom := False, p_size := 0, s_minSize := 0, s_maxSize := 0, s_maxWidth := 0, s_maxHeight := 0,
       s_outerWidth := 0, s_outerHeight := 0, r_min := 0, r_max := 0, has_toggler := False, ctl := no_ctl,
       start_bound := False, stop_bound := False\<rparr>"

definition clear_pane :: "pane \<Rightarrow> home \<Rightarrow> home" where
  "clear_pane p h = h\<lparr>hl := upd p clear_state (hl h), hel := (hel h)(p := None)\<rparr>"

section \<open>Moving\<close>

text \<open>The effects and the cursor belong to the side.\<close>

definition moved_opts :: "pane_opts \<Rightarrow> pane_opts \<Rightarrow> pane_opts" where
  "moved_opts src tgt =
     src\<lparr>fx_open := fx_open tgt, fx_close := fx_close tgt, ui := (ui src)\<lparr>resizerCursor := resizerCursor (ui tgt)\<rparr>\<rparr>"

function replace_all :: "string \<Rightarrow> string \<Rightarrow> string \<Rightarrow> string" where
  "replace_all pat rep [] = []"
| "replace_all pat rep (x # xs) =
     (if pat \<noteq> [] \<and> prefix pat (x # xs) then rep @ replace_all pat rep (drop (length pat) (x # xs))
      else x # replace_all pat rep xs)"
  by pat_completeness auto
termination by (relation "measure (\<lambda>(_, _, s). length s)") auto

definition moved_el :: "pane_setup \<Rightarrow> pane \<Rightarrow> pane \<Rightarrow> el \<Rightarrow> el" where
  "moved_el u old p e =
     e\<lparr>el_edge := Some (pane_name p),
       el_style := css_on (cssReq p) (css_on [(''visibility'', Txt ''hidden'')] (el_style e)),
       el_classes := map (replace_all (LayoutElems.paneClass u @ ''-'' @ pane_name old) (LayoutElems.paneClass u @ ''-'' @ pane_name p)) (el_classes e)\<rparr>"

definition place_copy :: "pane_copy \<Rightarrow> pane \<Rightarrow> home \<Rightarrow> home" where
  "place_copy c p h =
     (let l = hl h
      in h\<lparr>hl := l\<lparr>pn := (pn l)(p := (c_state c)\<lparr>open_timer := open_timer (pn l p), close_timer := close_timer (pn l p)\<rparr>),
                   op := (op l)(p := moved_opts (c_opts c) (op l p))\<rparr>,
           hset := (hset h)(p := c_setup c), hel := (hel h)(p := map_option (moved_el (hset h p) (c_from c) p) (c_el c))\<rparr>)"

text \<open>A pane that turns takes the size of the pane whose place it takes.\<close>

definition settle_copy :: "nat \<Rightarrow> int \<Rightarrow> pane_copy \<Rightarrow> pane \<Rightarrow> layout \<Rightarrow> layout" where
  "settle_copy n sz c p l =
     (let l2 = initHandles [p] l;
          l3 = (if dir_of_pane p \<noteq> dir_of_pane (c_from c)
                then (let l' = setSizeLimits p None l2
                      in manualSizePane n p (Num (of_int (max sz (s_minSize (pn l' p))))) True True l')
                else upd p (\<lambda>s. s\<lparr>r_pos := inset (sC l2) p + (if isVisible s then getPaneSize l2 p False else 0)\<rparr>) l2)
      in if isVisible (c_state c) then setAsOpen p True l3 else bindStartSlidingEvent p True (setAsClosed p l3))"

definition move_pane :: "nat \<Rightarrow> int \<Rightarrow> pane_copy \<Rightarrow> pane \<Rightarrow> home \<Rightarrow> home" where
  "move_pane n sz c p h = (let h1 = place_copy c p h in h1\<lparr>hl := settle_copy n sz c p (hl h1)\<rparr>)"

definition show_el :: "pane \<Rightarrow> home \<Rightarrow> home" where
  "show_el p h = h\<lparr>hel := (hel h)(p := map_option (\<lambda>e. e\<lparr>el_style := css_on [(''visibility'', Txt ''visible'')] (el_style e)\<rparr>) (hel h p))\<rparr>"

definition swap_core :: "nat \<Rightarrow> pane \<Rightarrow> pane \<Rightarrow> home \<Rightarrow> swap_error option \<times> home" where
  "swap_core n p1 p2 h =
     (let c1 = copy_pane p1 h; c2 = copy_pane p2 h; h1 = clear_pane p2 (clear_pane p1 h)
      in if p2 = Center then (Some NoSideName, h1)
         else (let h2 = move_pane n (p_size (c_state c2)) c1 p2 h1
               in if p1 = Center then (Some NoSideName, h2)
                  else (None, show_el p2 (show_el p1 (move_pane n (p_size (c_state c1)) c2 p1 h2)))))"

definition swapPanes :: "nat \<Rightarrow> pane \<Rightarrow> pane \<Rightarrow> bool \<Rightarrow> container \<Rightarrow> int \<Rightarrow> cbret \<Rightarrow> home \<Rightarrow> swap_error option \<times> home" where
  "swapPanes n p1 p2 vis c outerH answer h =
     (let (r1, l1) = runCallbacks ''onswap_start'' p1 (hl h)
      in if r1 = CbFalse then (None, h\<lparr>hl := l1\<rparr>)
         else if \<not> present (pn l1 p1) then (Some NoPane, h\<lparr>hl := l1\<rparr>)
         else (let (r2, l2) = runCallbacks ''onswap_start'' p2 l1
               in if r2 = CbFalse then (None, h\<lparr>hl := l2\<rparr>)
                  else if \<not> present (pn l2 p2) then (Some NoPane, h\<lparr>hl := l2\<rparr>)
                  else (let (e, h3) = swap_core n p1 p2 (h\<lparr>hl := l2\<rparr>)
                        in if e \<noteq> None then (e, h3)
                           else (None, h3\<lparr>hl := fire ''onswap_end'' p2 (fire ''onswap_end'' p1 (resizeAll n vis c outerH answer (hl h3)))\<rparr>))))"

section \<open>What changes sides\<close>

text \<open>The settling of a pane that does not turn leaves every pane its share of the room.\<close>

lemma shares_initHandles: "shares (initHandles ps l) = shares l"
proof -
  have f: "shares (upd p (fresh_handles o') l) = shares l" for p o' l
    by (rule shares_upd) (simp add: fresh_handles_def share_def)
  have 1: "shares (initHandle p l) = shares l" for p l
    unfolding initHandle_def Let_def
    using shares_bodies [OF body_setAsClosed] shares_bodies [OF body_start] by (simp add: setAsOpen_keeps f)
  have "shares (fold initHandle qs l) = shares l" for qs by (induction qs arbitrary: l) (simp_all add: 1)
  then show ?thesis unfolding initHandles_def using shares_bodies [OF body_sizeHandles] by simp
qed

lemma shares_settle_copy:
  assumes "dir_of_pane p = dir_of_pane (c_from c)"
  shows "shares (settle_copy n sz c p l) = shares l"
proof -
  have "shares (upd p (\<lambda>s. s\<lparr>r_pos := v + (if isVisible s then w else 0)\<rparr>) l) = shares l" for l v w
    by (rule shares_upd) (simp add: share_def)
  then show ?thesis
    using assms shares_bodies [OF body_setAsClosed] shares_bodies [OF body_start]
    by (simp add: settle_copy_def Let_def setAsOpen_keeps shares_initHandles)
qed

lemma getPaneSize_share:
  assumes "share p (pn l' p) = share p (pn l q)" "spacing_open (op l' p) = spacing_open (op l q)" "spacing_closed (op l' p) = spacing_closed (op l q)"
    and "dir_of_pane p = dir_of_pane q" "p \<noteq> Center"
  shows "getPaneSize l' p b = getPaneSize l q b"
  using assms by (cases p; cases q; cases "isHidden (pn l q)")
    (simp_all add: share_def getPaneSize_def Let_def outer_in_def outerWidth_def outerHeight_def)

lemma swap_core_shares:
  assumes "p1 \<noteq> p2" "p1 \<noteq> Center" "p2 \<noteq> Center" "dir_of_pane p1 = dir_of_pane p2" "swap_core n p1 p2 h = (e, h')"
  shows "e = None" "share p1 (pn (hl h') p1) = share p1 (pn (hl h) p2)" "share p2 (pn (hl h') p2) = share p2 (pn (hl h) p1)"
    "op (hl h') p1 = moved_opts (op (hl h) p2) (op (hl h) p1)" "op (hl h') p2 = moved_opts (op (hl h) p1) (op (hl h) p2)"
    "\<And>q. q \<noteq> p1 \<Longrightarrow> q \<noteq> p2 \<Longrightarrow> share q (pn (hl h') q) = share q (pn (hl h) q) \<and> op (hl h') q = op (hl h) q"
    "sC (hl h') = sC (hl h)"
proof -
  define c1 c2 h1 where "c1 = copy_pane p1 h" and "c2 = copy_pane p2 h" and "h1 = clear_pane p2 (clear_pane p1 h)"
  define h2 where "h2 = move_pane n (p_size (c_state c2)) c1 p2 h1"
  define h3 where "h3 = move_pane n (p_size (c_state c1)) c2 p1 h2"
  have e: "e = None" "hl h' = hl h3"
    using assms by (auto simp: swap_core_def Let_def c1_def c2_def h1_def h2_def h3_def show_el_def)
  have s2: "shares (hl h2) = shares (hl (place_copy c1 p2 h1))" and s3: "shares (hl h3) = shares (hl (place_copy c2 p1 h2))"
    using assms(4) by (simp_all add: h2_def h3_def move_pane_def Let_def shares_settle_copy c1_def c2_def copy_pane_def)
  note r2 = shares_reads [OF s2] and r3 = shares_reads [OF s3]
  have t: "share p (s\<lparr>open_timer := a, close_timer := b\<rparr>) = share p s" for p s a b by (simp add: share_def)
  show "e = None" by (rule e(1))
  show "share p1 (pn (hl h') p1) = share p1 (pn (hl h) p2)"
    using r3(1) [of p1] by (simp add: e(2) place_copy_def Let_def t c2_def copy_pane_def)
  show "share p2 (pn (hl h') p2) = share p2 (pn (hl h) p1)"
    using r3(1) [of p2] r2(1) [of p2] assms(1) by (simp add: e(2) place_copy_def Let_def t c1_def copy_pane_def)
  show "op (hl h') p1 = moved_opts (op (hl h) p2) (op (hl h) p1)" "op (hl h') p2 = moved_opts (op (hl h) p1) (op (hl h) p2)"
    "sC (hl h') = sC (hl h)"
    using r3(2,3) r2(2,3) assms(1) by (simp_all add: e(2) place_copy_def Let_def c1_def c2_def copy_pane_def h1_def clear_pane_def)
  show "share q (pn (hl h') q) = share q (pn (hl h) q) \<and> op (hl h') q = op (hl h) q" if "q \<noteq> p1" "q \<noteq> p2" for q
    using r3(1) [of q] r2(1) [of q] r3(2) r2(2) that by (simp add: e(2) place_copy_def Let_def h1_def clear_pane_def)
qed

text \<open>The flags of a pane; the settling of a pane that does not turn changes those of no pane.\<close>

definition pane_flags :: "pane_state \<Rightarrow> bool \<times> bool \<times> bool \<times> bool \<times> bool" where
  "pane_flags s = (present s, isClosed s, isHidden s, isVisible s, isSliding s)"

lemma flags_body: "body s = body t \<Longrightarrow> pane_flags s = pane_flags t"
  using body_fields [of s t] by (simp add: pane_flags_def)

lemma flags_bodies: "bodies l' = bodies l \<Longrightarrow> pane_flags (pn l' q) = pane_flags (pn l q)"
  by (rule flags_body) (rule bodies_reads(1))

lemma flags_setAsOpen [simp]: "pane_flags (pn (setAsOpen p k l) q) = pane_flags (pn l q)"
proof -
  have "pane_flags (pn (setAsOpen p k l) q) = pane_flags (pn (upd p elDims l) q)" by (rule flags_body [OF body_setAsOpen(1)])
  then show ?thesis by (simp add: pane_flags_def elDims_def)
qed

lemmas flags_same [simp] = flags_bodies [OF body_setAsClosed] flags_bodies [OF body_start] flags_bodies [OF body_sizeHandles]

lemma flags_upd: "(\<And>s. pane_flags (f s) = pane_flags s) \<Longrightarrow> pane_flags (pn (upd p f l) q) = pane_flags (pn l q)"
  by simp

lemma flags_initHandles [simp]: "pane_flags (pn (initHandles ps l) q) = pane_flags (pn l q)"
proof -
  have f: "pane_flags (fresh_handles o' s) = pane_flags s" for o' s by (simp add: pane_flags_def fresh_handles_def)
  have 1: "pane_flags (pn (initHandle p l) q) = pane_flags (pn l q)" for p l
    by (simp add: initHandle_def Let_def f)
  have "pane_flags (pn (fold initHandle qs l) q) = pane_flags (pn l q)" for qs by (induction qs arbitrary: l) (simp_all add: 1)
  then show ?thesis by (simp add: initHandles_def)
qed

lemma flags_settle_copy:
  assumes "dir_of_pane p = dir_of_pane (c_from c)"
  shows "pane_flags (pn (settle_copy n sz c p l) q) = pane_flags (pn l q)"
proof -
  have "pane_flags (s\<lparr>r_pos := v\<rparr>) = pane_flags s" for s v by (simp add: pane_flags_def)
  then show ?thesis using assms by (simp add: settle_copy_def Let_def)
qed

lemma swap_core_flags:
  assumes "p1 \<noteq> p2" "p1 \<noteq> Center" "p2 \<noteq> Center" "dir_of_pane p1 = dir_of_pane p2" "swap_core n p1 p2 h = (e, h')"
  shows "pane_flags (pn (hl h') q) = pane_flags (pn (hl h) (if q = p1 then p2 else if q = p2 then p1 else q))"
proof -
  have t: "pane_flags (s\<lparr>open_timer := a, close_timer := b\<rparr>) = pane_flags s" for s a b by (simp add: pane_flags_def)
  have "hl h' = hl (snd (swap_core n p1 p2 h))" using assms(5) by simp
  then show ?thesis
    using assms(1-4) by (simp add: swap_core_def Let_def show_el_def move_pane_def flags_settle_copy copy_pane_def
        place_copy_def clear_pane_def t)
qed

text \<open>
  What a swap promises of the layout \<open>l'\<close> it makes of \<open>l\<close>: of each of the two panes the other has the
  presence, the flags, the options (but those of the side) and the room it took with the spacing,
  visible or not; every other pane has what it had; and the center has the same room.
\<close>

definition exchanged :: "pane \<Rightarrow> pane \<Rightarrow> layout \<Rightarrow> layout \<Rightarrow> bool" where
  "exchanged p1 p2 l l' \<longleftrightarrow>
     (\<forall>q b. let q' = (if q = p1 then p2 else if q = p2 then p1 else q)
        in pane_flags (pn l' q) = pane_flags (pn l q')
           \<and> op l' q = (if q' = q then op l q else moved_opts (op l q') (op l q))
           \<and> (q \<noteq> Center \<longrightarrow> getPaneSize l' q b = getPaneSize l q' b))
     \<and> c_width (calcNewCenterPaneDims l') = c_width (calcNewCenterPaneDims l)
     \<and> c_height (calcNewCenterPaneDims l') = c_height (calcNewCenterPaneDims l)"

lemma swap_core_exchanges:
  assumes "p2 = oppositeEdge p1" "p1 \<noteq> Center" "swap_core n p1 p2 h = (e, h')"
  shows "e = None" "exchanged p1 p2 (hl h) (hl h')"
proof -
  have p: "p1 \<noteq> p2" "p2 \<noteq> Center" "dir_of_pane p1 = dir_of_pane p2" using assms(1,2) by (cases p1; simp)+
  note f = swap_core_shares [OF p(1) assms(2) p(2,3) assms(3)]
  note g = swap_core_flags [OF p(1) assms(2) p(2,3) assms(3)]
  have 1: "getPaneSize (hl h') p1 b = getPaneSize (hl h) p2 b" "getPaneSize (hl h') p2 b = getPaneSize (hl h) p1 b" for b
    using getPaneSize_share [of p1 "hl h'" "hl h" p2 b] getPaneSize_share [of p2 "hl h'" "hl h" p1 b] f(2-5) p assms(2)
    by (simp_all add: moved_opts_def)
  have 2: "getPaneSize (hl h') q b = getPaneSize (hl h) q b" if "q \<noteq> p1" "q \<noteq> p2" "q \<noteq> Center" for q b
    using getPaneSize_share [of q "hl h'" "hl h" q b] f(6) [OF that(1,2)] that(3) by simp
  have 3: "c_width (calcNewCenterPaneDims (hl h')) = c_width (calcNewCenterPaneDims (hl h))"
    "c_height (calcNewCenterPaneDims (hl h')) = c_height (calcNewCenterPaneDims (hl h))"
    using 1 2 f(7) assms(1,2) by (cases p1; simp add: calcNewCenterPaneDims_def Let_def)+
  show "e = None" by (rule f(1))
  show "exchanged p1 p2 (hl h) (hl h')"
    unfolding exchanged_def Let_def using 1 2 3 f(4-6) g p(1) by auto
qed

lemma exchanged_bodies:
  assumes "bodies l' = bodies l" "bodies m' = bodies m"
  shows "exchanged p1 p2 l' m' = exchanged p1 p2 l m"
proof -
  have r: "pane_flags (pn l' q) = pane_flags (pn l q)" "pane_flags (pn m' q) = pane_flags (pn m q)"
    "getPaneSize l' q b = getPaneSize l q b" "getPaneSize m' q b = getPaneSize m q b" for q b
    by (rule flags_bodies [OF assms(1)] flags_bodies [OF assms(2)] getPaneSize_body [OF assms(1)] getPaneSize_body [OF assms(2)])+
  have d: "calcNewCenterPaneDims l' = calcNewCenterPaneDims l" "calcNewCenterPaneDims m' = calcNewCenterPaneDims m"
    by (rule dims_shares [OF shares_bodies [OF assms(1)]] dims_shares [OF shares_bodies [OF assms(2)]])+
  show ?thesis unfolding exchanged_def by (simp only: r d bodies_reads(2) [OF assms(1)] bodies_reads(2) [OF assms(2)])
qed

text \<open>C37. Opposite panes change places.  When both sides have a pane and no callback refuses, the swap
  succeeds, and before the panes are fitted again each pane takes the place, the room with its spacing, the options and all
  flags of the other: whether it is there, closed, hidden, visible and sliding.  The other panes
  keep theirs, and the room left for the center is the same.  What the caller then sees is a
  \<open>resizeAll\<close> of that layout, as after any change of the window; where the container is not
  visible, so that \<open>resizeAll\<close> does nothing, it is that layout.\<close>

theorem swap_exchanges:
  assumes "p2 = oppositeEdge p1" "p1 \<noteq> Center" "present (pn (hl h) p1)" "present (pn (hl h) p2)"
    and "cb (hl h) ''onswap_start'' p1 \<noteq> CbFalse" "cb (hl h) ''onswap_start'' p2 \<noteq> CbFalse"
    and "swapPanes n p1 p2 vis c outerH answer h = (e, h')"
  shows "e = None \<and> (\<exists>l. exchanged p1 p2 (hl h) l
      \<and> hl h' = fire ''onswap_end'' p2 (fire ''onswap_end'' p1 (resizeAll n vis c outerH answer l)))
    \<and> (\<not> vis \<longrightarrow> exchanged p1 p2 (hl h) (hl h'))"
proof -
  define l2 where "l2 = snd (runCallbacks ''onswap_start'' p2 (snd (runCallbacks ''onswap_start'' p1 (hl h))))"
  obtain e1 h1 where s: "swap_core n p1 p2 (h\<lparr>hl := l2\<rparr>) = (e1, h1)" by fastforce
  note x = swap_core_exchanges [OF assms(1,2) s]
  have o: "exchanged p1 p2 l2 l = exchanged p1 p2 (hl h) l" for l
    by (rule exchanged_bodies) (simp_all add: l2_def runCallbacks_def bodies_def)
  have h': "e = None" "hl h' = fire ''onswap_end'' p2 (fire ''onswap_end'' p1 (resizeAll n vis c outerH answer (hl h1)))"
    using assms(3-7) x(1) s by (auto simp: swapPanes_def runCallbacks_def l2_def Let_def)
  have e: "exchanged p1 p2 (hl h) (hl h1)" using x(2) o by simp
  moreover have "exchanged p1 p2 (hl h) (hl h')" if "\<not> vis"
    using that e exchanged_bodies [OF refl, of "hl h'" "hl h1"] by (simp add: h' resizeAll_def body_same)
  ultimately show ?thesis using h' by blast
qed

section \<open>The element of a pane that moved\<close>

lemma kept_settle_copy: "kept (settle_copy n sz c p l) = kept l"
  by (simp add: settle_copy_def Let_def kept_initHandles kept_same)

lemma moved_worn:
  assumes "worn p1 b e"
  shows "worn p2 b (moved_el u p1 p2 e\<lparr>el_style := css_on [(''visibility'', Txt ''visible'')] (el_style (moved_el u p1 p2 e))\<rparr>)"
proof -
  let ?K = "insert ''visibility'' (set (css_keys pane_props))"
  have v: "(\<Union>pv \<in> set [(''visibility'', Txt x)]. set (touches pv)) \<subseteq> ?K" for x by (simp add: touches_def shorthands_def)
  have q: "(\<Union>pv \<in> set (cssReq p2). set (touches pv)) \<subseteq> ?K" using cssReq_saved [of p2] by blast
  show ?thesis using assms css_on_within [OF v] css_on_within [OF q] by (simp add: worn_def moved_el_def)
qed

text \<open>A pane that moved is given back all the same.  The element that changed sides, removed from its new
  side, has the inline styles it had before it was a pane, except the visibility.\<close>

theorem swapped_pane_is_restored:
  assumes "swap_core n p1 p2 h = (None, h')" "p1 \<noteq> p2" "hel h p1 = Some e" "worn p1 b e" "plain b" "present (pn (hl h) p1)"
  shows "\<exists>e'. hel (remove_core m False p2 h') p2 = Some e' \<and> plain e' \<and> bare e' = bare b"
proof -
  define c1 c2 h1 where "c1 = copy_pane p1 h" and "c2 = copy_pane p2 h" and "h1 = clear_pane p2 (clear_pane p1 h)"
  define h2 where "h2 = move_pane n (p_size (c_state c2)) c1 p2 h1"
  define h3 where "h3 = move_pane n (p_size (c_state c1)) c2 p1 h2"
  define f where "f = moved_el (hset h1 p2) p1 p2 e\<lparr>el_style := css_on [(''visibility'', Txt ''visible'')] (el_style (moved_el (hset h1 p2) p1 p2 e))\<rparr>"
  have h': "h' = show_el p2 (show_el p1 h3)"
    using assms(1) by (simp add: swap_core_def Let_def c1_def c2_def h1_def h2_def h3_def split: if_splits)
  have "present (pn (hl h2) p2)"
    using assms(6) by (simp add: h2_def move_pane_def Let_def present_kept [OF kept_settle_copy] place_copy_def c1_def copy_pane_def)
  then have "present (pn (hl h3) p2)"
    using assms(2) by (simp add: h3_def move_pane_def Let_def present_kept [OF kept_settle_copy] place_copy_def)
  then have there: "present (pn (hl h') p2)" by (simp add: h' show_el_def)
  have "hel h2 p2 = Some (moved_el (hset h1 p2) p1 p2 e)"
    using assms(3) by (simp add: h2_def move_pane_def Let_def place_copy_def c1_def copy_pane_def)
  then have "hel h' p2 = Some f" using assms(2) by (simp add: h' show_el_def h3_def move_pane_def Let_def place_copy_def f_def)
  moreover have w: "worn p2 b f" unfolding f_def by (rule moved_worn [OF assms(4)])
  ultimately have "hel (remove_core m False p2 h') p2 = Some (undress_pane (hset h' p2) p2 f)"
    using there by (simp add: remove_core_def Let_def)
  then show ?thesis using undress_bare [OF w assms(5)] by blast
qed

section \<open>Swaps that go wrong\<close>

text \<open>Swapping a pane with the center loses both.  The center has no side to name, and the script throws
  when it has taken the two panes out and put neither back.\<close>

theorem swap_with_center_loses_both:
  assumes "present (pn (hl h) p1)" "present (pn (hl h) Center)" "swapPanes n p1 Center vis c o' a h = (e, h')"
    and "cb (hl h) ''onswap_start'' p1 \<noteq> CbFalse" "cb (hl h) ''onswap_start'' Center \<noteq> CbFalse"
  shows "e = Some NoSideName \<and> \<not> present (pn (hl h') p1) \<and> \<not> present (pn (hl h') Center) \<and> hel h' p1 = None \<and> hel h' Center = None"
  using assms by (auto simp: swapPanes_def runCallbacks_def swap_core_def Let_def clear_pane_def clear_state_def split: if_splits)

text \<open>A side without a pane, which the script means to allow, has no element to trigger the event on.\<close>

lemma swap_with_empty_side_throws:
  assumes "present (pn (hl h) p1)" "\<not> present (pn (hl h) p2)"
    and "cb (hl h) ''onswap_start'' p1 \<noteq> CbFalse" "cb (hl h) ''onswap_start'' p2 \<noteq> CbFalse"
  shows "fst (swapPanes n p1 p2 vis c o' a h) = Some NoPane"
  using assms by (simp add: swapPanes_def runCallbacks_def)

lemma ctl_sync: "ctl (pn (setAsOpen p k l) q) = (if q = p then ctl_open (ui (op l p)) p (isSliding (pn l p)) (ctl (pn l p)) else ctl (pn l q))"
  "ctl (pn (setAsClosed p l) q) = (if q = p then syncPinBtns (ui (op l p)) p False (ctl (pn l p)) else ctl (pn l q))"
  unfolding setAsOpen_def setAsClosed_def Let_def by (simp_all add: ctl_same)

lemma pins_down: "list_all (\<lambda>b. pin_attr b = Some d) bs \<Longrightarrow> map (setPinState u p d) bs = bs"
  by (induction bs) (simp_all add: setPinState_def)

lemma sliding_share:
  assumes "share p s = share p t" "\<not> isHidden t"
  shows "isSliding s = isSliding t"
proof -
  have "isHidden s = isHidden t" "(isSliding s \<and> \<not> isHidden s) = (isSliding t \<and> \<not> isHidden t)"
    using assms(1) unfolding share_def prod.inject by blast+
  then show ?thesis using assms(2) by simp
qed

lemma ctl_initHandles_other: "q \<noteq> p \<Longrightarrow> ctl (pn (initHandles [p] l) q) = ctl (pn l q)"
  by (simp add: initHandles_def initHandle_def Let_def ctl_same ctl_sync)

lemma settle_copy_other:
  assumes "q \<noteq> p" "dir_of_pane p = dir_of_pane (c_from c)"
  shows "ctl (pn (settle_copy n sz c p l) q) = ctl (pn l q)"
  using assms by (simp add: settle_copy_def Let_def ctl_sync ctl_same ctl_initHandles_other)

lemma settle_copy_pins:
  assumes "isVisible (c_state c)" "isVisible (pn l p)" "present (pn l p)" "\<not> isSliding (pn l p)" "\<not> isHidden (pn l p)"
    and "dir_of_pane p = dir_of_pane (c_from c)" "list_all (\<lambda>b. pin_attr b = Some True) (pins (ctl (pn l p)))"
  shows "pins (ctl (pn (settle_copy n sz c p l) p)) = pins (ctl (pn l p))"
proof -
  let ?i = "initHandles [p] l"
  define l3 where "l3 = upd p (\<lambda>s. s\<lparr>r_pos := inset (sC ?i) p + (if isVisible s then getPaneSize ?i p False else 0)\<rparr>) ?i"
  have s: "settle_copy n sz c p l = setAsOpen p True l3" using assms(1,6) by (simp add: settle_copy_def Let_def l3_def)
  have f: "isSliding (fresh_handles o' s) = isSliding s" for o' s by (simp add: fresh_handles_def)
  have i: "pins (ctl (pn ?i p)) = map (setPinState (ui (op l p)) p True) (pins (ctl (pn l p)))"
    using assms(2-4) by (simp add: initHandles_def initHandle_def Let_def ctl_same ctl_sync f)
  have "isSliding (pn ?i p) = isSliding (pn l p)"
    by (rule sliding_share [OF shares_reads(1) [OF shares_initHandles] assms(5)])
  then have "\<not> isSliding (pn l3 p)" using assms(4) by (simp add: l3_def)
  then show ?thesis unfolding s using i pins_down [OF assms(7)] by (simp add: ctl_sync l3_def)
qed

text \<open>Pins do not follow.  The pin buttons of an open pane that changes sides keep the classes of the side
  it left, because they are down before and after.\<close>

theorem swap_leaves_pin_classes:
  assumes "p2 = oppositeEdge p1" "p1 \<noteq> Center" "swap_core n p1 p2 h = (e, h')"
    and "present (pn (hl h) p1)" "isVisible (pn (hl h) p1)" "\<not> isSliding (pn (hl h) p1)" "\<not> isHidden (pn (hl h) p1)"
    and "list_all (\<lambda>b. pin_attr b = Some True) (pins (ctl (pn (hl h) p1)))"
  shows "pins (ctl (pn (hl h') p2)) = pins (ctl (pn (hl h) p1))"
proof -
  have p: "p1 \<noteq> p2" "p2 \<noteq> Center" "dir_of_pane p1 = dir_of_pane p2" using assms(1,2) by (cases p1; simp)+
  define c1 c2 h1 where "c1 = copy_pane p1 h" and "c2 = copy_pane p2 h" and "h1 = clear_pane p2 (clear_pane p1 h)"
  define h2 where "h2 = move_pane n (p_size (c_state c2)) c1 p2 h1"
  define h3 where "h3 = move_pane n (p_size (c_state c1)) c2 p1 h2"
  have e: "hl h' = hl h3"
    using assms(2,3) p by (auto simp: swap_core_def Let_def c1_def c2_def h1_def h2_def h3_def show_el_def)
  have "pins (ctl (pn (hl h3) p2)) = pins (ctl (pn (hl h2) p2))"
    using p by (simp add: h3_def move_pane_def Let_def settle_copy_other c2_def copy_pane_def place_copy_def)
  also have "\<dots> = pins (ctl (pn (hl (place_copy c1 p2 h1)) p2))"
  proof -
    have "pins (ctl (pn (settle_copy n z c1 p2 (hl (place_copy c1 p2 h1))) p2)) = pins (ctl (pn (hl (place_copy c1 p2 h1)) p2))" for z
      using assms(4-8) p by (intro settle_copy_pins) (simp_all add: place_copy_def Let_def c1_def copy_pane_def)
    then show ?thesis by (simp add: h2_def move_pane_def Let_def)
  qed
  also have "\<dots> = pins (ctl (pn (hl h) p1))" by (simp add: place_copy_def Let_def c1_def copy_pane_def)
  finally show ?thesis by (simp add: e)
qed

section \<open>The theorems on concrete layouts\<close>

definition demo_home :: home where
  "demo_home = \<lparr>hl = demo, hel = (\<lambda>p. Some (place_pane (sC demo) p 90 True (dress_pane demo_setup p plain_el))),
     hset = (\<lambda>_. demo_setup), hroot = plain_page False\<rparr>"

lemma demo_reads: "hl demo_home = demo" "\<And>p. present (pn demo p) \<and> isVisible (pn demo p) \<and> \<not> isSliding (pn demo p) \<and> \<not> isHidden (pn demo p)"
  "\<And>e p. cb demo e p = NC"
  by (simp_all add: demo_home_def demo_def demo_pane_def)

theorem swap_exchanges_witness:
  "\<exists>h'. swapPanes 3 West East False (sC demo) 600 NC demo_home = (None, h') \<and> getPaneSize (hl h') East True = getPaneSize demo West True
    \<and> isVisible (pn (hl h') West)"
proof -
  obtain e h' where s: "swapPanes 3 West East False (sC demo) 600 NC demo_home = (e, h')" by fastforce
  have "e = None" "exchanged West East demo (hl h')"
    using swap_exchanges [OF _ _ _ _ _ _ s] by (simp_all add: demo_reads)
  then have "getPaneSize (hl h') East True = getPaneSize demo West True" "pane_flags (pn (hl h') West) = pane_flags (pn demo East)"
    unfolding exchanged_def Let_def by (metis pane.distinct)+
  then show ?thesis using s \<open>e = None\<close> by (simp add: pane_flags_def demo_reads)
qed

theorem swapped_pane_is_restored_witness:
  "\<exists>e'. hel (remove_core 3 False East (snd (swap_core 3 West East demo_home))) East = Some e' \<and> plain e' \<and> bare e' = bare plain_el"
proof -
  obtain h' where s: "swap_core 3 West East demo_home = (None, h')" by (simp add: swap_core_def Let_def)
  have "plain plain_el" by (simp add: plain_def plain_el_def)
  then show ?thesis using swapped_pane_is_restored [OF s _ _ dressed_worn [of plain_el West "sC demo" 90 True demo_setup], of 3]
    by (simp add: s demo_reads) (simp add: demo_home_def)
qed

theorem swap_with_center_loses_both_witness:
  "fst (swapPanes 3 West Center True (sC demo) 600 NC demo_home) = Some NoSideName"
proof -
  obtain e h' where s: "swapPanes 3 West Center True (sC demo) 600 NC demo_home = (e, h')" by fastforce
  show ?thesis using swap_with_center_loses_both [OF _ _ s] by (simp add: s demo_reads)
qed

theorem swap_leaves_pin_classes_witness:
  "\<exists>h'. swap_core 3 West East (demo_home\<lparr>hl := demo_pinned\<rparr>) = (None, h') \<and> pins (ctl (pn (hl h') East)) = pins (ctl (pn demo_pinned West))"
proof -
  obtain h' where s: "swap_core 3 West East (demo_home\<lparr>hl := demo_pinned\<rparr>) = (None, h')" by (simp add: swap_core_def Let_def)
  show ?thesis using swap_leaves_pin_classes [OF _ _ s] s by (simp add: demo_simps demo_pin_def)
qed

end
