(* ===== verification/Spec2Isabelle.thy ===== *)
theory Spec2Isabelle
  imports Scheduler LinkedList Cluster IndexUrl IndexPage IndexKeys Diagrams TemplateProps LayoutPlugins LayoutControls LayoutDragProps LayoutContent LayoutLife LayoutSwap
begin

text \<open>
  A verification of reSTM, a software transactional memory served by a distributed store, and of
  the scripts of its documentation site.

  \<^bold>\<open>The parts and how they interact.\<close>  \<open>restm-core\<close> is the store.  A pointer is an actor with a
  history of dated values, a write lock and a queue of uncommitted writes; a transaction is an actor
  with a state and the list of the pointers it locked; \<open>RestmActors\<close> keeps the tables of both and a
  cold store, and \<open>RestmImpl\<close> runs the protocol over them: reads, locks, commits, resets and the
  recovery of locks whose owner has timed out.  \<open>lib\<close> is the site: \<open>index.js\<close> (the list of
  entities, its filters, its keys, the frame and the URL fragment), \<open>scheduler.js\<close> (which runs the
  text filter in slices), \<open>template.js\<close> (the page of one entity), \<open>diagrams.js\<close> (its class diagram)
  and \<open>jquery.layout.js\<close> (the panes around the frame).

  \<^bold>\<open>The theories.\<close>
  \<^item> \<open>Prelude\<close>: the JavaScript string and array operations all of them use.
  \<^item> \<open>TxnTime\<close>: \<open>storage/types/TxnTime.scala\<close>, exact times with carry, and the clock of a process.
  \<^item> \<open>MemActor\<close>, \<open>TxnActor\<close>: \<open>storage/actors\<close>, one operation per message; an actor's messages are
    the steps of a relation, since an actor handles one at a time.
  \<^item> \<open>Restm\<close>: the tables, the freezing of pointers, and \<open>RestmImpl\<close>.  Futures the code starts and does
    not wait for are tasks in a list of the state, run in any order; \<open>RestmInv\<close> is the
    invariant of that state machine and \<open>RestmProps\<close> what follows: no lock is lost, commits are seen
    whole, abandoned locks are recovered, cold storage keeps what it is given.
  \<^item> \<open>StmClient\<close>: the client of the store, \<open>stm/STMTxnCtx.scala\<close> with its caches, \<open>STMPtr.scala\<close> and the
    retry loop of \<open>STMTxn.scala\<close>, over the node of \<open>Restm\<close>; before each call come moves of the others.
    \<open>StmProps\<close>: for any others that keep the contract of the locale \<open>polite\<close>, which the messages of
    other transactions do, an attempt computes what its program computes alone on a snapshot; and
    the retry loop settles every attempt it makes, with a result or an error.
  \<^item> \<open>LinkedList\<close>: the list of \<open>restm-api\<close>, as programs of the client; it is a queue, also in an attempt
    among others.
  \<^item> \<open>Cluster\<close>: \<open>storage/remote\<close>, the interface of a node as a record of operations, with the node of
    \<open>Restm\<close>, the router over shards and the replicator as its implementations: a routed cluster is one
    node, replicas that agree answer as one, and what the replicator hides.
  \<^item> \<open>Scheduler\<close>: \<open>lib/scheduler.js\<close>, with the timer as a flag: the order of work, one timer at a
    time, every package run, and what a package that throws does to the rest.
  \<^item> \<open>IndexUrl\<close>, \<open>IndexPattern\<close>, \<open>IndexPage\<close>, \<open>IndexKeys\<close>: \<open>lib/index.js\<close>.
  \<^item> \<open>Diagrams\<close>: \<open>lib/diagrams.js\<close>; \<open>TemplatePage\<close>, \<open>TemplateProps\<close>: \<open>lib/template.js\<close>.
  \<^item> \<open>LayoutGeom\<close>: the options and the state of a pane of \<open>lib/jquery.layout.js\<close>, and everything that
    computes a size; \<open>LayoutActions\<close>: close, open, show, hide, toggle, slide, resize, the fitting of
    panes and the queue their bodies run in; \<open>LayoutFlags\<close>: the flags of the panes stay consistent,
    proved for any receiver of the jobs an action starts (the locale \<open>job_sink\<close>); \<open>LayoutRoom\<close>: what
    an action touches and how the center takes the room that is left; \<open>LayoutProps\<close>: the properties.
  \<^item> \<open>LayoutControls\<close>: the switches of a pane, buttons, pins, hot keys and overflow, with pins that
    follow their pane.  \<open>LayoutDrag\<close>: dragging a resizer, the masks shown meanwhile, and the timers;
    \<open>LayoutKept\<close>: no action makes or removes a pane or touches the mark of a drag (the locale
    \<open>keep_sink\<close>); \<open>LayoutMarks\<close>: only drags mark a pane as being resized;
    \<open>LayoutTimers\<close>: text selection comes back and the window settles; \<open>LayoutDragProps\<close>: the size a
    drag sets and the panes it covers.
  \<^item> \<open>LayoutOptions\<close>: flat keys to nested options and the options of older versions; \<open>LayoutInit\<close>:
    \<open>initOptions\<close>, the options each pane ends with; \<open>LayoutState\<close>: the state of the panes as data, as
    JSON text, in a cookie and loaded back; \<open>StateProps\<close>: what is saved is what is read.
    \<open>CookieJar\<close>: the cookies a browser keeps, by name, domain and path, as RFC 6265 describes them, and how the
    cookie utility meets them; \<open>LayoutPlugins\<close>: the state kept from one page to the next, where a deletion
    of it does nothing, and the watch of the browser zoom.
  \<^item> \<open>LayoutElems\<close>: the styles, classes and data of the elements of container and panes, saved, set and
    given back; \<open>LayoutBirth\<close>: the creation of a layout, panes added and removed, and its end, on
    elements and state together; \<open>LayoutLife\<close>: what holds from creation to end, and what an exception
    leaves.  \<open>LayoutSwap\<close>: panes that change sides.  \<open>LayoutContent\<close>: the height of the content of a pane.

  \<^bold>\<open>Conventions.\<close>  Operations take and return the state of their component; an exception or a failed
  future is the left side of a sum.  Times, sizes and lengths are unbounded integers where the code
  has doubles that hold integers or longs far from overflow.  The page elements a script reads are
  fields of the state of its component, changed as jQuery would.  What the browser decides (frames
  that load, timers that fire, animations that end, sizes measured) is an argument or a step.

  \<^bold>\<open>Bounds and fuel.\<close>  The queue of a layout (\<open>run_queue\<close>) has fuel for the number of jobs, since a
  callback or a container that changes can feed it for ever; the invariants hold for any fuel.  The
  center of a new layout has fuel for the times it asks the side panes for room, which the script does
  without end when a pane is as small as its frame allows and its option allows less; what is shown
  of it holds for any fuel.  The size correction stops by itself, after four tries recorded and
  five sizes applied (\<open>nudge_fuel\<close>).  The JSON parser has the length of its text as
  fuel, enough since each call of it consumes a character (\<open>need_length\<close>).  The other recursions are structural.

  \<^bold>\<open>Not modelled.\<close>  The blocking calls, thread pools and counters of the client, the other
  collections and the task queues of \<open>restm-api\<close>, and the learning code of \<open>restm-ml\<close>, which is
  floating point statistics.  The switch \<open>failChainedCalls\<close> of \<open>RestmImpl\<close>, which only tests set, is off.  HTTP clients, the demo server, Berkeley DB and DynamoDB are input and
  output.  Of \<open>jquery.layout.js\<close>: the zIndex options, cursors and titles, what
  plug-ins do to nested layouts, offscreen panes and the quirks of old browsers.
  jQuery, jQuery UI, Modernizr and the tooltip library are third-party code.
\<close>

end
